(* ===== verification/APS_Prelude.thy ===== *)
theory APS_Prelude
  imports Main "HOL-Library.Char_ord" "HOL-Library.List_Lexorder" "HOL-Library.Sublist"
begin

text \<open>
  Shared vocabulary of the development: what the sources use of the JavaScript
  standard library (string splitting, joining, prefixes and suffixes, the code-unit
  order on strings, first-match searches over arrays), the result type of code that
  may throw, and the generic lemmas and rule collections that the component theories
  build on.

  Strings are \<open>string\<close>, one \<open>char\<close> per code unit.  The order \<open><\<close> on strings is the
  lexicographic order of code units, which is what the relational operators of
  JavaScript compute on two strings.  Code units above 255 are outside this type; the
  one routine whose outcome turns on them, the I-JSON check, is modelled over lists
  of numeric code units.
\<close>

section \<open>Rule collections\<close>

named_theorems js_string \<open>facts on string operations of the language\<close>
named_theorems wf_intros \<open>introduction rules for well-formedness predicates\<close>
named_theorems facet_defs \<open>definitions of the facet comparisons\<close>

section \<open>Computations that may throw\<close>

text \<open>\<open>Inl e\<close> is a thrown error, \<open>Inr v\<close> a returned value.\<close>

type_synonym ('e, 'a) result = "'e + 'a"

primrec bindE :: "('e, 'a) result \<Rightarrow> ('a \<Rightarrow> ('e, 'b) result) \<Rightarrow> ('e, 'b) result" where
  "bindE (Inl e) f = Inl e"
| "bindE (Inr a) f = f a"

lemma bindE_Inr_iff: "bindE m f = Inr b \<longleftrightarrow> (\<exists>a. m = Inr a \<and> f a = Inr b)"
  by (cases m) auto

lemma bindE_Inl_iff: "bindE m f = Inl e \<longleftrightarrow> m = Inl e \<or> (\<exists>a. m = Inr a \<and> f a = Inl e)"
  by (cases m) auto

text \<open>A loop that throws at the first offending element of an array.\<close>

fun forE :: "('a \<Rightarrow> 'e option) \<Rightarrow> 'a list \<Rightarrow> ('e, unit) result" where
  "forE chk [] = Inr ()"
| "forE chk (x # xs) = (case chk x of Some e \<Rightarrow> Inl e | None \<Rightarrow> forE chk xs)"

lemma forE_ok_iff: "forE chk xs = Inr u \<longleftrightarrow> (\<forall>x \<in> set xs. chk x = None)"
  by (induction xs) (auto split: option.splits)

lemma forE_Inl: "forE chk xs = Inl e \<Longrightarrow> \<exists>x \<in> set xs. chk x = Some e"
  by (induction xs) (auto split: option.splits)

text \<open>A loop that builds a list and stops at the first thrown error.\<close>

fun mapE :: "('a \<Rightarrow> ('e, 'b) result) \<Rightarrow> 'a list \<Rightarrow> ('e, 'b list) result" where
  "mapE f [] = Inr []"
| "mapE f (x # xs) = bindE (f x) (\<lambda>y. bindE (mapE f xs) (\<lambda>ys. Inr (y # ys)))"

lemma mapE_Inr_iff: "mapE f xs = Inr ys \<longleftrightarrow> list_all2 (\<lambda>x y. f x = Inr y) xs ys"
  by (induction xs arbitrary: ys) (auto simp: bindE_Inr_iff list_all2_Cons1)

lemma mapE_source: "mapE f xs = Inr ys \<Longrightarrow> y \<in> set ys \<Longrightarrow> \<exists>x \<in> set xs. f x = Inr y"
  by (induction xs arbitrary: ys) (auto simp: bindE_Inr_iff)

lemma mapE_total: "(\<And>x. x \<in> set xs \<Longrightarrow> \<exists>y. f x = Inr y) \<Longrightarrow> \<exists>ys. mapE f xs = Inr ys"
proof (induction xs)
  case (Cons x xs)
  then have "\<exists>y. f x = Inr y" "\<exists>ys. mapE f xs = Inr ys" by simp_all
  then show ?case by auto
qed simp

lemma list_all2_source: "list_all2 P xs ys \<Longrightarrow> y \<in> set ys \<Longrightarrow> \<exists>x \<in> set xs. P x y"
  by (induction rule: list_all2_induct) auto

lemma case_Inr_iff: "(case r of Inl _ \<Rightarrow> False | Inr y \<Rightarrow> P y) \<longleftrightarrow> (\<exists>y. r = Inr y \<and> P y)"
  by (cases r) auto

lemma case_list_Inr: "(case xs of [] \<Rightarrow> A | f # _ \<Rightarrow> Inl (e f)) = Inr r \<longleftrightarrow> xs = [] \<and> A = Inr r"
  by (cases xs) simp_all

text \<open>
  A loop over an array that returns at the first index whose element fails a test,
  reporting that index.  The chain verifier is a sequence of such loops.
\<close>

fun first_failure :: "(nat \<Rightarrow> 'a \<Rightarrow> 'b option) \<Rightarrow> nat \<Rightarrow> 'a list \<Rightarrow> 'b option" where
  "first_failure chk i [] = None"
| "first_failure chk i (x # xs) =
     (case chk i x of Some b \<Rightarrow> Some b | None \<Rightarrow> first_failure chk (Suc i) xs)"

lemma first_failure_None_iff:
  "first_failure chk i xs = None \<longleftrightarrow> (\<forall>k < length xs. chk (i + k) (xs ! k) = None)"
proof (induction xs arbitrary: i)
  case Nil
  then show ?case by simp
next
  case (Cons x xs)
  have "(\<forall>k < length (x # xs). chk (i + k) ((x # xs) ! k) = None)
      \<longleftrightarrow> chk i x = None \<and> (\<forall>k < length xs. chk (Suc i + k) (xs ! k) = None)"
    by (auto simp: less_Suc_eq_0_disj)
  with Cons show ?case by (auto split: option.splits)
qed

lemma first_failure_Some:
  "first_failure chk i xs = Some b \<Longrightarrow>
   \<exists>k < length xs. chk (i + k) (xs ! k) = Some b \<and> (\<forall>m < k. chk (i + m) (xs ! m) = None)"
proof (induction xs arbitrary: i)
  case Nil
  then show ?case by simp
next
  case (Cons x xs)
  show ?case
  proof (cases "chk i x")
    case (Some c)
    with Cons.prems show ?thesis by (intro exI [of _ 0]) auto
  next
    case None
    with Cons.prems have "first_failure chk (Suc i) xs = Some b" by simp
    from Cons.IH [OF this] obtain k where
      k: "k < length xs" "chk (Suc i + k) (xs ! k) = Some b"
         "\<forall>m < k. chk (Suc i + m) (xs ! m) = None" by blast
    have "\<forall>m < Suc k. chk (i + m) ((x # xs) ! m) = None"
      using None k(3) by (auto simp: less_Suc_eq_0_disj)
    with k show ?thesis by (intro exI [of _ "Suc k"]) auto
  qed
qed

text \<open>The first present value of a list of optional ones.\<close>

fun first_some :: "'a option list \<Rightarrow> 'a option" where
  "first_some [] = None"
| "first_some (None # xs) = first_some xs"
| "first_some (Some x # xs) = Some x"

lemma first_some_None_iff: "first_some xs = None \<longleftrightarrow> (\<forall>x \<in> set xs. x = None)"
  by (induction xs rule: first_some.induct) auto

lemma first_some_SomeD: "first_some xs = Some x \<Longrightarrow> Some x \<in> set xs"
  by (induction xs rule: first_some.induct) auto

text \<open>The same shape over adjacent pairs \<open>(chain[i - 1], chain[i])\<close>, from index 1.\<close>

definition pairs_of :: "'a list \<Rightarrow> ('a \<times> 'a) list" where
  "pairs_of xs = zip xs (tl xs)"

lemma length_pairs_of [simp]: "length (pairs_of xs) = length xs - 1"
  by (simp add: pairs_of_def)

lemma nth_pairs_of [simp]: "Suc k < length xs \<Longrightarrow> pairs_of xs ! k = (xs ! k, xs ! Suc k)"
  by (simp add: pairs_of_def nth_tl)

lemma first_failure_pairs_None:
  "first_failure chk (Suc 0) (pairs_of xs) = None \<longleftrightarrow>
   (\<forall>k. Suc k < length xs \<longrightarrow> chk (Suc k) (xs ! k, xs ! Suc k) = None)"
  by (auto simp: first_failure_None_iff less_diff_conv)

text \<open>The loop that adds every identifier to a set and reports the first one already there.\<close>

fun first_repeat :: "'a list \<Rightarrow> nat \<Rightarrow> 'a list \<Rightarrow> nat option" where
  "first_repeat seen i [] = None"
| "first_repeat seen i (x # xs) =
     (if x \<in> set seen then Some i else first_repeat (x # seen) (Suc i) xs)"

lemma first_repeat_None_iff:
  "first_repeat seen i xs = None \<longleftrightarrow> distinct xs \<and> set xs \<inter> set seen = {}"
  by (induction xs arbitrary: seen i) auto

section \<open>String operations of the language\<close>

text \<open>\<open>s.split(c)\<close> for a one-character separator: never empty.\<close>

fun split_on :: "char \<Rightarrow> string \<Rightarrow> string list" where
  "split_on c [] = [[]]"
| "split_on c (x # xs) =
     (if x = c then [] # split_on c xs
      else (x # hd (split_on c xs)) # tl (split_on c xs))"

text \<open>\<open>parts.join(c)\<close>.\<close>

fun join_with :: "char \<Rightarrow> string list \<Rightarrow> string" where
  "join_with c [] = []"
| "join_with c [p] = p"
| "join_with c (p # q # ps) = p @ c # join_with c (q # ps)"

definition startsWith :: "string \<Rightarrow> string \<Rightarrow> bool" where
  "startsWith s p \<longleftrightarrow> take (length p) s = p"

definition endsWith :: "string \<Rightarrow> string \<Rightarrow> bool" where
  "endsWith s p \<longleftrightarrow> length p \<le> length s \<and> drop (length s - length p) s = p"

text \<open>\<open>s.slice(0, -2)\<close>.\<close>

definition drop_last2 :: "string \<Rightarrow> string" where
  "drop_last2 s = take (length s - 2) s"

lemma startsWith_iff [js_string]: "startsWith s p \<longleftrightarrow> (\<exists>t. s = p @ t)"
  unfolding startsWith_def by (metis append_eq_conv_conj append_take_drop_id)

lemma endsWith_iff [js_string]: "endsWith s p \<longleftrightarrow> (\<exists>t. s = t @ p)"
  unfolding endsWith_def
  by (auto intro: exI [of _ "take (length s - length p) s"] dest: sym)
     (metis append_take_drop_id)

lemma drop_last2_append [simp]: "length q = 2 \<Longrightarrow> drop_last2 (p @ q) = p"
  by (simp add: drop_last2_def)

lemma split_on_not_Nil [simp]: "split_on c s \<noteq> []"
  by (cases s) auto

lemma split_on_Cons_eq: "split_on c s = hd (split_on c s) # tl (split_on c s)"
  by simp

lemma join_with_Cons [js_string]:
  "ps \<noteq> [] \<Longrightarrow> join_with c (p # ps) = p @ c # join_with c ps"
  by (cases ps) auto

lemma join_with_head: "join_with c ((x # p) # ps) = x # join_with c (p # ps)"
  by (cases ps) auto

lemma join_split [simp, js_string]: "join_with c (split_on c s) = s"
proof (induction s)
  case Nil
  then show ?case by simp
next
  case (Cons x s)
  show ?case
  proof (cases "x = c")
    case True
    with Cons show ?thesis by (simp add: join_with_Cons)
  next
    case False
    then show ?thesis using Cons split_on_Cons_eq [of c s] by (simp add: join_with_head)
  qed
qed

lemma split_append_sep [js_string]: "split_on c (a @ c # b) = split_on c a @ split_on c b"
  by (induction a) auto

lemma split_no_sep [js_string]: "c \<notin> set s \<Longrightarrow> split_on c s = [s]"
  by (induction s) auto

lemma split_parts_no_sep: "p \<in> set (split_on c s) \<Longrightarrow> c \<notin> set p"
proof (induction s arbitrary: p)
  case Nil
  then show ?case by simp
next
  case (Cons x s)
  have "hd (split_on c s) \<in> set (split_on c s)" by simp
  moreover have "\<And>q. q \<in> set (tl (split_on c s)) \<Longrightarrow> q \<in> set (split_on c s)"
    by (simp add: list.set_sel(2))
  ultimately show ?case using Cons by (auto split: if_splits)
qed

lemma split_join [js_string]:
  "ps \<noteq> [] \<Longrightarrow> \<forall>p \<in> set ps. c \<notin> set p \<Longrightarrow> split_on c (join_with c ps) = ps"
  by (induction c ps rule: join_with.induct) (auto simp: split_no_sep split_append_sep)

lemma join_append:
  "ps \<noteq> [] \<Longrightarrow> qs \<noteq> [] \<Longrightarrow> join_with c (ps @ qs) = join_with c ps @ c # join_with c qs"
  by (induction c ps rule: join_with.induct) (auto simp: join_with_Cons)

lemma split_on_length_le: "length (split_on c s) \<le> Suc (length s)"
  by (induction s) auto

text \<open>
  The whole-segment prefixes of a string are exactly the joins of a non-zero number of
  its leading segments.
\<close>

lemma segment_prefix_iff:
  "(\<exists>m \<in> {1..length (split_on c s)}. join_with c (take m (split_on c s)) = q)
   \<longleftrightarrow> s = q \<or> (\<exists>t. s = q @ c # t)"
proof
  assume "\<exists>m \<in> {1..length (split_on c s)}. join_with c (take m (split_on c s)) = q"
  then obtain m where m: "1 \<le> m" "m \<le> length (split_on c s)"
    and q: "join_with c (take m (split_on c s)) = q" by auto
  show "s = q \<or> (\<exists>t. s = q @ c # t)"
  proof (cases "m = length (split_on c s)")
    case True
    with q show ?thesis by simp
  next
    case False
    with m have "take m (split_on c s) \<noteq> []" "drop m (split_on c s) \<noteq> []" by auto
    from join_append [OF this, of c] q
    have "s = q @ c # join_with c (drop m (split_on c s))" by simp
    then show ?thesis by blast
  qed
next
  assume *: "s = q \<or> (\<exists>t. s = q @ c # t)"
  let ?m = "length (split_on c q)"
  have "take ?m (split_on c s) = split_on c q" "?m \<le> length (split_on c s)"
    using * by (auto simp: split_append_sep)
  moreover have "1 \<le> ?m" by (simp add: Suc_leI)
  ultimately show "\<exists>m \<in> {1..length (split_on c s)}. join_with c (take m (split_on c s)) = q"
    by (intro bexI [of _ ?m]) auto
qed

section \<open>Decimal digits and regular shapes\<close>

definition isDigit :: "char \<Rightarrow> bool" where
  "isDigit c \<longleftrightarrow> 48 \<le> (of_char c :: nat) \<and> (of_char c :: nat) \<le> 57"

definition digit_val :: "char \<Rightarrow> int" where
  "digit_val c = int (of_char c) - 48"

text \<open>\<open>Number(s)\<close> and \<open>BigInt(s)\<close> on a string of decimal digits.\<close>

definition num_of :: "string \<Rightarrow> int" where
  "num_of s = foldl (\<lambda>a c. 10 * a + digit_val c) 0 s"

definition isLowerHex :: "char \<Rightarrow> bool" where
  "isLowerHex c \<longleftrightarrow> isDigit c \<or> 97 \<le> (of_char c :: nat) \<and> (of_char c :: nat) \<le> 102"

definition isHex :: "char \<Rightarrow> bool" where
  "isHex c \<longleftrightarrow> isLowerHex c \<or> 65 \<le> (of_char c :: nat) \<and> (of_char c :: nat) \<le> 70"

text \<open>\<open>/^[0-9a-f]{n}$/\<close>.\<close>

definition lower_hex :: "nat \<Rightarrow> string \<Rightarrow> bool" where
  "lower_hex n s \<longleftrightarrow> length s = n \<and> list_all isLowerHex s"

lemma digit_val_bounds: "isDigit c \<Longrightarrow> 0 \<le> digit_val c \<and> digit_val c \<le> 9"
  by (simp add: isDigit_def digit_val_def)

lemma digit_val_less: "isDigit c \<Longrightarrow> isDigit d \<Longrightarrow> digit_val c < digit_val d \<longleftrightarrow> c < d"
  by (simp add: digit_val_def less_char_def)

lemma digit_val_inj: "digit_val c = digit_val d \<longleftrightarrow> c = d"
  by (simp add: digit_val_def)

lemma num_of_Nil [simp]: "num_of [] = 0"
  by (simp add: num_of_def)

lemma num_of_snoc [simp]: "num_of (s @ [c]) = 10 * num_of s + digit_val c"
  by (simp add: num_of_def)

lemma num_of_foldl: "foldl (\<lambda>a c. 10 * a + digit_val c) a s = a * 10 ^ length s + num_of s"
  unfolding num_of_def
proof (induction s arbitrary: a)
  case Nil
  then show ?case by simp
next
  case (Cons x s)
  from Cons [of "10 * a + digit_val x"] Cons [of "digit_val x"]
  show ?case by (simp add: algebra_simps)
qed

lemma num_of_Cons: "num_of (c # s) = digit_val c * 10 ^ length s + num_of s"
  using num_of_foldl [of "digit_val c" s] by (simp add: num_of_def)

lemma num_of_bounds: "list_all isDigit s \<Longrightarrow> 0 \<le> num_of s \<and> num_of s < 10 ^ length s"
proof (induction s)
  case Nil
  then show ?case by simp
next
  case (Cons c s)
  then have d: "0 \<le> digit_val c" "digit_val c \<le> 9" and s: "0 \<le> num_of s" "num_of s < 10 ^ length s"
    by (auto simp: digit_val_bounds)
  have "digit_val c * 10 ^ length s \<le> 9 * 10 ^ length s" using d(2) by (simp add: mult_right_mono)
  moreover have "0 \<le> digit_val c * 10 ^ length s" using d(1) by simp
  ultimately show ?case using s unfolding num_of_Cons length_Cons power_Suc by linarith
qed

text \<open>Digit strings of one length are ordered as the numbers they denote.\<close>

lemma num_of_less_iff:
  assumes "length s = length t" "list_all isDigit s" "list_all isDigit t"
  shows "num_of s < num_of t \<longleftrightarrow> s < t"
  using assms
proof (induction s t rule: list_induct2)
  case Nil
  then show ?case by simp
next
  case (Cons c s d t)
  then have b: "0 \<le> num_of s" "num_of s < 10 ^ length s" "0 \<le> num_of t" "num_of t < 10 ^ length s"
    using num_of_bounds [of s] num_of_bounds [of t] by auto
  have digits: "isDigit c" "isDigit d" using Cons.prems by auto
  consider "c < d" | "c = d" | "d < c" by fastforce
  then show ?case
  proof cases
    case 1
    then have "digit_val c + 1 \<le> digit_val d" using digits digit_val_less by force
    then have "(digit_val c + 1) * 10 ^ length s \<le> digit_val d * 10 ^ length s"
      by (intro mult_right_mono) auto
    with 1 b Cons.hyps show ?thesis by (simp add: num_of_Cons algebra_simps)
  next
    case 2
    with Cons show ?thesis by (simp add: num_of_Cons)
  next
    case 3
    then have "digit_val d + 1 \<le> digit_val c" using digits digit_val_less by force
    then have "(digit_val d + 1) * 10 ^ length s \<le> digit_val c * 10 ^ length s"
      by (intro mult_right_mono) auto
    with 3 b Cons.hyps show ?thesis by (auto simp: num_of_Cons algebra_simps)
  qed
qed

lemma num_of_inj:
  assumes "length s = length t" "list_all isDigit s" "list_all isDigit t" "num_of s = num_of t"
  shows "s = t"
  using num_of_less_iff [of s t] num_of_less_iff [of t s] assms by (metis less_irrefl linorder_cases)

lemma lex_append_iff:
  fixes u :: "'a::linorder list"
  assumes "length u = length u'"
  shows "u @ v < u' @ v' \<longleftrightarrow> u < u' \<or> u = u' \<and> v < v'"
  using assms by (induction u u' rule: list_induct2) auto

section \<open>Strictly ordered lists\<close>

text \<open>The loops \<open>if (i > 0 && xs[i - 1] >= xs[i]) return false\<close>.\<close>

fun strictly_ascending :: "'a::linorder list \<Rightarrow> bool" where
  "strictly_ascending [] = True"
| "strictly_ascending [x] = True"
| "strictly_ascending (x # y # ys) = (x < y \<and> strictly_ascending (y # ys))"

lemma strictly_ascending_iff: "strictly_ascending xs \<longleftrightarrow> sorted_wrt (<) xs"
proof (induction xs rule: strictly_ascending.induct)
  case (3 x y ys)
  then show ?case by (auto intro: less_trans)
qed auto

lemma strictly_ascending_distinct: "strictly_ascending xs \<Longrightarrow> distinct xs"
  by (simp add: strictly_ascending_iff strict_sorted_iff)

end
