(* ===== verification/Canonical_JCS.thy ===== *)
theory Canonical_JCS
  imports APS_Prelude Complex_Main
begin

text \<open>
  Plain JSON data and its RFC 8785 canonical form, from
  \<^verbatim>\<open>src/core/canonical-jcs.ts\<close> and the unsafe-integer rule of
  \<^verbatim>\<open>src/core/write-policy.ts\<close>.  Every signed or content-addressed record of the
  system is hashed over these bytes.

  A finite number of the language is a rational.  The decimal form of an integer below
  \<open>10^21\<close> is computed here; for every other number the form is that of the standard
  library and is the parameter \<open>fmt\<close>.  \<open>JMark\<close> is the module-private marker that the
  snapshot of \<^verbatim>\<open>plain-data.ts\<close> puts in place of anything that is not JSON.
\<close>

section \<open>JSON values\<close>

datatype json =
    JNull
  | JBool bool
  | JNum rat
  | JStr string
  | JArr "json list"
  | JObj "(string \<times> json) list"
  | JMark

definition isInteger :: "rat \<Rightarrow> bool" where
  "isInteger r \<longleftrightarrow> of_int \<lfloor>r\<rfloor> = r"

lemma isInteger_of_int [simp]: "isInteger (of_int i)"
  by (simp add: isInteger_def)

lemma isInteger_iff: "isInteger r \<longleftrightarrow> (\<exists>i. r = of_int i)"
  by (metis isInteger_def of_int_floor_cancel)

text \<open>No marker anywhere inside: the value is JSON.\<close>

fun plain :: "json \<Rightarrow> bool" where
  "plain JMark = False"
| "plain (JArr xs) = list_all plain xs"
| "plain (JObj kvs) = list_all (\<lambda>kv. plain (snd kv)) kvs"
| "plain _ = True"

section \<open>Serialisation\<close>

definition hex_digit :: "nat \<Rightarrow> char" where
  "hex_digit n = (if n < 10 then char_of (48 + n) else char_of (87 + n))"

text \<open>\<open>JSON.stringify\<close> on one code unit of a string.\<close>

definition escape_char :: "char \<Rightarrow> string" where
  "escape_char c =
     (let n = of_char c :: nat in
      if n = 34 then [CHR 0x5C, CHR 0x22]
      else if n = 92 then [CHR 0x5C, CHR 0x5C]
      else if n = 8 then [CHR 0x5C, CHR ''b'']
      else if n = 9 then [CHR 0x5C, CHR ''t'']
      else if n = 10 then [CHR 0x5C, CHR ''n'']
      else if n = 12 then [CHR 0x5C, CHR ''f'']
      else if n = 13 then [CHR 0x5C, CHR ''r'']
      else if n < 32 then [CHR 0x5C, CHR ''u'', CHR ''0'', CHR ''0'', hex_digit (n div 16), hex_digit (n mod 16)]
      else [c])"

definition stringify_string :: "string \<Rightarrow> string" where
  "stringify_string s = CHR 0x22 # concat (map escape_char s) @ [CHR 0x22]"

text \<open>Decimal digits of a natural number, most significant first.\<close>

fun decimal :: "nat \<Rightarrow> string" where
  "decimal n = (if n < 10 then [char_of (48 + n)] else decimal (n div 10) @ [char_of (48 + n mod 10)])"

declare decimal.simps [simp del]

definition stringify_number :: "(rat \<Rightarrow> string) \<Rightarrow> rat \<Rightarrow> string" where
  "stringify_number fmt r =
     (if isInteger r \<and> \<bar>r\<bar> < 10 ^ 21
      then (if r < 0 then CHR ''-'' # decimal (nat \<lfloor>- r\<rfloor>) else decimal (nat \<lfloor>r\<rfloor>))
      else fmt r)"

text \<open>
  The recursive emitter.  Members are emitted first and sorted by key afterwards, which is
  the source's loop over sorted keys because the keys of an object are distinct.
\<close>

fun canonicalizeValue :: "(rat \<Rightarrow> string) \<Rightarrow> json \<Rightarrow> string" where
  "canonicalizeValue fmt JNull = ''null''"
| "canonicalizeValue fmt (JBool b) = (if b then ''true'' else ''false'')"
| "canonicalizeValue fmt (JNum r) = stringify_number fmt r"
| "canonicalizeValue fmt (JStr s) = stringify_string s"
| "canonicalizeValue fmt (JArr xs) =
     CHR ''['' # join_with CHR '','' (map (canonicalizeValue fmt) xs) @ '']''"
| "canonicalizeValue fmt (JObj kvs) =
     CHR ''{'' # join_with CHR '',''
       (map (\<lambda>(k, v). stringify_string k @ CHR '':'' # v)
         (sort_key fst (map (\<lambda>(k, v). (k, canonicalizeValue fmt v)) kvs))) @ ''}''"
| "canonicalizeValue fmt JMark = []"

datatype jcs_error = Unsupported_type | UnsafeIntegerError

text \<open>The walk reaches the \<open>default\<close> branch and throws exactly when a marker is inside.\<close>

definition canonicalizeJCS :: "(rat \<Rightarrow> string) \<Rightarrow> json \<Rightarrow> (jcs_error, string) result" where
  "canonicalizeJCS fmt j =
     (if plain j then Inr (canonicalizeValue fmt j) else Inl Unsupported_type)"

definition isUnsafeWriteInteger :: "rat \<Rightarrow> bool" where
  "isUnsafeWriteInteger r \<longleftrightarrow> isInteger r \<and> \<bar>r\<bar> > 9007199254740991"

text \<open>The first fault the emitting walk meets, members of an object in key order.\<close>

fun write_fault :: "json \<Rightarrow> jcs_error option" where
  "write_fault JMark = Some Unsupported_type"
| "write_fault (JNum r) = (if isUnsafeWriteInteger r then Some UnsafeIntegerError else None)"
| "write_fault (JArr xs) = first_some (map write_fault xs)"
| "write_fault (JObj kvs) =
     first_some (map snd (sort_key fst (map (\<lambda>(k, v). (k, write_fault v)) kvs)))"
| "write_fault _ = None"

definition canonicalizeJCSForWrite :: "(rat \<Rightarrow> string) \<Rightarrow> json \<Rightarrow> (jcs_error, string) result" where
  "canonicalizeJCSForWrite fmt j =
     (case write_fault j of Some e \<Rightarrow> Inl e | None \<Rightarrow> Inr (canonicalizeValue fmt j))"

section \<open>Reading and writing agree\<close>

lemma write_fault_None_plain: "write_fault j = None \<Longrightarrow> plain j"
proof (induction j rule: plain.induct)
  case (2 xs)
  then show ?case by (auto simp: first_some_None_iff list_all_iff)
next
  case (3 kvs)
  then show ?case by (fastforce simp: first_some_None_iff list_all_iff)
qed auto

lemma ForWrite_same_bytes:
  "canonicalizeJCSForWrite fmt j = Inr s \<Longrightarrow> canonicalizeJCS fmt j = Inr s"
  by (auto simp: canonicalizeJCSForWrite_def canonicalizeJCS_def write_fault_None_plain
      split: option.splits)

end
