(* ===== verification/Authority_Types.thy ===== *)
theory Authority_Types
  imports Canonical_JCS
begin

text \<open>
  \<^verbatim>\<open>src/v2/authority-delegation/types.ts\<close>: the seven-facet authority vector, the
  delegation record, failure codes and results; the JSON form of a record and the
  reading of plain data as a typed record, which is what the source's
  \<open>as AuthorityDelegationV1\<close> relies on after the shape check.

  A string-literal type whose members are checked at run time stays a \<open>string\<close>; a closed
  set that only the code itself produces is a \<open>datatype\<close>.
\<close>

section \<open>Facets and records\<close>

definition AUTHORITY_DELEGATION_RECORD_TYPE :: string where
  "AUTHORITY_DELEGATION_RECORD_TYPE = ''aps:authority-delegation:v1''"

definition AUTHORITY_DELEGATION_VERSION :: string where
  "AUTHORITY_DELEGATION_VERSION = ''1.0''"

definition SCOPE_PROFILE_V1 :: string where "SCOPE_PROFILE_V1 = ''aps-hierarchical-v1''"
definition REPUTATION_PROFILE_V1 :: string where "REPUTATION_PROFILE_V1 = ''aps-score-0-100-v1''"
definition VALUES_PROFILE_V1 :: string where "VALUES_PROFILE_V1 = ''aps-values-identifiers-v1''"
definition REVERSIBILITY_PROFILE_V1 :: string where "REVERSIBILITY_PROFILE_V1 = ''aps-tci-v1''"

lemmas profile_defs = SCOPE_PROFILE_V1_def REPUTATION_PROFILE_V1_def VALUES_PROFILE_V1_def
  REVERSIBILITY_PROFILE_V1_def AUTHORITY_DELEGATION_RECORD_TYPE_def AUTHORITY_DELEGATION_VERSION_def

record ScopeFacetV1 =
  scope_profile :: string
  grants :: "string list"

datatype SpendFacetV1 =
    Unbounded
  | Bounded (spend_unit: string) (per_action: string) (cumulative: string)

record DepthFacetV1 =
  remaining :: int

record TimeFacetV1 =
  not_before :: string
  not_after :: string

record ReputationFacetV1 =
  reputation_profile :: string
  reputation_ceiling :: int

record ValuesFacetV1 =
  values_profile :: string
  required :: "string list"

record ReversibilityFacetV1 =
  reversibility_profile :: string
  reversibility_ceiling :: string

record AuthorityVectorV1 =
  scope :: ScopeFacetV1
  spend :: SpendFacetV1
  depth :: DepthFacetV1
  time :: TimeFacetV1
  reputation :: ReputationFacetV1
  values_facet :: ValuesFacetV1
  reversibility :: ReversibilityFacetV1

record AuthorityDelegationBodyV1 =
  record_type :: string
  version :: string
  parent_delegation_id :: "string option"
  issuer :: string
  subject :: string
  verification_method :: string
  issued_at :: string
  nonce :: string
  authority :: AuthorityVectorV1

record AuthorityDelegationV1 = AuthorityDelegationBodyV1 +
  delegation_id :: string
  signature :: string

section \<open>Failures and results\<close>

datatype AuthorityFailureCode =
    SCHEMA_INVALID | UNSUPPORTED_VERSION | UNSUPPORTED_RECORD_TYPE | UNSUPPORTED_PROFILE
  | RESOURCE_LIMIT | NONCANONICAL_VALUE | ID_MISMATCH | KEY_RESOLUTION_FAILED
  | KEY_SCHEME_UNSUPPORTED | KEY_NOT_FOUND | KEY_AMBIGUOUS | KEY_UNREACHABLE
  | KEY_MATERIAL_MALFORMED | SIGNATURE_INVALID | ROOT_UNTRUSTED | CHAIN_DUPLICATE_ID
  | PARENT_MISMATCH | CHAIN_CONTINUITY | ISSUED_AT_OUTSIDE_PARENT | SCOPE_WIDENING
  | SPEND_WIDENING | SPEND_UNIT_CHANGE | DEPTH_EXHAUSTED | DEPTH_WIDENING | TIME_WIDENING
  | REPUTATION_WIDENING | VALUES_WEAKENING | REVERSIBILITY_WIDENING | NOT_YET_VALID
  | EXPIRED | REVOKED | REVOCATION_UNKNOWN

datatype FacetName =
  Facet_scope | Facet_spend | Facet_depth | Facet_time | Facet_reputation | Facet_values | Facet_reversibility

record AuthorityFailure =
  failure_code :: AuthorityFailureCode
  message :: string
  failure_index :: "nat option"
  facet :: "FacetName option"

datatype AuthorityValidationState = State_valid | State_invalid | State_indeterminate | State_unsupported

record AuthorityValidationResult =
  state :: AuthorityValidationState
  valid :: bool
  failures :: "AuthorityFailure list"

text \<open>
  What a key resolver may hand back: a key, nothing at all (\<open>null\<close>, or a thrown error,
  which the callers turn into \<open>null\<close>), or an outcome object whose \<open>outcome\<close> is any string.
\<close>

datatype KeyResolution = Key string | NoKey | KeyResolutionFailure (outcome: string)

datatype RevocationResolution = Status_active | Status_revoked | Status_unknown

text \<open>
  The caller's options.  A key resolver that throws answers \<open>NoKey\<close> and a revocation
  resolver that throws, or answers anything else, \<open>Status_unknown\<close>, which is what the code
  turns these cases into.  Root trust may be no function at all, may throw, and may answer
  something that is not a boolean.
\<close>

datatype TrustAnswer = TrustDecision bool | TrustThrew | TrustNotBoolean

record AuthorityChainVerificationOptions =
  now :: string
  resolveVerificationKey :: "string \<Rightarrow> string \<Rightarrow> string \<Rightarrow> KeyResolution"
  trustRoot :: "(AuthorityDelegationV1 \<Rightarrow> TrustAnswer) option"
  resolveRevocation :: "AuthorityDelegationV1 \<Rightarrow> RevocationResolution"

section \<open>JSON form of a record\<close>

definition json_of_spend :: "SpendFacetV1 \<Rightarrow> json" where
  "json_of_spend s = (case s of
      Unbounded \<Rightarrow> JObj [(''mode'', JStr ''unbounded'')]
    | Bounded u p c \<Rightarrow> JObj [(''mode'', JStr ''bounded''), (''unit'', JStr u),
        (''per_action'', JStr p), (''cumulative'', JStr c)])"

definition json_of_authority :: "AuthorityVectorV1 \<Rightarrow> json" where
  "json_of_authority a = JObj [
     (''scope'', JObj [(''profile'', JStr (scope_profile (scope a))),
        (''grants'', JArr (map JStr (grants (scope a))))]),
     (''spend'', json_of_spend (spend a)),
     (''depth'', JObj [(''remaining'', JNum (of_int (remaining (depth a))))]),
     (''time'', JObj [(''not_before'', JStr (not_before (time a))), (''not_after'', JStr (not_after (time a)))]),
     (''reputation'', JObj [(''profile'', JStr (reputation_profile (reputation a))),
        (''ceiling'', JNum (of_int (reputation_ceiling (reputation a))))]),
     (''values'', JObj [(''profile'', JStr (values_profile (values_facet a))),
        (''required'', JArr (map JStr (required (values_facet a))))]),
     (''reversibility'', JObj [(''profile'', JStr (reversibility_profile (reversibility a))),
        (''ceiling'', JStr (reversibility_ceiling (reversibility a)))])]"

definition body_members :: "'a AuthorityDelegationBodyV1_scheme \<Rightarrow> (string \<times> json) list" where
  "body_members b = [
     (''record_type'', JStr (record_type b)), (''version'', JStr (version b)),
     (''parent_delegation_id'', (case parent_delegation_id b of None \<Rightarrow> JNull | Some p \<Rightarrow> JStr p)),
     (''issuer'', JStr (issuer b)), (''subject'', JStr (subject b)),
     (''verification_method'', JStr (verification_method b)),
     (''issued_at'', JStr (issued_at b)), (''nonce'', JStr (nonce b)),
     (''authority'', json_of_authority (authority b))]"

definition json_of_body :: "'a AuthorityDelegationBodyV1_scheme \<Rightarrow> json" where
  "json_of_body b = JObj (body_members b)"

definition json_of_unsigned :: "AuthorityDelegationV1 \<Rightarrow> json" where
  "json_of_unsigned d = JObj (body_members d @ [(''delegation_id'', JStr (delegation_id d))])"

definition json_of_delegation :: "AuthorityDelegationV1 \<Rightarrow> json" where
  "json_of_delegation d =
     JObj (body_members d @ [(''delegation_id'', JStr (delegation_id d)), (''signature'', JStr (signature d))])"

section \<open>Reading plain data as a record\<close>

type_synonym members = "(string \<times> json) list"

fun as_obj :: "json \<Rightarrow> members option" where
  "as_obj (JObj kvs) = Some kvs"
| "as_obj _ = None"

fun as_str :: "json \<Rightarrow> string option" where
  "as_str (JStr s) = Some s"
| "as_str _ = None"

fun as_num :: "json \<Rightarrow> rat option" where
  "as_num (JNum r) = Some r"
| "as_num _ = None"

fun as_arr :: "json \<Rightarrow> json list option" where
  "as_arr (JArr xs) = Some xs"
| "as_arr _ = None"

definition get :: "members \<Rightarrow> string \<Rightarrow> json option" where
  "get kvs k = map_of kvs k"

text \<open>The members a property access on an object reads; an array has none of the named ones.\<close>

definition own_members :: "json \<Rightarrow> members option" where
  "own_members j = (case j of JObj m \<Rightarrow> Some m | JArr _ \<Rightarrow> Some [] | _ \<Rightarrow> None)"

definition get_obj :: "members \<Rightarrow> string \<Rightarrow> members option" where
  "get_obj kvs k = Option.bind (get kvs k) as_obj"

definition get_str :: "members \<Rightarrow> string \<Rightarrow> string option" where
  "get_str kvs k = Option.bind (get kvs k) as_str"

definition str_at :: "members \<Rightarrow> string \<Rightarrow> string" where
  "str_at m k = (case get_str m k of Some s \<Rightarrow> s | None \<Rightarrow> [])"

definition isNonEmptyString :: "json option \<Rightarrow> bool" where
  "isNonEmptyString v = (case v of Some (JStr s) \<Rightarrow> s \<noteq> [] | _ \<Rightarrow> False)"

definition get_num :: "members \<Rightarrow> string \<Rightarrow> rat option" where
  "get_num kvs k = Option.bind (get kvs k) as_num"

definition get_arr :: "members \<Rightarrow> string \<Rightarrow> json list option" where
  "get_arr kvs k = Option.bind (get kvs k) as_arr"

lemmas get_defs = get_def get_obj_def get_str_def get_num_def get_arr_def

definition get_strs :: "members \<Rightarrow> string \<Rightarrow> string list option" where
  "get_strs kvs k = (case get_arr kvs k of None \<Rightarrow> None
     | Some xs \<Rightarrow> if list_all (\<lambda>x. as_str x \<noteq> None) xs then Some (map (the \<circ> as_str) xs) else None)"

text \<open>The typed view of shape-checked data: the cast of the source, member by member.\<close>

definition spend_of :: "members \<Rightarrow> SpendFacetV1 option" where
  "spend_of m =
     (if get_str m ''mode'' = Some ''unbounded'' then Some Unbounded
      else case (get_str m ''unit'', get_str m ''per_action'', get_str m ''cumulative'') of
        (Some u, Some p, Some c) \<Rightarrow> Some (Bounded u p c)
      | _ \<Rightarrow> None)"

definition authority_of :: "members \<Rightarrow> AuthorityVectorV1 option" where
  "authority_of m =
     Option.bind (get_obj m ''scope'') (\<lambda>sc. Option.bind (get_str sc ''profile'') (\<lambda>scp.
     Option.bind (get_strs sc ''grants'') (\<lambda>gs.
     Option.bind (get_obj m ''spend'') (\<lambda>spm. Option.bind (spend_of spm) (\<lambda>sp.
     Option.bind (get_obj m ''depth'') (\<lambda>dp. Option.bind (get_num dp ''remaining'') (\<lambda>r.
     Option.bind (get_obj m ''time'') (\<lambda>tm. Option.bind (get_str tm ''not_before'') (\<lambda>nb.
     Option.bind (get_str tm ''not_after'') (\<lambda>na.
     Option.bind (get_obj m ''reputation'') (\<lambda>rep. Option.bind (get_str rep ''profile'') (\<lambda>repp.
     Option.bind (get_num rep ''ceiling'') (\<lambda>repc.
     Option.bind (get_obj m ''values'') (\<lambda>va. Option.bind (get_str va ''profile'') (\<lambda>vap.
     Option.bind (get_strs va ''required'') (\<lambda>req.
     Option.bind (get_obj m ''reversibility'') (\<lambda>rev. Option.bind (get_str rev ''profile'') (\<lambda>revp.
     Option.bind (get_str rev ''ceiling'') (\<lambda>revc.
     Some \<lparr>scope = \<lparr>scope_profile = scp, grants = gs\<rparr>, spend = sp,
       depth = \<lparr>remaining = \<lfloor>r\<rfloor>\<rparr>, time = \<lparr>not_before = nb, not_after = na\<rparr>,
       reputation = \<lparr>reputation_profile = repp, reputation_ceiling = \<lfloor>repc\<rfloor>\<rparr>,
       values_facet = \<lparr>values_profile = vap, required = req\<rparr>,
       reversibility = \<lparr>reversibility_profile = revp, reversibility_ceiling = revc\<rparr>\<rparr>)))))))))))))))))))"

definition delegation_of :: "json \<Rightarrow> AuthorityDelegationV1 option" where
  "delegation_of j =
     Option.bind (as_obj j) (\<lambda>m.
     Option.bind (get_str m ''record_type'') (\<lambda>rt. Option.bind (get_str m ''version'') (\<lambda>ver.
     Option.bind (get_str m ''issuer'') (\<lambda>iss. Option.bind (get_str m ''subject'') (\<lambda>sub.
     Option.bind (get_str m ''verification_method'') (\<lambda>vm.
     Option.bind (get_str m ''issued_at'') (\<lambda>ia. Option.bind (get_str m ''nonce'') (\<lambda>no.
     Option.bind (get_str m ''delegation_id'') (\<lambda>did. Option.bind (get_str m ''signature'') (\<lambda>sig.
     Option.bind (get_obj m ''authority'') (\<lambda>am. Option.bind (authority_of am) (\<lambda>au.
     Some \<lparr>record_type = rt, version = ver, parent_delegation_id = get_str m ''parent_delegation_id'',
       issuer = iss, subject = sub, verification_method = vm, issued_at = ia, nonce = no,
       authority = au, delegation_id = did, signature = sig\<rparr>))))))))))))"

section \<open>Reading back what was written\<close>

lemma get_strs_JStr: "get m k = Some (JArr (map JStr xs)) \<Longrightarrow> get_strs m k = Some xs"
  by (simp add: get_strs_def get_arr_def list_all_iff comp_def)

lemma authority_roundtrip:
  "Option.bind (as_obj (json_of_authority a)) authority_of = Some a"
  by (cases "spend a")
     (simp_all add: json_of_authority_def authority_of_def json_of_spend_def spend_of_def get_defs
       get_strs_JStr [unfolded get_def])

lemma delegation_roundtrip: "delegation_of (json_of_delegation d) = Some d"
proof -
  obtain am where am: "json_of_authority (authority d) = JObj am"
    by (simp add: json_of_authority_def)
  with authority_roundtrip [of "authority d"] have "authority_of am = Some (authority d)" by simp
  with am show ?thesis
    by (cases "parent_delegation_id d")
       (simp_all add: json_of_delegation_def delegation_of_def body_members_def get_defs)
qed

end
