(* ===== verification/Scope.thy ===== *)
theory Scope
  imports APS_Prelude
begin

text \<open>
  \<^verbatim>\<open>src/v2/authority-delegation/scope.ts\<close>: the grammar of scope grants, the covering
  relation between two grants, the canonical-list check and the list comparison that
  the chain verifier uses.  The last two are optimised: they look candidate strings up in
  a set instead of comparing grants pairwise.  This theory proves that they compute what
  the pairwise definitions say, and that covering is a preorder, which is what makes
  attenuation compose along a chain.
\<close>

section \<open>Definitions\<close>

definition is_ascii :: "string \<Rightarrow> bool" where
  "is_ascii s \<longleftrightarrow> list_all (\<lambda>c. of_char c \<le> (127::nat)) s"

definition isValidScopeGrant :: "string \<Rightarrow> bool" where
  "isValidScopeGrant grant =
     (if grant = [] then False
      else if \<not> is_ascii grant then False
      else if grant = ''*'' then True
      else let parts = split_on CHR '':'' grant;
               parts = (if last parts = ''*'' then butlast parts else parts)
           in parts \<noteq> [] \<and> list_all (\<lambda>part. part \<noteq> [] \<and> CHR ''*'' \<notin> set part) parts)"

definition scopeGrantCovers :: "string \<Rightarrow> string \<Rightarrow> bool" where
  "scopeGrantCovers parent child =
     (if parent = ''*'' then True
      else if endsWith parent '':*'' then
        let pfx = drop_last2 parent;
            childPrefix = (if endsWith child '':*'' then drop_last2 child else child)
        in childPrefix = pfx \<or> startsWith childPrefix (pfx @ '':'')
      else parent = child)"

definition grantPrefix :: "string \<Rightarrow> string" where
  "grantPrefix grant = (if endsWith grant '':*'' then drop_last2 grant else grant)"

definition candidate :: "string list \<Rightarrow> nat \<Rightarrow> string" where
  "candidate segments m = join_with CHR '':'' (take m segments) @ '':*''"

definition grantIsRedundant :: "string list \<Rightarrow> string \<Rightarrow> bool" where
  "grantIsRedundant grants grant =
     (if grant = ''*'' then False
      else if ''*'' \<in> set grants then True
      else let segments = split_on CHR '':'' (grantPrefix grant)
           in list_ex (\<lambda>m. candidate segments m \<noteq> grant \<and> candidate segments m \<in> set grants)
                [1..<Suc (length segments)])"

definition grantsAreCanonical :: "string list \<Rightarrow> bool" where
  "grantsAreCanonical grants =
     (list_all isValidScopeGrant grants \<and> strictly_ascending grants
      \<and> list_all (\<lambda>g. \<not> grantIsRedundant grants g) grants)"

definition grantIsCovered :: "string list \<Rightarrow> string \<Rightarrow> bool" where
  "grantIsCovered parent grant =
     (grant \<in> set parent
      \<or> (let segments = split_on CHR '':'' (grantPrefix grant)
         in list_ex (\<lambda>m. candidate segments m \<in> set parent) [1..<Suc (length segments)]))"

definition scopeNarrows :: "string list \<Rightarrow> string list \<Rightarrow> bool" where
  "scopeNarrows parent child =
     (''*'' \<in> set parent \<or> list_all (grantIsCovered parent) child)"

section \<open>Grants ending in a wildcard segment\<close>

lemma endsWith_wild [simp]: "endsWith (q @ '':*'') '':*''"
  by (auto simp: js_string)

lemma endsWith_wildE:
  assumes "endsWith g '':*''"
  obtains q where "g = q @ '':*''"
  using assms by (auto simp: js_string)

lemma grantPrefix_wild [simp]: "grantPrefix (q @ '':*'') = q"
  by (simp add: grantPrefix_def)

lemma grantPrefix_plain: "\<not> endsWith g '':*'' \<Longrightarrow> grantPrefix g = g"
  by (simp add: grantPrefix_def)

lemma star_not_wild [simp]: "\<not> endsWith ''*'' '':*''"
  by (simp add: endsWith_def)

lemma wild_neq_star [simp]: "q @ '':*'' \<noteq> ''*''"
proof
  assume "q @ '':*'' = ''*''"
  then have "length (q @ '':*'') = length ''*''" by (rule arg_cong)
  then show False by simp
qed

text \<open>\<open>q\<close> is a whole-segment prefix of \<open>s\<close>.\<close>

definition seg_prefix :: "string \<Rightarrow> string \<Rightarrow> bool" where
  "seg_prefix q s \<longleftrightarrow> s = q \<or> (\<exists>t. s = q @ '':'' @ t)"

lemma seg_prefix_refl [simp]: "seg_prefix q q"
  by (simp add: seg_prefix_def)

lemma seg_prefix_trans: "seg_prefix p q \<Longrightarrow> seg_prefix q r \<Longrightarrow> seg_prefix p r"
  by (auto simp: seg_prefix_def)

lemma covers_wild: "scopeGrantCovers (q @ '':*'') g \<longleftrightarrow> seg_prefix q (grantPrefix g)"
  by (auto simp: scopeGrantCovers_def grantPrefix_def Let_def js_string seg_prefix_def)

lemma covers_plain:
  "p \<noteq> ''*'' \<Longrightarrow> \<not> endsWith p '':*'' \<Longrightarrow> scopeGrantCovers p g \<longleftrightarrow> p = g"
  by (simp add: scopeGrantCovers_def)

lemma covers_star [simp]: "scopeGrantCovers ''*'' g"
  by (simp add: scopeGrantCovers_def)

lemma covers_refl: "scopeGrantCovers g g"
  by (cases "endsWith g '':*''") (auto simp: covers_wild scopeGrantCovers_def Let_def)

text \<open>The candidate strings of a grant name exactly the wildcard grants that cover it.\<close>

lemma candidate_iff:
  "(\<exists>m \<in> {1..length (split_on CHR '':'' s)}. candidate (split_on CHR '':'' s) m = q @ '':*'')
   \<longleftrightarrow> seg_prefix q s"
  using segment_prefix_iff [of "CHR '':''" s q] by (simp add: candidate_def seg_prefix_def)

lemma candidate_in_iff:
  "(\<exists>m \<in> {1..length (split_on CHR '':'' (grantPrefix g))}.
      candidate (split_on CHR '':'' (grantPrefix g)) m \<in> set ps
      \<and> Q (candidate (split_on CHR '':'' (grantPrefix g)) m))
   \<longleftrightarrow> (\<exists>p \<in> set ps. endsWith p '':*'' \<and> Q p \<and> scopeGrantCovers p g)" (is "?L \<longleftrightarrow> ?R")
proof
  let ?S = "split_on CHR '':'' (grantPrefix g)"
  assume ?L
  then obtain m where m: "m \<in> {1..length ?S}" "candidate ?S m \<in> set ps" "Q (candidate ?S m)"
    by blast
  let ?q = "join_with CHR '':'' (take m ?S)"
  have c: "candidate ?S m = ?q @ '':*''" by (simp add: candidate_def)
  from m(1) c have "seg_prefix ?q (grantPrefix g)"
    unfolding candidate_iff [symmetric] by blast
  then have "scopeGrantCovers (candidate ?S m) g" by (simp only: c covers_wild)
  with m c show ?R by (metis endsWith_wild)
next
  assume ?R
  then obtain p where p: "p \<in> set ps" "endsWith p '':*''" "Q p" "scopeGrantCovers p g" by blast
  then obtain q where q: "p = q @ '':*''" by (auto elim: endsWith_wildE)
  with p(4) have "seg_prefix q (grantPrefix g)" by (simp only: covers_wild)
  then obtain m where "m \<in> {1..length (split_on CHR '':'' (grantPrefix g))}"
    and "candidate (split_on CHR '':'' (grantPrefix g)) m = p"
    unfolding candidate_iff [symmetric] q by blast
  with p show ?L by blast
qed

lemma list_ex_upt: "list_ex P [1..<Suc n] \<longleftrightarrow> (\<exists>m \<in> {1..n}. P m)"
  by (auto simp: list_ex_iff)

section \<open>The optimised list comparison is the pairwise one\<close>

lemma grantIsCovered_iff:
  assumes "''*'' \<notin> set parent"
  shows "grantIsCovered parent g \<longleftrightarrow> (\<exists>p \<in> set parent. scopeGrantCovers p g)"
proof -
  have "grantIsCovered parent g \<longleftrightarrow>
      g \<in> set parent \<or> (\<exists>p \<in> set parent. endsWith p '':*'' \<and> scopeGrantCovers p g)"
    using candidate_in_iff [of g parent "\<lambda>_. True"]
    by (simp only: grantIsCovered_def Let_def list_ex_upt simp_thms)
  also have "\<dots> \<longleftrightarrow> (\<exists>p \<in> set parent. scopeGrantCovers p g)"
    using assms covers_refl covers_plain by (metis (full_types))
  finally show ?thesis .
qed

definition scopeNarrowsPairwise :: "string list \<Rightarrow> string list \<Rightarrow> bool" where
  "scopeNarrowsPairwise parent child \<longleftrightarrow>
     (\<forall>c \<in> set child. \<exists>p \<in> set parent. scopeGrantCovers p c)"

lemma scopeNarrows_iff: "scopeNarrows parent child \<longleftrightarrow> scopeNarrowsPairwise parent child"
proof (cases "''*'' \<in> set parent")
  case True
  then show ?thesis
    unfolding scopeNarrows_def scopeNarrowsPairwise_def using covers_star by blast
next
  case False
  then show ?thesis
    by (simp add: scopeNarrows_def scopeNarrowsPairwise_def list_all_iff grantIsCovered_iff)
qed

section \<open>Valid grants\<close>

lemma valid_wild_prefix_no_star:
  assumes "isValidScopeGrant (q @ '':*'')"
  shows "CHR ''*'' \<notin> set q"
proof -
  have split: "split_on CHR '':'' (q @ '':*'') = split_on CHR '':'' q @ [''*'']"
    using split_append_sep [of "CHR '':''" q "''*''"] by simp
  with assms have parts: "\<forall>p \<in> set (split_on CHR '':'' q). CHR ''*'' \<notin> set p"
    by (auto simp: isValidScopeGrant_def Let_def list_all_iff split: if_splits)
  have "set (join_with c ps) \<subseteq> \<Union> (set ` set ps) \<union> {c}" for c and ps :: "string list"
    by (induction c ps rule: join_with.induct) auto
  from this [of "CHR '':''" "split_on CHR '':'' q"] parts show ?thesis by auto
qed

lemma valid_not_covers_star:
  assumes "isValidScopeGrant p" and "scopeGrantCovers p ''*''"
  shows "p = ''*''"
proof (cases "endsWith p '':*''")
  case True
  then obtain q where q: "p = q @ '':*''" by (elim endsWith_wildE)
  with assms(2) have "seg_prefix q ''*''"
    by (simp only: covers_wild grantPrefix_plain [OF star_not_wild])
  then have "q = ''*'' \<or> (\<exists>t. q @ '':'' @ t = ''*'')" by (auto simp: seg_prefix_def)
  moreover have "q @ '':'' @ t \<noteq> ''*''" for t by (cases q) auto
  ultimately show ?thesis using valid_wild_prefix_no_star [of q] assms(1) q by auto
next
  case False
  with assms(2) show ?thesis using covers_plain by blast
qed

lemma covers_trans:
  assumes "isValidScopeGrant p" and pq: "scopeGrantCovers p q" and qr: "scopeGrantCovers q r"
  shows "scopeGrantCovers p r"
proof (cases "p = ''*'' \<or> \<not> endsWith p '':*''")
  case True
  then consider "p = ''*''" | "p = q" using pq covers_plain by blast
  then show ?thesis using qr by cases (simp_all only: covers_star)
next
  case False
  then obtain a where a: "p = a @ '':*''" by (auto elim: endsWith_wildE)
  with assms(1) pq False have "q \<noteq> ''*''" using valid_not_covers_star by blast
  show ?thesis
  proof (cases "endsWith q '':*''")
    case True
    then obtain b where b: "q = b @ '':*''" by (elim endsWith_wildE)
    from pq qr have "seg_prefix a b" "seg_prefix b (grantPrefix r)"
      unfolding a b covers_wild grantPrefix_wild .
    then show ?thesis unfolding a covers_wild by (rule seg_prefix_trans)
  next
    case False
    with \<open>q \<noteq> ''*''\<close> qr have "q = r" using covers_plain by blast
    with pq show ?thesis by simp
  qed
qed

section \<open>Covering as an interface\<close>

text \<open>
  What the chain comparison relies on: a covering relation that is reflexive, and
  transitive from well-formed grants.  Coverage of lists is then itself reflexive and
  transitive, and can only shrink what a list grants.
\<close>

locale covering =
  fixes covers :: "'g \<Rightarrow> 'g \<Rightarrow> bool" and wf_grant :: "'g \<Rightarrow> bool"
  assumes cover_refl: "covers g g"
    and cover_trans: "wf_grant p \<Longrightarrow> covers p q \<Longrightarrow> covers q r \<Longrightarrow> covers p r"
begin

lemma lists_refl: "\<forall>c \<in> set gs. \<exists>p \<in> set gs. covers p c"
  using cover_refl by blast

lemma lists_trans:
  assumes "list_all wf_grant ps"
    and "\<forall>c \<in> set cs. \<exists>p \<in> set ps. covers p c" and "\<forall>d \<in> set ds. \<exists>c \<in> set cs. covers c d"
  shows "\<forall>d \<in> set ds. \<exists>p \<in> set ps. covers p d"
  using assms cover_trans by (metis list_all_iff)

lemma lists_shrink:
  assumes "list_all wf_grant ps" and "\<forall>c \<in> set cs. \<exists>p \<in> set ps. covers p c"
    and "\<exists>c \<in> set cs. covers c a"
  shows "\<exists>p \<in> set ps. covers p a"
  using assms cover_trans by (metis list_all_iff)

end

interpretation grants: covering scopeGrantCovers isValidScopeGrant
  by unfold_locales (auto intro: covers_refl covers_trans)

lemma scopeNarrows_refl: "scopeNarrows gs gs"
  unfolding scopeNarrows_iff scopeNarrowsPairwise_def by (rule grants.lists_refl)

lemma scopeNarrows_trans:
  assumes "list_all isValidScopeGrant a" and "scopeNarrows a b" and "scopeNarrows b c"
  shows "scopeNarrows a c"
  using assms grants.lists_trans unfolding scopeNarrows_iff scopeNarrowsPairwise_def by blast

section \<open>The optimised canonical check is the antichain definition\<close>

lemma grantIsRedundant_iff:
  assumes "list_all isValidScopeGrant gs" and "g \<in> set gs"
  shows "grantIsRedundant gs g \<longleftrightarrow> (\<exists>h \<in> set gs. h \<noteq> g \<and> scopeGrantCovers h g)"
proof (cases "g = ''*''")
  case True
  then have "\<not> grantIsRedundant gs g" by (simp add: grantIsRedundant_def)
  moreover have "\<not> (\<exists>h \<in> set gs. h \<noteq> g \<and> scopeGrantCovers h g)"
    using assms(1) True valid_not_covers_star unfolding list_all_iff by blast
  ultimately show ?thesis by blast
next
  case g: False
  show ?thesis
  proof (cases "''*'' \<in> set gs")
    case True
    with g have "grantIsRedundant gs g" by (simp add: grantIsRedundant_def)
    moreover from True g have "\<exists>h \<in> set gs. h \<noteq> g \<and> scopeGrantCovers h g"
      by (intro bexI [of _ "''*''"]) simp_all
    ultimately show ?thesis by blast
  next
    case False
    let ?S = "split_on CHR '':'' (grantPrefix g)"
    have "grantIsRedundant gs g \<longleftrightarrow>
        (\<exists>m \<in> {1..length ?S}. candidate ?S m \<in> set gs \<and> candidate ?S m \<noteq> g)"
      unfolding grantIsRedundant_def Let_def list_ex_upt
      using g False by (simp only: if_False simp_thms conj_commute)
    also have "\<dots> \<longleftrightarrow> (\<exists>p \<in> set gs. endsWith p '':*'' \<and> p \<noteq> g \<and> scopeGrantCovers p g)"
      by (rule candidate_in_iff)
    also have "\<dots> \<longleftrightarrow> (\<exists>h \<in> set gs. h \<noteq> g \<and> scopeGrantCovers h g)"
      using False covers_plain by (metis (full_types))
    finally show ?thesis .
  qed
qed

lemma grantsAreCanonical_iff:
  "grantsAreCanonical gs \<longleftrightarrow>
     list_all isValidScopeGrant gs \<and> sorted_wrt (<) gs
     \<and> (\<forall>g \<in> set gs. \<forall>h \<in> set gs. h \<noteq> g \<longrightarrow> \<not> scopeGrantCovers h g)"
proof (cases "list_all isValidScopeGrant gs")
  case True
  then have "list_all (\<lambda>g. \<not> grantIsRedundant gs g) gs \<longleftrightarrow>
      (\<forall>g \<in> set gs. \<forall>h \<in> set gs. h \<noteq> g \<longrightarrow> \<not> scopeGrantCovers h g)"
    using grantIsRedundant_iff unfolding list_all_iff by blast
  with True show ?thesis
    unfolding grantsAreCanonical_def strictly_ascending_iff by blast
next
  case False
  then show ?thesis unfolding grantsAreCanonical_def by blast
qed

lemma canonical_valid: "grantsAreCanonical gs \<Longrightarrow> list_all isValidScopeGrant gs"
  by (simp add: grantsAreCanonical_def)

end
