(* ===== verification/Authority_Schema.thy ===== *)
theory Authority_Schema
  imports Authority_Types Scope
begin

text \<open>
  \<^verbatim>\<open>src/v2/authority-delegation/schema.ts\<close>: the closed-schema and canonical-value
  check of a delegation record, with the canonical UTC-millisecond timestamp, the
  canonical quantity, and the record-wide I-JSON check.  The theory shows that an
  accepted value reads as a typed record that is well formed, that the check on the JSON
  form of a typed record accepts exactly the well-formed ones, and that string order on
  canonical timestamps is their calendar order.
\<close>

section \<open>Lexical checks\<close>

definition is_delegation_id :: "string \<Rightarrow> bool" where
  "is_delegation_id s \<longleftrightarrow> startsWith s ''sha256:'' \<and> lower_hex 64 (drop 7 s)"

definition BigInt :: "string \<Rightarrow> int" where
  "BigInt s = num_of s"

definition isAdmissibleIdentifier :: "string \<Rightarrow> bool" where
  "isAdmissibleIdentifier s \<longleftrightarrow> s \<noteq> []"

definition MAX_QUANTITY :: int where
  "MAX_QUANTITY = 9223372036854775807"

text \<open>\<open>/^(0|[1-9][0-9]*)$/\<close>.\<close>

definition is_decimal :: "string \<Rightarrow> bool" where
  "is_decimal s \<longleftrightarrow> s = ''0'' \<or> (s \<noteq> [] \<and> list_all isDigit s \<and> hd s \<noteq> CHR ''0'')"

definition isCanonicalQuantity :: "string \<Rightarrow> bool" where
  "isCanonicalQuantity s \<longleftrightarrow> is_decimal s \<and> BigInt s \<le> MAX_QUANTITY"

definition isLeapYear :: "int \<Rightarrow> bool" where
  "isLeapYear year \<longleftrightarrow> (year mod 4 = 0 \<and> year mod 100 \<noteq> 0) \<or> year mod 400 = 0"

definition DAYS_IN_MONTH :: "int list" where
  "DAYS_IN_MONTH = [31, 28, 31, 30, 31, 30, 31, 31, 30, 31, 30, 31]"

text \<open>
  \<open>CANONICAL_TIMESTAMP.exec\<close>: twenty-four characters, separators at their places, digits
  elsewhere, and every two-digit group in its lexical range; the value is the list
  \<open>[year, month, day, hour, minute, second, millisecond]\<close>.
\<close>

definition timestamp_parts :: "string \<Rightarrow> int list" where
  "timestamp_parts s =
     [num_of (take 4 s), num_of (take 2 (drop 5 s)), num_of (take 2 (drop 8 s)),
      num_of (take 2 (drop 11 s)), num_of (take 2 (drop 14 s)), num_of (take 2 (drop 17 s)),
      num_of (take 3 (drop 20 s))]"

definition timestamp_shape :: "string \<Rightarrow> bool" where
  "timestamp_shape s \<longleftrightarrow> length s = 24
     \<and> list_all isDigit (take 4 s) \<and> s ! 4 = CHR ''-''
     \<and> list_all isDigit (take 2 (drop 5 s)) \<and> s ! 7 = CHR ''-''
     \<and> list_all isDigit (take 2 (drop 8 s)) \<and> s ! 10 = CHR ''T''
     \<and> list_all isDigit (take 2 (drop 11 s)) \<and> s ! 13 = CHR '':''
     \<and> list_all isDigit (take 2 (drop 14 s)) \<and> s ! 16 = CHR '':''
     \<and> list_all isDigit (take 2 (drop 17 s)) \<and> s ! 19 = CHR ''.''
     \<and> list_all isDigit (take 3 (drop 20 s)) \<and> s ! 23 = CHR ''Z''"

definition CANONICAL_TIMESTAMP :: "string \<Rightarrow> int list option" where
  "CANONICAL_TIMESTAMP s =
     (let p = timestamp_parts s in
      if timestamp_shape s \<and> p ! 1 \<in> {1..12} \<and> p ! 2 \<in> {1..31} \<and> p ! 3 \<in> {0..23}
         \<and> p ! 4 \<in> {0..59} \<and> p ! 5 \<in> {0..60}
      then Some p else None)"

definition maxDay :: "int \<Rightarrow> int \<Rightarrow> int" where
  "maxDay year month =
     (if month = 2 \<and> isLeapYear year then 29 else DAYS_IN_MONTH ! nat (month - 1))"

definition isCanonicalTimestamp :: "string \<Rightarrow> bool" where
  "isCanonicalTimestamp s =
     (case CANONICAL_TIMESTAMP s of
        None \<Rightarrow> False
      | Some p \<Rightarrow>
          let mx = maxDay (p ! 0) (p ! 1) in
          if p ! 2 > mx then False
          else if p ! 5 = 60 \<and> \<not> (p ! 3 = 23 \<and> p ! 4 = 59 \<and> p ! 2 = mx) then False
          else True)"

definition compareCanonicalTimestamps :: "string \<Rightarrow> string \<Rightarrow> int" where
  "compareCanonicalTimestamps a b = (if a < b then -1 else if a > b then 1 else 0)"

section \<open>I-JSON strings\<close>

definition is_noncharacter :: "nat \<Rightarrow> bool" where
  "is_noncharacter cp \<longleftrightarrow> (0xfdd0 \<le> cp \<and> cp \<le> 0xfdef) \<or> cp mod 65536 \<ge> 0xfffe"

text \<open>The scan over code units; a high surrogate consumes the unit after it.\<close>

fun isIJSONUnits :: "nat list \<Rightarrow> bool" where
  "isIJSONUnits [] = True"
| "isIJSONUnits (u # rest) =
     (if 0xd800 \<le> u \<and> u \<le> 0xdbff then
        (case rest of
           [] \<Rightarrow> False
         | v # rest' \<Rightarrow>
             if \<not> (0xdc00 \<le> v \<and> v \<le> 0xdfff) then False
             else if is_noncharacter ((u - 0xd800) * 0x400 + (v - 0xdc00) + 0x10000) then False
             else isIJSONUnits rest')
      else if 0xdc00 \<le> u \<and> u \<le> 0xdfff then False
      else if is_noncharacter u then False
      else isIJSONUnits rest)"

definition isIJSONString :: "string \<Rightarrow> bool" where
  "isIJSONString s = isIJSONUnits (map of_char s)"

fun memberIsIJSON :: "json \<Rightarrow> bool" where
  "memberIsIJSON (JStr s) = isIJSONString s"
| "memberIsIJSON JMark = False"
| "memberIsIJSON _ = True"

fun is_container :: "json \<Rightarrow> bool" where
  "is_container (JArr xs) = True"
| "is_container (JObj kvs) = True"
| "is_container _ = False"

text \<open>The explicit-stack walk; the head of the list is the top of the stack.\<close>

function ijson_walk :: "json list \<Rightarrow> bool" where
  "ijson_walk [] = True"
| "ijson_walk (JArr xs # stack) =
     (if list_all memberIsIJSON xs then ijson_walk (rev (filter is_container xs) @ stack) else False)"
| "ijson_walk (JObj kvs # stack) =
     (if list_all (\<lambda>(k, v). isIJSONString k \<and> memberIsIJSON v) kvs
      then ijson_walk (rev (filter is_container (map snd kvs)) @ stack) else False)"
| "ijson_walk (JNull # stack) = ijson_walk stack"
| "ijson_walk (JBool b # stack) = ijson_walk stack"
| "ijson_walk (JNum r # stack) = ijson_walk stack"
| "ijson_walk (JStr s # stack) = ijson_walk stack"
| "ijson_walk (JMark # stack) = ijson_walk stack"
  by pat_completeness auto

lemma size_filter_le: "size_list f (filter P xs) \<le> size_list f xs"
  by (induction xs) auto

lemma size_list_map_snd: "size_list size (map snd kvs) \<le> size_list (size_prod (\<lambda>_. 0) size) (kvs :: (string \<times> json) list)"
  by (induction kvs) auto

lemma size_list_rev_json: "size_list f (rev xs) = size_list f xs"
  by (induction xs) (auto simp: size_list_append)

termination ijson_walk
proof (relation "measure (size_list size)", goal_cases)
  case 1
  show ?case by simp
next
  case (2 xs stack)
  show ?case
    using size_filter_le [of size is_container xs] by (simp add: size_list_append size_list_rev_json)
next
  case (3 kvs stack)
  show ?case
    using size_filter_le [of size is_container "map snd kvs"] size_list_map_snd [of kvs]
    by (simp add: size_list_append size_list_rev_json)
qed auto

definition recordStringsAreIJSON :: "members \<Rightarrow> bool" where
  "recordStringsAreIJSON m = ijson_walk [JObj m]"

section \<open>The closed schema\<close>

definition exactKeys :: "members \<Rightarrow> string list \<Rightarrow> bool" where
  "exactKeys m expected \<longleftrightarrow> sort (map fst m) = sort expected"

definition failure :: "AuthorityFailureCode \<Rightarrow> string \<Rightarrow> AuthorityFailure" where
  "failure c msg = \<lparr>failure_code = c, message = msg, failure_index = None, facet = None\<rparr>"

text \<open>\<open>Buffer.byteLength(s, 'utf8')\<close>: code units from 128 to 255 take two bytes.\<close>

definition utf8_length :: "string \<Rightarrow> nat" where
  "utf8_length s = sum_list (map (\<lambda>c. if (of_char c :: nat) < 128 then 1 else 2) s)"

definition party_failures :: "members \<Rightarrow> string \<Rightarrow> AuthorityFailure list" where
  "party_failures m key =
     (case get_str m key of
        None \<Rightarrow> [failure SCHEMA_INVALID (key @ '' must be a non-empty well-formed Unicode string'')]
      | Some item \<Rightarrow>
          if item = [] then [failure SCHEMA_INVALID (key @ '' must be a non-empty well-formed Unicode string'')]
          else if utf8_length item > 1024 then [failure RESOURCE_LIMIT (key @ '' exceeds this implementation's 1024-byte ceiling'')]
          else [])"

definition string_member :: "members \<Rightarrow> string \<Rightarrow> (string \<Rightarrow> bool) \<Rightarrow> bool" where
  "string_member m key ok = (case get_str m key of None \<Rightarrow> False | Some s \<Rightarrow> ok s)"

definition header_failures :: "members \<Rightarrow> AuthorityFailure list" where
  "header_failures m =
     (if \<not> recordStringsAreIJSON m
      then [failure SCHEMA_INVALID ''record strings must be I-JSON: no unpaired surrogates or noncharacters''] else [])
   @ (if \<not> string_member m ''delegation_id'' is_delegation_id
      then [failure SCHEMA_INVALID ''delegation_id must be sha256:<64 lowercase hex>''] else [])
   @ (if get m ''parent_delegation_id'' \<noteq> Some JNull \<and> \<not> string_member m ''parent_delegation_id'' is_delegation_id
      then [failure SCHEMA_INVALID ''parent_delegation_id must be null or a delegation digest''] else [])
   @ party_failures m ''issuer'' @ party_failures m ''subject'' @ party_failures m ''verification_method''
   @ (if \<not> string_member m ''issued_at'' isCanonicalTimestamp
      then [failure NONCANONICAL_VALUE ''issued_at must be canonical UTC milliseconds''] else [])
   @ (if \<not> string_member m ''nonce'' (lower_hex 32)
      then [failure NONCANONICAL_VALUE ''nonce must be 32 lowercase hex characters''] else [])
   @ (if \<not> string_member m ''signature'' (lower_hex 128)
      then [failure SCHEMA_INVALID ''signature must be 128 lowercase hex characters''] else [])"

definition scope_failures :: "members \<Rightarrow> AuthorityFailure list" where
  "scope_failures a =
     (case get_obj a ''scope'' of
        None \<Rightarrow> [failure SCHEMA_INVALID ''scope must contain profile and grants'']
      | Some sc \<Rightarrow>
          (case get_str sc ''profile'' of
             None \<Rightarrow> [failure SCHEMA_INVALID ''scope must contain profile and grants'']
           | Some p \<Rightarrow>
               if p \<noteq> SCOPE_PROFILE_V1 then [failure UNSUPPORTED_PROFILE ''unsupported scope profile'']
               else if \<not> exactKeys sc [''profile'', ''grants''] \<or> get_strs sc ''grants'' = None
               then [failure SCHEMA_INVALID ''scope must contain profile and grants'']
               else if \<not> grantsAreCanonical (the (get_strs sc ''grants''))
               then [failure NONCANONICAL_VALUE ''scope grants must be valid, sorted, unique, and irredundant'']
               else []))"

definition spend_failures :: "members \<Rightarrow> AuthorityFailure list" where
  "spend_failures a =
     (case get_obj a ''spend'' of
        None \<Rightarrow> [failure SCHEMA_INVALID ''spend must be a tagged object'']
      | Some sp \<Rightarrow>
          (case get_str sp ''mode'' of
             None \<Rightarrow> [failure SCHEMA_INVALID ''spend must be a tagged object'']
           | Some mode \<Rightarrow>
               if mode = ''unbounded'' then
                 (if \<not> exactKeys sp [''mode''] then [failure SCHEMA_INVALID ''unbounded spend has no other fields''] else [])
               else if mode = ''bounded'' then
                 (if \<not> exactKeys sp [''mode'', ''unit'', ''per_action'', ''cumulative'']
                     \<or> \<not> string_member sp ''unit'' isAdmissibleIdentifier
                     \<or> \<not> string_member sp ''per_action'' isCanonicalQuantity
                     \<or> \<not> string_member sp ''cumulative'' isCanonicalQuantity
                  then [failure NONCANONICAL_VALUE ''bounded spend fields are malformed'']
                  else if BigInt (the (get_str sp ''per_action'')) > BigInt (the (get_str sp ''cumulative''))
                  then [failure SCHEMA_INVALID ''spend per_action cannot exceed cumulative'']
                  else [])
               else [failure SCHEMA_INVALID ''unknown spend mode'']))"

definition int_member_in :: "members \<Rightarrow> string \<Rightarrow> rat \<Rightarrow> rat \<Rightarrow> bool" where
  "int_member_in m key lo hi =
     (case get_num m key of None \<Rightarrow> False | Some r \<Rightarrow> isInteger r \<and> \<not> r < lo \<and> \<not> r > hi)"

definition depth_failures :: "members \<Rightarrow> AuthorityFailure list" where
  "depth_failures a =
     (case get_obj a ''depth'' of
        None \<Rightarrow> [failure SCHEMA_INVALID ''depth.remaining must be an integer from 0 through 255'']
      | Some d \<Rightarrow>
          if \<not> exactKeys d [''remaining''] \<or> \<not> int_member_in d ''remaining'' 0 255
          then [failure SCHEMA_INVALID ''depth.remaining must be an integer from 0 through 255'']
          else [])"

definition time_failures :: "members \<Rightarrow> members \<Rightarrow> AuthorityFailure list" where
  "time_failures m a =
     (case get_obj a ''time'' of
        None \<Rightarrow> [failure NONCANONICAL_VALUE ''time bounds must be canonical UTC milliseconds'']
      | Some t \<Rightarrow>
          if \<not> exactKeys t [''not_before'', ''not_after'']
             \<or> \<not> string_member t ''not_before'' isCanonicalTimestamp
             \<or> \<not> string_member t ''not_after'' isCanonicalTimestamp
          then [failure NONCANONICAL_VALUE ''time bounds must be canonical UTC milliseconds'']
          else if the (get_str t ''not_before'') \<ge> the (get_str t ''not_after'')
          then [failure SCHEMA_INVALID ''time window must be non-empty'']
          else if get m ''parent_delegation_id'' \<noteq> Some JNull
             \<and> string_member m ''issued_at'' isCanonicalTimestamp
             \<and> the (get_str t ''not_before'') < the (get_str m ''issued_at'')
          then [failure SCHEMA_INVALID ''time.not_before cannot predate issued_at'']
          else [])"

definition reputation_failures :: "members \<Rightarrow> AuthorityFailure list" where
  "reputation_failures a =
     (case get_obj a ''reputation'' of
        None \<Rightarrow> [failure SCHEMA_INVALID ''reputation ceiling must be an integer from 0 through 100'']
      | Some r \<Rightarrow>
          (case get_str r ''profile'' of
             None \<Rightarrow> [failure SCHEMA_INVALID ''reputation ceiling must be an integer from 0 through 100'']
           | Some p \<Rightarrow>
               if p \<noteq> REPUTATION_PROFILE_V1 then [failure UNSUPPORTED_PROFILE ''unsupported reputation profile'']
               else if \<not> exactKeys r [''profile'', ''ceiling''] \<or> \<not> int_member_in r ''ceiling'' 0 100
               then [failure SCHEMA_INVALID ''reputation ceiling must be an integer from 0 through 100'']
               else []))"

definition values_failures :: "members \<Rightarrow> AuthorityFailure list" where
  "values_failures a =
     (case get_obj a ''values'' of
        None \<Rightarrow> [failure SCHEMA_INVALID ''values.required must contain valid identifiers'']
      | Some v \<Rightarrow>
          (case get_str v ''profile'' of
             None \<Rightarrow> [failure SCHEMA_INVALID ''values.required must contain valid identifiers'']
           | Some p \<Rightarrow>
               if p \<noteq> VALUES_PROFILE_V1 then [failure UNSUPPORTED_PROFILE ''unsupported values profile'']
               else if \<not> exactKeys v [''profile'', ''required'']
                  \<or> (case get_strs v ''required'' of None \<Rightarrow> True | Some xs \<Rightarrow> \<not> list_all isAdmissibleIdentifier xs)
               then [failure SCHEMA_INVALID ''values.required must contain valid identifiers'']
               else if \<not> strictly_ascending (the (get_strs v ''required''))
               then [failure NONCANONICAL_VALUE ''values.required must be sorted and unique'']
               else []))"

definition reversibility_failures :: "members \<Rightarrow> AuthorityFailure list" where
  "reversibility_failures a =
     (case get_obj a ''reversibility'' of
        None \<Rightarrow> [failure SCHEMA_INVALID ''reversibility facet is malformed'']
      | Some r \<Rightarrow>
          (case get_str r ''profile'' of
             None \<Rightarrow> [failure SCHEMA_INVALID ''reversibility facet is malformed'']
           | Some p \<Rightarrow>
               if p \<noteq> REVERSIBILITY_PROFILE_V1 then [failure UNSUPPORTED_PROFILE ''unsupported reversibility profile'']
               else if \<not> exactKeys r [''profile'', ''ceiling'']
                  \<or> \<not> string_member r ''ceiling'' (\<lambda>c. c \<in> set [''tentative'', ''compensable'', ''irreversible''])
               then [failure SCHEMA_INVALID ''reversibility facet is malformed'']
               else []))"

definition authority_failures :: "members \<Rightarrow> AuthorityFailure list" where
  "authority_failures m =
     (case get_obj m ''authority'' of
        None \<Rightarrow> [failure SCHEMA_INVALID ''authority must carry exactly all seven facets'']
      | Some a \<Rightarrow>
          if \<not> exactKeys a [''scope'', ''spend'', ''depth'', ''time'', ''reputation'', ''values'', ''reversibility'']
          then [failure SCHEMA_INVALID ''authority must carry exactly all seven facets'']
          else scope_failures a @ spend_failures a @ depth_failures a @ time_failures m a
             @ reputation_failures a @ values_failures a @ reversibility_failures a)"

definition TOP_KEYS :: "string list" where
  "TOP_KEYS = [''record_type'', ''version'', ''delegation_id'', ''parent_delegation_id'', ''issuer'',
     ''subject'', ''verification_method'', ''issued_at'', ''nonce'', ''authority'', ''signature'']"

definition validateAuthorityDelegationShape :: "json \<Rightarrow> AuthorityFailure list" where
  "validateAuthorityDelegationShape j =
     (case as_obj j of
        None \<Rightarrow> [failure SCHEMA_INVALID ''delegation must be an exact closed v1 object'']
      | Some m \<Rightarrow>
          (case (get_str m ''record_type'', get_str m ''version'') of
             (Some rt, Some ver) \<Rightarrow>
               if rt \<noteq> AUTHORITY_DELEGATION_RECORD_TYPE
               then [failure UNSUPPORTED_RECORD_TYPE ''record_type names another record, not judged by this schema'']
               else if ver \<noteq> AUTHORITY_DELEGATION_VERSION
               then [failure UNSUPPORTED_VERSION ''unsupported authority-delegation version'']
               else if \<not> exactKeys m TOP_KEYS
               then [failure SCHEMA_INVALID ''delegation must be an exact closed v1 object'']
               else header_failures m @ authority_failures m
           | _ \<Rightarrow> [failure SCHEMA_INVALID ''record_type and version must be strings'']))"

definition isAuthorityDelegationV1 :: "json \<Rightarrow> bool" where
  "isAuthorityDelegationV1 j \<longleftrightarrow> validateAuthorityDelegationShape j = []"

section \<open>Well-formed records\<close>

definition wf_spend :: "SpendFacetV1 \<Rightarrow> bool" where
  "wf_spend s = (case s of Unbounded \<Rightarrow> True
     | Bounded u p c \<Rightarrow> isAdmissibleIdentifier u \<and> isCanonicalQuantity p \<and> isCanonicalQuantity c
         \<and> BigInt p \<le> BigInt c)"

definition wf_authority :: "AuthorityVectorV1 \<Rightarrow> bool" where
  "wf_authority a \<longleftrightarrow>
     scope_profile (scope a) = SCOPE_PROFILE_V1 \<and> grantsAreCanonical (grants (scope a))
   \<and> wf_spend (spend a)
   \<and> remaining (depth a) \<in> {0..255}
   \<and> isCanonicalTimestamp (not_before (time a)) \<and> isCanonicalTimestamp (not_after (time a))
   \<and> not_before (time a) < not_after (time a)
   \<and> reputation_profile (reputation a) = REPUTATION_PROFILE_V1 \<and> reputation_ceiling (reputation a) \<in> {0..100}
   \<and> values_profile (values_facet a) = VALUES_PROFILE_V1
   \<and> list_all isAdmissibleIdentifier (required (values_facet a)) \<and> strictly_ascending (required (values_facet a))
   \<and> reversibility_profile (reversibility a) = REVERSIBILITY_PROFILE_V1
   \<and> reversibility_ceiling (reversibility a) \<in> {''tentative'', ''compensable'', ''irreversible''}"

definition wf_party :: "string \<Rightarrow> bool" where
  "wf_party s \<longleftrightarrow> s \<noteq> [] \<and> utf8_length s \<le> 1024"

definition wf_delegation :: "AuthorityDelegationV1 \<Rightarrow> bool" where
  "wf_delegation d \<longleftrightarrow>
     record_type d = AUTHORITY_DELEGATION_RECORD_TYPE \<and> version d = AUTHORITY_DELEGATION_VERSION
   \<and> is_delegation_id (delegation_id d)
   \<and> (case parent_delegation_id d of None \<Rightarrow> True
        | Some p \<Rightarrow> is_delegation_id p \<and> issued_at d \<le> not_before (time (authority d)))
   \<and> wf_party (issuer d) \<and> wf_party (subject d) \<and> wf_party (verification_method d)
   \<and> isCanonicalTimestamp (issued_at d) \<and> lower_hex 32 (nonce d) \<and> lower_hex 128 (signature d)
   \<and> wf_authority (authority d)"

lemmas facet_failure_defs = scope_failures_def spend_failures_def depth_failures_def
  time_failures_def reputation_failures_def values_failures_def reversibility_failures_def

section \<open>Accepted values read as well-formed records\<close>

lemma string_member_iff: "string_member m k ok \<longleftrightarrow> (\<exists>s. get_str m k = Some s \<and> ok s)"
  by (simp add: string_member_def split: option.splits)

lemma int_member_in_iff:
  "int_member_in m k lo hi \<longleftrightarrow> (\<exists>i. get_num m k = Some (of_int i) \<and> lo \<le> of_int i \<and> of_int i \<le> hi)"
  by (auto simp: int_member_in_def isInteger_iff split: option.splits)

lemma party_failures_Nil: "party_failures m k = [] \<longleftrightarrow> (\<exists>s. get_str m k = Some s \<and> wf_party s)"
  by (auto simp: party_failures_def wf_party_def split: option.splits if_splits)

lemma scope_failures_Nil:
  "scope_failures a = [] \<Longrightarrow> \<exists>sc gs. get_obj a ''scope'' = Some sc
     \<and> get_str sc ''profile'' = Some SCOPE_PROFILE_V1 \<and> get_strs sc ''grants'' = Some gs \<and> grantsAreCanonical gs"
  by (auto simp: scope_failures_def split: option.splits if_splits)

lemma spend_failures_Nil:
  assumes "spend_failures a = []"
  shows "\<exists>m s. get_obj a ''spend'' = Some m \<and> spend_of m = Some s \<and> wf_spend s"
proof -
  obtain m where m: "get_obj a ''spend'' = Some m"
    using assms by (cases "get_obj a ''spend''") (simp_all add: spend_failures_def)
  obtain md where md: "get_str m ''mode'' = Some md"
    using assms by (cases "get_str m ''mode''") (simp_all add: spend_failures_def m)
  show ?thesis
  proof (cases "md = ''unbounded''")
    case True
    then have "spend_of m = Some Unbounded" "wf_spend Unbounded"
      by (simp_all add: spend_of_def wf_spend_def md)
    with m show ?thesis by blast
  next
    case False
    with assms have "md = ''bounded''"
      by (simp add: spend_failures_def m md split: if_splits)
    with assms have mem: "string_member m ''unit'' isAdmissibleIdentifier"
      "string_member m ''per_action'' isCanonicalQuantity" "string_member m ''cumulative'' isCanonicalQuantity"
      and le: "\<not> BigInt (the (get_str m ''per_action'')) > BigInt (the (get_str m ''cumulative''))"
      by (simp_all add: spend_failures_def m md split: if_splits)
    from mem obtain u p c where "get_str m ''unit'' = Some u" "get_str m ''per_action'' = Some p"
      "get_str m ''cumulative'' = Some c" "isAdmissibleIdentifier u" "isCanonicalQuantity p" "isCanonicalQuantity c"
      unfolding string_member_iff by blast
    with False le have "spend_of m = Some (Bounded u p c)" "wf_spend (Bounded u p c)"
      by (simp_all add: spend_of_def wf_spend_def md)
    with m show ?thesis by blast
  qed
qed

lemma depth_failures_Nil:
  "depth_failures a = [] \<Longrightarrow>
   \<exists>m i. get_obj a ''depth'' = Some m \<and> get_num m ''remaining'' = Some (of_int i) \<and> i \<in> {0..255}"
  by (auto simp: depth_failures_def int_member_in_iff split: option.splits if_splits)

lemma time_failures_Nil:
  assumes "time_failures m a = []"
  shows "\<exists>t nb na. get_obj a ''time'' = Some t \<and> get_str t ''not_before'' = Some nb \<and> get_str t ''not_after'' = Some na
     \<and> isCanonicalTimestamp nb \<and> isCanonicalTimestamp na \<and> nb < na
     \<and> (get m ''parent_delegation_id'' \<noteq> Some JNull \<longrightarrow>
          string_member m ''issued_at'' isCanonicalTimestamp \<longrightarrow> the (get_str m ''issued_at'') \<le> nb)"
proof -
  obtain t where t: "get_obj a ''time'' = Some t"
    using assms by (cases "get_obj a ''time''") (simp_all add: time_failures_def)
  have mem: "string_member t ''not_before'' isCanonicalTimestamp"
      "string_member t ''not_after'' isCanonicalTimestamp"
    using assms by (simp_all add: time_failures_def t split: if_splits)
  then obtain nb na where n: "get_str t ''not_before'' = Some nb" "get_str t ''not_after'' = Some na"
    and c: "isCanonicalTimestamp nb" "isCanonicalTimestamp na"
    unfolding string_member_iff by blast
  have ord: "\<not> na \<le> nb" and iss: "\<not> (get m ''parent_delegation_id'' \<noteq> Some JNull
        \<and> string_member m ''issued_at'' isCanonicalTimestamp \<and> nb < the (get_str m ''issued_at''))"
    using assms by (simp_all add: time_failures_def t n split: if_splits)
  show ?thesis
    by (rule exI [of _ t], rule exI [of _ nb], rule exI [of _ na])
       (use t n c ord iss in \<open>auto simp: not_le not_less\<close>)
qed

lemma reputation_failures_Nil:
  "reputation_failures a = [] \<Longrightarrow>
   \<exists>m i. get_obj a ''reputation'' = Some m \<and> get_str m ''profile'' = Some REPUTATION_PROFILE_V1
     \<and> get_num m ''ceiling'' = Some (of_int i) \<and> i \<in> {0..100}"
  by (auto simp: reputation_failures_def int_member_in_iff split: option.splits if_splits)

lemma values_failures_Nil:
  "values_failures a = [] \<Longrightarrow>
   \<exists>m xs. get_obj a ''values'' = Some m \<and> get_str m ''profile'' = Some VALUES_PROFILE_V1
     \<and> get_strs m ''required'' = Some xs \<and> list_all isAdmissibleIdentifier xs \<and> strictly_ascending xs"
  by (auto simp: values_failures_def split: option.splits if_splits)

lemma reversibility_failures_Nil:
  "reversibility_failures a = [] \<Longrightarrow>
   \<exists>m c. get_obj a ''reversibility'' = Some m \<and> get_str m ''profile'' = Some REVERSIBILITY_PROFILE_V1
     \<and> get_str m ''ceiling'' = Some c \<and> c \<in> {''tentative'', ''compensable'', ''irreversible''}"
  by (simp add: reversibility_failures_def string_member_iff split: option.splits if_splits)

lemma authority_failures_Nil:
  assumes "authority_failures m = []"
  shows "\<exists>am a. get_obj m ''authority'' = Some am \<and> authority_of am = Some a \<and> wf_authority a
    \<and> (get m ''parent_delegation_id'' \<noteq> Some JNull \<longrightarrow>
        string_member m ''issued_at'' isCanonicalTimestamp \<longrightarrow>
        the (get_str m ''issued_at'') \<le> not_before (time a))"
proof -
  from assms obtain am where am: "get_obj m ''authority'' = Some am"
    and parts: "scope_failures am = []" "spend_failures am = []" "depth_failures am = []"
      "time_failures m am = []" "reputation_failures am = []" "values_failures am = []"
      "reversibility_failures am = []"
    by (auto simp: authority_failures_def split: option.splits if_splits)
  note f = scope_failures_Nil [OF parts(1)] spend_failures_Nil [OF parts(2)]
    depth_failures_Nil [OF parts(3)] time_failures_Nil [OF parts(4)]
    reputation_failures_Nil [OF parts(5)] values_failures_Nil [OF parts(6)]
    reversibility_failures_Nil [OF parts(7)]
  from f have "\<exists>a. authority_of am = Some a \<and> wf_authority a
    \<and> (get m ''parent_delegation_id'' \<noteq> Some JNull \<longrightarrow>
        string_member m ''issued_at'' isCanonicalTimestamp \<longrightarrow>
        the (get_str m ''issued_at'') \<le> not_before (time a))"
    by (elim exE conjE) (simp add: authority_of_def wf_authority_def)
  with am show ?thesis by blast
qed

lemma validate_Nil_decodes:
  assumes "validateAuthorityDelegationShape j = []"
  shows "\<exists>d. delegation_of j = Some d \<and> wf_delegation d"
proof -
  from assms obtain m where m: "as_obj j = Some m"
    and rt: "get_str m ''record_type'' = Some AUTHORITY_DELEGATION_RECORD_TYPE"
    and ver: "get_str m ''version'' = Some AUTHORITY_DELEGATION_VERSION"
    and hd: "header_failures m = []" and au: "authority_failures m = []"
    by (auto simp: validateAuthorityDelegationShape_def split: option.splits if_splits)
  from hd have parent: "get m ''parent_delegation_id'' = Some JNull
      \<or> string_member m ''parent_delegation_id'' is_delegation_id"
    by (auto simp: header_failures_def split: if_splits)
  from hd have str: "string_member m ''delegation_id'' is_delegation_id"
      "string_member m ''issued_at'' isCanonicalTimestamp" "string_member m ''nonce'' (lower_hex 32)"
      "string_member m ''signature'' (lower_hex 128)"
    by (simp_all add: header_failures_def split: if_splits)
  from hd have par: "\<exists>s. get_str m ''issuer'' = Some s \<and> wf_party s"
      "\<exists>s. get_str m ''subject'' = Some s \<and> wf_party s"
      "\<exists>s. get_str m ''verification_method'' = Some s \<and> wf_party s"
    by (simp_all add: header_failures_def party_failures_Nil)
  from parent have pcase: "get_str m ''parent_delegation_id'' = None \<or>
      (\<exists>p. get_str m ''parent_delegation_id'' = Some p \<and> is_delegation_id p
        \<and> get m ''parent_delegation_id'' \<noteq> Some JNull)"
    by (auto simp: string_member_iff get_str_def)
  from authority_failures_Nil [OF au] str par rt ver m pcase show ?thesis
    unfolding string_member_iff
    by (elim exE conjE) (auto simp: delegation_of_def wf_delegation_def)
qed

section \<open>The I-JSON walk\<close>

text \<open>What the explicit-stack walk decides, by recursion over the value.\<close>

fun strings_ijson :: "json \<Rightarrow> bool" where
  "strings_ijson (JArr xs) = list_all (\<lambda>x. memberIsIJSON x \<and> strings_ijson x) xs"
| "strings_ijson (JObj kvs) =
     list_all (\<lambda>kv. isIJSONString (fst kv) \<and> memberIsIJSON (snd kv) \<and> strings_ijson (snd kv)) kvs"
| "strings_ijson _ = True"

lemma strings_ijson_leaf: "\<not> is_container j \<Longrightarrow> strings_ijson j"
  by (cases j) auto

lemma containers_suffice:
  "list_all strings_ijson (rev (filter is_container xs)) \<longleftrightarrow> list_all strings_ijson xs"
  unfolding list_all_iff using strings_ijson_leaf by auto

lemma ijson_walk_iff: "ijson_walk stack \<longleftrightarrow> list_all strings_ijson stack"
proof (induction stack rule: ijson_walk.induct)
  case (2 xs stack)
  have "strings_ijson (JArr xs) \<longleftrightarrow> list_all memberIsIJSON xs \<and> list_all strings_ijson xs"
    by (auto simp: list_all_iff)
  with 2 containers_suffice [of xs] show ?case by simp
next
  case (3 kvs stack)
  have "strings_ijson (JObj kvs) \<longleftrightarrow>
      list_all (\<lambda>(k, v). isIJSONString k \<and> memberIsIJSON v) kvs \<and> list_all strings_ijson (map snd kvs)"
    by (auto simp: list_all_iff)
  with 3 containers_suffice [of "map snd kvs"] show ?case by simp
qed auto

text \<open>UTF-16 encoding of one Unicode code point.\<close>

definition utf16 :: "nat \<Rightarrow> nat list" where
  "utf16 cp = (if cp < 0x10000 then [cp]
     else [0xd800 + (cp - 0x10000) div 0x400, 0xdc00 + (cp - 0x10000) mod 0x400])"

definition ijson_code_point :: "nat \<Rightarrow> bool" where
  "ijson_code_point cp \<longleftrightarrow> cp \<le> 0x10ffff \<and> \<not> (0xd800 \<le> cp \<and> cp \<le> 0xdfff) \<and> \<not> is_noncharacter cp"

lemma isIJSONUnits_utf16:
  assumes "ijson_code_point cp"
  shows "isIJSONUnits (utf16 cp @ us) = isIJSONUnits us"
proof (cases "cp < 0x10000")
  case True
  with assms show ?thesis by (auto simp: utf16_def ijson_code_point_def)
next
  case False
  let ?hi = "0xd800 + (cp - 0x10000) div 0x400" and ?lo = "0xdc00 + (cp - 0x10000) mod 0x400"
  from False assms have hi: "0xd800 \<le> ?hi" "?hi \<le> 0xdbff" and lo: "0xdc00 \<le> ?lo" "?lo \<le> 0xdfff"
    by (auto simp: ijson_code_point_def)
  have "(?hi - 0xd800) * 0x400 + (?lo - 0xdc00) + 0x10000 = cp"
    using False by (simp add: div_mult_mod_eq)
  with False hi lo assms show ?thesis
    by (simp add: utf16_def ijson_code_point_def)
qed

lemma isIJSONUnits_decodes:
  "\<forall>u \<in> set us. u < 0x10000 \<Longrightarrow> isIJSONUnits us \<Longrightarrow>
   \<exists>cps. us = concat (map utf16 cps) \<and> list_all ijson_code_point cps"
proof (induction us rule: isIJSONUnits.induct)
  case 1
  then show ?case by (intro exI [of _ "[]"]) simp
next
  case (2 u rest)
  show ?case
  proof (cases "0xd800 \<le> u \<and> u \<le> 0xdbff")
    case True
    with "2.prems" obtain v rest' where r: "rest = v # rest'" and v: "0xdc00 \<le> v" "v \<le> 0xdfff"
      and nc: "\<not> is_noncharacter ((u - 0xd800) * 0x400 + (v - 0xdc00) + 0x10000)"
      and ok: "isIJSONUnits rest'"
      by (auto split: list.splits if_splits)
    let ?cp = "(u - 0xd800) * 0x400 + (v - 0xdc00) + 0x10000"
    have "?cp - 0x10000 = (v - 0xdc00) + (u - 0xd800) * 0x400" by simp
    moreover from v have "v - 0xdc00 < 0x400" by arith
    ultimately have split: "(?cp - 0x10000) div 0x400 = u - 0xd800" "(?cp - 0x10000) mod 0x400 = v - 0xdc00"
      by simp_all
    from True v nc have cp: "ijson_code_point ?cp" by (auto simp: ijson_code_point_def)
    have enc: "utf16 ?cp = [u, v]"
      using True v unfolding utf16_def split by auto
    from "2.IH"(1) [OF True r] v nc ok "2.prems" r
    obtain cps where "rest' = concat (map utf16 cps)" "list_all ijson_code_point cps" by auto
    with r cp enc show ?thesis by (intro exI [of _ "?cp # cps"]) simp
  next
    case False
    with "2.prems" have u: "\<not> (0xdc00 \<le> u \<and> u \<le> 0xdfff)" "\<not> is_noncharacter u" "isIJSONUnits rest"
      by (auto split: if_splits)
    with "2.IH"(2) [OF False] "2.prems" obtain cps
      where "rest = concat (map utf16 cps)" "list_all ijson_code_point cps" by auto
    moreover from False u "2.prems" have "ijson_code_point u" "utf16 u = [u]"
      by (auto simp: ijson_code_point_def utf16_def)
    ultimately show ?thesis by (intro exI [of _ "u # cps"]) simp
  qed
qed

lemma isIJSONUnits_encode: "list_all ijson_code_point cps \<Longrightarrow> isIJSONUnits (concat (map utf16 cps))"
  by (induction cps) (auto simp: isIJSONUnits_utf16 simp del: isIJSONUnits.simps(2))

lemma isIJSONString_latin1 [simp]: "isIJSONString s"
proof -
  have "isIJSONUnits us" if "\<forall>u \<in> set us. u < 256" for us
    using that by (induction us rule: isIJSONUnits.induct) (auto simp: is_noncharacter_def)
  from this [of "map of_char s"] show ?thesis
    by (auto simp: isIJSONString_def)
qed

lemma strings_ijson_plain: "plain j \<Longrightarrow> strings_ijson j \<and> memberIsIJSON j"
  by (induction j rule: plain.induct) (auto simp: list_all_iff)

section \<open>The check accepts exactly the well-formed records\<close>

lemma plain_authority [simp]: "plain (json_of_authority a)"
  by (cases "spend a") (auto simp: json_of_authority_def json_of_spend_def list_all_iff)

lemma plain_delegation: "plain (json_of_delegation d)"
  by (cases "parent_delegation_id d") (simp_all add: json_of_delegation_def body_members_def)

lemma exactKeys_top:
  "exactKeys (body_members d @ [(''delegation_id'', x), (''signature'', y)]) TOP_KEYS"
  by (simp add: exactKeys_def body_members_def TOP_KEYS_def)

lemma header_failures_wf:
  assumes "wf_delegation d"
  shows "header_failures (body_members d @ [(''delegation_id'', JStr (delegation_id d)), (''signature'', JStr (signature d))]) = []"
    (is "header_failures ?m = []")
proof -
  have ij: "recordStringsAreIJSON ?m"
    using strings_ijson_plain [OF plain_delegation [of d]]
    by (simp add: recordStringsAreIJSON_def ijson_walk_iff json_of_delegation_def)
  have str: "get_str ?m ''delegation_id'' = Some (delegation_id d)" "get_str ?m ''issued_at'' = Some (issued_at d)"
      "get_str ?m ''nonce'' = Some (nonce d)" "get_str ?m ''signature'' = Some (signature d)"
      "get_str ?m ''issuer'' = Some (issuer d)" "get_str ?m ''subject'' = Some (subject d)"
      "get_str ?m ''verification_method'' = Some (verification_method d)"
    by (simp_all add: body_members_def get_defs)
  have par: "get ?m ''parent_delegation_id'' = Some JNull \<or> string_member ?m ''parent_delegation_id'' is_delegation_id"
    using assms by (cases "parent_delegation_id d")
      (simp_all add: body_members_def get_defs string_member_iff wf_delegation_def)
  have parties: "party_failures ?m ''issuer'' = []" "party_failures ?m ''subject'' = []"
      "party_failures ?m ''verification_method'' = []"
    using assms by (simp_all add: party_failures_Nil str wf_delegation_def)
  have mem: "string_member ?m ''delegation_id'' is_delegation_id" "string_member ?m ''issued_at'' isCanonicalTimestamp"
      "string_member ?m ''nonce'' (lower_hex 32)" "string_member ?m ''signature'' (lower_hex 128)"
    using assms by (simp_all add: string_member_iff str wf_delegation_def)
  show ?thesis unfolding header_failures_def parties using ij par mem by simp
qed

lemma authority_members:
  "\<exists>am. json_of_authority a = JObj am"
  by (simp add: json_of_authority_def)

lemma facet_failures_wf:
  assumes "wf_authority a" and am: "json_of_authority a = JObj am"
  shows "scope_failures am = []" "spend_failures am = []" "depth_failures am = []"
    "reputation_failures am = []" "values_failures am = []" "reversibility_failures am = []"
proof -
  note g = am [symmetric, unfolded json_of_authority_def json.inject] get_defs exactKeys_def
    get_strs_JStr [unfolded get_def] string_member_iff int_member_in_iff
  from assms(1) show "scope_failures am = []"
    by (simp add: scope_failures_def g wf_authority_def)
  from assms(1) show "spend_failures am = []"
    by (cases "spend a") (simp_all add: spend_failures_def g wf_authority_def json_of_spend_def wf_spend_def)
  from assms(1) show "depth_failures am = []"
    by (simp add: depth_failures_def g wf_authority_def)
  from assms(1) show "reputation_failures am = []"
    by (simp add: reputation_failures_def g wf_authority_def)
  from assms(1) show "values_failures am = []"
    by (simp add: values_failures_def g wf_authority_def)
  from assms(1) show "reversibility_failures am = []"
    by (auto simp: reversibility_failures_def g wf_authority_def)
qed

lemma time_failures_wf:
  assumes "wf_delegation d" and am: "json_of_authority (authority d) = JObj am"
  shows "time_failures (body_members d @ rest) am = []"
proof -
  have t: "get_obj am ''time'' = Some [(''not_before'', JStr (not_before (time (authority d)))),
      (''not_after'', JStr (not_after (time (authority d))))]"
    by (simp add: am [symmetric, unfolded json_of_authority_def json.inject] get_defs)
  have iss: "get_str (body_members d @ rest) ''issued_at'' = Some (issued_at d)"
    by (simp add: body_members_def get_defs)
  have par: "get (body_members d @ rest) ''parent_delegation_id'' =
      Some (case parent_delegation_id d of None \<Rightarrow> JNull | Some p \<Rightarrow> JStr p)"
    by (simp add: body_members_def get_defs)
  have tm: "get_str [(''not_before'', JStr x), (''not_after'', JStr y)] ''not_before'' = Some x"
      "get_str [(''not_before'', JStr x), (''not_after'', JStr y)] ''not_after'' = Some y" for x y
    by (simp_all add: get_defs)
  have tk: "exactKeys [(''not_before'', x), (''not_after'', y)] [''not_before'', ''not_after'']" for x y
    by (simp add: exactKeys_def)
  from assms(1) show ?thesis
    by (cases "parent_delegation_id d")
       (simp_all add: time_failures_def t iss par tm tk string_member_iff
         wf_delegation_def wf_authority_def not_le not_less)
qed

lemma validate_complete:
  assumes "wf_delegation d"
  shows "validateAuthorityDelegationShape (json_of_delegation d) = []"
proof -
  let ?m = "body_members d @ [(''delegation_id'', JStr (delegation_id d)), (''signature'', JStr (signature d))]"
  obtain am where am: "json_of_authority (authority d) = JObj am" using authority_members by blast
  from assms have wa: "wf_authority (authority d)" by (simp add: wf_delegation_def)
  have keys: "exactKeys am [''scope'', ''spend'', ''depth'', ''time'', ''reputation'', ''values'', ''reversibility'']"
    by (simp add: am [symmetric, unfolded json_of_authority_def json.inject] exactKeys_def)
  have "get_obj ?m ''authority'' = Some am"
    by (simp add: body_members_def get_defs am)
  then have "authority_failures ?m = []"
    using keys facet_failures_wf [OF wa am] time_failures_wf [OF assms am]
    by (simp add: authority_failures_def)
  moreover have "get_str ?m ''record_type'' = Some (record_type d)" "get_str ?m ''version'' = Some (version d)"
    by (simp_all add: body_members_def get_defs)
  ultimately show ?thesis
    using assms header_failures_wf [OF assms] exactKeys_top [of d]
    by (simp add: validateAuthorityDelegationShape_def json_of_delegation_def wf_delegation_def)
qed

lemma validate_iff_wf: "validateAuthorityDelegationShape (json_of_delegation d) = [] \<longleftrightarrow> wf_delegation d"
proof
  assume "validateAuthorityDelegationShape (json_of_delegation d) = []"
  from validate_Nil_decodes [OF this] show "wf_delegation d"
    unfolding delegation_roundtrip by blast
qed (rule validate_complete)

section \<open>String order on canonical timestamps is calendar order\<close>

definition digit_groups :: "string \<Rightarrow> string list" where
  "digit_groups s = [take 4 s, take 2 (drop 5 s), take 2 (drop 8 s), take 2 (drop 11 s),
     take 2 (drop 14 s), take 2 (drop 17 s), take 3 (drop 20 s)]"

lemma timestamp_parts_groups: "timestamp_parts s = map num_of (digit_groups s)"
  by (simp add: timestamp_parts_def digit_groups_def)

lemma list24:
  assumes "length s = 24"
  shows "s = take 4 s @ [s ! 4] @ take 2 (drop 5 s) @ [s ! 7] @ take 2 (drop 8 s) @ [s ! 10]
    @ take 2 (drop 11 s) @ [s ! 13] @ take 2 (drop 14 s) @ [s ! 16] @ take 2 (drop 17 s) @ [s ! 19]
    @ take 3 (drop 20 s) @ [s ! 23]"
proof -
  have step: "drop i s = take k (drop i s) @ [s ! (i + k)] @ drop (Suc (i + k)) s" if "i + k < 24" for i k
    using that assms append_take_drop_id [of k "drop i s"] Cons_nth_drop_Suc [of "i + k" s]
    by (metis add.commute append_Cons append_Nil drop_drop)
  show ?thesis
    using step [of 0 4] step [of 5 2] step [of 8 2] step [of 11 2] step [of 14 2] step [of 17 2]
      step [of 20 3] assms
    by simp
qed

lemma shape_groups:
  assumes "timestamp_shape s"
  shows "length s = 24" "map length (digit_groups s) = [4, 2, 2, 2, 2, 2, 3]"
    "list_all (list_all isDigit) (digit_groups s)"
  using assms by (simp_all add: timestamp_shape_def digit_groups_def)

lemma shape_less_groups:
  assumes "timestamp_shape s" "timestamp_shape t"
  shows "s < t \<longleftrightarrow> digit_groups s < digit_groups t"
proof -
  have sep: "x @ c # y < x' @ c # y' \<longleftrightarrow> x < x' \<or> x = x' \<and> y < y'" if "length x = length x'"
    for x x' y y' and c :: char
    using that by (simp add: lex_append_iff)
  have len: "length s = 24" "length t = 24" using assms by (simp_all add: timestamp_shape_def)
  show ?thesis
    by (subst list24 [OF len(1)], subst list24 [OF len(2)])
       (use assms in \<open>simp add: timestamp_shape_def digit_groups_def sep\<close>)
qed

lemma map_num_of_less:
  assumes "map length xs = map length ys" "list_all (list_all isDigit) xs" "list_all (list_all isDigit) ys"
  shows "map num_of xs < map num_of ys \<longleftrightarrow> xs < ys"
proof -
  have "length xs = length ys" using assms(1) by (rule map_eq_imp_length_eq)
  then show ?thesis using assms
    by (induction xs ys rule: list_induct2) (auto simp: num_of_less_iff dest: num_of_inj)
qed

lemma timestamp_less_iff:
  assumes "timestamp_shape s" "timestamp_shape t"
  shows "s < t \<longleftrightarrow> timestamp_parts s < timestamp_parts t"
  unfolding shape_less_groups [OF assms] timestamp_parts_groups
  by (rule map_num_of_less [symmetric]) (simp_all add: shape_groups assms)

lemma canonical_timestamp_shape: "isCanonicalTimestamp s \<Longrightarrow> timestamp_shape s"
  by (auto simp: isCanonicalTimestamp_def CANONICAL_TIMESTAMP_def Let_def split: option.splits if_splits)

lemma canonical_less_iff:
  "isCanonicalTimestamp s \<Longrightarrow> isCanonicalTimestamp t \<Longrightarrow> s < t \<longleftrightarrow> timestamp_parts s < timestamp_parts t"
  by (intro timestamp_less_iff canonical_timestamp_shape)

end
