(* ===== verification/Authority_Compare.thy ===== *)
theory Authority_Compare
  imports Authority_Schema
begin

text \<open>
  \<^verbatim>\<open>src/v2/authority-delegation/compare.ts\<close>: the seven-facet comparison of a child
  authority with its immediate parent.  The theory states the attenuation order the
  comparison decides, shows that the two agree on well-formed vectors, and that the order
  composes, so that a chain whose neighbours narrow narrows end to end.
\<close>

section \<open>The comparison\<close>

text \<open>
  \<open>REVERSIBILITY_RANK\<close> is an object literal, so an index that is not one of its three own
  keys still finds the members every object inherits.  \<open>Inherited s\<close> is such a member,
  with the string it converts to in a relational comparison.
\<close>

datatype rank_value = Rank int | Inherited string

definition native_function :: "string \<Rightarrow> string" where
  "native_function name = ''function '' @ name @ ''() { [native code] }''"

definition object_prototype_members :: "(string \<times> string) list" where
  "object_prototype_members =
     [(''constructor'', native_function ''Object''), (''__proto__'', ''[object Object]'')]
   @ map (\<lambda>n. (n, native_function n))
       [''__defineGetter__'', ''__defineSetter__'', ''hasOwnProperty'', ''__lookupGetter__'',
        ''__lookupSetter__'', ''isPrototypeOf'', ''propertyIsEnumerable'', ''toString'',
        ''valueOf'', ''toLocaleString'']"

definition REVERSIBILITY_RANK :: "(string \<times> rank_value) list" where
  "REVERSIBILITY_RANK = [(''tentative'', Rank 0), (''compensable'', Rank 1), (''irreversible'', Rank 2)]"

definition reversibilityRank :: "string \<Rightarrow> rank_value option" where
  "reversibilityRank c =
     (case map_of REVERSIBILITY_RANK c of
        Some r \<Rightarrow> Some r
      | None \<Rightarrow> map_option Inherited (map_of object_prototype_members c))"

text \<open>The operator \<open>>\<close>: two numbers by value, two converted strings by code units, and a
  number against such a string is a comparison with \<open>NaN\<close>.\<close>

fun rank_gt :: "rank_value \<Rightarrow> rank_value \<Rightarrow> bool" where
  "rank_gt (Rank a) (Rank b) = (a > b)"
| "rank_gt (Inherited s) (Inherited t) = (s > t)"
| "rank_gt _ _ = False"

definition fail :: "AuthorityFailureCode \<Rightarrow> FacetName \<Rightarrow> string \<Rightarrow> AuthorityFailure" where
  "fail c f msg = \<lparr>failure_code = c, message = msg, failure_index = None, facet = Some f\<rparr>"

definition compare_scope :: "ScopeFacetV1 \<Rightarrow> ScopeFacetV1 \<Rightarrow> AuthorityFailure list" where
  "compare_scope p c =
     (if scope_profile c \<noteq> scope_profile p
      then [fail UNSUPPORTED_PROFILE Facet_scope ''scope profile changes are incomparable'']
      else if \<not> scopeNarrows (grants p) (grants c)
      then [fail SCOPE_WIDENING Facet_scope ''child scope is not covered by parent scope'']
      else [])"

definition compare_spend :: "SpendFacetV1 \<Rightarrow> SpendFacetV1 \<Rightarrow> AuthorityFailure list" where
  "compare_spend p c =
     (case p of Unbounded \<Rightarrow> []
      | Bounded pu pp pc \<Rightarrow>
          (case c of
             Unbounded \<Rightarrow> [fail SPEND_WIDENING Facet_spend ''bounded parent cannot produce unbounded child'']
           | Bounded cu cp cc \<Rightarrow>
               if cu \<noteq> pu then [fail SPEND_UNIT_CHANGE Facet_spend ''bounded spend unit must remain exact'']
               else if BigInt cp > BigInt pp \<or> BigInt cc > BigInt pc
               then [fail SPEND_WIDENING Facet_spend ''child spend limits exceed parent limits'']
               else []))"

definition compare_depth :: "DepthFacetV1 \<Rightarrow> DepthFacetV1 \<Rightarrow> AuthorityFailure list" where
  "compare_depth p c =
     (if remaining p = 0 then [fail DEPTH_EXHAUSTED Facet_depth ''parent has no remaining delegation hop'']
      else if remaining c > remaining p - 1
      then [fail DEPTH_WIDENING Facet_depth ''child remaining depth must consume at least one hop'']
      else [])"

definition compare_time :: "TimeFacetV1 \<Rightarrow> TimeFacetV1 \<Rightarrow> AuthorityFailure list" where
  "compare_time p c =
     (if not_before c < not_before p \<or> not_after c > not_after p
      then [fail TIME_WIDENING Facet_time ''child validity window is not contained in parent window'']
      else [])"

definition compare_reputation :: "ReputationFacetV1 \<Rightarrow> ReputationFacetV1 \<Rightarrow> AuthorityFailure list" where
  "compare_reputation p c =
     (if reputation_profile c \<noteq> reputation_profile p
      then [fail UNSUPPORTED_PROFILE Facet_reputation ''reputation profile changes are incomparable'']
      else if reputation_ceiling c > reputation_ceiling p
      then [fail REPUTATION_WIDENING Facet_reputation ''child reputation ceiling exceeds parent'']
      else [])"

definition compare_values :: "ValuesFacetV1 \<Rightarrow> ValuesFacetV1 \<Rightarrow> AuthorityFailure list" where
  "compare_values p c =
     (if values_profile c \<noteq> values_profile p
      then [fail UNSUPPORTED_PROFILE Facet_values ''values profile changes are incomparable'']
      else if list_ex (\<lambda>i. i \<notin> set (required c)) (required p)
      then [fail VALUES_WEAKENING Facet_values ''child removed an ancestor-required value identifier'']
      else [])"

definition compare_reversibility ::
  "ReversibilityFacetV1 \<Rightarrow> ReversibilityFacetV1 \<Rightarrow> AuthorityFailure list" where
  "compare_reversibility p c =
     (if reversibility_profile c \<noteq> reversibility_profile p
      then [fail UNSUPPORTED_PROFILE Facet_reversibility ''reversibility profile changes are incomparable'']
      else (case (reversibilityRank (reversibility_ceiling c), reversibilityRank (reversibility_ceiling p)) of
          (Some rc, Some rp) \<Rightarrow>
            if rank_gt rc rp
            then [fail REVERSIBILITY_WIDENING Facet_reversibility ''child reversibility ceiling exceeds parent'']
            else []
        | _ \<Rightarrow> [fail REVERSIBILITY_WIDENING Facet_reversibility ''child reversibility ceiling exceeds parent'']))"

definition compareAuthority :: "AuthorityVectorV1 \<Rightarrow> AuthorityVectorV1 \<Rightarrow> AuthorityFailure list" where
  "compareAuthority parent child =
     compare_scope (scope parent) (scope child)
   @ compare_spend (spend parent) (spend child)
   @ compare_depth (depth parent) (depth child)
   @ compare_time (time parent) (time child)
   @ compare_reputation (reputation parent) (reputation child)
   @ compare_values (values_facet parent) (values_facet child)
   @ compare_reversibility (reversibility parent) (reversibility child)"

lemmas compare_defs = compare_scope_def compare_spend_def compare_depth_def compare_time_def
  compare_reputation_def compare_values_def compare_reversibility_def

section \<open>The attenuation order\<close>

fun reversibility_level :: "string \<Rightarrow> nat" where
  "reversibility_level c = (if c = ''tentative'' then 0 else if c = ''compensable'' then 1 else 2)"

definition spend_within :: "SpendFacetV1 \<Rightarrow> SpendFacetV1 \<Rightarrow> bool" where
  "spend_within p c = (case p of Unbounded \<Rightarrow> True
     | Bounded pu pp pc \<Rightarrow> (\<exists>cp cc. c = Bounded pu cp cc \<and> BigInt cp \<le> BigInt pp \<and> BigInt cc \<le> BigInt pc))"

text \<open>\<open>narrows p c\<close>: authority \<open>c\<close> is no wider than \<open>p\<close> in any facet and one hop shorter.\<close>

definition narrows :: "AuthorityVectorV1 \<Rightarrow> AuthorityVectorV1 \<Rightarrow> bool" where
  "narrows p c \<longleftrightarrow>
     scopeNarrowsPairwise (grants (scope p)) (grants (scope c))
   \<and> spend_within (spend p) (spend c)
   \<and> remaining (depth c) < remaining (depth p)
   \<and> not_before (time p) \<le> not_before (time c) \<and> not_after (time c) \<le> not_after (time p)
   \<and> reputation_ceiling (reputation c) \<le> reputation_ceiling (reputation p)
   \<and> set (required (values_facet p)) \<subseteq> set (required (values_facet c))
   \<and> reversibility_level (reversibility_ceiling (reversibility c))
       \<le> reversibility_level (reversibility_ceiling (reversibility p))"

lemma compare_scope_Nil:
  "scope_profile p = scope_profile c \<Longrightarrow>
   compare_scope p c = [] \<longleftrightarrow> scopeNarrowsPairwise (grants p) (grants c)"
  by (simp add: compare_scope_def scopeNarrows_iff)

lemma compare_spend_Nil: "compare_spend p c = [] \<longleftrightarrow> spend_within p c"
  by (cases p; cases c) (auto simp: compare_spend_def spend_within_def)

lemma compare_depth_Nil:
  "0 \<le> remaining p \<Longrightarrow> 0 \<le> remaining c \<Longrightarrow> compare_depth p c = [] \<longleftrightarrow> remaining c < remaining p"
  by (auto simp: compare_depth_def)

lemma compare_time_Nil:
  "compare_time p c = [] \<longleftrightarrow> not_before p \<le> not_before c \<and> not_after c \<le> not_after p"
  by (auto simp: compare_time_def not_less)

lemma compare_reputation_Nil:
  "reputation_profile p = reputation_profile c \<Longrightarrow>
   compare_reputation p c = [] \<longleftrightarrow> reputation_ceiling c \<le> reputation_ceiling p"
  by (auto simp: compare_reputation_def)

lemma compare_values_Nil:
  "values_profile p = values_profile c \<Longrightarrow>
   compare_values p c = [] \<longleftrightarrow> set (required p) \<subseteq> set (required c)"
  by (auto simp: compare_values_def list_ex_iff)

lemma reversibilityRank_own:
  "c \<in> {''tentative'', ''compensable'', ''irreversible''} \<Longrightarrow>
   reversibilityRank c = Some (Rank (int (reversibility_level c)))"
  by (auto simp: reversibilityRank_def REVERSIBILITY_RANK_def)

lemma compare_reversibility_Nil:
  assumes "reversibility_profile p = reversibility_profile c"
    and "reversibility_ceiling p \<in> {''tentative'', ''compensable'', ''irreversible''}"
    and "reversibility_ceiling c \<in> {''tentative'', ''compensable'', ''irreversible''}"
  shows "compare_reversibility p c = [] \<longleftrightarrow>
    reversibility_level (reversibility_ceiling c) \<le> reversibility_level (reversibility_ceiling p)"
  unfolding compare_reversibility_def reversibilityRank_own [OF assms(2)] reversibilityRank_own [OF assms(3)]
  by (simp add: assms(1) del: reversibility_level.simps)

lemma compareAuthority_Nil_iff:
  assumes p: "wf_authority p" and c: "wf_authority c"
  shows "compareAuthority p c = [] \<longleftrightarrow> narrows p c"
proof -
  have prof: "scope_profile (scope p) = scope_profile (scope c)"
    "reputation_profile (reputation p) = reputation_profile (reputation c)"
    "values_profile (values_facet p) = values_profile (values_facet c)"
    "reversibility_profile (reversibility p) = reversibility_profile (reversibility c)"
    and dep: "0 \<le> remaining (depth p)" "0 \<le> remaining (depth c)"
    and rev: "reversibility_ceiling (reversibility p) \<in> {''tentative'', ''compensable'', ''irreversible''}"
      "reversibility_ceiling (reversibility c) \<in> {''tentative'', ''compensable'', ''irreversible''}"
    using p c by (simp_all add: wf_authority_def)
  show ?thesis
    unfolding compareAuthority_def narrows_def append_is_Nil_conv compare_scope_Nil [OF prof(1)]
      compare_spend_Nil compare_depth_Nil [OF dep] compare_time_Nil compare_reputation_Nil [OF prof(2)]
      compare_values_Nil [OF prof(3)] compare_reversibility_Nil [OF prof(4) rev]
    by blast
qed

section \<open>Attenuation as an interface\<close>

text \<open>
  What the chain verifier needs from a comparison: it composes from well-formed ancestors.
  Then neighbours that narrow give narrowing between any two members; and when each step
  also consumes a unit of a non-negative budget, the chain is no longer than the budget.
\<close>

locale attenuation =
  fixes wf :: "'a \<Rightarrow> bool" and le :: "'a \<Rightarrow> 'a \<Rightarrow> bool"
  assumes compose: "wf a \<Longrightarrow> le a b \<Longrightarrow> le b c \<Longrightarrow> le a c"
begin

lemma between:
  assumes "\<forall>x \<in> set xs. wf x" and "\<forall>k. Suc k < length xs \<longrightarrow> le (xs ! k) (xs ! Suc k)"
    and "i < j" and "j < length xs"
  shows "le (xs ! i) (xs ! j)"
  using assms(3,4)
proof (induction j)
  case 0
  then show ?case by simp
next
  case (Suc j)
  have step: "le (xs ! j) (xs ! Suc j)" using assms(2) Suc.prems by simp
  show ?case
  proof (cases "i = j")
    case True
    with step show ?thesis by simp
  next
    case False
    with Suc have "le (xs ! i) (xs ! j)" by simp
    moreover have "wf (xs ! i)" using assms(1) Suc.prems by simp
    ultimately show ?thesis using step compose by blast
  qed
qed

end

locale metered_attenuation = attenuation +
  fixes hops :: "'a \<Rightarrow> int"
  assumes consumes: "le a b \<Longrightarrow> hops b < hops a"
    and nonneg: "wf a \<Longrightarrow> 0 \<le> hops a"
begin

lemma hops_descend:
  assumes "\<forall>k. Suc k < length xs \<longrightarrow> le (xs ! k) (xs ! Suc k)" and "k < length xs"
  shows "hops (xs ! k) + int k \<le> hops (xs ! 0)"
  using assms(2)
proof (induction k)
  case 0
  then show ?case by simp
next
  case (Suc k)
  with assms(1) have "hops (xs ! Suc k) < hops (xs ! k)" by (blast intro: consumes)
  with Suc show ?case by simp
qed

lemma length_bound:
  assumes "\<forall>x \<in> set xs. wf x" and "\<forall>k. Suc k < length xs \<longrightarrow> le (xs ! k) (xs ! Suc k)" and "xs \<noteq> []"
  shows "int (length xs) \<le> hops (xs ! 0) + 1"
proof -
  let ?k = "length xs - 1"
  have k: "?k < length xs" using assms(3) by simp
  have "0 \<le> hops (xs ! ?k)" using assms(1) k nonneg by simp
  with hops_descend [OF assms(2) k] show ?thesis by simp
qed

end

lemma spend_within_trans: "spend_within a b \<Longrightarrow> spend_within b c \<Longrightarrow> spend_within a c"
  by (cases a; cases b; cases c) (auto simp: spend_within_def)

lemma narrows_trans:
  assumes "wf_authority a" "narrows a b" "narrows b c"
  shows "narrows a c"
proof -
  have "list_all isValidScopeGrant (grants (scope a))"
    using assms(1) canonical_valid by (simp add: wf_authority_def)
  then have "scopeNarrowsPairwise (grants (scope a)) (grants (scope c))"
    using assms(2,3) scopeNarrows_trans unfolding narrows_def scopeNarrows_iff by blast
  moreover have "spend_within (spend a) (spend c)"
    using assms(2,3) spend_within_trans unfolding narrows_def by blast
  ultimately show ?thesis
    using assms(2,3) unfolding narrows_def by (meson dual_order.trans less_trans order_trans subset_trans)
qed

interpretation authority_order: metered_attenuation wf_authority narrows "\<lambda>a. remaining (depth a)"
proof
  show "wf_authority a \<Longrightarrow> narrows a b \<Longrightarrow> narrows b c \<Longrightarrow> narrows a c" for a b c
    by (rule narrows_trans)
  show "narrows a b \<Longrightarrow> remaining (depth b) < remaining (depth a)" for a b
    by (simp add: narrows_def)
  show "wf_authority a \<Longrightarrow> 0 \<le> remaining (depth a)" for a
    by (simp add: wf_authority_def)
qed

end
