(* ===== verification/Authority_Verify.thy ===== *)
theory Authority_Verify
  imports Authority_Compare
begin

text \<open>
  \<^verbatim>\<open>src/v2/authority-delegation/canonical.ts\<close> and \<^verbatim>\<open>verify.ts\<close>: content addresses and
  signatures of delegation records, and the root-to-leaf chain verifier as the sequence of
  phases the code runs, each over the whole chain, the first failing phase deciding the
  result.

  SHA-256, Ed25519 and the decimal form of non-integers are not code of the repository;
  they are the fields of \<open>crypto\<close>, an argument of every definition that uses them.
\<close>

section \<open>Content address and signature\<close>

record crypto =
  sha256Hex :: "string \<Rightarrow> string"
  ed25519_sign :: "string \<Rightarrow> string \<Rightarrow> string"
  ed25519_verify :: "string \<Rightarrow> string \<Rightarrow> string \<Rightarrow> bool"
  format_number :: "rat \<Rightarrow> string"

definition AUTHORITY_DELEGATION_ID_DOMAIN :: string where
  "AUTHORITY_DELEGATION_ID_DOMAIN = ''APS-AUTHORITY-DELEGATION-ID-V1'' @ [CHR 0x00]"

definition AUTHORITY_DELEGATION_SIGNATURE_DOMAIN :: string where
  "AUTHORITY_DELEGATION_SIGNATURE_DOMAIN = ''APS-AUTHORITY-DELEGATION-SIGNATURE-V1'' @ [CHR 0x00]"

text \<open>The JSON form of a typed record holds no marker, so canonicalization does not throw.\<close>

definition authorityDelegationIdInput :: "crypto \<Rightarrow> 'a AuthorityDelegationBodyV1_scheme \<Rightarrow> string" where
  "authorityDelegationIdInput C b =
     AUTHORITY_DELEGATION_ID_DOMAIN @ canonicalizeValue (format_number C) (json_of_body b)"

definition computeAuthorityDelegationId :: "crypto \<Rightarrow> 'a AuthorityDelegationBodyV1_scheme \<Rightarrow> string" where
  "computeAuthorityDelegationId C b = ''sha256:'' @ sha256Hex C (authorityDelegationIdInput C b)"

definition authorityDelegationSignatureInput :: "crypto \<Rightarrow> AuthorityDelegationV1 \<Rightarrow> string" where
  "authorityDelegationSignatureInput C d =
     AUTHORITY_DELEGATION_SIGNATURE_DOMAIN @ canonicalizeValue (format_number C) (json_of_unsigned d)"

definition verifyAuthorityDelegationSignature :: "crypto \<Rightarrow> AuthorityDelegationV1 \<Rightarrow> string \<Rightarrow> bool" where
  "verifyAuthorityDelegationSignature C d publicKey =
     ed25519_verify C (authorityDelegationSignatureInput C d) (signature d) publicKey"

text \<open>\<open>authorityDelegationBody\<close>: the record without its identifier and signature.\<close>

definition authorityDelegationBody :: "AuthorityDelegationV1 \<Rightarrow> AuthorityDelegationBodyV1" where
  "authorityDelegationBody d =
     \<lparr>record_type = record_type d, version = version d, parent_delegation_id = parent_delegation_id d,
      issuer = issuer d, subject = subject d, verification_method = verification_method d,
      issued_at = issued_at d, nonce = nonce d, authority = authority d\<rparr>"

section \<open>Results\<close>

definition result :: "AuthorityValidationState \<Rightarrow> AuthorityFailure list \<Rightarrow> AuthorityValidationResult" where
  "result st fs = \<lparr>state = st, valid = (st = State_valid), failures = fs\<rparr>"

definition indexed :: "AuthorityFailure \<Rightarrow> nat \<Rightarrow> AuthorityFailure" where
  "indexed f i = f\<lparr>failure_index := Some i\<rparr>"

definition fail_at :: "AuthorityFailureCode \<Rightarrow> nat \<Rightarrow> string \<Rightarrow> AuthorityFailure" where
  "fail_at c i msg = \<lparr>failure_code = c, message = msg, failure_index = Some i, facet = None\<rparr>"

definition KEY_MATERIAL :: "string \<Rightarrow> bool" where
  "KEY_MATERIAL s \<longleftrightarrow> length s = 64 \<and> list_all isHex s"

record KeyFailure =
  key_state :: AuthorityValidationState
  key_code :: AuthorityFailureCode
  key_message :: string

definition keyResolutionFailure :: "KeyResolution \<Rightarrow> KeyFailure option" where
  "keyResolutionFailure r =
     (case r of
        Key k \<Rightarrow>
          (if KEY_MATERIAL k then None
           else Some \<lparr>key_state = State_indeterminate, key_code = KEY_MATERIAL_MALFORMED,
             key_message = ''resolved key material is not a 32-byte Ed25519 public key''\<rparr>)
      | KeyResolutionFailure oc \<Rightarrow>
          (if oc = ''unsupported_scheme'' then
             Some \<lparr>key_state = State_unsupported, key_code = KEY_SCHEME_UNSUPPORTED,
               key_message = ''identifier scheme is not supported by the resolver''\<rparr>
           else if oc = ''not_found'' then
             Some \<lparr>key_state = State_indeterminate, key_code = KEY_NOT_FOUND,
               key_message = ''subject or key was not found''\<rparr>
           else if oc = ''ambiguous'' then
             Some \<lparr>key_state = State_indeterminate, key_code = KEY_AMBIGUOUS,
               key_message = ''key resolution was ambiguous''\<rparr>
           else if oc = ''unreachable'' then
             Some \<lparr>key_state = State_indeterminate, key_code = KEY_UNREACHABLE,
               key_message = ''key material was unreachable''\<rparr>
           else if oc = ''malformed'' then
             Some \<lparr>key_state = State_indeterminate, key_code = KEY_MATERIAL_MALFORMED,
               key_message = ''resolved key material is structurally malformed''\<rparr>
           else
             Some \<lparr>key_state = State_indeterminate, key_code = KEY_RESOLUTION_FAILED,
               key_message = ''issuer verification key could not be resolved''\<rparr>)
      | NoKey \<Rightarrow>
          Some \<lparr>key_state = State_indeterminate, key_code = KEY_RESOLUTION_FAILED,
            key_message = ''issuer verification key could not be resolved''\<rparr>)"

definition UNSUPPORTED_CODES :: "AuthorityFailureCode list" where
  "UNSUPPORTED_CODES = [UNSUPPORTED_VERSION, UNSUPPORTED_RECORD_TYPE, UNSUPPORTED_PROFILE]"

definition shapeState :: "AuthorityFailure list \<Rightarrow> AuthorityValidationState" where
  "shapeState fs =
     (if list_ex (\<lambda>f. failure_code f \<notin> set UNSUPPORTED_CODES \<and> failure_code f \<noteq> RESOURCE_LIMIT) fs
      then State_invalid
      else if list_ex (\<lambda>f. failure_code f \<in> set UNSUPPORTED_CODES) fs then State_unsupported
      else State_indeterminate)"

section \<open>The chain container\<close>

datatype PlainDataChainRejection = Not_a_container | Over_ceiling

definition readPlainDataChainContainer ::
  "json \<Rightarrow> nat \<Rightarrow> nat \<Rightarrow> PlainDataChainRejection + json list" where
  "readPlainDataChainContainer v minLength maxLength =
     (case v of
        JArr xs \<Rightarrow>
          (if length xs > maxLength then Inl Over_ceiling
           else if length xs < minLength then Inl Not_a_container
           else Inr xs)
      | _ \<Rightarrow> Inl Not_a_container)"

section \<open>The phases\<close>

type_synonym chain = "AuthorityDelegationV1 list"
type_synonym options = AuthorityChainVerificationOptions
type_synonym outcome = AuthorityValidationResult

definition phase_shape :: "json list \<Rightarrow> outcome option" where
  "phase_shape raw = first_failure
     (\<lambda>i j. let fs = map (\<lambda>f. indexed f i) (validateAuthorityDelegationShape j)
            in if fs \<noteq> [] then Some (result (shapeState fs) fs) else None) 0 raw"

definition phase_ids :: "crypto \<Rightarrow> chain \<Rightarrow> outcome option" where
  "phase_ids C ch = first_failure
     (\<lambda>i d. if computeAuthorityDelegationId C (authorityDelegationBody d) \<noteq> delegation_id d
            then Some (result State_invalid [fail_at ID_MISMATCH i ''delegation content address does not match body''])
            else None) 0 ch"

definition phase_signatures :: "crypto \<Rightarrow> options \<Rightarrow> chain \<Rightarrow> outcome option" where
  "phase_signatures C opt ch = first_failure
     (\<lambda>i d. let r = resolveVerificationKey opt (issuer d) (verification_method d) (issued_at d) in
        case keyResolutionFailure r of
          Some kf \<Rightarrow> Some (result (key_state kf) [fail_at (key_code kf) i (key_message kf)])
        | None \<Rightarrow>
            (case r of
               Key k \<Rightarrow>
                 (if \<not> verifyAuthorityDelegationSignature C d k
                  then Some (result State_invalid [fail_at SIGNATURE_INVALID i ''Ed25519 signature is invalid''])
                  else None)
             | _ \<Rightarrow> None)) 0 ch"

definition phase_duplicates :: "chain \<Rightarrow> outcome option" where
  "phase_duplicates ch =
     map_option (\<lambda>i. result State_invalid [fail_at CHAIN_DUPLICATE_ID i ''delegation ID repeats in chain''])
       (first_repeat [] 0 (map delegation_id ch))"

definition phase_root_trust :: "options \<Rightarrow> AuthorityDelegationV1 \<Rightarrow> outcome option" where
  "phase_root_trust opt rt =
     (case trustRoot opt of
        None \<Rightarrow> Some (result State_indeterminate [fail_at ROOT_UNTRUSTED 0 ''root trust policy is unavailable''])
      | Some policy \<Rightarrow>
          (case policy rt of
             TrustThrew \<Rightarrow> Some (result State_indeterminate [fail_at ROOT_UNTRUSTED 0 ''root trust policy could not decide''])
           | TrustNotBoolean \<Rightarrow> Some (result State_indeterminate [fail_at ROOT_UNTRUSTED 0 ''root trust policy returned no boolean decision''])
           | TrustDecision b \<Rightarrow>
               if \<not> b then Some (result State_invalid [fail_at ROOT_UNTRUSTED 0 ''root is not accepted by verifier trust policy''])
               else None))"

definition phase_parents :: "chain \<Rightarrow> outcome option" where
  "phase_parents ch =
     (if parent_delegation_id (hd ch) \<noteq> None
      then Some (result State_invalid [fail_at PARENT_MISMATCH 0 ''full chain root must carry null parent_delegation_id''])
      else first_failure
        (\<lambda>i (p, c). if parent_delegation_id c \<noteq> Some (delegation_id p)
           then Some (result State_invalid [fail_at PARENT_MISMATCH i ''child does not name immediate parent content address''])
           else None) 1 (pairs_of ch))"

definition phase_continuity :: "chain \<Rightarrow> outcome option" where
  "phase_continuity ch = first_failure
     (\<lambda>i (p, c). if issuer c \<noteq> subject p
        then Some (result State_invalid [fail_at CHAIN_CONTINUITY i ''child issuer is not parent subject''])
        else None) 1 (pairs_of ch)"

definition phase_issued :: "chain \<Rightarrow> outcome option" where
  "phase_issued ch = first_failure
     (\<lambda>i (p, c). if issued_at c < not_before (time (authority p)) \<or> issued_at c \<ge> not_after (time (authority p))
        then Some (result State_invalid [fail_at ISSUED_AT_OUTSIDE_PARENT i ''child was issued outside parent validity window''])
        else None) 1 (pairs_of ch)"

definition phase_attenuation :: "chain \<Rightarrow> outcome option" where
  "phase_attenuation ch = first_failure
     (\<lambda>i (p, c). let fs = map (\<lambda>f. indexed f i) (compareAuthority (authority p) (authority c)) in
        if fs \<noteq> []
        then Some (result (if list_all (\<lambda>f. failure_code f = UNSUPPORTED_PROFILE) fs
                           then State_unsupported else State_invalid) fs)
        else None) 1 (pairs_of ch)"

definition phase_validity :: "string \<Rightarrow> chain \<Rightarrow> outcome option" where
  "phase_validity t ch = first_failure
     (\<lambda>i d. if t < not_before (time (authority d))
        then Some (result State_invalid [fail_at NOT_YET_VALID i ''delegation is not yet valid''])
        else if t \<ge> not_after (time (authority d))
        then Some (result State_invalid [fail_at EXPIRED i ''delegation has expired''])
        else None) 0 ch"

definition phase_revocation :: "options \<Rightarrow> chain \<Rightarrow> outcome option" where
  "phase_revocation opt ch = first_failure
     (\<lambda>i d. case resolveRevocation opt d of
          Status_revoked \<Rightarrow> Some (result State_invalid [fail_at REVOKED i ''delegation is revoked''])
        | Status_unknown \<Rightarrow> Some (result State_indeterminate [fail_at REVOCATION_UNKNOWN i ''revocation status is unknown''])
        | Status_active \<Rightarrow> None) 0 ch"

text \<open>Phases 2 to 11 over the shape-checked chain, in the listed order.\<close>

definition verify_members :: "crypto \<Rightarrow> options \<Rightarrow> chain \<Rightarrow> outcome option" where
  "verify_members C opt ch = first_some
     [phase_ids C ch, phase_signatures C opt ch, phase_duplicates ch, phase_root_trust opt (hd ch),
      phase_parents ch, phase_continuity ch, phase_issued ch, phase_attenuation ch,
      phase_validity (now opt) ch, phase_revocation opt ch]"

definition verifyAuthorityDelegationChain :: "crypto \<Rightarrow> json \<Rightarrow> options \<Rightarrow> outcome" where
  "verifyAuthorityDelegationChain C rawChain opt =
     (case readPlainDataChainContainer rawChain 1 256 of
        Inl Over_ceiling \<Rightarrow> result State_indeterminate
          [failure RESOURCE_LIMIT ''chain exceeds this implementation's 256-record ceiling'']
      | Inl Not_a_container \<Rightarrow> result State_invalid
          [failure SCHEMA_INVALID ''chain must be a container of at least one record'']
      | Inr raw \<Rightarrow>
          if \<not> isCanonicalTimestamp (now opt)
          then result State_invalid [failure NONCANONICAL_VALUE ''verification clock must be canonical UTC milliseconds'']
          else (case phase_shape raw of
              Some r \<Rightarrow> r
            | None \<Rightarrow>
                (case verify_members C opt (List.map_filter delegation_of raw) of
                   Some r \<Rightarrow> r
                 | None \<Rightarrow> result State_valid [])))"

definition verifyAuthorityDelegation :: "crypto \<Rightarrow> json \<Rightarrow> options \<Rightarrow> outcome" where
  "verifyAuthorityDelegation C delegation opt = verifyAuthorityDelegationChain C (JArr [delegation]) opt"

lemmas phase_defs = phase_ids_def phase_signatures_def phase_duplicates_def phase_root_trust_def
  phase_parents_def phase_continuity_def phase_issued_def phase_attenuation_def
  phase_validity_def phase_revocation_def

section \<open>What each phase establishes\<close>

definition signed_ok :: "crypto \<Rightarrow> options \<Rightarrow> AuthorityDelegationV1 \<Rightarrow> bool" where
  "signed_ok C opt d \<longleftrightarrow>
     (\<exists>k. resolveVerificationKey opt (issuer d) (verification_method d) (issued_at d) = Key k
        \<and> KEY_MATERIAL k \<and> verifyAuthorityDelegationSignature C d k)"

definition in_window :: "string \<Rightarrow> AuthorityDelegationV1 \<Rightarrow> bool" where
  "in_window t d \<longleftrightarrow> not_before (time (authority d)) \<le> t \<and> t < not_after (time (authority d))"

definition linked :: "AuthorityDelegationV1 \<Rightarrow> AuthorityDelegationV1 \<Rightarrow> bool" where
  "linked p c \<longleftrightarrow> parent_delegation_id c = Some (delegation_id p) \<and> issuer c = subject p
     \<and> in_window (issued_at c) p \<and> narrows (authority p) (authority c)"

definition root_ok :: "options \<Rightarrow> AuthorityDelegationV1 \<Rightarrow> bool" where
  "root_ok opt d \<longleftrightarrow> parent_delegation_id d = None
     \<and> (\<exists>policy. trustRoot opt = Some policy \<and> policy d = TrustDecision True)"

definition member_ok :: "crypto \<Rightarrow> options \<Rightarrow> AuthorityDelegationV1 \<Rightarrow> bool" where
  "member_ok C opt d \<longleftrightarrow> wf_delegation d
     \<and> computeAuthorityDelegationId C (authorityDelegationBody d) = delegation_id d
     \<and> signed_ok C opt d \<and> in_window (now opt) d \<and> resolveRevocation opt d = Status_active"

text \<open>The abstract specification of an authority chain.\<close>

definition valid_chain :: "crypto \<Rightarrow> options \<Rightarrow> chain \<Rightarrow> bool" where
  "valid_chain C opt ch \<longleftrightarrow> ch \<noteq> [] \<and> length ch \<le> 256
     \<and> (\<forall>d \<in> set ch. member_ok C opt d)
     \<and> distinct (map delegation_id ch) \<and> root_ok opt (hd ch)
     \<and> (\<forall>k. Suc k < length ch \<longrightarrow> linked (ch ! k) (ch ! Suc k))"

lemma nth_all: "(\<forall>k < length xs. P (xs ! k)) \<longleftrightarrow> (\<forall>x \<in> set xs. P x)"
  by (metis in_set_conv_nth)

lemma guard_None: "(if b then Some x else None) = None \<longleftrightarrow> \<not> b"
  by simp

lemma first_failure_each_None:
  assumes "\<And>i x. chk i x = None \<longleftrightarrow> P x"
  shows "first_failure chk i xs = None \<longleftrightarrow> (\<forall>x \<in> set xs. P x)"
  unfolding first_failure_None_iff assms nth_all ..

lemma first_failure_link_None:
  assumes "\<And>i p c. chk i (p, c) = None \<longleftrightarrow> P p c"
  shows "first_failure chk 1 (pairs_of xs) = None \<longleftrightarrow> (\<forall>k. Suc k < length xs \<longrightarrow> P (xs ! k) (xs ! Suc k))"
  unfolding One_nat_def first_failure_pairs_None assms ..

lemma phase_ids_None: "phase_ids C ch = None \<longleftrightarrow>
    (\<forall>d \<in> set ch. computeAuthorityDelegationId C (authorityDelegationBody d) = delegation_id d)"
  unfolding phase_ids_def by (rule first_failure_each_None) simp

lemma keyResolutionFailure_None: "keyResolutionFailure r = None \<longleftrightarrow> (\<exists>k. r = Key k \<and> KEY_MATERIAL k)"
  by (cases r) (auto simp: keyResolutionFailure_def)

lemma phase_signatures_None: "phase_signatures C opt ch = None \<longleftrightarrow> (\<forall>d \<in> set ch. signed_ok C opt d)"
  unfolding phase_signatures_def
proof (rule first_failure_each_None)
  fix i d
  show "(let r = resolveVerificationKey opt (issuer d) (verification_method d) (issued_at d) in
        case keyResolutionFailure r of
          Some kf \<Rightarrow> Some (result (key_state kf) [fail_at (key_code kf) i (key_message kf)])
        | None \<Rightarrow>
            (case r of
               Key k \<Rightarrow>
                 (if \<not> verifyAuthorityDelegationSignature C d k
                  then Some (result State_invalid [fail_at SIGNATURE_INVALID i ''Ed25519 signature is invalid''])
                  else None)
             | _ \<Rightarrow> None)) = None \<longleftrightarrow> signed_ok C opt d"
    using keyResolutionFailure_None [of "resolveVerificationKey opt (issuer d) (verification_method d) (issued_at d)"]
    by (cases "keyResolutionFailure (resolveVerificationKey opt (issuer d) (verification_method d) (issued_at d))")
       (auto simp: Let_def signed_ok_def guard_None)
qed

lemma phase_duplicates_None: "phase_duplicates ch = None \<longleftrightarrow> distinct (map delegation_id ch)"
  by (simp add: phase_duplicates_def first_repeat_None_iff)

lemma phase_root_trust_None: "phase_root_trust opt d = None \<longleftrightarrow>
    (\<exists>policy. trustRoot opt = Some policy \<and> policy d = TrustDecision True)"
  by (auto simp: phase_root_trust_def split: option.splits TrustAnswer.splits)

lemma phase_parents_None: "phase_parents ch = None \<longleftrightarrow> parent_delegation_id (hd ch) = None
    \<and> (\<forall>k. Suc k < length ch \<longrightarrow> parent_delegation_id (ch ! Suc k) = Some (delegation_id (ch ! k)))"
proof -
  have "first_failure
        (\<lambda>i (p, c). if parent_delegation_id c \<noteq> Some (delegation_id p)
           then Some (result State_invalid [fail_at PARENT_MISMATCH i ''child does not name immediate parent content address''])
           else None) 1 (pairs_of ch) = None
    \<longleftrightarrow> (\<forall>k. Suc k < length ch \<longrightarrow> parent_delegation_id (ch ! Suc k) = Some (delegation_id (ch ! k)))"
    by (rule first_failure_link_None) simp
  then show ?thesis by (simp add: phase_parents_def)
qed

lemma phase_continuity_None: "phase_continuity ch = None \<longleftrightarrow>
    (\<forall>k. Suc k < length ch \<longrightarrow> issuer (ch ! Suc k) = subject (ch ! k))"
  unfolding phase_continuity_def by (rule first_failure_link_None) simp

lemma phase_issued_None: "phase_issued ch = None \<longleftrightarrow>
    (\<forall>k. Suc k < length ch \<longrightarrow> in_window (issued_at (ch ! Suc k)) (ch ! k))"
  unfolding phase_issued_def
  by (rule first_failure_link_None) (simp add: in_window_def guard_None not_less not_le)

lemma phase_attenuation_None: "phase_attenuation ch = None \<longleftrightarrow>
    (\<forall>k. Suc k < length ch \<longrightarrow> compareAuthority (authority (ch ! k)) (authority (ch ! Suc k)) = [])"
  unfolding phase_attenuation_def by (rule first_failure_link_None) (simp add: Let_def)

lemma phase_validity_None: "phase_validity t ch = None \<longleftrightarrow> (\<forall>d \<in> set ch. in_window t d)"
  unfolding phase_validity_def
  by (rule first_failure_each_None) (simp add: in_window_def not_less not_le)

lemma phase_revocation_None: "phase_revocation opt ch = None \<longleftrightarrow>
    (\<forall>d \<in> set ch. resolveRevocation opt d = Status_active)"
  unfolding phase_revocation_def
  by (rule first_failure_each_None) (simp split: RevocationResolution.split)

lemma phase_shape_None: "phase_shape raw = None \<longleftrightarrow> (\<forall>j \<in> set raw. validateAuthorityDelegationShape j = [])"
  unfolding phase_shape_def by (rule first_failure_each_None) (simp add: Let_def)

lemmas phase_None = phase_ids_None phase_signatures_None phase_duplicates_None phase_root_trust_None
  phase_parents_None phase_continuity_None phase_issued_None phase_attenuation_None
  phase_validity_None phase_revocation_None

lemma verify_members_None_iff:
  assumes "ch \<noteq> []" "length ch \<le> 256" "\<forall>d \<in> set ch. wf_delegation d"
  shows "verify_members C opt ch = None \<longleftrightarrow> valid_chain C opt ch"
proof -
  have wfa: "wf_authority (authority (ch ! k))" if "k < length ch" for k
    using that assms(3) by (simp add: wf_delegation_def)
  have att: "(\<forall>k. Suc k < length ch \<longrightarrow> compareAuthority (authority (ch ! k)) (authority (ch ! Suc k)) = [])
      \<longleftrightarrow> (\<forall>k. Suc k < length ch \<longrightarrow> narrows (authority (ch ! k)) (authority (ch ! Suc k)))"
    using compareAuthority_Nil_iff wfa by (meson Suc_lessD)
  show ?thesis
    unfolding verify_members_def first_some_None_iff valid_chain_def member_ok_def linked_def root_ok_def
    using assms by (auto simp: phase_None att)
qed

section \<open>The verifier decides the specification\<close>

lemma result_simps [simp]: "state (result st fs) = st" "valid (result st fs) \<longleftrightarrow> st = State_valid"
  "failures (result st fs) = fs"
  by (simp_all add: result_def)

lemma keyResolutionFailure_not_valid: "keyResolutionFailure r = Some kf \<Longrightarrow> key_state kf \<noteq> State_valid"
  by (auto simp: keyResolutionFailure_def split: KeyResolution.splits if_splits)

text \<open>What a phase reports is never the valid state, carries at least one failure and agrees
  with its own \<open>valid\<close> flag.\<close>

definition rejection :: "outcome \<Rightarrow> bool" where
  "rejection r \<longleftrightarrow> state r \<noteq> State_valid \<and> \<not> valid r \<and> failures r \<noteq> []"

lemma rejection_result [simp]: "rejection (result st fs) \<longleftrightarrow> st \<noteq> State_valid \<and> fs \<noteq> []"
  by (simp add: rejection_def)

lemma shapeState_not_valid [simp]: "shapeState fs \<noteq> State_valid"
  by (simp add: shapeState_def)

lemma first_failure_all:
  assumes "first_failure chk i xs = Some r" and "\<And>i x. chk i x = Some r \<Longrightarrow> P r"
  shows "P r"
  using first_failure_Some [OF assms(1)] assms(2) by blast

lemma phase_shape_rejects: "phase_shape raw = Some r \<Longrightarrow> rejection r"
  unfolding phase_shape_def
  by (erule first_failure_all) (simp add: Let_def split: if_splits, auto)

lemma phases_reject:
  "phase_ids C ch = Some r \<Longrightarrow> rejection r"
  "phase_duplicates ch = Some r \<Longrightarrow> rejection r"
  "phase_root_trust opt d = Some r \<Longrightarrow> rejection r"
  "phase_parents ch = Some r \<Longrightarrow> rejection r"
  "phase_continuity ch = Some r \<Longrightarrow> rejection r"
  "phase_issued ch = Some r \<Longrightarrow> rejection r"
  "phase_validity t ch = Some r \<Longrightarrow> rejection r"
  "phase_revocation opt ch = Some r \<Longrightarrow> rejection r"
  unfolding phase_defs
  by (auto elim!: first_failure_all split: if_splits option.splits TrustAnswer.splits RevocationResolution.splits)

lemma phase_attenuation_rejects: "phase_attenuation ch = Some r \<Longrightarrow> rejection r"
  unfolding phase_attenuation_def
  by (erule first_failure_all) (auto simp: Let_def split: if_splits)

lemma phase_signatures_rejects: "phase_signatures C opt ch = Some r \<Longrightarrow> rejection r"
  unfolding phase_signatures_def
  by (erule first_failure_all)
     (auto simp: Let_def dest: keyResolutionFailure_not_valid split: if_splits option.splits KeyResolution.splits)

lemma verify_members_rejects: "verify_members C opt ch = Some r \<Longrightarrow> rejection r"
  unfolding verify_members_def
  by (drule first_some_SomeD)
     (auto dest: phases_reject [OF sym] phase_attenuation_rejects [OF sym] phase_signatures_rejects [OF sym])

text \<open>The typed chain behind shape-checked plain data.\<close>

lemma shape_checked_decodes:
  assumes "phase_shape raw = None"
  shows "map delegation_of raw = map Some (List.map_filter delegation_of raw)"
    and "\<forall>d \<in> set (List.map_filter delegation_of raw). wf_delegation d"
proof -
  have dec: "\<forall>j \<in> set raw. \<exists>d. delegation_of j = Some d \<and> wf_delegation d"
    using assms validate_Nil_decodes by (auto simp: phase_shape_None)
  then show "map delegation_of raw = map Some (List.map_filter delegation_of raw)"
    by (induction raw) (auto simp: List.map_filter_simps)
  from dec show "\<forall>d \<in> set (List.map_filter delegation_of raw). wf_delegation d"
    by (induction raw) (auto simp: List.map_filter_simps)
qed

lemma readPlainDataChainContainer_Inr:
  "readPlainDataChainContainer v lo hi = Inr raw \<longleftrightarrow> v = JArr raw \<and> lo \<le> length raw \<and> length raw \<le> hi"
  by (cases v) (auto simp: readPlainDataChainContainer_def)

lemma map_filter_json: "List.map_filter delegation_of (map json_of_delegation ch) = ch"
  by (induction ch) (simp_all add: List.map_filter_simps delegation_roundtrip)

text \<open>Everything the verifier returns is either the one valid result or a rejection.\<close>

lemma verify_cases:
  obtains (valid) raw where "rawChain = JArr raw" "1 \<le> length raw" "length raw \<le> 256"
      "isCanonicalTimestamp (now opt)" "phase_shape raw = None"
      "verify_members C opt (List.map_filter delegation_of raw) = None"
      "verifyAuthorityDelegationChain C rawChain opt = result State_valid []"
  | (rejected) "rejection (verifyAuthorityDelegationChain C rawChain opt)"
proof (cases "readPlainDataChainContainer rawChain 1 256")
  case (Inl rej)
  then show ?thesis using rejected by (cases rej) (simp_all add: verifyAuthorityDelegationChain_def)
next
  case (Inr raw)
  note raw = this [unfolded readPlainDataChainContainer_Inr]
  show ?thesis
  proof (cases "isCanonicalTimestamp (now opt)")
    case False
    then show ?thesis using rejected Inr by (simp add: verifyAuthorityDelegationChain_def)
  next
    case clock: True
    show ?thesis
    proof (cases "phase_shape raw")
      case (Some r)
      then show ?thesis using rejected Inr clock phase_shape_rejects
        by (simp add: verifyAuthorityDelegationChain_def)
    next
      case shape: None
      then show ?thesis using valid rejected raw Inr clock verify_members_rejects
        by (cases "verify_members C opt (List.map_filter delegation_of raw)")
           (simp_all add: verifyAuthorityDelegationChain_def)
    qed
  qed
qed

text \<open>Soundness over arbitrary plain data.\<close>

lemma verify_sound:
  assumes "state (verifyAuthorityDelegationChain C rawChain opt) = State_valid"
  obtains raw ch where "rawChain = JArr raw" "map delegation_of raw = map Some ch"
    "isCanonicalTimestamp (now opt)" "valid_chain C opt ch"
proof (cases rule: verify_cases [of rawChain opt C])
  case (valid raw)
  let ?ch = "List.map_filter delegation_of raw"
  note dec = shape_checked_decodes [OF valid(5)]
  have len: "length ?ch = length raw" using arg_cong [OF dec(1), of length] by simp
  with valid(2) have "?ch \<noteq> []" by auto
  with verify_members_None_iff [of ?ch C opt] dec(2) len valid(3,6) have "valid_chain C opt ?ch" by simp
  with that [of raw ?ch] valid(1,4) dec(1) show ?thesis by blast
next
  case rejected
  with assms show ?thesis by (simp add: rejection_def)
qed

text \<open>On the JSON form of typed records the verifier decides the specification exactly.\<close>

lemma verify_decides:
  "state (verifyAuthorityDelegationChain C (JArr (map json_of_delegation ch)) opt) = State_valid
   \<longleftrightarrow> isCanonicalTimestamp (now opt) \<and> valid_chain C opt ch"
proof
  assume "state (verifyAuthorityDelegationChain C (JArr (map json_of_delegation ch)) opt) = State_valid"
  then show "isCanonicalTimestamp (now opt) \<and> valid_chain C opt ch"
  proof (rule verify_sound)
    fix raw ch'
    assume "JArr (map json_of_delegation ch) = JArr raw" "map delegation_of raw = map Some ch'"
      and ok: "isCanonicalTimestamp (now opt)" "valid_chain C opt ch'"
    moreover have "map delegation_of (map json_of_delegation ch) = map Some ch"
      by (simp add: delegation_roundtrip)
    ultimately have "map Some ch' = map Some ch" by simp
    with ok show ?thesis by (simp add: inj_map_eq_map)
  qed
next
  assume ok: "isCanonicalTimestamp (now opt) \<and> valid_chain C opt ch"
  then have ch: "ch \<noteq> []" "length ch \<le> 256" and wf: "\<forall>d \<in> set ch. wf_delegation d"
    by (auto simp: valid_chain_def member_ok_def)
  have "phase_shape (map json_of_delegation ch) = None"
    using wf by (simp add: phase_shape_None validate_iff_wf)
  moreover have "verify_members C opt ch = None"
    using verify_members_None_iff [OF ch wf] ok by blast
  moreover have "readPlainDataChainContainer (JArr (map json_of_delegation ch)) 1 256
      = Inr (map json_of_delegation ch)"
    using ch by (simp add: readPlainDataChainContainer_Inr Suc_le_eq)
  ultimately show "state (verifyAuthorityDelegationChain C (JArr (map json_of_delegation ch)) opt) = State_valid"
    using ok by (simp add: verifyAuthorityDelegationChain_def map_filter_json)
qed

section \<open>Consequences of the specification\<close>

lemma valid_chain_authorities:
  assumes "valid_chain C opt ch"
  shows "\<forall>a \<in> set (map authority ch). wf_authority a"
    and "\<forall>k. Suc k < length (map authority ch) \<longrightarrow> narrows (map authority ch ! k) (map authority ch ! Suc k)"
  using assms by (auto simp: valid_chain_def member_ok_def wf_delegation_def linked_def)

lemma valid_chain_narrows:
  assumes "valid_chain C opt ch" "i < j" "j < length ch"
  shows "narrows (authority (ch ! i)) (authority (ch ! j))"
  using authority_order.between [OF valid_chain_authorities [OF assms(1)], of i j] assms by simp

lemma valid_chain_length:
  assumes "valid_chain C opt ch"
  shows "int (length ch) \<le> remaining (depth (authority (hd ch))) + 1"
  using authority_order.length_bound [OF valid_chain_authorities [OF assms]] assms
  by (simp add: valid_chain_def hd_conv_nth)

text \<open>A valid chain extended by one acceptable child stays valid, provided the identifier is new.\<close>

lemma valid_chain_snoc:
  assumes "valid_chain C opt ch" "length ch < 256" "member_ok C opt d" "linked (last ch) d"
    "delegation_id d \<notin> delegation_id ` set ch"
  shows "valid_chain C opt (ch @ [d])"
proof -
  have "linked ((ch @ [d]) ! k) ((ch @ [d]) ! Suc k)" if "Suc k < length (ch @ [d])" for k
  proof (cases "Suc k < length ch")
    case True
    then show ?thesis using assms(1) by (simp add: valid_chain_def nth_append)
  next
    case False
    with that have "k = length ch - 1" "Suc k = length ch" by auto
    moreover have "ch \<noteq> []" using assms(1) by (simp add: valid_chain_def)
    ultimately show ?thesis using assms(4) by (simp add: nth_append last_conv_nth)
  qed
  then show ?thesis using assms by (auto simp: valid_chain_def)
qed

end
