(* ===== verification/Authority_Issue.thy ===== *)
theory Authority_Issue
  imports Authority_Verify
begin

text \<open>
  \<^verbatim>\<open>src/v2/authority-delegation/issue.ts\<close> and the write-boundary half of
  \<^verbatim>\<open>canonical.ts\<close>: minting a root record and minting a child under a verified parent.
  A thrown error is a value, one constructor per \<open>throw\<close> of the source; \<open>issue_code\<close> is
  the code its message names.
\<close>

section \<open>Errors\<close>

datatype IssueError =
    Body_invalid AuthorityFailureCode
  | Body_carries_identity
  | Root_parent_not_null
  | Now_noncanonical
  | Parent_invalid AuthorityFailureCode
  | Parent_id_mismatch
  | Parent_key_unresolved "AuthorityFailureCode option"
  | Parent_key_malformed
  | Parent_signature_invalid
  | Parent_not_yet_valid
  | Parent_expired
  | Parent_revoked
  | Parent_revocation_unknown
  | Child_parent_mismatch
  | Child_continuity
  | Child_issued_outside
  | Child_not_narrower AuthorityFailureCode
  | Write_refused jcs_error

text \<open>
  \<open>None\<close>: the message carries no failure code (a canonicalizer error, or an outcome name
  that the lookup object inherits from \<open>Object.prototype\<close>).
\<close>

fun issue_code :: "IssueError \<Rightarrow> AuthorityFailureCode option" where
  "issue_code (Body_invalid c) = Some c"
| "issue_code Body_carries_identity = Some SCHEMA_INVALID"
| "issue_code Root_parent_not_null = Some PARENT_MISMATCH"
| "issue_code Now_noncanonical = Some NONCANONICAL_VALUE"
| "issue_code (Parent_invalid c) = Some c"
| "issue_code Parent_id_mismatch = Some ID_MISMATCH"
| "issue_code (Parent_key_unresolved c) = c"
| "issue_code Parent_key_malformed = Some KEY_MATERIAL_MALFORMED"
| "issue_code Parent_signature_invalid = Some SIGNATURE_INVALID"
| "issue_code Parent_not_yet_valid = Some NOT_YET_VALID"
| "issue_code Parent_expired = Some EXPIRED"
| "issue_code Parent_revoked = Some REVOKED"
| "issue_code Parent_revocation_unknown = Some REVOCATION_UNKNOWN"
| "issue_code Child_parent_mismatch = Some PARENT_MISMATCH"
| "issue_code Child_continuity = Some CHAIN_CONTINUITY"
| "issue_code Child_issued_outside = Some ISSUED_AT_OUTSIDE_PARENT"
| "issue_code (Child_not_narrower c) = Some c"
| "issue_code (Write_refused e) = None"

type_synonym 'a issuing = "(IssueError, 'a) APS_Prelude.result"

section \<open>Write-boundary canonicalization\<close>

definition write_bytes :: "crypto \<Rightarrow> json \<Rightarrow> string issuing" where
  "write_bytes C j =
     (case canonicalizeJCSForWrite (format_number C) j of Inl e \<Rightarrow> Inl (Write_refused e) | Inr s \<Rightarrow> Inr s)"

definition authorityDelegationIdInputForWrite :: "crypto \<Rightarrow> 'a AuthorityDelegationBodyV1_scheme \<Rightarrow> string issuing" where
  "authorityDelegationIdInputForWrite C b =
     bindE (write_bytes C (json_of_body b)) (\<lambda>s. Inr (AUTHORITY_DELEGATION_ID_DOMAIN @ s))"

definition computeAuthorityDelegationIdForWrite :: "crypto \<Rightarrow> 'a AuthorityDelegationBodyV1_scheme \<Rightarrow> string issuing" where
  "computeAuthorityDelegationIdForWrite C b =
     bindE (authorityDelegationIdInputForWrite C b) (\<lambda>s. Inr (''sha256:'' @ sha256Hex C s))"

definition authorityDelegationSignatureInputForWrite :: "crypto \<Rightarrow> AuthorityDelegationV1 \<Rightarrow> string issuing" where
  "authorityDelegationSignatureInputForWrite C d =
     bindE (write_bytes C (json_of_unsigned d)) (\<lambda>s. Inr (AUTHORITY_DELEGATION_SIGNATURE_DOMAIN @ s))"

definition signAuthorityDelegation :: "crypto \<Rightarrow> AuthorityDelegationV1 \<Rightarrow> string \<Rightarrow> string issuing" where
  "signAuthorityDelegation C d privateKey =
     bindE (authorityDelegationSignatureInputForWrite C d) (\<lambda>s. Inr (ed25519_sign C s privateKey))"

section \<open>Checks on the body\<close>

text \<open>
  The members an object spread copies: those of an object, the index-named elements of an
  array or the characters of a string, nothing for the other values.
\<close>

fun spread :: "json \<Rightarrow> members" where
  "spread (JObj m) = m"
| "spread (JArr xs) = zip (map decimal [0..<length xs]) xs"
| "spread (JStr s) = zip (map decimal [0..<length s]) (map (\<lambda>c. JStr [c]) s)"
| "spread _ = []"

definition without :: "string list \<Rightarrow> members \<Rightarrow> members" where
  "without ks m = filter (\<lambda>kv. fst kv \<notin> set ks) m"

definition identity_probe :: "json \<Rightarrow> json" where
  "identity_probe body = JObj (without [''delegation_id'', ''signature''] (spread body) @
     [(''delegation_id'', JStr (''sha256:'' @ replicate 64 CHR ''0'')), (''signature'', JStr (replicate 128 CHR ''0''))])"

definition assertBody :: "json \<Rightarrow> unit issuing" where
  "assertBody body =
     (case validateAuthorityDelegationShape (identity_probe body) of
        [] \<Rightarrow> Inr ()
      | f # _ \<Rightarrow> Inl (Body_invalid (failure_code f)))"

definition carriesOwnIdentityMember :: "json \<Rightarrow> bool" where
  "carriesOwnIdentityMember body =
     (case body of JObj m \<Rightarrow> ''delegation_id'' \<in> fst ` set m \<or> ''signature'' \<in> fst ` set m | _ \<Rightarrow> False)"

text \<open>The typed body behind plain data that passed the shape check.\<close>

definition body_of :: "json \<Rightarrow> AuthorityDelegationBodyV1" where
  "body_of body = authorityDelegationBody (the (delegation_of (identity_probe body)))"

section \<open>Issuing\<close>

definition finalizeAuthorityDelegation :: "crypto \<Rightarrow> AuthorityDelegationBodyV1 \<Rightarrow> string \<Rightarrow> AuthorityDelegationV1 issuing" where
  "finalizeAuthorityDelegation C b privateKey =
     bindE (computeAuthorityDelegationIdForWrite C b) (\<lambda>did.
       let unsigned = AuthorityDelegationBodyV1.extend b \<lparr>delegation_id = did, signature = []\<rparr> in
       bindE (signAuthorityDelegation C unsigned privateKey) (\<lambda>sig.
         Inr (unsigned\<lparr>signature := sig\<rparr>)))"

definition issueAuthorityDelegation :: "crypto \<Rightarrow> json \<Rightarrow> string \<Rightarrow> AuthorityDelegationV1 issuing" where
  "issueAuthorityDelegation C body privateKey =
     (if carriesOwnIdentityMember body then Inl Body_carries_identity
      else bindE (assertBody body) (\<lambda>_.
        let b = body_of body in
        if parent_delegation_id b \<noteq> None then Inl Root_parent_not_null
        else finalizeAuthorityDelegation C b privateKey))"

record SubAuthorityIssueOptions =
  issue_now :: string
  issue_resolveVerificationKey :: "string \<Rightarrow> string \<Rightarrow> string \<Rightarrow> KeyResolution"
  issue_resolveRevocation :: "AuthorityDelegationV1 \<Rightarrow> RevocationResolution"

text \<open>\<open>KEY_OUTCOME_CODES[outcome] ?? 'KEY_RESOLUTION_FAILED'\<close>.\<close>

definition KEY_OUTCOME_CODES :: "string \<Rightarrow> AuthorityFailureCode option" where
  "KEY_OUTCOME_CODES oc =
     (if oc = ''unsupported_scheme'' then Some KEY_SCHEME_UNSUPPORTED
      else if oc = ''not_found'' then Some KEY_NOT_FOUND
      else if oc = ''ambiguous'' then Some KEY_AMBIGUOUS
      else if oc = ''unreachable'' then Some KEY_UNREACHABLE
      else if oc = ''malformed'' then Some KEY_MATERIAL_MALFORMED
      else if oc \<in> fst ` set object_prototype_members then None
      else Some KEY_RESOLUTION_FAILED)"

text \<open>The parent half: shape, content address, key and signature, validity, revocation.\<close>

definition parent_key :: "SubAuthorityIssueOptions \<Rightarrow> AuthorityDelegationV1 \<Rightarrow> string issuing" where
  "parent_key opt p =
     (case issue_resolveVerificationKey opt (issuer p) (verification_method p) (issued_at p) of
        Key k \<Rightarrow> if KEY_MATERIAL k then Inr k else Inl Parent_key_malformed
      | NoKey \<Rightarrow> Inl (Parent_key_unresolved (KEY_OUTCOME_CODES []))
      | KeyResolutionFailure oc \<Rightarrow> Inl (Parent_key_unresolved (KEY_OUTCOME_CODES oc)))"

definition check_parent :: "crypto \<Rightarrow> SubAuthorityIssueOptions \<Rightarrow> json \<Rightarrow> AuthorityDelegationV1 issuing" where
  "check_parent C opt parent =
     (case validateAuthorityDelegationShape parent of
        f # _ \<Rightarrow> Inl (Parent_invalid (failure_code f))
      | [] \<Rightarrow>
          (let p = the (delegation_of parent) in
           if computeAuthorityDelegationId C (authorityDelegationBody p) \<noteq> delegation_id p
           then Inl Parent_id_mismatch
           else bindE (parent_key opt p) (\<lambda>k.
             if \<not> verifyAuthorityDelegationSignature C p k then Inl Parent_signature_invalid
             else if issue_now opt < not_before (time (authority p)) then Inl Parent_not_yet_valid
             else if issue_now opt \<ge> not_after (time (authority p)) then Inl Parent_expired
             else (case issue_resolveRevocation opt p of
                 Status_revoked \<Rightarrow> Inl Parent_revoked
               | Status_unknown \<Rightarrow> Inl Parent_revocation_unknown
               | Status_active \<Rightarrow> Inr p))))"

text \<open>The child half: linkage, continuity, issuance time and attenuation under the parent.\<close>

definition check_child :: "AuthorityDelegationV1 \<Rightarrow> AuthorityDelegationBodyV1 \<Rightarrow> unit issuing" where
  "check_child p b =
     (if parent_delegation_id b \<noteq> Some (delegation_id p) then Inl Child_parent_mismatch
      else if issuer b \<noteq> subject p then Inl Child_continuity
      else if issued_at b < not_before (time (authority p)) \<or> issued_at b \<ge> not_after (time (authority p))
      then Inl Child_issued_outside
      else (case compareAuthority (authority p) (authority b) of
          [] \<Rightarrow> Inr ()
        | f # _ \<Rightarrow> Inl (Child_not_narrower (failure_code f))))"

definition issueSubAuthorityDelegation ::
  "crypto \<Rightarrow> json \<Rightarrow> json \<Rightarrow> string \<Rightarrow> SubAuthorityIssueOptions \<Rightarrow> AuthorityDelegationV1 issuing" where
  "issueSubAuthorityDelegation C parent body privateKey opt =
     (if \<not> isCanonicalTimestamp (issue_now opt) then Inl Now_noncanonical
      else bindE (check_parent C opt parent) (\<lambda>p.
        if carriesOwnIdentityMember body then Inl Body_carries_identity
        else bindE (assertBody body) (\<lambda>_.
          let b = body_of body in
          bindE (check_child p b) (\<lambda>_. finalizeAuthorityDelegation C b privateKey))))"

section \<open>The write boundary never refuses a checked body\<close>

lemma write_fault_JObj_None: "write_fault (JObj kvs) = None \<longleftrightarrow> (\<forall>kv \<in> set kvs. write_fault (snd kv) = None)"
  by (force simp: first_some_None_iff)

lemma write_fault_JArr_None: "write_fault (JArr xs) = None \<longleftrightarrow> (\<forall>x \<in> set xs. write_fault x = None)"
  by (simp add: first_some_None_iff)

lemma small_integer_safe: "\<bar>i\<bar> \<le> 255 \<Longrightarrow> \<not> isUnsafeWriteInteger (of_int i)"
proof -
  assume "\<bar>i\<bar> \<le> 255"
  then have "\<bar>of_int i\<bar> \<le> (255 :: rat)" by (metis of_int_abs of_int_le_iff of_int_numeral)
  then show ?thesis by (simp add: isUnsafeWriteInteger_def)
qed

lemma write_fault_authority:
  assumes "wf_authority a"
  shows "write_fault (json_of_authority a) = None"
proof -
  have "\<not> isUnsafeWriteInteger (of_int (remaining (depth a)))"
    "\<not> isUnsafeWriteInteger (of_int (reputation_ceiling (reputation a)))"
    using assms by (auto simp: wf_authority_def intro!: small_integer_safe)
  then show ?thesis
    by (cases "spend a")
       (simp_all add: json_of_authority_def json_of_spend_def write_fault_JObj_None write_fault_JArr_None
         del: write_fault.simps(3,4))
qed

lemma write_fault_members:
  "wf_authority (authority b) \<Longrightarrow> \<forall>kv \<in> set (body_members b). write_fault (snd kv) = None"
  by (simp add: body_members_def write_fault_authority split: option.split)

lemma write_fault_records:
  "wf_authority (authority b) \<Longrightarrow> write_fault (json_of_body b) = None"
  "wf_authority (authority d) \<Longrightarrow> write_fault (json_of_unsigned d) = None"
  unfolding json_of_body_def json_of_unsigned_def write_fault_JObj_None using write_fault_members by auto

lemma write_bytes_checked:
  "write_fault j = None \<Longrightarrow> write_bytes C j = Inr (canonicalizeValue (format_number C) j)"
  by (simp add: write_bytes_def canonicalizeJCSForWrite_def)

lemma finalize_checked:
  assumes "wf_authority (authority b)"
  shows "finalizeAuthorityDelegation C b sk =
    (let d = AuthorityDelegationBodyV1.extend b \<lparr>delegation_id = computeAuthorityDelegationId C b, signature = []\<rparr>
     in Inr (d\<lparr>signature := ed25519_sign C (authorityDelegationSignatureInput C d) sk\<rparr>))"
  using assms
  by (simp add: finalizeAuthorityDelegation_def computeAuthorityDelegationIdForWrite_def
      authorityDelegationIdInputForWrite_def write_bytes_checked write_fault_records signAuthorityDelegation_def
      authorityDelegationSignatureInputForWrite_def authorityDelegationSignatureInput_def
      computeAuthorityDelegationId_def authorityDelegationIdInput_def Let_def
      AuthorityDelegationBodyV1.defs)

section \<open>What a successful issue establishes\<close>

lemma assertBody_ok:
  assumes "assertBody body = Inr u"
  obtains p where "delegation_of (identity_probe body) = Some p" "wf_delegation p" "body_of body = authorityDelegationBody p"
proof -
  have "validateAuthorityDelegationShape (identity_probe body) = []"
    using assms by (simp add: assertBody_def split: list.splits)
  from validate_Nil_decodes [OF this] obtain p where p: "delegation_of (identity_probe body) = Some p" "wf_delegation p"
    by blast
  then show thesis using that [of p] by (simp add: body_of_def)
qed

text \<open>Well-formedness of a record apart from its identifier and signature.\<close>

definition wf_body :: "AuthorityDelegationBodyV1 \<Rightarrow> bool" where
  "wf_body b \<longleftrightarrow>
     record_type b = AUTHORITY_DELEGATION_RECORD_TYPE \<and> version b = AUTHORITY_DELEGATION_VERSION
   \<and> (case parent_delegation_id b of None \<Rightarrow> True
        | Some p \<Rightarrow> is_delegation_id p \<and> issued_at b \<le> not_before (time (authority b)))
   \<and> wf_party (issuer b) \<and> wf_party (subject b) \<and> wf_party (verification_method b)
   \<and> isCanonicalTimestamp (issued_at b) \<and> lower_hex 32 (nonce b) \<and> wf_authority (authority b)"

lemma wf_delegation_split:
  "wf_delegation d \<longleftrightarrow> wf_body (authorityDelegationBody d) \<and> is_delegation_id (delegation_id d)
     \<and> lower_hex 128 (signature d)"
  by (cases "parent_delegation_id d") (auto simp: wf_delegation_def wf_body_def authorityDelegationBody_def)

lemma assertBody_wf_body: "assertBody body = Inr u \<Longrightarrow> wf_body (body_of body)"
  by (erule assertBody_ok) (simp add: wf_delegation_split)

text \<open>
  What the signing and hashing functions are relied on for: lower-case hexadecimal output of
  the fixed lengths, and a signature under \<open>sk\<close> verifying under \<open>pk\<close>.
\<close>

definition digest_well_formed :: "crypto \<Rightarrow> bool" where
  "digest_well_formed C \<longleftrightarrow> (\<forall>m. lower_hex 64 (sha256Hex C m))"

definition keypair :: "crypto \<Rightarrow> string \<Rightarrow> string \<Rightarrow> bool" where
  "keypair C sk pk \<longleftrightarrow> KEY_MATERIAL pk
     \<and> (\<forall>m. lower_hex 128 (ed25519_sign C m sk) \<and> ed25519_verify C m (ed25519_sign C m sk) pk)"

definition signed_record :: "crypto \<Rightarrow> AuthorityDelegationBodyV1 \<Rightarrow> string \<Rightarrow> AuthorityDelegationV1" where
  "signed_record C b sk =
     (let d = AuthorityDelegationBodyV1.extend b \<lparr>delegation_id = computeAuthorityDelegationId C b, signature = []\<rparr>
      in d\<lparr>signature := ed25519_sign C (authorityDelegationSignatureInput C d) sk\<rparr>)"

lemma finalize_signed_record:
  "wf_body b \<Longrightarrow> finalizeAuthorityDelegation C b sk = Inr (signed_record C b sk)"
  by (simp add: finalize_checked signed_record_def wf_body_def Let_def)

lemma signed_record_fields [simp]:
  "authorityDelegationBody (signed_record C b sk) = b"
  "parent_delegation_id (signed_record C b sk) = parent_delegation_id b"
  "issuer (signed_record C b sk) = issuer b"
  "subject (signed_record C b sk) = subject b"
  "verification_method (signed_record C b sk) = verification_method b"
  "issued_at (signed_record C b sk) = issued_at b"
  "authority (signed_record C b sk) = authority b"
  "delegation_id (signed_record C b sk) = computeAuthorityDelegationId C b"
  by (simp_all add: signed_record_def Let_def AuthorityDelegationBodyV1.defs authorityDelegationBody_def)

lemma is_delegation_id_digest: "digest_well_formed C \<Longrightarrow> is_delegation_id (computeAuthorityDelegationId C b)"
  by (simp add: is_delegation_id_def computeAuthorityDelegationId_def digest_well_formed_def startsWith_def)

lemma signature_input_ignores_signature:
  "authorityDelegationSignatureInput C (d\<lparr>signature := s\<rparr>) = authorityDelegationSignatureInput C d"
  by (simp add: authorityDelegationSignatureInput_def json_of_unsigned_def body_members_def)

lemma signed_record_verifies:
  assumes "keypair C sk pk"
  shows "verifyAuthorityDelegationSignature C (signed_record C b sk) pk"
    and "lower_hex 128 (signature (signed_record C b sk))"
  using assms
  by (simp_all add: signed_record_def Let_def verifyAuthorityDelegationSignature_def
      signature_input_ignores_signature keypair_def)

lemma signed_record_wf:
  "wf_body b \<Longrightarrow> digest_well_formed C \<Longrightarrow> keypair C sk pk \<Longrightarrow> wf_delegation (signed_record C b sk)"
  by (simp add: wf_delegation_split is_delegation_id_digest signed_record_verifies)

lemma signed_record_member_ok:
  assumes "wf_body b" "digest_well_formed C" "keypair C sk pk"
    "resolveVerificationKey opt (issuer b) (verification_method b) (issued_at b) = Key pk"
    "in_window (now opt) (signed_record C b sk)" "resolveRevocation opt (signed_record C b sk) = Status_active"
  shows "member_ok C opt (signed_record C b sk)"
  using assms signed_record_wf signed_record_verifies
  by (simp add: member_ok_def signed_ok_def keypair_def)

section \<open>Exact success conditions\<close>

lemma issue_root_iff:
  "issueAuthorityDelegation C body sk = Inr d \<longleftrightarrow>
     \<not> carriesOwnIdentityMember body \<and> assertBody body = Inr ()
   \<and> parent_delegation_id (body_of body) = None \<and> d = signed_record C (body_of body) sk"
  using finalize_signed_record [OF assertBody_wf_body]
  by (auto simp: issueAuthorityDelegation_def bindE_Inr_iff Let_def split: if_splits)

lemma parent_key_Inr: "parent_key opt p = Inr k \<longleftrightarrow>
    issue_resolveVerificationKey opt (issuer p) (verification_method p) (issued_at p) = Key k \<and> KEY_MATERIAL k"
  by (auto simp: parent_key_def split: KeyResolution.splits)

definition parent_live :: "crypto \<Rightarrow> SubAuthorityIssueOptions \<Rightarrow> AuthorityDelegationV1 \<Rightarrow> bool" where
  "parent_live C opt p \<longleftrightarrow> wf_delegation p
     \<and> computeAuthorityDelegationId C (authorityDelegationBody p) = delegation_id p
     \<and> (\<exists>k. issue_resolveVerificationKey opt (issuer p) (verification_method p) (issued_at p) = Key k
          \<and> KEY_MATERIAL k \<and> verifyAuthorityDelegationSignature C p k)
     \<and> in_window (issue_now opt) p \<and> issue_resolveRevocation opt p = Status_active"

lemma check_parent_iff:
  "check_parent C opt (json_of_delegation p) = Inr q \<longleftrightarrow> q = p \<and> parent_live C opt p"
proof (cases "validateAuthorityDelegationShape (json_of_delegation p)")
  case Nil
  then have "wf_delegation p" using validate_iff_wf by simp
  with Nil show ?thesis
    by (auto simp: check_parent_def parent_live_def delegation_roundtrip Let_def bindE_Inr_iff parent_key_Inr
        in_window_def not_less not_le split: if_splits RevocationResolution.splits)
next
  case (Cons f fs)
  then have "\<not> wf_delegation p" using validate_iff_wf by force
  with Cons show ?thesis by (simp add: check_parent_def parent_live_def)
qed

lemma check_child_ok:
  assumes "wf_authority (authority p)" "wf_authority (authority b)"
  shows "check_child p b = Inr u \<longleftrightarrow> parent_delegation_id b = Some (delegation_id p) \<and> issuer b = subject p
     \<and> in_window (issued_at b) p \<and> narrows (authority p) (authority b)"
  using compareAuthority_Nil_iff [OF assms]
  by (auto simp: check_child_def in_window_def not_less not_le split: if_splits list.splits)

lemma issue_sub_iff:
  "issueSubAuthorityDelegation C (json_of_delegation p) body sk opt = Inr d \<longleftrightarrow>
     isCanonicalTimestamp (issue_now opt) \<and> parent_live C opt p
   \<and> \<not> carriesOwnIdentityMember body \<and> assertBody body = Inr ()
   \<and> d = signed_record C (body_of body) sk \<and> linked p d" (is "?L \<longleftrightarrow> ?R")
proof (cases "assertBody body = Inr () \<and> parent_live C opt p")
  case True
  then have wf: "wf_body (body_of body)" "wf_authority (authority p)" "wf_authority (authority (body_of body))"
    using assertBody_wf_body by (auto simp: parent_live_def wf_delegation_def wf_body_def)
  have "check_parent C opt (json_of_delegation p) = Inr p"
    using check_parent_iff True by blast
  with True wf show ?thesis
    using check_child_ok [OF wf(2,3)] finalize_signed_record [OF wf(1)]
    by (auto simp: issueSubAuthorityDelegation_def bindE_Inr_iff Let_def linked_def)
next
  case False
  then show ?thesis
    by (auto simp: issueSubAuthorityDelegation_def bindE_Inr_iff Let_def check_parent_iff split: if_splits)
qed

text \<open>The shape check on the JSON form of a typed body.\<close>

lemma identity_probe_body:
  "identity_probe (json_of_body b) = json_of_delegation (AuthorityDelegationBodyV1.extend b
     \<lparr>delegation_id = ''sha256:'' @ replicate 64 CHR ''0'', signature = replicate 128 CHR ''0''\<rparr>)"
  for b :: AuthorityDelegationBodyV1
  by (simp add: identity_probe_def json_of_body_def json_of_delegation_def body_members_def without_def
      AuthorityDelegationBodyV1.defs)

lemma body_roundtrip: "body_of (json_of_body b) = b"
  for b :: AuthorityDelegationBodyV1
  by (simp add: body_of_def identity_probe_body delegation_roundtrip authorityDelegationBody_def
      AuthorityDelegationBodyV1.defs)

lemma zero_probe: "is_delegation_id (''sha256:'' @ replicate 64 CHR ''0'')" "lower_hex 128 (replicate 128 CHR ''0'')"
  by code_simp+

lemma assertBody_iff_wf: "assertBody (json_of_body b) = Inr () \<longleftrightarrow> wf_body b"
  for b :: AuthorityDelegationBodyV1
proof
  assume "assertBody (json_of_body b) = Inr ()"
  from assertBody_wf_body [OF this] show "wf_body b" by (simp add: body_roundtrip)
next
  assume "wf_body b"
  moreover have "authorityDelegationBody (AuthorityDelegationBodyV1.extend b x) = b" for x
    by (simp add: authorityDelegationBody_def AuthorityDelegationBodyV1.defs)
  ultimately have "wf_delegation (AuthorityDelegationBodyV1.extend b
     \<lparr>delegation_id = ''sha256:'' @ replicate 64 CHR ''0'', signature = replicate 128 CHR ''0''\<rparr>)"
    unfolding wf_delegation_split using zero_probe by (simp add: AuthorityDelegationBodyV1.defs)
  then show "assertBody (json_of_body b) = Inr ()"
    by (simp add: assertBody_def identity_probe_body validate_iff_wf [THEN iffD2])
qed

lemma body_carries_no_identity: "\<not> carriesOwnIdentityMember (json_of_body b)"
  by (simp add: carriesOwnIdentityMember_def json_of_body_def body_members_def)

end
