(* ===== verification/Machine.thy ===== *)
theory Machine
  imports APS_Prelude
begin

text \<open>
  Labelled state machines: the states a sequence of operations reaches, and the two ways
  the components reason about them.  \<open>machine_invariant\<close> is the contract of a predicate that
  every operation keeps, \<open>machine_progress\<close> that of a relation that every operation only
  moves forward along.
\<close>

inductive run :: "('s \<Rightarrow> 'l \<Rightarrow> 's \<Rightarrow> bool) \<Rightarrow> 's \<Rightarrow> 'l list \<Rightarrow> 's \<Rightarrow> bool" for step where
  run_Nil: "run step s [] s"
| run_snoc: "run step s ls t \<Longrightarrow> step t l u \<Longrightarrow> run step s (ls @ [l]) u"

inductive_cases run_NilE: "run step s [] t"

lemma run_append: "run step t ls' u \<Longrightarrow> run step s ls t \<Longrightarrow> run step s (ls @ ls') u"
proof (induction rule: run.induct)
  case (run_Nil s)
  then show ?case by simp
next
  case (run_snoc t ls' t' l u)
  then show ?case using run.run_snoc [of step s "ls @ ls'"] by simp
qed

lemma run_Cons: "step s l t \<Longrightarrow> run step t ls u \<Longrightarrow> run step s (l # ls) u"
  using run_append [of step t ls u s "[l]"] run_snoc [OF run_Nil, of step s l t] by simp

locale machine_invariant =
  fixes init :: 's and step :: "'s \<Rightarrow> 'l \<Rightarrow> 's \<Rightarrow> bool" and admissible :: "'l \<Rightarrow> bool" and inv :: "'s \<Rightarrow> bool"
  assumes init: "inv init"
    and keeps: "inv s \<Longrightarrow> admissible l \<Longrightarrow> step s l t \<Longrightarrow> inv t"
begin

lemma run_keeps: "run step s ls t \<Longrightarrow> inv s \<Longrightarrow> list_all admissible ls \<Longrightarrow> inv t"
  by (induction rule: run.induct) (auto intro: keeps)

lemma reachable: "run step init ls t \<Longrightarrow> list_all admissible ls \<Longrightarrow> inv t"
  using run_keeps init by blast

end

locale machine_progress =
  fixes step :: "'s \<Rightarrow> 'l \<Rightarrow> 's \<Rightarrow> bool" and inv :: "'s \<Rightarrow> bool" and le :: "'s \<Rightarrow> 's \<Rightarrow> bool"
  assumes refl: "le s s"
    and trans: "le s t \<Longrightarrow> le t u \<Longrightarrow> le s u"
    and keeps: "inv s \<Longrightarrow> step s l t \<Longrightarrow> inv t"
    and forward: "inv s \<Longrightarrow> step s l t \<Longrightarrow> le s t"
begin

lemma run_forward: "run step s ls t \<Longrightarrow> inv s \<Longrightarrow> inv t \<and> le s t"
  by (induction rule: run.induct) (auto intro: refl keeps trans forward)

end

end
