(* ===== verification/Authority_Budget.thy ===== *)
theory Authority_Budget
  imports Authority_Verify Machine "HOL-Library.AList"
begin

text \<open>
  \<^verbatim>\<open>src/v2/authority-delegation/budget.ts\<close>: the in-memory spend ledger.  A reservation
  holds an amount against every bounded delegation of a chain at once, and is then
  dispatched, committed or cancelled.  The theory models the ledger's two maps and each of
  its operations, states what the counters mean, and shows that they mean it in every
  state a sequence of operations reaches.

  The \<open>Map\<close> of reservations is an association list in insertion order (\<open>AList.update\<close>
  replaces in place or appends, as \<open>Map.prototype.set\<close> does); a mutated entry is an update.
\<close>

section \<open>State\<close>

record Counter =
  reserved :: int
  committed :: int

datatype BudgetReservationState = Reserved | Dispatched | Committed | Cancelled

record Reservation =
  actionRef :: string
  reservation_unit :: string
  amount :: int
  delegationIds :: "string list"
  reservation_state :: BudgetReservationState

datatype BudgetCode =
    RESERVED | DISPATCHED | COMMITTED | CANCELLED | IDEMPOTENT | CONFLICT | UNIT_MISMATCH
  | PER_ACTION_EXCEEDED | CUMULATIVE_EXCEEDED | NOT_FOUND | INVALID_STATE

record BudgetOperationResult =
  ok :: bool
  code :: BudgetCode
  result_state :: "BudgetReservationState option"

record Ledger =
  counters :: "string \<rightharpoonup> Counter"
  reservations :: "(string \<times> Reservation) list"

definition empty_ledger :: Ledger where
  "empty_ledger = \<lparr>counters = Map.empty, reservations = []\<rparr>"

definition refused :: "BudgetCode \<Rightarrow> BudgetOperationResult" where
  "refused c = \<lparr>ok = False, code = c, result_state = None\<rparr>"

definition refused_in :: "BudgetCode \<Rightarrow> BudgetReservationState \<Rightarrow> BudgetOperationResult" where
  "refused_in c st = \<lparr>ok = False, code = c, result_state = Some st\<rparr>"

definition done_in :: "BudgetCode \<Rightarrow> BudgetReservationState \<Rightarrow> BudgetOperationResult" where
  "done_in c st = \<lparr>ok = True, code = c, result_state = Some st\<rparr>"

lemmas outcome_defs = refused_def refused_in_def done_in_def

definition ACTION_REF :: "string \<Rightarrow> bool" where
  "ACTION_REF s \<longleftrightarrow> lower_hex 64 s"

text \<open>\<open>this.counters.get(id) ?? { reserved: 0n, committed: 0n }\<close>.\<close>

definition counter_at :: "(string \<rightharpoonup> Counter) \<Rightarrow> string \<Rightarrow> Counter" where
  "counter_at cs i = (case cs i of Some c \<Rightarrow> c | None \<Rightarrow> \<lparr>reserved = 0, committed = 0\<rparr>)"

section \<open>Operations\<close>

text \<open>The loop over the chain: shape, content address, repeats, parent link, continuity.\<close>

fun reserve_chain :: "crypto \<Rightarrow> AuthorityDelegationV1 option \<Rightarrow> string list \<Rightarrow> json list \<Rightarrow> chain option" where
  "reserve_chain C prev seen [] = Some []"
| "reserve_chain C prev seen (j # js) =
     (if validateAuthorityDelegationShape j \<noteq> [] then None
      else case delegation_of j of
        None \<Rightarrow> None
      | Some d \<Rightarrow>
          if computeAuthorityDelegationId C (authorityDelegationBody d) \<noteq> delegation_id d
             \<or> delegation_id d \<in> set seen then None
          else if (case prev of
               None \<Rightarrow> parent_delegation_id d \<noteq> None
             | Some p \<Rightarrow> parent_delegation_id d \<noteq> Some (delegation_id p) \<or> issuer d \<noteq> subject p) then None
          else map_option ((#) d) (reserve_chain C (Some d) (delegation_id d # seen) js))"

definition is_bounded :: "AuthorityDelegationV1 \<Rightarrow> bool" where
  "is_bounded d \<longleftrightarrow> spend (authority d) \<noteq> Unbounded"

definition limit_code :: "(string \<rightharpoonup> Counter) \<Rightarrow> string \<Rightarrow> int \<Rightarrow> AuthorityDelegationV1 \<Rightarrow> BudgetCode option" where
  "limit_code cs u amt d =
     (case spend (authority d) of
        Unbounded \<Rightarrow> None
      | Bounded su per cum \<Rightarrow>
          if su \<noteq> u then Some UNIT_MISMATCH
          else if amt > BigInt per then Some PER_ACTION_EXCEEDED
          else if reserved (counter_at cs (delegation_id d)) + committed (counter_at cs (delegation_id d)) + amt
                  > BigInt cum then Some CUMULATIVE_EXCEEDED
          else None)"

definition hold :: "int \<Rightarrow> string \<Rightarrow> (string \<rightharpoonup> Counter) \<Rightarrow> (string \<rightharpoonup> Counter)" where
  "hold amt i cs = cs(i \<mapsto> (counter_at cs i)\<lparr>reserved := reserved (counter_at cs i) + amt\<rparr>)"

definition reserve_checked ::
  "Ledger \<Rightarrow> chain \<Rightarrow> string \<Rightarrow> string \<Rightarrow> int \<Rightarrow> BudgetOperationResult \<times> Ledger" where
  "reserve_checked L ch act u amt =
     (let bounded = filter is_bounded ch;
          ids = map delegation_id bounded;
          fresh = (case first_some (map (limit_code (counters L) u amt) bounded) of
              Some c \<Rightarrow> (refused c, L)
            | None \<Rightarrow> (done_in RESERVED Reserved,
                L\<lparr>counters := fold (hold amt) ids (counters L),
                  reservations := AList.update act
                    \<lparr>actionRef = act, reservation_unit = u, amount = amt, delegationIds = ids, reservation_state = Reserved\<rparr>
                    (reservations L)\<rparr>))
      in case map_of (reservations L) act of
           Some prior \<Rightarrow>
             if reservation_state prior \<noteq> Cancelled
             then (if reservation_unit prior = u \<and> amount prior = amt \<and> delegationIds prior = ids
                   then done_in IDEMPOTENT (reservation_state prior)
                   else refused_in CONFLICT (reservation_state prior), L)
             else fresh
         | None \<Rightarrow> fresh)"

definition reserve ::
  "crypto \<Rightarrow> Ledger \<Rightarrow> json \<Rightarrow> string \<Rightarrow> string \<Rightarrow> string \<Rightarrow> BudgetOperationResult \<times> Ledger" where
  "reserve C L verifiedChain act u amountString =
     (if \<not> ACTION_REF act \<or> \<not> isCanonicalQuantity amountString then (refused CONFLICT, L)
      else case readPlainDataChainContainer verifiedChain 1 256 of
        Inl _ \<Rightarrow> (refused CONFLICT, L)
      | Inr raw \<Rightarrow>
          (case reserve_chain C None [] raw of
             None \<Rightarrow> (refused CONFLICT, L)
           | Some ch \<Rightarrow> reserve_checked L ch act u (BigInt amountString)))"

definition set_state :: "BudgetReservationState \<Rightarrow> string \<Rightarrow> Reservation \<Rightarrow> Ledger \<Rightarrow> Ledger" where
  "set_state st act r L = L\<lparr>reservations := AList.update act (r\<lparr>reservation_state := st\<rparr>) (reservations L)\<rparr>"

definition markDispatched :: "Ledger \<Rightarrow> string \<Rightarrow> BudgetOperationResult \<times> Ledger" where
  "markDispatched L act =
     (case map_of (reservations L) act of
        None \<Rightarrow> (refused NOT_FOUND, L)
      | Some r \<Rightarrow>
          if reservation_state r = Dispatched then (done_in IDEMPOTENT Dispatched, L)
          else if reservation_state r \<noteq> Reserved then (refused_in INVALID_STATE (reservation_state r), L)
          else (done_in DISPATCHED Dispatched, set_state Dispatched act r L))"

text \<open>The guard loop of \<open>commit\<close> and \<open>cancel\<close>.\<close>

definition covers_hold :: "(string \<rightharpoonup> Counter) \<Rightarrow> int \<Rightarrow> string \<Rightarrow> bool" where
  "covers_hold cs amt i = (case cs i of None \<Rightarrow> False | Some c \<Rightarrow> reserved c \<ge> amt)"

definition settle :: "int \<Rightarrow> string \<Rightarrow> (string \<rightharpoonup> Counter) \<Rightarrow> (string \<rightharpoonup> Counter)" where
  "settle amt i cs = cs(i := map_option
     (\<lambda>c. c\<lparr>reserved := reserved c - amt, committed := committed c + amt\<rparr>) (cs i))"

definition release :: "int \<Rightarrow> string \<Rightarrow> (string \<rightharpoonup> Counter) \<Rightarrow> (string \<rightharpoonup> Counter)" where
  "release amt i cs = cs(i := map_option (\<lambda>c. c\<lparr>reserved := reserved c - amt\<rparr>) (cs i))"

definition commit :: "Ledger \<Rightarrow> string \<Rightarrow> BudgetOperationResult \<times> Ledger" where
  "commit L act =
     (case map_of (reservations L) act of
        None \<Rightarrow> (refused NOT_FOUND, L)
      | Some r \<Rightarrow>
          if reservation_state r = Committed then (done_in IDEMPOTENT Committed, L)
          else if reservation_state r \<noteq> Reserved \<and> reservation_state r \<noteq> Dispatched
          then (refused_in INVALID_STATE (reservation_state r), L)
          else if \<not> list_all (covers_hold (counters L) (amount r)) (delegationIds r)
          then (refused_in INVALID_STATE (reservation_state r), L)
          else (done_in COMMITTED Committed,
            set_state Committed act r (L\<lparr>counters := fold (settle (amount r)) (delegationIds r) (counters L)\<rparr>)))"

definition cancel :: "Ledger \<Rightarrow> string \<Rightarrow> BudgetOperationResult \<times> Ledger" where
  "cancel L act =
     (case map_of (reservations L) act of
        None \<Rightarrow> (refused NOT_FOUND, L)
      | Some r \<Rightarrow>
          if reservation_state r = Cancelled then (done_in IDEMPOTENT Cancelled, L)
          else if reservation_state r \<noteq> Reserved then (refused_in INVALID_STATE (reservation_state r), L)
          else if \<not> list_all (covers_hold (counters L) (amount r)) (delegationIds r)
          then (refused_in INVALID_STATE (reservation_state r), L)
          else (done_in CANCELLED Cancelled,
            set_state Cancelled act r (L\<lparr>counters := fold (release (amount r)) (delegationIds r) (counters L)\<rparr>)))"

text \<open>\<open>counter\<close>: the decimal forms of both sides of a delegation's counter.\<close>

definition bigint_string :: "int \<Rightarrow> string" where
  "bigint_string i = (if i < 0 then CHR ''-'' # decimal (nat (- i)) else decimal (nat i))"

definition counter :: "Ledger \<Rightarrow> string \<Rightarrow> string \<times> string" where
  "counter L i = (bigint_string (reserved (counter_at (counters L) i)),
     bigint_string (committed (counter_at (counters L) i)))"

section \<open>Sequences of operations\<close>

datatype LedgerOp = Reserve json string string string | MarkDispatched string | Commit string | Cancel string

fun run_op :: "crypto \<Rightarrow> LedgerOp \<Rightarrow> Ledger \<Rightarrow> BudgetOperationResult \<times> Ledger" where
  "run_op C (Reserve chn act u amt) L = reserve C L chn act u amt"
| "run_op C (MarkDispatched act) L = markDispatched L act"
| "run_op C (Commit act) L = commit L act"
| "run_op C (Cancel act) L = cancel L act"

inductive ledger_step :: "crypto \<Rightarrow> Ledger \<Rightarrow> LedgerOp \<Rightarrow> Ledger \<Rightarrow> bool" for C where
  "snd (run_op C opn L) = L' \<Longrightarrow> ledger_step C L opn L'"

inductive_simps ledger_step_iff: "ledger_step C L opn L'"

section \<open>What the counters mean\<close>

definition live :: "Reservation \<Rightarrow> bool" where
  "live r \<longleftrightarrow> reservation_state r = Reserved \<or> reservation_state r = Dispatched"

definition weight :: "(Reservation \<Rightarrow> bool) \<Rightarrow> string \<Rightarrow> Reservation \<Rightarrow> int" where
  "weight P i r = (if P r \<and> i \<in> set (delegationIds r) then amount r else 0)"

text \<open>Amount held against a delegation by live reservations, and amount spent against it.\<close>

definition held :: "(string \<times> Reservation) list \<Rightarrow> string \<Rightarrow> int" where
  "held rs i = sum_list (map (\<lambda>x. weight live i (snd x)) rs)"

definition spent :: "(string \<times> Reservation) list \<Rightarrow> string \<Rightarrow> int" where
  "spent rs i = sum_list (map (\<lambda>x. weight (\<lambda>r. reservation_state r = Committed) i (snd x)) rs)"

definition wf_reservation :: "(string \<rightharpoonup> Counter) \<Rightarrow> string \<Rightarrow> Reservation \<Rightarrow> bool" where
  "wf_reservation cs a r \<longleftrightarrow> actionRef r = a \<and> 0 \<le> amount r \<and> distinct (delegationIds r)
     \<and> set (delegationIds r) \<subseteq> dom cs"

definition ledger_inv :: "Ledger \<Rightarrow> bool" where
  "ledger_inv L \<longleftrightarrow> distinct (map fst (reservations L))
     \<and> (\<forall>(a, r) \<in> set (reservations L). wf_reservation (counters L) a r)
     \<and> (\<forall>i. reserved (counter_at (counters L) i) = held (reservations L) i)
     \<and> (\<forall>i. committed (counter_at (counters L) i) = spent (reservations L) i)"

lemma sum_list_update:
  fixes f :: "'k \<times> 'v \<Rightarrow> int"
  shows "sum_list (map f (AList.update k v xs)) =
    sum_list (map f xs) - (case map_of xs k of None \<Rightarrow> 0 | Some w \<Rightarrow> f (k, w)) + f (k, v)"
  by (induction xs) auto

lemma held_update: "held (AList.update a r rs) i =
    held rs i - (case map_of rs a of None \<Rightarrow> 0 | Some q \<Rightarrow> weight live i q) + weight live i r"
  by (simp add: held_def sum_list_update cong: option.case_cong)

lemma spent_update: "spent (AList.update a r rs) i =
    spent rs i - (case map_of rs a of None \<Rightarrow> 0 | Some q \<Rightarrow> weight (\<lambda>r. reservation_state r = Committed) i q)
      + weight (\<lambda>r. reservation_state r = Committed) i r"
  by (simp add: spent_def sum_list_update cong: option.case_cong)

lemma fold_hold:
  "distinct ids \<Longrightarrow> reserved (counter_at (fold (hold amt) ids cs) i) = reserved (counter_at cs i) + (if i \<in> set ids then amt else 0)"
  "committed (counter_at (fold (hold amt) ids cs) i) = committed (counter_at cs i)"
  "dom (fold (hold amt) ids cs) = dom cs \<union> set ids"
  by (induction ids arbitrary: cs) (auto simp: hold_def counter_at_def)

lemma fold_settle:
  "distinct ids \<Longrightarrow> set ids \<subseteq> dom cs \<Longrightarrow>
     reserved (counter_at (fold (settle amt) ids cs) i) = reserved (counter_at cs i) - (if i \<in> set ids then amt else 0)"
  "distinct ids \<Longrightarrow> set ids \<subseteq> dom cs \<Longrightarrow>
     committed (counter_at (fold (settle amt) ids cs) i) = committed (counter_at cs i) + (if i \<in> set ids then amt else 0)"
  "dom (fold (settle amt) ids cs) = dom cs"
proof -
  have dom: "dom (settle amt j cs) = dom cs" for j cs
    by (auto simp: settle_def)
  show "dom (fold (settle amt) ids cs) = dom cs"
    by (induction ids arbitrary: cs) (auto simp: dom)
  show "distinct ids \<Longrightarrow> set ids \<subseteq> dom cs \<Longrightarrow>
     reserved (counter_at (fold (settle amt) ids cs) i) = reserved (counter_at cs i) - (if i \<in> set ids then amt else 0)"
    by (induction ids arbitrary: cs) (auto simp: dom, auto simp: settle_def counter_at_def split: option.split)
  show "distinct ids \<Longrightarrow> set ids \<subseteq> dom cs \<Longrightarrow>
     committed (counter_at (fold (settle amt) ids cs) i) = committed (counter_at cs i) + (if i \<in> set ids then amt else 0)"
    by (induction ids arbitrary: cs) (auto simp: dom, auto simp: settle_def counter_at_def split: option.split)
qed

lemma fold_release:
  "distinct ids \<Longrightarrow> set ids \<subseteq> dom cs \<Longrightarrow>
     reserved (counter_at (fold (release amt) ids cs) i) = reserved (counter_at cs i) - (if i \<in> set ids then amt else 0)"
  "committed (counter_at (fold (release amt) ids cs) i) = committed (counter_at cs i)"
  "dom (fold (release amt) ids cs) = dom cs"
proof -
  have dom: "dom (release amt j cs) = dom cs" for j cs
    by (auto simp: release_def)
  show "dom (fold (release amt) ids cs) = dom cs"
    by (induction ids arbitrary: cs) (auto simp: dom)
  show "distinct ids \<Longrightarrow> set ids \<subseteq> dom cs \<Longrightarrow>
     reserved (counter_at (fold (release amt) ids cs) i) = reserved (counter_at cs i) - (if i \<in> set ids then amt else 0)"
    by (induction ids arbitrary: cs) (auto simp: dom, auto simp: release_def counter_at_def split: option.split)
  show "committed (counter_at (fold (release amt) ids cs) i) = committed (counter_at cs i)"
    by (induction ids arbitrary: cs) (auto simp: release_def counter_at_def split: option.split)
qed

section \<open>Every operation keeps the invariant\<close>

lemma ledger_invD:
  assumes "ledger_inv L" "map_of (reservations L) a = Some r"
  shows "wf_reservation (counters L) a r"
  using assms map_of_SomeD by (fastforce simp: ledger_inv_def)

lemma held_nonneg: "\<forall>x \<in> set rs. 0 \<le> amount (snd x) \<Longrightarrow> 0 \<le> held rs i"
  unfolding held_def by (intro sum_list_nonneg) (auto simp: weight_def)

lemma spent_nonneg: "\<forall>x \<in> set rs. 0 \<le> amount (snd x) \<Longrightarrow> 0 \<le> spent rs i"
  unfolding spent_def by (intro sum_list_nonneg) (auto simp: weight_def)

lemma set_update_subset: "set (AList.update k v xs) \<subseteq> insert (k, v) (set xs)"
  by (induction xs) auto

lemma ledger_inv_update:
  assumes "ledger_inv L" "wf_reservation cs a r" "dom (counters L) \<subseteq> dom cs"
    and "\<And>i. reserved (counter_at cs i) = held (AList.update a r (reservations L)) i"
    and "\<And>i. committed (counter_at cs i) = spent (AList.update a r (reservations L)) i"
  shows "ledger_inv (L\<lparr>counters := cs, reservations := AList.update a r (reservations L)\<rparr>)"
proof -
  have "wf_reservation cs b q" if "(b, q) \<in> set (AList.update a r (reservations L))" for b q
  proof (cases "(b, q) = (a, r)")
    case False
    with that set_update_subset [of a r "reservations L"] have "(b, q) \<in> set (reservations L)" by auto
    with assms(1) have "wf_reservation (counters L) b q" by (auto simp: ledger_inv_def)
    with assms(3) show ?thesis unfolding wf_reservation_def by blast
  qed (use assms(2) in simp)
  then show ?thesis using assms(1,4,5) by (auto simp: ledger_inv_def distinct_update)
qed

lemma live_hold_covered:
  assumes "ledger_inv L" "map_of (reservations L) a = Some r" "live r"
  shows "list_all (covers_hold (counters L) (amount r)) (delegationIds r)"
proof -
  note wf = ledger_invD [OF assms(1,2)]
  let ?rs = "AList.update a (r\<lparr>reservation_state := Cancelled\<rparr>) (reservations L)"
  have "0 \<le> amount (snd x)" if "x \<in> set ?rs" for x
  proof -
    from that set_update_subset [of a "r\<lparr>reservation_state := Cancelled\<rparr>" "reservations L"]
    have "x = (a, r\<lparr>reservation_state := Cancelled\<rparr>) \<or> x \<in> set (reservations L)" by blast
    then show ?thesis using assms(1) wf by (cases x) (auto simp: ledger_inv_def wf_reservation_def)
  qed
  then have nonneg: "0 \<le> held ?rs i" for i by (intro held_nonneg) blast
  have "covers_hold (counters L) (amount r) i" if i: "i \<in> set (delegationIds r)" for i
  proof -
    have "amount r \<le> reserved (counter_at (counters L) i)"
      using nonneg [of i] assms i by (simp add: held_update weight_def live_def ledger_inv_def)
    moreover from wf i have "i \<in> dom (counters L)" by (auto simp: wf_reservation_def)
    ultimately show ?thesis by (auto simp: covers_hold_def counter_at_def)
  qed
  then show ?thesis by (simp add: list_all_iff)
qed

lemma ledger_inv_empty: "ledger_inv empty_ledger"
  by (simp add: ledger_inv_def empty_ledger_def counter_at_def held_def spent_def)

lemma set_state_inv_dispatched:
  assumes "ledger_inv L" "map_of (reservations L) a = Some r" "reservation_state r = Reserved"
  shows "ledger_inv (set_state Dispatched a r L)"
proof -
  have "ledger_inv (L\<lparr>counters := counters L,
      reservations := AList.update a (r\<lparr>reservation_state := Dispatched\<rparr>) (reservations L)\<rparr>)"
    using assms ledger_invD [OF assms(1,2)]
    by (intro ledger_inv_update)
       (auto simp: wf_reservation_def held_update spent_update weight_def live_def ledger_inv_def)
  then show ?thesis by (simp add: set_state_def)
qed

lemma commit_inv:
  assumes "ledger_inv L" "map_of (reservations L) a = Some r" "live r"
  shows "ledger_inv (set_state Committed a r (L\<lparr>counters := fold (settle (amount r)) (delegationIds r) (counters L)\<rparr>))"
proof -
  note wf = ledger_invD [OF assms(1,2), unfolded wf_reservation_def]
  have "ledger_inv (L\<lparr>counters := fold (settle (amount r)) (delegationIds r) (counters L),
      reservations := AList.update a (r\<lparr>reservation_state := Committed\<rparr>) (reservations L)\<rparr>)"
    using assms wf
    by (intro ledger_inv_update)
       (auto simp: fold_settle wf_reservation_def held_update spent_update weight_def live_def ledger_inv_def)
  then show ?thesis by (simp add: set_state_def)
qed

lemma cancel_inv:
  assumes "ledger_inv L" "map_of (reservations L) a = Some r" "reservation_state r = Reserved"
  shows "ledger_inv (set_state Cancelled a r (L\<lparr>counters := fold (release (amount r)) (delegationIds r) (counters L)\<rparr>))"
proof -
  note wf = ledger_invD [OF assms(1,2), unfolded wf_reservation_def]
  have "ledger_inv (L\<lparr>counters := fold (release (amount r)) (delegationIds r) (counters L),
      reservations := AList.update a (r\<lparr>reservation_state := Cancelled\<rparr>) (reservations L)\<rparr>)"
    using assms wf
    by (intro ledger_inv_update)
       (auto simp: fold_release wf_reservation_def held_update spent_update weight_def live_def ledger_inv_def)
  then show ?thesis by (simp add: set_state_def)
qed

definition fresh_slot :: "Ledger \<Rightarrow> string \<Rightarrow> bool" where
  "fresh_slot L a \<longleftrightarrow> (case map_of (reservations L) a of None \<Rightarrow> True | Some r \<Rightarrow> reservation_state r = Cancelled)"

lemma reserve_inv:
  assumes "ledger_inv L" "fresh_slot L a" "0 \<le> amt" "distinct ids"
  shows "ledger_inv (L\<lparr>counters := fold (hold amt) ids (counters L),
    reservations := AList.update a \<lparr>actionRef = a, reservation_unit = u, amount = amt, delegationIds = ids,
      reservation_state = Reserved\<rparr> (reservations L)\<rparr>)"
  using assms
  by (intro ledger_inv_update; cases "map_of (reservations L) a")
     (auto simp: fold_hold wf_reservation_def held_update spent_update weight_def live_def ledger_inv_def
        fresh_slot_def)

lemma BigInt_nonneg: "isCanonicalQuantity s \<Longrightarrow> 0 \<le> BigInt s"
  using num_of_bounds [of s]
  by (auto simp: isCanonicalQuantity_def is_decimal_def BigInt_def num_of_Cons digit_val_def)

text \<open>A chain that passes the loop is linked, carries its own content addresses and no identifier twice.\<close>

lemma reserve_chain_distinct:
  "reserve_chain C prev seen js = Some ch \<Longrightarrow>
     distinct (map delegation_id ch) \<and> set (map delegation_id ch) \<inter> set seen = {}
   \<and> (\<forall>d \<in> set ch. wf_delegation d \<and> computeAuthorityDelegationId C (authorityDelegationBody d) = delegation_id d)"
proof (induction js arbitrary: prev seen ch)
  case (Cons j js)
  then obtain d rest where d: "delegation_of j = Some d" "validateAuthorityDelegationShape j = []"
      "computeAuthorityDelegationId C (authorityDelegationBody d) = delegation_id d" "delegation_id d \<notin> set seen"
      and rest: "reserve_chain C (Some d) (delegation_id d # seen) js = Some rest" "ch = d # rest"
    by (auto split: if_splits option.splits)
  from validate_Nil_decodes [OF d(2)] d(1) have "wf_delegation d" by simp
  with Cons.IH [OF rest(1)] d rest(2) show ?case by auto
qed simp

lemma reserve_checked_cases:
  obtains (same) res where "reserve_checked L ch act u amt = (res, L)"
  | (fresh) "fresh_slot L act"
      "\<forall>d \<in> set (filter is_bounded ch). limit_code (counters L) u amt d = None"
      "reserve_checked L ch act u amt = (done_in RESERVED Reserved,
         L\<lparr>counters := fold (hold amt) (map delegation_id (filter is_bounded ch)) (counters L),
           reservations := AList.update act \<lparr>actionRef = act, reservation_unit = u, amount = amt,
             delegationIds = map delegation_id (filter is_bounded ch), reservation_state = Reserved\<rparr> (reservations L)\<rparr>)"
proof (cases "fresh_slot L act \<and> first_some (map (limit_code (counters L) u amt) (filter is_bounded ch)) = None")
  case True
  then have "\<forall>d \<in> set (filter is_bounded ch). limit_code (counters L) u amt d = None"
    unfolding first_some_None_iff by auto
  with True fresh show thesis
    by (auto simp: reserve_checked_def fresh_slot_def Let_def split: option.splits)
next
  case False
  then have "snd (reserve_checked L ch act u amt) = L"
    by (auto simp: reserve_checked_def fresh_slot_def Let_def split: option.splits)
  then show thesis using same by (metis prod.collapse)
qed

text \<open>The three ways a \<open>reserve\<close> call may leave the ledger.\<close>

lemma reserve_cases:
  obtains (same) res where "reserve C L chn act u amountString = (res, L)"
  | (fresh) raw ch where "readPlainDataChainContainer chn 1 256 = Inr raw" "reserve_chain C None [] raw = Some ch"
      "ACTION_REF act" "isCanonicalQuantity amountString" "fresh_slot L act"
      "\<forall>d \<in> set (filter is_bounded ch). limit_code (counters L) u (BigInt amountString) d = None"
      "reserve C L chn act u amountString = (done_in RESERVED Reserved,
         L\<lparr>counters := fold (hold (BigInt amountString)) (map delegation_id (filter is_bounded ch)) (counters L),
           reservations := AList.update act \<lparr>actionRef = act, reservation_unit = u, amount = BigInt amountString,
             delegationIds = map delegation_id (filter is_bounded ch), reservation_state = Reserved\<rparr> (reservations L)\<rparr>)"
proof (cases "ACTION_REF act \<and> isCanonicalQuantity amountString")
  case guards: True
  show thesis
  proof (cases "readPlainDataChainContainer chn 1 256")
    case (Inl rej)
    then show thesis using same guards by (simp add: reserve_def)
  next
    case (Inr raw)
    show thesis
    proof (cases "reserve_chain C None [] raw")
      case None
      then show thesis using same guards Inr by (simp add: reserve_def)
    next
      case (Some ch)
      have red: "reserve C L chn act u amountString = reserve_checked L ch act u (BigInt amountString)"
        using guards Inr Some by (simp add: reserve_def)
      show thesis
      proof (cases rule: reserve_checked_cases [of L ch act u "BigInt amountString"])
        case (same res)
        then show thesis using that(1) red by simp
      next
        case fresh
        then show thesis using that(2) [OF Inr Some] guards red by simp
      qed
    qed
  qed
qed (use same in \<open>simp add: reserve_def\<close>)

lemma reserve_fresh_inv:
  assumes "ledger_inv L" "reserve_chain C None [] raw = Some ch" "isCanonicalQuantity q" "fresh_slot L act"
  shows "ledger_inv (L\<lparr>counters := fold (hold (BigInt q)) (map delegation_id (filter is_bounded ch)) (counters L),
    reservations := AList.update act \<lparr>actionRef = act, reservation_unit = u, amount = BigInt q,
      delegationIds = map delegation_id (filter is_bounded ch), reservation_state = Reserved\<rparr> (reservations L)\<rparr>)"
  using assms reserve_chain_distinct [OF assms(2)] BigInt_nonneg
  by (intro reserve_inv) (auto intro: distinct_map_filter)

lemma run_op_inv:
  assumes inv: "ledger_inv L"
  shows "ledger_inv (snd (run_op C opn L))"
proof (cases opn)
  case (Reserve chn act u q)
  show ?thesis
    by (cases rule: reserve_cases [of C L chn act u q]) (simp_all add: Reserve inv reserve_fresh_inv)
next
  case (MarkDispatched act)
  then show ?thesis using inv set_state_inv_dispatched
    by (auto simp: markDispatched_def split: option.split)
next
  case (Commit act)
  then show ?thesis using inv commit_inv by (auto simp: commit_def live_def split: option.split)
next
  case (Cancel act)
  then show ?thesis using inv cancel_inv by (auto simp: cancel_def split: option.split)
qed

interpretation ledger: machine_invariant empty_ledger "ledger_step C" "\<lambda>_. True" ledger_inv for C
  by unfold_locales (auto simp: ledger_inv_empty ledger_step_iff run_op_inv)

section \<open>Signed ceilings\<close>

text \<open>
  \<open>cap\<close> gives the cumulative ceiling of a delegation identifier.  An operation agrees with it
  when every bounded record of the chain it presents carries that ceiling, which holds for
  every operation as long as no two different records share a content address.
\<close>

fun agrees :: "crypto \<Rightarrow> (string \<Rightarrow> int) \<Rightarrow> LedgerOp \<Rightarrow> bool" where
  "agrees C cap (Reserve chn act u q) =
     (case readPlainDataChainContainer chn 1 256 of
        Inl _ \<Rightarrow> True
      | Inr raw \<Rightarrow> (case reserve_chain C None [] raw of
          None \<Rightarrow> True
        | Some ch \<Rightarrow> list_all (\<lambda>d. case spend (authority d) of Unbounded \<Rightarrow> True
            | Bounded _ _ c \<Rightarrow> BigInt c = cap (delegation_id d)) ch))"
| "agrees C cap _ = True"

definition committed_and_held :: "Ledger \<Rightarrow> string \<Rightarrow> int" where
  "committed_and_held L i = reserved (counter_at (counters L) i) + committed (counter_at (counters L) i)"

definition within_caps :: "(string \<Rightarrow> int) \<Rightarrow> Ledger \<Rightarrow> bool" where
  "within_caps cap L \<longleftrightarrow> ledger_inv L \<and> (\<forall>i \<in> dom (counters L). committed_and_held L i \<le> cap i)"

lemma reserve_within_caps:
  assumes caps: "within_caps cap L" and ag: "agrees C cap (Reserve chn act u q)"
  shows "within_caps cap (snd (reserve C L chn act u q))"
proof (cases rule: reserve_cases [of C L chn act u q])
  case (fresh raw ch)
  let ?ids = "map delegation_id (filter is_bounded ch)" and ?amt = "BigInt q"
  have dist: "distinct ?ids" using reserve_chain_distinct [OF fresh(2)] by (auto intro: distinct_map_filter)
  have fits: "committed_and_held L i + ?amt \<le> cap i" if "i \<in> set ?ids" for i
  proof -
    from that obtain d where d: "d \<in> set ch" "is_bounded d" "i = delegation_id d" by auto
    then obtain su per cum where sp: "spend (authority d) = Bounded su per cum"
      by (cases "spend (authority d)") (auto simp: is_bounded_def)
    have "BigInt cum = cap i"
      using ag fresh(1,2) d sp by (auto simp: list_all_iff split: SpendFacetV1.splits)
    moreover have "limit_code (counters L) u ?amt d = None" using fresh(6) d by simp
    ultimately show ?thesis using sp d(3)
      by (simp add: limit_code_def committed_and_held_def split: if_splits)
  qed
  show ?thesis unfolding fresh(7) within_caps_def snd_conv
  proof (intro conjI ballI)
    fix i assume i: "i \<in> dom (counters (L\<lparr>counters := fold (hold ?amt) ?ids (counters L),
      reservations := AList.update act \<lparr>actionRef = act, reservation_unit = u, amount = ?amt,
      delegationIds = ?ids, reservation_state = Reserved\<rparr> (reservations L)\<rparr>))"
    show "committed_and_held (L\<lparr>counters := fold (hold ?amt) ?ids (counters L),
      reservations := AList.update act \<lparr>actionRef = act, reservation_unit = u, amount = ?amt,
      delegationIds = ?ids, reservation_state = Reserved\<rparr> (reservations L)\<rparr>) i \<le> cap i"
    proof (cases "i \<in> set ?ids")
      case True
      then show ?thesis using fits [OF True] by (simp add: committed_and_held_def fold_hold(1) [OF dist] fold_hold(2))
    next
      case False
      with i have "i \<in> dom (counters L)" by (simp add: fold_hold(3))
      with caps False show ?thesis
        by (auto simp: within_caps_def committed_and_held_def fold_hold(1) [OF dist] fold_hold(2))
    qed
  qed (use reserve_fresh_inv caps fresh in \<open>simp add: within_caps_def\<close>)
qed (use caps in simp)

lemma run_op_within_caps:
  assumes caps: "within_caps cap L" and ag: "agrees C cap opn"
  shows "within_caps cap (snd (run_op C opn L))"
proof (cases opn)
  case (Reserve chn act u q)
  then show ?thesis using reserve_within_caps [OF caps] ag by simp
next
  case (MarkDispatched act)
  have "counters (snd (markDispatched L act)) = counters L"
    by (simp add: markDispatched_def set_state_def split: option.split)
  then show ?thesis using caps run_op_inv [of L C opn] MarkDispatched
    by (simp add: within_caps_def committed_and_held_def)
next
  case (Commit act)
  have wf: "wf_reservation (counters L) act r" if "map_of (reservations L) act = Some r" for r
    using caps that ledger_invD by (simp add: within_caps_def)
  have "committed_and_held (snd (commit L act)) i = committed_and_held L i"
    and "dom (counters (snd (commit L act))) = dom (counters L)" for i
    using wf by (auto simp: commit_def committed_and_held_def set_state_def fold_settle wf_reservation_def
      split: option.split)
  then show ?thesis using caps run_op_inv [of L C opn] Commit by (simp add: within_caps_def)
next
  case (Cancel act)
  have wf: "wf_reservation (counters L) act r" if "map_of (reservations L) act = Some r" for r
    using caps that ledger_invD by (simp add: within_caps_def)
  have "committed_and_held (snd (cancel L act)) i \<le> committed_and_held L i"
    and "dom (counters (snd (cancel L act))) = dom (counters L)" for i
    using wf by (auto simp: cancel_def committed_and_held_def set_state_def fold_release wf_reservation_def
      split: option.split)
  then show ?thesis using caps run_op_inv [of L C opn] Cancel
    unfolding within_caps_def by (metis order_trans run_op.simps(4))
qed

interpretation capped: machine_invariant empty_ledger "ledger_step C" "agrees C cap" "within_caps cap" for C cap
proof
  show "within_caps cap empty_ledger"
    using ledger_inv_empty by (simp add: within_caps_def) (simp add: empty_ledger_def)
qed (auto simp: ledger_step_iff intro: run_op_within_caps)

section \<open>Refinement of a ledger without counters\<close>

text \<open>
  The specification keeps the reservations only: a limit is checked against the sums over
  them, and a live reservation always commits.
\<close>

type_synonym book = "(string \<times> Reservation) list"

definition spec_limit :: "book \<Rightarrow> string \<Rightarrow> int \<Rightarrow> AuthorityDelegationV1 \<Rightarrow> BudgetCode option" where
  "spec_limit rs u amt d =
     (case spend (authority d) of
        Unbounded \<Rightarrow> None
      | Bounded su per cum \<Rightarrow>
          if su \<noteq> u then Some UNIT_MISMATCH
          else if amt > BigInt per then Some PER_ACTION_EXCEEDED
          else if held rs (delegation_id d) + spent rs (delegation_id d) + amt > BigInt cum then Some CUMULATIVE_EXCEEDED
          else None)"

definition spec_reserve :: "book \<Rightarrow> chain \<Rightarrow> string \<Rightarrow> string \<Rightarrow> int \<Rightarrow> BudgetOperationResult \<times> book" where
  "spec_reserve rs ch act u amt =
     (let ids = map delegation_id (filter is_bounded ch) in
      case map_of rs act of
        Some r \<Rightarrow> if reservation_state r \<noteq> Cancelled
          then (if reservation_unit r = u \<and> amount r = amt \<and> delegationIds r = ids
                then done_in IDEMPOTENT (reservation_state r) else refused_in CONFLICT (reservation_state r), rs)
          else (case first_some (map (spec_limit rs u amt) (filter is_bounded ch)) of
              Some c \<Rightarrow> (refused c, rs)
            | None \<Rightarrow> (done_in RESERVED Reserved, AList.update act \<lparr>actionRef = act, reservation_unit = u, amount = amt,
                delegationIds = ids, reservation_state = Reserved\<rparr> rs))
      | None \<Rightarrow> (case first_some (map (spec_limit rs u amt) (filter is_bounded ch)) of
              Some c \<Rightarrow> (refused c, rs)
            | None \<Rightarrow> (done_in RESERVED Reserved, AList.update act \<lparr>actionRef = act, reservation_unit = u, amount = amt,
                delegationIds = ids, reservation_state = Reserved\<rparr> rs)))"

text \<open>A state change of one reservation, allowed from the listed states.\<close>

definition spec_move :: "BudgetReservationState list \<Rightarrow> BudgetReservationState \<Rightarrow> BudgetCode \<Rightarrow> book \<Rightarrow> string
    \<Rightarrow> BudgetOperationResult \<times> book" where
  "spec_move sources target c rs act =
     (case map_of rs act of
        None \<Rightarrow> (refused NOT_FOUND, rs)
      | Some r \<Rightarrow>
          if reservation_state r = target then (done_in IDEMPOTENT target, rs)
          else if reservation_state r \<notin> set sources then (refused_in INVALID_STATE (reservation_state r), rs)
          else (done_in c target, AList.update act (r\<lparr>reservation_state := target\<rparr>) rs))"

fun spec_op :: "crypto \<Rightarrow> LedgerOp \<Rightarrow> book \<Rightarrow> BudgetOperationResult \<times> book" where
  "spec_op C (Reserve chn act u q) rs =
     (if \<not> ACTION_REF act \<or> \<not> isCanonicalQuantity q then (refused CONFLICT, rs)
      else case readPlainDataChainContainer chn 1 256 of
        Inl _ \<Rightarrow> (refused CONFLICT, rs)
      | Inr raw \<Rightarrow> (case reserve_chain C None [] raw of
          None \<Rightarrow> (refused CONFLICT, rs)
        | Some ch \<Rightarrow> spec_reserve rs ch act u (BigInt q)))"
| "spec_op C (MarkDispatched act) rs = spec_move [Reserved] Dispatched DISPATCHED rs act"
| "spec_op C (Commit act) rs = spec_move [Reserved, Dispatched] Committed COMMITTED rs act"
| "spec_op C (Cancel act) rs = spec_move [Reserved] Cancelled CANCELLED rs act"

lemma limit_refines: "ledger_inv L \<Longrightarrow> limit_code (counters L) u amt = spec_limit (reservations L) u amt"
  by (rule ext) (simp add: limit_code_def spec_limit_def ledger_inv_def split: SpendFacetV1.split)

lemma run_op_refines:
  assumes inv: "ledger_inv L"
  shows "map_prod id reservations (run_op C opn L) = spec_op C opn (reservations L)"
proof (cases opn)
  case (Reserve chn act u q)
  have "map_prod id reservations (reserve_checked L ch act u amt) = spec_reserve (reservations L) ch act u amt" for ch amt
    by (simp add: reserve_checked_def spec_reserve_def limit_refines [OF inv] Let_def split: option.split)
  with Reserve show ?thesis by (simp add: reserve_def split: sum.split option.split)
next
  case (MarkDispatched act)
  then show ?thesis by (simp add: markDispatched_def spec_move_def set_state_def split: option.split)
next
  case (Commit act)
  then show ?thesis using live_hold_covered [OF inv]
    by (auto simp: commit_def spec_move_def set_state_def live_def split: option.split)
next
  case (Cancel act)
  then show ?thesis using live_hold_covered [OF inv]
    by (auto simp: cancel_def spec_move_def set_state_def live_def split: option.split)
qed

section \<open>What an action can no longer undo\<close>

definition advances :: "Ledger \<Rightarrow> Ledger \<Rightarrow> bool" where
  "advances L L' \<longleftrightarrow>
     (\<forall>a r. map_of (reservations L) a = Some r \<longrightarrow>
        (\<exists>r'. map_of (reservations L') a = Some r'
           \<and> (reservation_state r = Committed \<longrightarrow> r' = r)
           \<and> (reservation_state r = Dispatched \<longrightarrow> r' = r \<or> r' = r\<lparr>reservation_state := Committed\<rparr>)))
     \<and> (\<forall>i. committed (counter_at (counters L) i) \<le> committed (counter_at (counters L') i))"

lemma advances_refl: "advances L L"
  by (simp add: advances_def)

lemma advances_trans:
  assumes "advances L M" "advances M N"
  shows "advances L N"
  unfolding advances_def
proof (intro conjI allI impI)
  fix a r assume "map_of (reservations L) a = Some r"
  with assms(1) obtain s where s: "map_of (reservations M) a = Some s"
    "reservation_state r = Committed \<longrightarrow> s = r"
    "reservation_state r = Dispatched \<longrightarrow> s = r \<or> s = r\<lparr>reservation_state := Committed\<rparr>"
    unfolding advances_def by blast
  with assms(2) obtain t where t: "map_of (reservations N) a = Some t"
    "reservation_state s = Committed \<longrightarrow> t = s"
    "reservation_state s = Dispatched \<longrightarrow> t = s \<or> t = s\<lparr>reservation_state := Committed\<rparr>"
    unfolding advances_def by blast
  have "reservation_state r = Dispatched \<longrightarrow> t = r \<or> t = r\<lparr>reservation_state := Committed\<rparr>"
    using s t by auto
  with s t show "\<exists>r'. map_of (reservations N) a = Some r' \<and> (reservation_state r = Committed \<longrightarrow> r' = r)
    \<and> (reservation_state r = Dispatched \<longrightarrow> r' = r \<or> r' = r\<lparr>reservation_state := Committed\<rparr>)" by auto
next
  fix i
  show "committed (counter_at (counters L) i) \<le> committed (counter_at (counters N) i)"
    using assms order_trans unfolding advances_def by blast
qed

text \<open>Replacing one reservation, when that one advances and nothing spent is lost.\<close>

lemma advances_update:
  assumes "map_of (reservations L) a = Some r"
    "reservation_state r = Committed \<longrightarrow> r' = r"
    "reservation_state r = Dispatched \<longrightarrow> r' = r \<or> r' = r\<lparr>reservation_state := Committed\<rparr>"
    "\<And>i. committed (counter_at (counters L) i) \<le> committed (counter_at cs i)"
  shows "advances L (L\<lparr>counters := cs, reservations := AList.update a r' (reservations L)\<rparr>)"
  using assms by (auto simp: advances_def update_conv')

lemma run_op_advances:
  assumes inv: "ledger_inv L"
  shows "advances L (snd (run_op C opn L))"
proof (cases opn)
  case (Reserve chn act u q)
  show ?thesis
  proof (cases rule: reserve_cases [of C L chn act u q])
    case (fresh raw ch)
    then show ?thesis using Reserve
      by (auto simp: advances_def update_conv' fold_hold(2) fresh_slot_def)
  qed (simp add: Reserve advances_refl)
next
  case (MarkDispatched act)
  have "advances L (set_state Dispatched act r L)"
    if "map_of (reservations L) act = Some r" "reservation_state r = Reserved" for r
    using that by (auto simp: advances_def set_state_def update_conv')
  then show ?thesis using MarkDispatched
    by (auto simp: markDispatched_def advances_refl split: option.split)
next
  case (Commit act)
  have "advances L (set_state Committed act r (L\<lparr>counters := fold (settle (amount r)) (delegationIds r) (counters L)\<rparr>))"
    if r: "map_of (reservations L) act = Some r" "reservation_state r \<noteq> Committed" for r
  proof -
    note wf = ledger_invD [OF inv r(1), unfolded wf_reservation_def]
    have "advances L (L\<lparr>counters := fold (settle (amount r)) (delegationIds r) (counters L),
        reservations := AList.update act (r\<lparr>reservation_state := Committed\<rparr>) (reservations L)\<rparr>)"
      using r wf by (intro advances_update) (auto simp: fold_settle)
    then show ?thesis by (simp add: set_state_def)
  qed
  then show ?thesis using Commit by (auto simp: commit_def advances_refl split: option.split)
next
  case (Cancel act)
  have "advances L (set_state Cancelled act r (L\<lparr>counters := fold (release (amount r)) (delegationIds r) (counters L)\<rparr>))"
    if "map_of (reservations L) act = Some r" "reservation_state r = Reserved" for r
    using that by (auto simp: advances_def set_state_def update_conv' fold_release(2))
  then show ?thesis using Cancel by (auto simp: cancel_def advances_refl split: option.split)
qed

interpretation ledger_progress: machine_progress "ledger_step C" ledger_inv advances for C
  by unfold_locales
     (auto simp: advances_refl ledger_step_iff run_op_inv run_op_advances intro: advances_trans)

end
