(* ===== verification/Samples.thy ===== *)
theory Samples
  imports Authority_Verify
begin

text \<open>
  Concrete records on which the theorems of the development are applied: a root and a child
  delegation, signed under stand-in cryptographic functions that satisfy what the code
  relies on, and the options of a verifier that trusts them.
\<close>

definition sample_digest :: "string \<Rightarrow> string" where
  "sample_digest s = replicate 63 CHR ''0'' @ (if even (length s) then ''a'' else ''b'')"

definition sample_sign :: "string \<Rightarrow> string \<Rightarrow> string" where
  "sample_sign m sk = replicate 64 CHR ''1'' @ sk"

definition sample_verify :: "string \<Rightarrow> string \<Rightarrow> string \<Rightarrow> bool" where
  "sample_verify m sig pk \<longleftrightarrow> sig = sample_sign m pk"

definition sample_crypto :: crypto where
  "sample_crypto = \<lparr>sha256Hex = sample_digest, ed25519_sign = sample_sign,
     ed25519_verify = sample_verify, format_number = (\<lambda>r. [])\<rparr>"

definition sample_key :: string where
  "sample_key = replicate 64 CHR ''7''"

definition sample_authority :: "string list \<Rightarrow> int \<Rightarrow> string \<Rightarrow> string \<Rightarrow> AuthorityVectorV1" where
  "sample_authority gs hops cap start =
     \<lparr>scope = \<lparr>scope_profile = SCOPE_PROFILE_V1, grants = gs\<rparr>,
      spend = Bounded ''USD-cents'' cap cap,
      depth = \<lparr>remaining = hops\<rparr>,
      time = \<lparr>not_before = start, not_after = ''2027-01-01T00:00:00.000Z''\<rparr>,
      reputation = \<lparr>reputation_profile = REPUTATION_PROFILE_V1, reputation_ceiling = 80\<rparr>,
      values_facet = \<lparr>values_profile = VALUES_PROFILE_V1, required = [''floor'']\<rparr>,
      reversibility = \<lparr>reversibility_profile = REVERSIBILITY_PROFILE_V1, reversibility_ceiling = ''compensable''\<rparr>\<rparr>"

definition sample_body ::
  "string option \<Rightarrow> string \<Rightarrow> string \<Rightarrow> AuthorityVectorV1 \<Rightarrow> AuthorityDelegationBodyV1" where
  "sample_body parent iss sub a =
     \<lparr>record_type = AUTHORITY_DELEGATION_RECORD_TYPE, version = AUTHORITY_DELEGATION_VERSION,
      parent_delegation_id = parent, issuer = iss, subject = sub,
      verification_method = iss @ ''#key'', issued_at = not_before (time a), nonce = replicate 32 CHR ''3'', authority = a\<rparr>"

definition sample_signed :: "AuthorityDelegationBodyV1 \<Rightarrow> AuthorityDelegationV1" where
  "sample_signed b = AuthorityDelegationBodyV1.extend b
     \<lparr>delegation_id = computeAuthorityDelegationId sample_crypto b, signature = sample_sign [] sample_key\<rparr>"

definition sample_root :: AuthorityDelegationV1 where
  "sample_root = sample_signed (sample_body None ''did:aps:root'' ''did:aps:agent''
     (sample_authority [''data:*'', ''web:read''] 2 ''500'' ''2026-01-01T00:00:00.000Z''))"

definition sample_child :: AuthorityDelegationV1 where
  "sample_child = sample_signed (sample_body (Some (delegation_id sample_root)) ''did:aps:agent'' ''did:aps:helpers''
     (sample_authority [''data:read''] 1 ''200'' ''2026-02-01T00:00:00.000Z''))"

definition sample_options :: options where
  "sample_options = \<lparr>now = ''2026-03-01T00:00:00.000Z'', resolveVerificationKey = (\<lambda>_ _ _. Key sample_key),
     trustRoot = Some (\<lambda>_. TrustDecision True), resolveRevocation = (\<lambda>_. Status_active)\<rparr>"

definition sample_chain :: chain where
  "sample_chain = [sample_root, sample_child]"

lemma sample_root_id: "delegation_id sample_root = ''sha256:'' @ replicate 63 CHR ''0'' @ ''a''"
  by code_simp

lemma sample_child_id: "delegation_id sample_child = ''sha256:'' @ replicate 63 CHR ''0'' @ ''b''"
  by code_simp

lemma sample_root_wf: "wf_delegation sample_root"
  by code_simp

lemma sample_child_wf: "wf_delegation sample_child"
  by code_simp

lemma sample_narrows: "narrows (authority sample_root) (authority sample_child)"
proof -
  have "compareAuthority (authority sample_root) (authority sample_child) = []" by code_simp
  then show ?thesis
    using compareAuthority_Nil_iff sample_root_wf sample_child_wf by (simp add: wf_delegation_def)
qed

lemma sample_windows: "in_window (now sample_options) sample_root" "in_window (now sample_options) sample_child"
  "in_window (issued_at sample_child) sample_root"
  by code_simp+

lemma sample_clock: "isCanonicalTimestamp (now sample_options)"
  by code_simp

lemma sample_key_material: "KEY_MATERIAL sample_key"
  by code_simp

lemma sample_member_ok:
  assumes "wf_delegation (sample_signed b)" "in_window (now sample_options) (sample_signed b)"
  shows "member_ok sample_crypto sample_options (sample_signed b)"
proof -
  have "authorityDelegationBody (sample_signed b) = b"
    by (simp add: authorityDelegationBody_def sample_signed_def AuthorityDelegationBodyV1.defs)
  then show ?thesis using assms sample_key_material
    by (simp add: member_ok_def signed_ok_def sample_options_def sample_signed_def sample_crypto_def
      AuthorityDelegationBodyV1.defs verifyAuthorityDelegationSignature_def sample_verify_def sample_sign_def)
qed

lemma sample_chain_valid: "valid_chain sample_crypto sample_options sample_chain"
proof -
  have "member_ok sample_crypto sample_options sample_root" "member_ok sample_crypto sample_options sample_child"
    using sample_member_ok sample_root_wf sample_child_wf sample_windows
    unfolding sample_root_def sample_child_def by blast+
  moreover have "delegation_id sample_root \<noteq> delegation_id sample_child"
    unfolding sample_root_id sample_child_id by simp
  moreover have "linked sample_root sample_child"
    using sample_narrows sample_windows(3)
    by (simp add: linked_def) (simp add: sample_root_def sample_child_def sample_body_def sample_signed_def
      AuthorityDelegationBodyV1.defs)
  moreover have "root_ok sample_options sample_root"
    by (simp add: root_ok_def sample_options_def sample_root_def sample_body_def sample_signed_def
      AuthorityDelegationBodyV1.defs)
  ultimately show ?thesis by (simp add: valid_chain_def sample_chain_def)
qed

end
