(* ===== verification/Authority_System.thy ===== *)
theory Authority_System
  imports Authority_Issue Authority_Budget Samples
begin

text \<open>
  The properties of the authority-delegation subsystem as a whole: the chain verifier against
  its specification, the issuer against the verifier, and the spend ledger over sequences
  of operations.
\<close>

section \<open>The chain verifier\<close>

lemma sample_verified:
  "state (verifyAuthorityDelegationChain sample_crypto (JArr (map json_of_delegation sample_chain)) sample_options)
     = State_valid"
  using verify_decides sample_clock sample_chain_valid by blast

text \<open>C1. The verifier answers valid on a chain of records exactly when the clock is a canonical
  timestamp and the chain meets the specification: one to 256 well-formed records carrying
  their own content addresses, signed under the resolved keys, current, unrevoked, with
  distinct identifiers, a trusted parentless root, and every child linked to, issued under
  and narrower than its parent.\<close>

theorem chain_verifier_correct:
  "state (verifyAuthorityDelegationChain C (JArr (map json_of_delegation ch)) opt) = State_valid
   \<longleftrightarrow> isCanonicalTimestamp (now opt) \<and> valid_chain C opt ch"
  by (rule verify_decides)

text \<open>Whatever plain data is presented, a valid answer means that the data reads as a chain of
  typed records that meets the specification: no other input verifies.\<close>

theorem chain_verifier_sound:
  assumes "valid (verifyAuthorityDelegationChain C rawChain opt)"
  shows "\<exists>raw ch. rawChain = JArr raw \<and> map delegation_of raw = map Some ch \<and> valid_chain C opt ch"
proof -
  have "state (verifyAuthorityDelegationChain C rawChain opt) = State_valid"
    using assms by (cases rule: verify_cases [of rawChain opt C]) (simp_all add: rejection_def)
  then show ?thesis by (rule verify_sound) blast
qed

theorem chain_verifier_sound_witness:
  "\<exists>raw ch. JArr (map json_of_delegation sample_chain) = JArr raw \<and> map delegation_of raw = map Some ch
     \<and> valid_chain sample_crypto sample_options ch"
proof (rule chain_verifier_sound)
  show "valid (verifyAuthorityDelegationChain sample_crypto (JArr (map json_of_delegation sample_chain)) sample_options)"
    using sample_verified
    by (cases rule: verify_cases [of "JArr (map json_of_delegation sample_chain)" sample_options sample_crypto])
       (simp_all add: rejection_def)
qed

text \<open>The three parts of an answer agree, on every input: the flag says valid exactly for the
  valid state, and the failure list is empty exactly then, so a rejection always names a
  reason.\<close>

theorem chain_verifier_consistent:
  "let r = verifyAuthorityDelegationChain C rawChain opt in
     (valid r \<longleftrightarrow> state r = State_valid) \<and> (failures r = [] \<longleftrightarrow> state r = State_valid)"
  by (cases rule: verify_cases [of rawChain opt C]) (simp_all add: rejection_def Let_def)

text \<open>C2. In a verified chain every record attenuates every record above it, not only its immediate
  parent: no sequence of delegations regains what one of them gave up.\<close>

theorem chain_narrows_end_to_end:
  assumes "state (verifyAuthorityDelegationChain C (JArr (map json_of_delegation ch)) opt) = State_valid"
    and "i < j" and "j < length ch"
  shows "narrows (authority (ch ! i)) (authority (ch ! j))"
  using assms valid_chain_narrows verify_decides by blast

theorem chain_narrows_end_to_end_witness:
  "narrows (authority (sample_chain ! 0)) (authority (sample_chain ! 1))"
  by (rule chain_narrows_end_to_end [OF sample_verified]) (simp_all add: sample_chain_def)

text \<open>C3. A verified chain is no longer than the depth its root grants allows: one more record than
  the hops the root leaves.\<close>

theorem chain_length_bounded_by_depth:
  assumes "state (verifyAuthorityDelegationChain C (JArr (map json_of_delegation ch)) opt) = State_valid"
  shows "int (length ch) \<le> remaining (depth (authority (hd ch))) + 1"
  using assms valid_chain_length verify_decides by blast

theorem chain_length_bounded_by_depth_witness:
  "int (length sample_chain) \<le> remaining (depth (authority (hd sample_chain))) + 1"
  by (rule chain_length_bounded_by_depth [OF sample_verified])

text \<open>The first index at which a loop stops, as a search.\<close>

lemma first_failure_find:
  "first_failure chk i0 xs = (case List.find (\<lambda>k. chk (i0 + k) (xs ! k) \<noteq> None) [0..<length xs] of
     None \<Rightarrow> None | Some k \<Rightarrow> chk (i0 + k) (xs ! k))"
proof (cases "first_failure chk i0 xs")
  case None
  then have "List.find (\<lambda>k. chk (i0 + k) (xs ! k) \<noteq> None) [0..<length xs] = None"
    by (simp add: first_failure_None_iff find_None_iff)
  with None show ?thesis by simp
next
  case (Some b)
  then obtain k where k: "k < length xs" "chk (i0 + k) (xs ! k) = Some b" "\<forall>m < k. chk (i0 + m) (xs ! m) = None"
    using first_failure_Some [OF Some] by blast
  have "List.find (\<lambda>k. chk (i0 + k) (xs ! k) \<noteq> None) [0..<length xs] = Some k"
    unfolding find_Some_iff using k by (intro exI [of _ k]) simp
  with Some k show ?thesis by simp
qed

lemma verify_up_to_revocation:
  assumes "valid_chain C opt ch" and "isCanonicalTimestamp (now opt)"
  shows "verifyAuthorityDelegationChain C (JArr (map json_of_delegation ch)) (opt\<lparr>resolveRevocation := rv\<rparr>) =
    (case phase_revocation (opt\<lparr>resolveRevocation := rv\<rparr>) ch of Some r \<Rightarrow> r | None \<Rightarrow> result State_valid [])"
proof -
  from assms(1) have ch: "ch \<noteq> []" "length ch \<le> 256" and wf: "\<forall>d \<in> set ch. wf_delegation d"
    by (auto simp: valid_chain_def member_ok_def)
  have none: "phase_ids C ch = None" "phase_signatures C opt ch = None" "phase_duplicates ch = None"
      "phase_root_trust opt (hd ch) = None" "phase_parents ch = None" "phase_continuity ch = None"
      "phase_issued ch = None" "phase_attenuation ch = None" "phase_validity (now opt) ch = None"
    using verify_members_None_iff [OF ch wf] assms(1) by (auto simp: verify_members_def first_some_None_iff)
  have "phase_signatures C (opt\<lparr>resolveRevocation := rv\<rparr>) ch = phase_signatures C opt ch"
    "phase_root_trust (opt\<lparr>resolveRevocation := rv\<rparr>) (hd ch) = phase_root_trust opt (hd ch)"
    by (simp_all add: phase_signatures_def phase_root_trust_def)
  moreover have "first_some [r] = r" for r :: "outcome option" by (cases r) simp_all
  ultimately have "verify_members C (opt\<lparr>resolveRevocation := rv\<rparr>) ch = phase_revocation (opt\<lparr>resolveRevocation := rv\<rparr>) ch"
    using none by (simp add: verify_members_def)
  moreover have "phase_shape (map json_of_delegation ch) = None"
    using wf by (simp add: phase_shape_None validate_iff_wf)
  moreover have "readPlainDataChainContainer (JArr (map json_of_delegation ch)) 1 256 = Inr (map json_of_delegation ch)"
    using ch by (simp add: readPlainDataChainContainer_Inr Suc_le_eq)
  ultimately show ?thesis using assms(2) by (simp add: verifyAuthorityDelegationChain_def map_filter_json)
qed

text \<open>C4. Revocation decides last and exactly: for a chain valid under resolvers that call every
  record active, replacing the revocation resolver gives the outcome of the first member
  that is not active, invalid when it is revoked and indeterminate when its status is
  unknown, and valid when there is none.\<close>

theorem revocation_decides:
  assumes "valid_chain C opt ch" and "isCanonicalTimestamp (now opt)"
  shows "verifyAuthorityDelegationChain C (JArr (map json_of_delegation ch)) (opt\<lparr>resolveRevocation := rv\<rparr>) =
    (case List.find (\<lambda>i. rv (ch ! i) \<noteq> Status_active) [0..<length ch] of
       None \<Rightarrow> result State_valid []
     | Some i \<Rightarrow>
         if rv (ch ! i) = Status_revoked then result State_invalid [fail_at REVOKED i ''delegation is revoked'']
         else result State_indeterminate [fail_at REVOCATION_UNKNOWN i ''revocation status is unknown''])"
proof -
  have stop: "(case rv d of Status_revoked \<Rightarrow> Some (a :: outcome) | Status_unknown \<Rightarrow> Some b | Status_active \<Rightarrow> None) \<noteq> None
      \<longleftrightarrow> rv d \<noteq> Status_active" for d a b
    by (cases "rv d") simp_all
  have hit: "rv (ch ! i) \<noteq> Status_active" if "List.find (\<lambda>i. rv (ch ! i) \<noteq> Status_active) [0..<length ch] = Some i" for i
    using that by (auto simp: find_Some_iff)
  show ?thesis
    unfolding verify_up_to_revocation [OF assms] phase_revocation_def first_failure_find
    by (simp add: stop) (auto dest!: hit split: option.split RevocationResolution.split)
qed

theorem revocation_decides_witness:
  "verifyAuthorityDelegationChain sample_crypto (JArr (map json_of_delegation sample_chain))
     (sample_options\<lparr>resolveRevocation := (\<lambda>_. Status_unknown)\<rparr>)
   = result State_indeterminate [fail_at REVOCATION_UNKNOWN 0 ''revocation status is unknown'']"
  unfolding revocation_decides [OF sample_chain_valid sample_clock]
  by (simp add: sample_chain_def upt_rec)

section \<open>Issuing\<close>

lemma sample_keypair: "keypair sample_crypto sample_key sample_key"
proof -
  have "lower_hex 128 (sample_sign [] sample_key)" by code_simp
  then show ?thesis using sample_key_material
    by (simp add: keypair_def sample_crypto_def sample_verify_def sample_sign_def)
qed

lemma sample_digest_ok: "digest_well_formed sample_crypto"
proof -
  have "lower_hex 64 (replicate 63 CHR ''0'' @ ''a'')" "lower_hex 64 (replicate 63 CHR ''0'' @ ''b'')"
    by code_simp+
  then show ?thesis by (simp add: digest_well_formed_def sample_crypto_def sample_digest_def)
qed

lemma sample_signed_record:
  "signed_record sample_crypto (authorityDelegationBody (sample_signed b)) sample_key = sample_signed b"
proof -
  have b: "authorityDelegationBody (sample_signed b) = b"
    by (simp add: sample_signed_def AuthorityDelegationBodyV1.defs authorityDelegationBody_def)
  have "ed25519_sign sample_crypto m k = sample_sign [] k" for m k
    by (simp add: sample_crypto_def sample_sign_def)
  then show ?thesis unfolding b
    by (simp add: signed_record_def sample_signed_def Let_def AuthorityDelegationBodyV1.defs)
qed

lemma sample_assertBody:
  "wf_delegation d \<Longrightarrow> assertBody (json_of_body (authorityDelegationBody d)) = Inr ()"
  by (simp add: assertBody_iff_wf wf_delegation_split)

lemma sample_root_issued:
  "issueAuthorityDelegation sample_crypto (json_of_body (authorityDelegationBody sample_root)) sample_key
     = Inr sample_root"
proof -
  have "parent_delegation_id (authorityDelegationBody sample_root) = None"
    by (simp add: sample_root_def sample_signed_def sample_body_def AuthorityDelegationBodyV1.defs
        authorityDelegationBody_def)
  moreover have "sample_root = signed_record sample_crypto (authorityDelegationBody sample_root) sample_key"
    unfolding sample_root_def sample_signed_record ..
  ultimately show ?thesis
    unfolding issue_root_iff body_roundtrip
    using sample_assertBody [OF sample_root_wf] body_carries_no_identity by blast
qed

text \<open>C5. A root minted under a key pair verifies: once the issuer returns a record, a verifier that
  trusts it, resolves its key, holds it active and whose clock is inside its window answers
  valid.\<close>

theorem issued_root_verifies:
  assumes "issueAuthorityDelegation C body sk = Inr d"
    and "digest_well_formed C" and "keypair C sk pk"
    and "resolveVerificationKey opt (issuer d) (verification_method d) (issued_at d) = Key pk"
    and "trustRoot opt = Some policy" and "policy d = TrustDecision True"
    and "isCanonicalTimestamp (now opt)" and "in_window (now opt) d"
    and "resolveRevocation opt d = Status_active"
  shows "verifyAuthorityDelegation C (json_of_delegation d) opt = result State_valid []"
proof -
  from assms(1) have root: "assertBody body = Inr ()" "parent_delegation_id d = None"
      and d: "d = signed_record C (body_of body) sk"
    unfolding issue_root_iff by auto
  have "member_ok C opt d"
    unfolding d using assms(2-) assertBody_wf_body [OF root(1)] signed_record_member_ok d by simp
  then have "valid_chain C opt [d]" using assms(5,6) root(2) by (simp add: valid_chain_def root_ok_def)
  then have "state (verifyAuthorityDelegationChain C (JArr (map json_of_delegation [d])) opt) = State_valid"
    using assms(7) verify_decides by blast
  then show ?thesis unfolding verifyAuthorityDelegation_def
    by (cases rule: verify_cases [of "JArr (map json_of_delegation [d])" opt C]) (simp_all add: rejection_def)
qed

theorem issued_root_verifies_witness:
  "verifyAuthorityDelegation sample_crypto (json_of_delegation sample_root) sample_options = result State_valid []"
  by (rule issued_root_verifies [OF sample_root_issued sample_digest_ok sample_keypair])
     (simp_all add: sample_windows sample_clock, simp_all add: sample_options_def)


text \<open>C7. A child minted under the last record of a valid chain extends it to a chain that verifies,
  for a verifier that resolves the child's key, holds it active and whose clock is inside
  its window, as long as the chain is below the ceiling and the new identifier is new.\<close>

theorem issued_child_extends_chain:
  assumes "issueSubAuthorityDelegation C (json_of_delegation (last ch)) body sk iopt = Inr d"
    and "valid_chain C opt ch" and "length ch < 256" and "isCanonicalTimestamp (now opt)"
    and "digest_well_formed C" and "keypair C sk pk"
    and "resolveVerificationKey opt (issuer d) (verification_method d) (issued_at d) = Key pk"
    and "in_window (now opt) d" and "resolveRevocation opt d = Status_active"
    and "delegation_id d \<notin> delegation_id ` set ch"
  shows "state (verifyAuthorityDelegationChain C (JArr (map json_of_delegation (ch @ [d]))) opt) = State_valid"
proof -
  from assms(1) have b: "assertBody body = Inr ()" "linked (last ch) d" and d: "d = signed_record C (body_of body) sk"
    unfolding issue_sub_iff by auto
  have "member_ok C opt d"
    unfolding d using assms(5-) assertBody_wf_body [OF b(1)] signed_record_member_ok d by simp
  with valid_chain_snoc [OF assms(2,3)] b(2) assms(10) have "valid_chain C opt (ch @ [d])" by blast
  with assms(4) verify_decides show ?thesis by blast
qed

theorem issued_child_extends_chain_witness:
  "state (verifyAuthorityDelegationChain sample_crypto
     (JArr (map json_of_delegation ([sample_root] @ [sample_child]))) sample_options) = State_valid"
proof -
  let ?io = "\<lparr>issue_now = now sample_options, issue_resolveVerificationKey = resolveVerificationKey sample_options,
    issue_resolveRevocation = resolveRevocation sample_options\<rparr>"
  have mem: "member_ok sample_crypto sample_options sample_root"
    and link: "linked sample_root sample_child"
    and fresh: "delegation_id sample_child \<noteq> delegation_id sample_root"
    using sample_chain_valid by (auto simp: valid_chain_def sample_chain_def)
  have root: "valid_chain sample_crypto sample_options [sample_root]"
    using sample_chain_valid by (simp add: valid_chain_def sample_chain_def)
  have "parent_live sample_crypto ?io sample_root"
    using mem by (simp add: parent_live_def member_ok_def signed_ok_def)
  moreover have "sample_child = signed_record sample_crypto (authorityDelegationBody sample_child) sample_key"
    unfolding sample_child_def sample_signed_record ..
  ultimately have "issueSubAuthorityDelegation sample_crypto (json_of_delegation (last [sample_root]))
      (json_of_body (authorityDelegationBody sample_child)) sample_key ?io = Inr sample_child"
    unfolding issue_sub_iff body_roundtrip last_ConsL [OF refl]
    using sample_assertBody [OF sample_child_wf] body_carries_no_identity link sample_clock by simp
  from issued_child_extends_chain [OF this root _ sample_clock sample_digest_ok sample_keypair _ sample_windows(2) _] fresh
  show ?thesis by (simp add: sample_options_def)
qed

section \<open>The spend ledger\<close>

lemma reserve_chain_accepts:
  assumes "\<forall>d \<in> set ch. wf_delegation d \<and> computeAuthorityDelegationId C (authorityDelegationBody d) = delegation_id d"
    and "distinct (map delegation_id ch)" and "set (map delegation_id ch) \<inter> set seen = {}"
    and "ch \<noteq> [] \<longrightarrow> (case prev of None \<Rightarrow> parent_delegation_id (hd ch) = None
       | Some p \<Rightarrow> parent_delegation_id (hd ch) = Some (delegation_id p) \<and> issuer (hd ch) = subject p)"
    and "\<forall>k. Suc k < length ch \<longrightarrow> parent_delegation_id (ch ! Suc k) = Some (delegation_id (ch ! k))
       \<and> issuer (ch ! Suc k) = subject (ch ! k)"
  shows "reserve_chain C prev seen (map json_of_delegation ch) = Some ch"
  using assms
proof (induction ch arbitrary: prev seen)
  case (Cons d ch)
  have "reserve_chain C (Some d) (delegation_id d # seen) (map json_of_delegation ch) = Some ch"
  proof (rule Cons.IH)
    show "ch \<noteq> [] \<longrightarrow> (case Some d of None \<Rightarrow> parent_delegation_id (hd ch) = None
       | Some p \<Rightarrow> parent_delegation_id (hd ch) = Some (delegation_id p) \<and> issuer (hd ch) = subject p)"
      using Cons.prems(5) [rule_format, of 0] by (cases ch) simp_all
    show "\<forall>k. Suc k < length ch \<longrightarrow> parent_delegation_id (ch ! Suc k) = Some (delegation_id (ch ! k))
       \<and> issuer (ch ! Suc k) = subject (ch ! k)"
      using Cons.prems(5) [rule_format, of "Suc k" for k] by auto
  qed (use Cons.prems in auto)
  moreover have "validateAuthorityDelegationShape (json_of_delegation d) = []"
    using Cons.prems(1) by (simp add: validate_iff_wf)
  ultimately show ?case using Cons.prems by (cases prev) (auto simp: delegation_roundtrip)
qed simp

lemma reserve_verified:
  assumes "valid_chain C opt ch" "ACTION_REF act" "isCanonicalQuantity q"
  shows "reserve C L (JArr (map json_of_delegation ch)) act u q = reserve_checked L ch act u (BigInt q)"
proof -
  have "reserve_chain C None [] (map json_of_delegation ch) = Some ch"
    using assms(1) by (intro reserve_chain_accepts) (auto simp: valid_chain_def member_ok_def root_ok_def linked_def)
  moreover have "readPlainDataChainContainer (JArr (map json_of_delegation ch)) 1 256 = Inr (map json_of_delegation ch)"
    using assms(1) by (simp add: readPlainDataChainContainer_Inr Suc_le_eq valid_chain_def)
  ultimately show ?thesis using assms(2,3) by (simp add: reserve_def)
qed

text \<open>A two-step run on the sample chain, for the applications below.\<close>

abbreviation sample_action :: string where
  "sample_action \<equiv> replicate 64 CHR ''c''"

abbreviation sample_ops :: "LedgerOp list" where
  "sample_ops \<equiv> [Reserve (JArr (map json_of_delegation sample_chain)) sample_action ''USD-cents'' ''150'', Commit sample_action]"

lemma sample_reserve:
  "reserve sample_crypto L (JArr (map json_of_delegation sample_chain)) sample_action ''USD-cents'' ''150''
     = reserve_checked L sample_chain sample_action ''USD-cents'' 150"
proof -
  have "ACTION_REF sample_action" "isCanonicalQuantity ''150''" "BigInt ''150'' = 150" by code_simp+
  then show ?thesis using reserve_verified [OF sample_chain_valid] by simp
qed

lemma sample_bounded: "filter is_bounded sample_chain = sample_chain"
  by (simp add: sample_chain_def is_bounded_def sample_root_def sample_child_def sample_signed_def sample_body_def
      sample_authority_def AuthorityDelegationBodyV1.defs)

lemma sample_limits: "first_some (map (limit_code (counters empty_ledger) ''USD-cents'' 150) sample_chain) = None"
proof -
  have "BigInt ''500'' = 500" "BigInt ''200'' = 200" by code_simp+
  then show ?thesis
    by (simp add: sample_chain_def limit_code_def sample_root_def sample_child_def sample_signed_def sample_body_def
      sample_authority_def AuthorityDelegationBodyV1.defs empty_ledger_def counter_at_def)
qed

definition sample_ledger :: Ledger where
  "sample_ledger = snd (commit (snd (reserve sample_crypto empty_ledger
     (JArr (map json_of_delegation sample_chain)) sample_action ''USD-cents'' ''150'')) sample_action)"

lemma sample_run: "run (ledger_step sample_crypto) empty_ledger sample_ops sample_ledger"
  by (intro run_Cons [OF _ run_Cons [OF _ run_Nil]]) (auto simp: ledger_step_iff sample_ledger_def)

lemma sample_ids_differ: "delegation_id sample_root \<noteq> delegation_id sample_child"
  unfolding sample_root_id sample_child_id by simp

lemma sample_ledger_eq:
  "reservations sample_ledger = [(sample_action, \<lparr>actionRef = sample_action, reservation_unit = ''USD-cents'', amount = 150,
     delegationIds = map delegation_id sample_chain, reservation_state = Committed\<rparr>)]"
  "counters sample_ledger = [delegation_id sample_root \<mapsto> \<lparr>reserved = 0, committed = 150\<rparr>,
     delegation_id sample_child \<mapsto> \<lparr>reserved = 0, committed = 150\<rparr>]"
proof -
  have "reserve_checked empty_ledger sample_chain sample_action ''USD-cents'' 150 =
    (done_in RESERVED Reserved, \<lparr>counters = fold (hold 150) (map delegation_id sample_chain) Map.empty,
      reservations = [(sample_action, \<lparr>actionRef = sample_action, reservation_unit = ''USD-cents'', amount = 150,
        delegationIds = map delegation_id sample_chain, reservation_state = Reserved\<rparr>)]\<rparr>)"
    unfolding reserve_checked_def Let_def sample_bounded sample_limits by (simp add: empty_ledger_def)
  then have L: "sample_ledger = snd (commit \<lparr>counters = fold (hold 150) (map delegation_id sample_chain) Map.empty,
      reservations = [(sample_action, \<lparr>actionRef = sample_action, reservation_unit = ''USD-cents'', amount = 150,
        delegationIds = map delegation_id sample_chain, reservation_state = Reserved\<rparr>)]\<rparr> sample_action)"
    unfolding sample_ledger_def sample_reserve by simp
  have c: "fold (hold 150) (map delegation_id sample_chain) Map.empty =
    [delegation_id sample_root \<mapsto> \<lparr>reserved = 150, committed = 0\<rparr>,
     delegation_id sample_child \<mapsto> \<lparr>reserved = 150, committed = 0\<rparr>]"
    using sample_ids_differ by (simp add: sample_chain_def hold_def counter_at_def)
  show "reservations sample_ledger = [(sample_action, \<lparr>actionRef = sample_action, reservation_unit = ''USD-cents'', amount = 150,
     delegationIds = map delegation_id sample_chain, reservation_state = Committed\<rparr>)]"
    unfolding L c using sample_ids_differ
    by (simp add: commit_def set_state_def covers_hold_def) (simp add: sample_chain_def covers_hold_def)
  show "counters sample_ledger = [delegation_id sample_root \<mapsto> \<lparr>reserved = 0, committed = 150\<rparr>,
     delegation_id sample_child \<mapsto> \<lparr>reserved = 0, committed = 150\<rparr>]"
    unfolding L c using sample_ids_differ
    by (auto simp: commit_def set_state_def covers_hold_def sample_chain_def settle_def fun_eq_iff)
qed

text \<open>A chain that verifies is accepted by the ledger as it stands: reserving against it is
  decided by the spend limits of its bounded records alone.\<close>

theorem verified_chain_reserves:
  assumes "valid_chain C opt ch" and "ACTION_REF act" and "isCanonicalQuantity q" and "fresh_slot L act"
  shows "fst (reserve C L (JArr (map json_of_delegation ch)) act u q) =
    (case first_some (map (limit_code (counters L) u (BigInt q)) (filter is_bounded ch)) of
       Some c \<Rightarrow> refused c | None \<Rightarrow> done_in RESERVED Reserved)"
  unfolding reserve_verified [OF assms(1-3)] using assms(4)
  by (auto simp: reserve_checked_def Let_def fresh_slot_def split: option.splits)

theorem verified_chain_reserves_witness:
  "fst (reserve sample_crypto empty_ledger (JArr (map json_of_delegation sample_chain)) sample_action ''USD-cents'' ''150'')
     = done_in RESERVED Reserved"
proof -
  have "ACTION_REF sample_action" "isCanonicalQuantity ''150''" "BigInt ''150'' = 150"
    and "fresh_slot empty_ledger sample_action" by code_simp+
  from verified_chain_reserves [OF sample_chain_valid this(1,2,4), of "''USD-cents''"] this(3)
  show ?thesis unfolding sample_bounded by (simp add: sample_limits)
qed

text \<open>C8. In every state a sequence of ledger operations reaches, a delegation's counter is the sum
  of the reservations that name it: the reserved side of the reserved and dispatched ones, the
  committed side of the committed ones.\<close>

theorem ledger_counters_exact:
  assumes "run (ledger_step C) empty_ledger ops L"
  shows "reserved (counter_at (counters L) i) = held (reservations L) i
    \<and> committed (counter_at (counters L) i) = spent (reservations L) i"
  using ledger.reachable [OF assms] by (simp add: ledger_inv_def list_all_iff)

theorem ledger_counters_exact_witness:
  "reserved (counter_at (counters sample_ledger) (delegation_id sample_root)) = 0
   \<and> committed (counter_at (counters sample_ledger) (delegation_id sample_root)) = 150"
  unfolding ledger_counters_exact [OF sample_run, THEN conjunct1] ledger_counters_exact [OF sample_run, THEN conjunct2]
  by (simp add: sample_ledger_eq held_def spent_def weight_def live_def sample_chain_def)

text \<open>C9. No sequence of operations overspends: as long as records with one identifier carry one
  cumulative ceiling, what is held and spent against a delegation never exceeds it.\<close>

theorem ledger_never_overspends:
  assumes "run (ledger_step C) empty_ledger ops L" and "list_all (agrees C cap) ops"
    and "i \<in> dom (counters L)"
  shows "held (reservations L) i + spent (reservations L) i \<le> cap i"
  using capped.reachable [OF assms(1,2)] assms(3)
  by (auto simp: within_caps_def ledger_inv_def committed_and_held_def)

theorem ledger_never_overspends_witness:
  "held (reservations sample_ledger) (delegation_id sample_root) + spent (reservations sample_ledger) (delegation_id sample_root)
     \<le> (500 :: int)"
proof -
  let ?cap = "\<lambda>i. if i = delegation_id sample_root then 500 else 200 :: int"
  have chn: "reserve_chain sample_crypto None [] (map json_of_delegation sample_chain) = Some sample_chain"
    using sample_chain_valid by (intro reserve_chain_accepts) (auto simp: valid_chain_def member_ok_def root_ok_def linked_def)
  have amounts: "BigInt ''500'' = 500" "BigInt ''200'' = 200" by code_simp+
  have spends: "spend (authority sample_root) = Bounded ''USD-cents'' ''500'' ''500''"
    "spend (authority sample_child) = Bounded ''USD-cents'' ''200'' ''200''"
    by (simp_all add: sample_root_def sample_child_def sample_signed_def sample_body_def sample_authority_def
        AuthorityDelegationBodyV1.defs)
  have "list_all (agrees sample_crypto ?cap) sample_ops"
    using chn amounts sample_ids_differ spends
    by (auto simp: readPlainDataChainContainer_def split: sum.split) (auto simp: sample_chain_def)
  moreover have "delegation_id sample_root \<in> dom (counters sample_ledger)" by (simp add: sample_ledger_eq)
  ultimately show ?thesis
    using ledger_never_overspends [OF sample_run, of ?cap "delegation_id sample_root"] by simp
qed

text \<open>C10. The ledger with counters implements the ledger without: in every reachable state each
  operation answers, and changes the reservations, as the specification over reservations
  alone does.\<close>

theorem ledger_refines_book:
  assumes "run (ledger_step C) empty_ledger ops L"
  shows "map_prod id reservations (run_op C opn L) = spec_op C opn (reservations L)"
  using ledger.reachable [OF assms] run_op_refines by (simp add: list_all_iff)

theorem ledger_refines_book_witness:
  "fst (run_op sample_crypto (Cancel sample_action) sample_ledger) = refused_in INVALID_STATE Committed"
proof -
  have "fst (run_op sample_crypto (Cancel sample_action) sample_ledger)
      = fst (spec_op sample_crypto (Cancel sample_action) (reservations sample_ledger))"
    using ledger_refines_book [OF sample_run, of "Cancel sample_action"] by (metis eq_fst_iff fst_map_prod id_apply)
  also have "\<dots> = refused_in INVALID_STATE Committed"
    by (simp add: sample_ledger_eq spec_move_def)
  finally show ?thesis .
qed

text \<open>C11. A committed spend is final: whatever operations follow, the reservation stays committed
  with its amount and delegations, a dispatched one is still dispatched or is committed
  unchanged, never cancelled, and no delegation's committed total decreases.\<close>

theorem committed_spend_is_final:
  assumes "run (ledger_step C) empty_ledger ops L" and "run (ledger_step C) L ops' L'"
    and "map_of (reservations L) a = Some r"
  shows "(reservation_state r = Committed \<longrightarrow> map_of (reservations L') a = Some r)
    \<and> (reservation_state r = Dispatched \<longrightarrow> map_of (reservations L') a \<in> {Some r, Some (r\<lparr>reservation_state := Committed\<rparr>)})
    \<and> committed (counter_at (counters L) i) \<le> committed (counter_at (counters L') i)"
proof -
  have "ledger_inv L" using ledger.reachable [OF assms(1)] by (simp add: list_all_iff)
  with ledger_progress.run_forward [OF assms(2)] have "advances L L'" by blast
  with assms(3) show ?thesis unfolding advances_def by blast
qed

theorem committed_spend_is_final_witness:
  "map_of (reservations (snd (cancel sample_ledger sample_action))) sample_action
     = map_of (reservations sample_ledger) sample_action"
proof -
  have "run (ledger_step sample_crypto) sample_ledger [Cancel sample_action] (snd (cancel sample_ledger sample_action))"
    by (rule run_Cons [OF _ run_Nil]) (simp add: ledger_step_iff)
  from committed_spend_is_final [OF sample_run this, of sample_action] show ?thesis
    by (simp add: sample_ledger_eq)
qed

text \<open>C12. A live reservation can always be settled: in every reachable state committing a reserved or
  dispatched action succeeds, and cancelling a reserved one does, so the guards of both never
  strand an amount.\<close>

theorem live_reservation_settles:
  assumes "run (ledger_step C) empty_ledger ops L" and "map_of (reservations L) a = Some r"
  shows "(live r \<longrightarrow> fst (commit L a) = done_in COMMITTED Committed)
    \<and> (reservation_state r = Reserved \<longrightarrow> fst (cancel L a) = done_in CANCELLED Cancelled)"
proof -
  have inv: "ledger_inv L" using ledger.reachable [OF assms(1)] by (simp add: list_all_iff)
  show ?thesis using live_hold_covered [OF inv assms(2)] assms(2)
    by (auto simp: commit_def cancel_def live_def)
qed

theorem live_reservation_settles_witness:
  "fst (commit (snd (reserve sample_crypto empty_ledger (JArr (map json_of_delegation sample_chain)) sample_action
     ''USD-cents'' ''150'')) sample_action) = done_in COMMITTED Committed"
proof -
  let ?L = "snd (reserve sample_crypto empty_ledger (JArr (map json_of_delegation sample_chain)) sample_action ''USD-cents'' ''150'')"
  have run1: "run (ledger_step sample_crypto) empty_ledger
      [Reserve (JArr (map json_of_delegation sample_chain)) sample_action ''USD-cents'' ''150''] ?L"
    by (rule run_Cons [OF _ run_Nil]) (simp add: ledger_step_iff)
  have "map_of (reservations ?L) sample_action = Some \<lparr>actionRef = sample_action, reservation_unit = ''USD-cents'',
      amount = 150, delegationIds = map delegation_id sample_chain, reservation_state = Reserved\<rparr>"
    unfolding sample_reserve reserve_checked_def Let_def sample_bounded sample_limits by (simp add: empty_ledger_def)
  from live_reservation_settles [OF run1 this] show ?thesis by (simp add: live_def)
qed

end
