(* ===== verification/Rfc3339.thy ===== *)
theory Rfc3339
  imports Authority_Schema
begin

text \<open>
  \<^verbatim>\<open>src/core/rfc3339.ts\<close>: the strict timestamp parser of the security boundaries and its
  emission counterpart.  Instants are integers of milliseconds from the epoch;
  \<open>Math.floor(a / b)\<close> with a positive \<open>b\<close> is \<open>a div b\<close>.

  The theory shows that the civil-date arithmetic is a bijection between calendar dates and
  day numbers that keeps their order, that formatting and parsing are inverse to each
  other, and that the string order the chain verifier compares canonical timestamps with
  is the order of the instants they denote.
\<close>

section \<open>Calendar arithmetic\<close>

definition daysInMonth :: "int \<Rightarrow> int \<Rightarrow> int" where
  "daysInMonth year month =
     (if month = 2 then
        (let leap = (year mod 4 = 0 \<and> year mod 100 \<noteq> 0) \<or> year mod 400 = 0 in if leap then 29 else 28)
      else if month = 4 \<or> month = 6 \<or> month = 9 \<or> month = 11 then 30 else 31)"

definition daysFromCivil :: "int \<Rightarrow> int \<Rightarrow> int \<Rightarrow> int" where
  "daysFromCivil year month day =
     (let y = year - (if month \<le> 2 then 1 else 0);
          era = y div 400;
          yoe = y - era * 400;
          doy = (153 * (month + (if month > 2 then -3 else 9)) + 2) div 5 + day - 1;
          doe = yoe * 365 + yoe div 4 - yoe div 100 + doy
      in era * 146097 + doe - 719468)"

definition civilFromDays :: "int \<Rightarrow> int \<times> int \<times> int" where
  "civilFromDays z =
     (let zz = z + 719468;
          era = zz div 146097;
          doe = zz - era * 146097;
          yoe = (doe - doe div 1460 + doe div 36524 - doe div 146096) div 365;
          doy = doe - (365 * yoe + yoe div 4 - yoe div 100);
          mp = (5 * doy + 2) div 153;
          day = doy - (153 * mp + 2) div 5 + 1;
          month = mp + (if mp < 10 then 3 else -9);
          year = yoe + era * 400 + (if month \<le> 2 then 1 else 0)
      in (year, month, day))"

section \<open>Parsing\<close>

datatype Rfc3339FailureReason = Not_a_string | Malformed | Field_out_of_range | Leap_second | Not_representable

type_synonym Rfc3339ParseResult = "(Rfc3339FailureReason, int) result"

text \<open>The capture groups: six numeric fields, the optional fraction, and the zone, \<open>None\<close> for \<open>Z\<close>.\<close>

record Rfc3339Match =
  date_fields :: "int list"
  frac :: "string option"
  zone :: "(char \<times> int \<times> int) option"

definition match_fraction :: "string \<Rightarrow> (string option \<times> string) option" where
  "match_fraction r =
     (case r of
        c # r' \<Rightarrow>
          if c = CHR ''.'' then
            (let ds = takeWhile isDigit r' in
             if ds \<noteq> [] \<and> length ds \<le> 9 then Some (Some ds, dropWhile isDigit r') else None)
          else Some (None, r)
      | [] \<Rightarrow> Some (None, r))"

definition match_zone :: "string \<Rightarrow> (char \<times> int \<times> int) option option" where
  "match_zone r =
     (if r = ''Z'' \<or> r = ''z'' then Some None
      else if length r = 6 \<and> (r ! 0 = CHR ''+'' \<or> r ! 0 = CHR ''-'') \<and> list_all isDigit (take 2 (drop 1 r))
           \<and> r ! 3 = CHR '':'' \<and> list_all isDigit (take 2 (drop 4 r))
      then Some (Some (r ! 0, num_of (take 2 (drop 1 r)), num_of (take 2 (drop 4 r))))
      else None)"

definition RFC3339 :: "string \<Rightarrow> Rfc3339Match option" where
  "RFC3339 s =
     (if 19 \<le> length s
         \<and> list_all isDigit (take 4 s) \<and> s ! 4 = CHR ''-''
         \<and> list_all isDigit (take 2 (drop 5 s)) \<and> s ! 7 = CHR ''-''
         \<and> list_all isDigit (take 2 (drop 8 s)) \<and> (s ! 10 = CHR ''T'' \<or> s ! 10 = CHR ''t'')
         \<and> list_all isDigit (take 2 (drop 11 s)) \<and> s ! 13 = CHR '':''
         \<and> list_all isDigit (take 2 (drop 14 s)) \<and> s ! 16 = CHR '':''
         \<and> list_all isDigit (take 2 (drop 17 s))
      then (case match_fraction (drop 19 s) of
          None \<Rightarrow> None
        | Some (f, r) \<Rightarrow> (case match_zone r of
            None \<Rightarrow> None
          | Some zn \<Rightarrow> Some \<lparr>date_fields = [num_of (take 4 s), num_of (take 2 (drop 5 s)), num_of (take 2 (drop 8 s)),
              num_of (take 2 (drop 11 s)), num_of (take 2 (drop 14 s)), num_of (take 2 (drop 17 s))],
              frac = f, zone = zn\<rparr>))
      else None)"

text \<open>\<open>Number(frac.padEnd(3, '0').slice(0, 3))\<close>.\<close>

definition millis_of :: "string option \<Rightarrow> int" where
  "millis_of f = (case f of None \<Rightarrow> 0
     | Some ds \<Rightarrow> num_of (take 3 (ds @ replicate (3 - length ds) CHR ''0'')))"

definition MAX_SAFE_INTEGER :: int where
  "MAX_SAFE_INTEGER = 9007199254740991"

definition zone_offset :: "(char \<times> int \<times> int) option \<Rightarrow> (Rfc3339FailureReason, int) result" where
  "zone_offset zn =
     (case zn of
        None \<Rightarrow> Inr 0
      | Some (sg, oh, om) \<Rightarrow>
          if oh > 23 \<or> om > 59 then Inl Field_out_of_range
          else Inr ((oh * 3600 + om * 60) * (if sg = CHR ''-'' then -1 else 1)))"

definition instant_of :: "Rfc3339Match \<Rightarrow> Rfc3339ParseResult" where
  "instant_of m =
     (let year = date_fields m ! 0; month = date_fields m ! 1; day = date_fields m ! 2;
          hour = date_fields m ! 3; minute = date_fields m ! 4; second = date_fields m ! 5
      in if second = 60 then Inl Leap_second
         else if month < 1 \<or> month > 12 then Inl Field_out_of_range
         else if day < 1 \<or> day > daysInMonth year month then Inl Field_out_of_range
         else if hour > 23 \<or> minute > 59 \<or> second > 59 then Inl Field_out_of_range
         else bindE (zone_offset (zone m)) (\<lambda>offsetSeconds.
             let ms = (daysFromCivil year month day * 86400 + hour * 3600 + minute * 60 + second - offsetSeconds) * 1000
                      + millis_of (frac m)
             in if \<bar>ms\<bar> \<le> MAX_SAFE_INTEGER then Inr ms else Inl Not_representable))"

definition parseRfc3339 :: "json \<Rightarrow> Rfc3339ParseResult" where
  "parseRfc3339 v =
     (case v of
        JStr s \<Rightarrow> (case RFC3339 s of None \<Rightarrow> Inl Malformed | Some m \<Rightarrow> instant_of m)
      | _ \<Rightarrow> Inl Not_a_string)"

section \<open>Formatting\<close>

definition pad :: "int \<Rightarrow> nat \<Rightarrow> string" where
  "pad n width = (let d = decimal (nat n) in replicate (width - length d) CHR ''0'' @ d)"

text \<open>An integral instant; \<open>None\<close> is the \<open>RangeError\<close>.\<close>

definition formatRfc3339 :: "int \<Rightarrow> string option" where
  "formatRfc3339 ms =
     (if ms < -62167219200000 \<or> ms > 253402300799999 then None
      else let days = ms div 86400000;
               rest = ms - days * 86400000;
               (year, month, day) = civilFromDays days;
               hour = rest div 3600000;
               minute = (rest mod 3600000) div 60000;
               second = (rest mod 60000) div 1000;
               millis = rest mod 1000
           in Some (pad year 4 @ ''-'' @ pad month 2 @ ''-'' @ pad day 2
                @ ''T'' @ pad hour 2 @ '':'' @ pad minute 2 @ '':'' @ pad second 2 @ ''.'' @ pad millis 3 @ ''Z''))"

section \<open>The civil-date arithmetic\<close>

definition civil_date :: "int \<Rightarrow> int \<Rightarrow> int \<Rightarrow> bool" where
  "civil_date y m d \<longleftrightarrow> 1 \<le> m \<and> m \<le> 12 \<and> 1 \<le> d \<and> d \<le> daysInMonth y m"

text \<open>
  Years counted from March.  \<open>yoe\<close> is the year of a 400-year era, \<open>doy\<close> the day of that
  year; day 365 exists only when the February that ends the year is a leap one.
\<close>

definition march_day :: "int \<Rightarrow> int \<Rightarrow> bool" where
  "march_day yoe doy \<longleftrightarrow> 0 \<le> yoe \<and> yoe \<le> 399 \<and> 0 \<le> doy \<and> doy \<le> 365
     \<and> (doy = 365 \<longrightarrow> (yoe + 1) mod 4 = 0 \<and> ((yoe + 1) mod 100 \<noteq> 0 \<or> yoe = 399))"

lemma march_day_split:
  assumes "march_day yoe doy"
  obtains c q k where "yoe = 100 * c + 4 * q + k" "0 \<le> c" "c \<le> 3" "0 \<le> q" "q \<le> 24" "0 \<le> k" "k \<le> 3"
    "doy = 365 \<longrightarrow> k = 3 \<and> (q < 24 \<or> c = 3)" "0 \<le> doy" "doy \<le> 365"
proof
  let ?c = "yoe div 100" and ?q = "yoe mod 100 div 4" and ?k = "yoe mod 4"
  have "yoe mod 4 = yoe mod 100 mod 4" by (simp add: mod_mod_cancel)
  then show "yoe = 100 * ?c + 4 * ?q + ?k"
    using div_mult_mod_eq [of yoe 100] div_mult_mod_eq [of "yoe mod 100" 4] by linarith
  show "0 \<le> ?c" "?c \<le> 3" "0 \<le> ?q" "?q \<le> 24" "0 \<le> ?k" "?k \<le> 3" "0 \<le> doy" "doy \<le> 365"
    using assms by (auto simp: march_day_def)
  show "doy = 365 \<longrightarrow> ?k = 3 \<and> (?q < 24 \<or> ?c = 3)"
  proof
    assume "doy = 365"
    with assms have "(yoe + 1) mod 4 = 0" and cent: "(yoe + 1) mod 100 \<noteq> 0 \<or> yoe = 399"
      by (auto simp: march_day_def)
    then have k: "?k = 3" by presburger
    have "?q < 24" if "yoe \<noteq> 399"
    proof (rule ccontr)
      assume "\<not> ?q < 24"
      then have "96 \<le> yoe mod 100" by simp
      moreover have "yoe mod 100 mod 4 = 3" using k by (simp add: mod_mod_cancel)
      moreover have "yoe mod 100 < 100" by simp
      ultimately have "yoe mod 100 = 99" by presburger
      then have "(yoe + 1) mod 100 = 0" using mod_add_left_eq [of yoe 100 1] by simp
      with cent that show False by simp
    qed
    with k show "?k = 3 \<and> (?q < 24 \<or> ?c = 3)" by auto
  qed
qed

lemma march_year_recovered:
  assumes "march_day yoe doy" and doe: "doe = 365 * yoe + yoe div 4 - yoe div 100 + doy"
  shows "(doe - doe div 1460 + doe div 36524 - doe div 146096) div 365 = yoe" and "0 \<le> doe" and "doe < 146097"
proof -
  from assms(1) obtain c q k where y: "yoe = 100 * c + 4 * q + k" and c: "0 \<le> c" "c \<le> 3"
    and q: "0 \<le> q" "q \<le> 24" and k: "0 \<le> k" "k \<le> 3"
    and d: "doy = 365 \<longrightarrow> k = 3 \<and> (q < 24 \<or> c = 3)" "0 \<le> doy" "doy \<le> 365"
    by (rule march_day_split)
  have "yoe = k + 4 * (25 * c + q)" "yoe = (4 * q + k) + 100 * c" using y by simp_all
  then have y4: "yoe div 4 = 25 * c + q" and y100: "yoe div 100 = c"
    using q k by simp_all
  define e where "e = 365 * k + doy"
  have e: "0 \<le> e" "e \<le> 1460" using k d unfolding e_def by auto
  have doe': "doe = 36524 * c + (1461 * q + e)"
    unfolding doe y4 y100 using y e_def by simp
  have "c = 3" if "1461 * q + e = 36524"
  proof (rule ccontr)
    assume "c \<noteq> 3"
    with d(1) have "doy \<noteq> 365 \<or> q \<noteq> 24" by auto
    with d q have "doy \<le> 364 \<or> q \<le> 23" by auto
    with that q k d show False unfolding e_def by linarith
  qed
  then have tail: "1461 * q + e \<le> 36524" "1461 * q + e = 36524 \<longrightarrow> c = 3" "0 \<le> 1461 * q + e"
    using q e by auto
  then show "0 \<le> doe" "doe < 146097" using doe' c by auto
  define i where "i = (24 * c + q + e) div 1460"
  have i: "doe div 1460 = 25 * c + q + i"
  proof -
    have "doe = (25 * c + q) * 1460 + (24 * c + q + e)" using doe' by simp
    then show ?thesis unfolding i_def by simp
  qed
  have j: "doe div 36524 - doe div 146096 = c"
  proof (cases "1461 * q + e = 36524")
    case True
    with tail(2) doe' have "doe = 146096" "c = 3" by simp_all
    then show ?thesis by simp
  next
    case False
    with tail have t: "1461 * q + e < 36524" by simp
    have "doe div 36524 = c" unfolding doe' using t tail(3) by simp
    moreover have "doe div 146096 = 0" using t tail(3) doe' c by (intro div_pos_pos_trivial) linarith+
    ultimately show ?thesis by simp
  qed
  have "i = 0 \<and> doy \<le> 364 \<or> i = 1 \<and> 1 \<le> doy"
  proof (cases "24 * c + q + e < 1460")
    case True
    then have "i = 0" using c q e unfolding i_def by (intro div_pos_pos_trivial) linarith+
    moreover have "doy \<noteq> 365" using True c q d(1) unfolding e_def by auto
    ultimately show ?thesis using d by auto
  next
    case False
    then have "i = 1" using c q e unfolding i_def by (simp add: div_pos_geq div_pos_pos_trivial)
    moreover have "1 \<le> doy" using False c q k unfolding e_def by linarith
    ultimately show ?thesis by simp
  qed
  moreover have "doe - doe div 1460 + doe div 36524 - doe div 146096 = 365 * yoe + (doy - i)"
    using i j doe y4 y100 by simp
  ultimately show "(doe - doe div 1460 + doe div 36524 - doe div 146096) div 365 = yoe"
    using d by auto
qed

lemma march_day_exists:
  assumes "0 \<le> doe" "doe < 146097"
  obtains yoe doy where "march_day yoe doy" "doe = 365 * yoe + yoe div 4 - yoe div 100 + doy"
proof -
  define c where "c = (if doe = 146096 then 3 else doe div 36524)"
  define t where "t = doe - 36524 * c"
  have c: "0 \<le> c" "c \<le> 3" using assms by (auto simp: c_def)
  have t: "0 \<le> t" "t \<le> 36524" "t = 36524 \<longrightarrow> c = 3"
    using assms by (auto simp: t_def c_def minus_mult_div_eq_mod less_imp_le)
  define q where "q = t div 1461"
  define e where "e = t mod 1461"
  have te: "t = 1461 * q + e" and e: "0 \<le> e" "e \<le> 1460" and q: "0 \<le> q" "q \<le> 24"
    using t by (auto simp: q_def e_def)
  define k where "k = (if e = 1460 then 3 else e div 365)"
  define doy where "doy = e - 365 * k"
  have k: "0 \<le> k" "k \<le> 3" using e by (auto simp: k_def)
  have doy: "0 \<le> doy" "doy \<le> 365" "doy = 365 \<longrightarrow> e = 1460"
    using e by (auto simp: doy_def k_def minus_mult_div_eq_mod less_imp_le)
  have k3: "doy = 365 \<longrightarrow> k = 3" using doy(3) by (auto simp: k_def)
  let ?y = "100 * c + 4 * q + k"
  have "?y = k + 4 * (25 * c + q)" "?y = (4 * q + k) + 100 * c" by simp_all
  then have y4: "?y div 4 = 25 * c + q" "?y div 100 = c" using q k by simp_all
  have "doe = 36524 * c + t" "e = 365 * k + doy" by (simp_all add: t_def doy_def)
  then have eq: "doe = 365 * ?y + ?y div 4 - ?y div 100 + doy" unfolding y4 using te by simp
  have "march_day ?y doy"
  proof -
    have "(?y + 1) mod 4 = 0 \<and> ((?y + 1) mod 100 \<noteq> 0 \<or> ?y = 399)" if "doy = 365"
    proof -
      have k': "k = 3" using that k3 by blast
      then have "?y + 1 = 4 * (25 * c + q + 1)" by simp
      then have "(?y + 1) mod 4 = 0" by simp
      moreover have "(?y + 1) mod 100 \<noteq> 0" if "q < 24"
      proof -
        have "?y + 1 = (4 * q + 4) + 100 * c" using k' by simp
        then have "(?y + 1) mod 100 = (4 * q + 4) mod 100" by (simp only: mod_mult_self2)
        also have "\<dots> = 4 * q + 4" using q that by (intro mod_pos_pos_trivial) auto
        finally show ?thesis using q by simp
      qed
      moreover have "?y = 399" if "\<not> q < 24"
      proof -
        have "q = 24" using q that by simp
        then have "t = 36524" using te \<open>doy = 365\<close> doy(3) by simp
        then show ?thesis using t(3) \<open>q = 24\<close> k' by simp
      qed
      ultimately show ?thesis by metis
    qed
    then show ?thesis using c q k doy by (simp add: march_day_def)
  qed
  with eq show thesis by (rule that [rotated])
qed

text \<open>Months from March: \<open>(153 m + 2) div 5\<close> is the first day of the month, of that length.\<close>

definition march_month :: "int \<Rightarrow> int \<Rightarrow> bool" where
  "march_month mp day \<longleftrightarrow> 0 \<le> mp \<and> mp \<le> 11 \<and> 1 \<le> day
     \<and> day \<le> [31, 30, 31, 30, 31, 31, 30, 31, 30, 31, 31, 29] ! nat mp"

lemma months12: "0 \<le> (mp :: int) \<and> mp \<le> 11 \<longleftrightarrow> mp \<in> {0, 1, 2, 3, 4, 5, 6, 7, 8, 9, 10, 11}"
  by simp presburger

lemma div_unique: "b * q \<le> a \<Longrightarrow> a < b * (q + 1) \<Longrightarrow> a div b = q" for a b q :: int
  by (rule int_div_pos_eq [of _ _ _ "a - b * q"]) (simp_all add: algebra_simps)

lemma march_month_recovered:
  assumes "march_month mp day" and "doy = (153 * mp + 2) div 5 + day - 1"
  shows "(5 * doy + 2) div 153 = mp" and "0 \<le> doy" and "doy \<le> 365" and "doy = 365 \<longleftrightarrow> mp = 11 \<and> day = 29"
proof -
  have mp: "mp \<in> {0, 1, 2, 3, 4, 5, 6, 7, 8, 9, 10, 11}" using assms(1) months12 unfolding march_month_def by blast
  then have "153 * mp \<le> 5 * doy + 2 \<and> 5 * doy + 2 < 153 * (mp + 1) \<and> 0 \<le> doy \<and> doy \<le> 365
      \<and> (doy = 365 \<longleftrightarrow> mp = 11 \<and> day = 29)"
    using assms by (elim insertE emptyE) (auto simp: march_month_def)
  then show "(5 * doy + 2) div 153 = mp" "0 \<le> doy" "doy \<le> 365" "doy = 365 \<longleftrightarrow> mp = 11 \<and> day = 29"
    using div_unique [of 153 mp "5 * doy + 2"] by auto
qed

lemma march_month_exists:
  assumes "0 \<le> doy" "doy \<le> 365"
  shows "march_month ((5 * doy + 2) div 153) (doy - (153 * ((5 * doy + 2) div 153) + 2) div 5 + 1)"
proof -
  define mp where "mp = (5 * doy + 2) div 153"
  have b: "153 * mp \<le> 5 * doy + 2" "5 * doy + 2 < 153 * mp + 153"
    using div_mult_mod_eq [of "5 * doy + 2" 153] pos_mod_bound [of 153 "5 * doy + 2"]
      pos_mod_sign [of 153 "5 * doy + 2"] unfolding mp_def by linarith+
  then have "0 \<le> mp \<and> mp \<le> 11" using assms by linarith
  then have "mp \<in> {0, 1, 2, 3, 4, 5, 6, 7, 8, 9, 10, 11}" using months12 by blast
  then show ?thesis unfolding mp_def [symmetric] march_month_def using b assms
    by (elim insertE emptyE) simp_all
qed

text \<open>A civil date as a March-based one.\<close>

definition march_of :: "int \<Rightarrow> int" where
  "march_of m = m + (if m > 2 then -3 else 9)"

lemma months12': "1 \<le> (m :: int) \<and> m \<le> 12 \<longleftrightarrow> m \<in> {1, 2, 3, 4, 5, 6, 7, 8, 9, 10, 11, 12}"
  by simp presburger

lemma leap_march:
  assumes "0 \<le> r" "r \<le> 399"
  shows "isLeapYear (400 * era + r + 1) \<longleftrightarrow> (r + 1) mod 4 = 0 \<and> ((r + 1) mod 100 \<noteq> 0 \<or> r = 399)"
proof -
  have "400 * era + r + 1 = (r + 1) + 4 * (100 * era)" "400 * era + r + 1 = (r + 1) + 100 * (4 * era)"
    "400 * era + r + 1 = (r + 1) + 400 * era" by simp_all
  then have "(400 * era + r + 1) mod 4 = (r + 1) mod 4" "(400 * era + r + 1) mod 100 = (r + 1) mod 100"
    "(400 * era + r + 1) mod 400 = (r + 1) mod 400" by (metis mod_mult_self2)+
  moreover have "(r + 1) mod 400 = 0 \<longleftrightarrow> r = 399"
  proof (cases "r = 399")
    case False
    with assms have "(r + 1) mod 400 = r + 1" by (intro mod_pos_pos_trivial) auto
    with False assms show ?thesis by simp
  qed simp
  ultimately show ?thesis by (auto simp: isLeapYear_def)
qed

lemma daysInMonth_leap: "daysInMonth y 2 = (if isLeapYear y then 29 else 28)"
  by (simp add: daysInMonth_def isLeapYear_def)

lemma civil_march:
  assumes "1 \<le> m" "m \<le> 12"
  shows "civil_date y m d \<longleftrightarrow> march_month (march_of m) d \<and> (march_of m = 11 \<and> d = 29 \<longrightarrow> isLeapYear y)"
proof -
  have "m \<in> {1, 2, 3, 4, 5, 6, 7, 8, 9, 10, 11, 12}" using assms months12' by blast
  then show ?thesis
    by (elim insertE emptyE)
       (auto simp: civil_date_def march_month_def march_of_def daysInMonth_leap, auto simp: daysInMonth_def)
qed

lemma march_of_range: "1 \<le> m \<Longrightarrow> m \<le> 12 \<Longrightarrow> 0 \<le> march_of m \<and> march_of m \<le> 11
    \<and> m = march_of m + (if march_of m < 10 then 3 else -9) \<and> (m \<le> 2 \<longleftrightarrow> 10 \<le> march_of m)"
  by (auto simp: march_of_def)

text \<open>Both directions of the conversion, on the March-based form.\<close>

lemma civilFromDays_march:
  assumes "march_day r doy" and "doy = (153 * mp + 2) div 5 + day - 1" and "march_month mp day"
    and z: "z = era * 146097 + (365 * r + r div 4 - r div 100 + doy) - 719468"
    and "m = mp + (if mp < 10 then 3 else -9)"
  shows "civilFromDays z = (r + era * 400 + (if m \<le> 2 then 1 else 0), m, day)"
proof -
  let ?doe = "365 * r + r div 4 - r div 100 + doy"
  note y = march_year_recovered [OF assms(1) refl]
  have era: "(z + 719468) div 146097 = era" using y(2,3) z by (intro div_unique) auto
  have doe: "z + 719468 - era * 146097 = ?doe" using z by simp
  have "?doe - (365 * r + r div 4 - r div 100) = doy" by simp
  moreover have "(5 * doy + 2) div 153 = mp" using march_month_recovered [OF assms(3,2)] by blast
  moreover have "doy - (153 * mp + 2) div 5 + 1 = day" using assms(2) by simp
  ultimately show ?thesis unfolding civilFromDays_def Let_def era doe y(1) using assms(5) by simp
qed

lemma daysFromCivil_march:
  assumes "1 \<le> m" "m \<le> 12"
  shows "daysFromCivil y m d =
    (let y' = y - (if m \<le> 2 then 1 else 0); r = y' mod 400 in
     y' div 400 * 146097 + (365 * r + r div 4 - r div 100 + ((153 * march_of m + 2) div 5 + d - 1)) - 719468)"
  unfolding daysFromCivil_def march_of_def Let_def minus_div_mult_eq_mod by simp

lemma civil_of_days:
  assumes "civil_date y m d"
  shows "civilFromDays (daysFromCivil y m d) = (y, m, d)"
proof -
  have m: "1 \<le> m" "m \<le> 12" using assms by (auto simp: civil_date_def)
  note mr = march_of_range [OF m]
  define y' where "y' = y - (if m \<le> 2 then 1 else 0)"
  define doy where "doy = (153 * march_of m + 2) div 5 + d - 1"
  have mm: "march_month (march_of m) d" and leap: "march_of m = 11 \<and> d = 29 \<longrightarrow> isLeapYear y"
    using assms civil_march [OF m] by blast+
  note rec = march_month_recovered [OF mm doy_def]
  have r: "0 \<le> y' mod 400" "y' mod 400 \<le> 399" using pos_mod_bound [of 400 y'] by simp_all
  have "march_day (y' mod 400) doy"
  proof -
    have "(y' mod 400 + 1) mod 4 = 0 \<and> ((y' mod 400 + 1) mod 100 \<noteq> 0 \<or> y' mod 400 = 399)" if "doy = 365"
    proof -
      have f: "march_of m = 11 \<and> d = 29" using rec(4) that by blast
      then have "y = 400 * (y' div 400) + y' mod 400 + 1" using mr by (simp add: y'_def)
      moreover have "isLeapYear y" using leap f by blast
      ultimately show ?thesis using leap_march [OF r] by metis
    qed
    then show ?thesis using r rec by (simp add: march_day_def)
  qed
  from civilFromDays_march [OF this doy_def mm refl, of m "y' div 400"] mr
  have "civilFromDays (daysFromCivil y m d) = (y' mod 400 + y' div 400 * 400 + (if m \<le> 2 then 1 else 0), m, d)"
    unfolding daysFromCivil_march [OF m] Let_def y'_def [symmetric] doy_def [symmetric] by blast
  then show ?thesis by (simp add: y'_def)
qed

lemma days_of_civil:
  assumes "civilFromDays z = (y, m, d)"
  shows "civil_date y m d" and "daysFromCivil y m d = z"
proof -
  define era where "era = (z + 719468) div 146097"
  define doe where "doe = (z + 719468) mod 146097"
  have z: "z = era * 146097 + doe - 719468" by (simp add: era_def doe_def)
  have "0 \<le> doe" "doe < 146097" by (simp_all add: doe_def)
  then obtain r doy where md: "march_day r doy" and doe: "doe = 365 * r + r div 4 - r div 100 + doy"
    by (rule march_day_exists)
  define mp where "mp = (5 * doy + 2) div 153"
  define day where "day = doy - (153 * mp + 2) div 5 + 1"
  define mo where "mo = mp + (if mp < 10 then 3 else -9)"
  have doy: "0 \<le> doy" "doy \<le> 365" "0 \<le> r" "r \<le> 399" using md by (auto simp: march_day_def)
  have mm: "march_month mp day" using march_month_exists [OF doy(1,2)] by (simp add: mp_def day_def)
  have dd: "doy = (153 * mp + 2) div 5 + day - 1" by (simp add: day_def)
  from civilFromDays_march [OF md dd mm z [unfolded doe] mo_def] assms
  have eq: "y = r + era * 400 + (if mo \<le> 2 then 1 else 0)" "m = mo" "d = day" by auto
  have mo: "1 \<le> mo" "mo \<le> 12" "march_of mo = mp" using mm by (auto simp: mo_def march_month_def march_of_def)
  have rdiv: "(r + era * 400) div 400 = era" "(r + era * 400) mod 400 = r" using doy by simp_all
  show "daysFromCivil y m d = z"
    unfolding daysFromCivil_march [OF mo(1,2), folded eq(2)] using eq mo(3) rdiv dd z doe by (simp add: Let_def)
  have "isLeapYear y" if f: "mp = 11" "day = 29"
  proof -
    have "doy = 365" using march_month_recovered(4) [OF mm dd] f by blast
    then have "isLeapYear (400 * era + r + 1)" using leap_march [OF doy(3,4)] md by (auto simp: march_day_def)
    moreover have "y = 400 * era + r + 1" using eq f by (simp add: mo_def)
    ultimately show ?thesis by simp
  qed
  then show "civil_date y m d" using civil_march [OF mo(1,2)] mm mo(3) eq by auto
qed

section \<open>Day numbers keep calendar order\<close>

definition leap_days :: "int \<Rightarrow> int" where
  "leap_days y = y div 4 - y div 100 + y div 400"

definition year_start :: "int \<Rightarrow> int" where
  "year_start y = 365 * (y - 1) + leap_days (y - 1) + 306 - 719468"

definition days_before :: "int \<Rightarrow> int \<Rightarrow> int" where
  "days_before y m = [0, 31, 59, 90, 120, 151, 181, 212, 243, 273, 304, 334] ! nat (m - 1)
     + (if m > 2 \<and> isLeapYear y then 1 else 0)"

lemma div_step: "0 < n \<Longrightarrow> y div n = (y - 1) div n + (if y mod n = 0 then 1 else 0)" for y n :: int
proof -
  assume n: "0 < n"
  define q where "q = y div n"
  define r where "r = y mod n"
  have y: "y = n * q + r" "0 \<le> r" "r < n" using n by (simp_all add: q_def r_def)
  show ?thesis
  proof (cases "r = 0")
    case True
    then have "(y - 1) div n = q - 1" using y n by (intro div_unique) (auto simp: algebra_simps)
    then show ?thesis using True by (simp add: q_def r_def)
  next
    case False
    then have "(y - 1) div n = q" using y n by (intro div_unique) (auto simp: algebra_simps)
    then show ?thesis using False by (simp add: q_def r_def)
  qed
qed

lemma count_multiples:
  fixes a b c :: int
  assumes "a = a' + (if p then 1 else 0)" "b = b' + (if q then 1 else 0)" "c = c' + (if r then 1 else 0)"
    and "q \<Longrightarrow> p" and "r \<Longrightarrow> q"
  shows "a - b + c = a' - b' + c' + (if p \<and> \<not> q \<or> r then 1 else 0)"
  using assms by (cases p; cases q; cases r) simp_all

lemma leap_days_step: "leap_days y = leap_days (y - 1) + (if isLeapYear y then 1 else 0)"
  unfolding leap_days_def isLeapYear_def
proof (rule count_multiples)
  show "y mod 100 = 0 \<Longrightarrow> y mod 4 = 0" "y mod 400 = 0 \<Longrightarrow> y mod 100 = 0"
    using mod_mod_cancel [of 4 100 y] mod_mod_cancel [of 100 400 y] by simp_all
qed (rule div_step, simp)+

lemma year_start_step: "year_start (y + 1) = year_start y + 365 + (if isLeapYear y then 1 else 0)"
  using leap_days_step [of y] by (simp add: year_start_def)

lemma year_start_mono: "y \<le> y' \<Longrightarrow> year_start y \<le> year_start y'"
proof (induction y' rule: int_ge_induct)
  case (step i)
  then show ?case using year_start_step [of i] by simp
qed simp

lemma era_sum: "y div 400 * 146097 + (365 * (y mod 400) + y mod 400 div 4 - y mod 400 div 100) = 365 * y + leap_days y"
  for y :: int
proof -
  define e where "e = y div 400"
  define r where "r = y mod 400"
  have y: "y = r + 400 * e" by (simp add: e_def r_def)
  have "y div 4 = r div 4 + 100 * e" "y div 100 = r div 100 + 4 * e"
    using div_mult_self2 [of 4 r "100 * e"] div_mult_self2 [of 100 r "4 * e"] y by simp_all
  then show ?thesis unfolding leap_days_def e_def [symmetric] r_def [symmetric] using y by simp
qed

lemma daysFromCivil_year:
  assumes "1 \<le> m" "m \<le> 12"
  shows "daysFromCivil y m d = year_start y + days_before y m + d - 1"
proof -
  define y' where "y' = y - (if m \<le> 2 then 1 else 0)"
  have "daysFromCivil y m d = 365 * y' + leap_days y' + ((153 * march_of m + 2) div 5 + d - 1) - 719468"
    unfolding daysFromCivil_march [OF assms] Let_def y'_def [symmetric] era_sum [symmetric] by simp
  moreover have "m \<in> {1, 2, 3, 4, 5, 6, 7, 8, 9, 10, 11, 12}" using assms months12' by blast
  ultimately show ?thesis using leap_days_step [of y]
    by (elim insertE emptyE) (simp_all add: y'_def year_start_def days_before_def march_of_def)
qed

lemma days_before_step: "1 \<le> m \<Longrightarrow> m \<le> 11 \<Longrightarrow> days_before y (m + 1) = days_before y m + daysInMonth y m"
proof -
  assume "1 \<le> m" "m \<le> 11"
  then have "m \<in> {1, 2, 3, 4, 5, 6, 7, 8, 9, 10, 11}" by simp presburger
  then show ?thesis
    by (elim insertE emptyE) (simp_all add: days_before_def daysInMonth_leap, simp_all add: daysInMonth_def)
qed

lemma daysInMonth_pos: "0 < daysInMonth y m"
  by (simp add: daysInMonth_def)

lemma days_before_mono:
  assumes "m < m'"
  shows "1 \<le> m \<Longrightarrow> m' \<le> 12 \<Longrightarrow> days_before y m + daysInMonth y m \<le> days_before y m'"
  using assms
proof (induction m' rule: int_gr_induct)
  case base
  then show ?case using days_before_step by simp
next
  case (step i)
  then show ?case using days_before_step [of i y] daysInMonth_pos [of y i] by simp
qed

lemma days_in_year:
  assumes "civil_date y m d"
  shows "days_before y m + d \<le> 365 + (if isLeapYear y then 1 else 0)" and "0 \<le> days_before y m"
proof -
  have "days_before y m + daysInMonth y m \<le> days_before y 12 + daysInMonth y 12"
    using assms days_before_mono [of m 12 y] daysInMonth_pos [of y 12]
    by (cases "m = 12") (auto simp: civil_date_def)
  then show "days_before y m + d \<le> 365 + (if isLeapYear y then 1 else 0)"
    using assms by (simp add: civil_date_def days_before_def daysInMonth_def)
  show "0 \<le> days_before y m"
    using assms days_before_mono [of 1 m y] by (cases "m = 1") (auto simp: civil_date_def days_before_def daysInMonth_def)
qed

lemma daysFromCivil_less:
  assumes "civil_date y m d" "civil_date y' m' d'" "[y, m, d] < [y', m', d']"
  shows "daysFromCivil y m d < daysFromCivil y' m' d'"
proof -
  have r: "1 \<le> m" "m \<le> 12" "1 \<le> m'" "m' \<le> 12" "d \<le> daysInMonth y m" "1 \<le> d'"
    using assms by (auto simp: civil_date_def)
  consider "y < y'" | "y = y'" "m < m'" | "y = y'" "m = m'" "d < d'" using assms(3) by auto
  then show ?thesis
  proof cases
    case 1
    then have "year_start (y + 1) \<le> year_start y'" by (intro year_start_mono) simp
    then show ?thesis
      using year_start_step [of y] days_in_year [OF assms(1)] days_in_year [OF assms(2)] r
      unfolding daysFromCivil_year [OF r(1,2)] daysFromCivil_year [OF r(3,4)] by linarith
  next
    case 2
    then show ?thesis using days_before_mono [of m m' y] r
      unfolding daysFromCivil_year [OF r(1,2)] daysFromCivil_year [OF r(3,4)] by simp
  qed (simp add: daysFromCivil_year [OF r(1,2)] daysFromCivil_year [OF r(3,4)])
qed

lemma daysFromCivil_range:
  assumes "civil_date y m d" "0 \<le> y" "y \<le> 9999"
  shows "-719528 \<le> daysFromCivil y m d" and "daysFromCivil y m d \<le> 2932896"
proof -
  have m: "1 \<le> m" "m \<le> 12" "1 \<le> d" using assms by (auto simp: civil_date_def)
  have "year_start 0 \<le> year_start y" "year_start (y + 1) \<le> year_start 10000"
    using assms by (simp_all add: year_start_mono)
  moreover have "year_start 0 = -719528" "year_start 10000 = 2932897" by code_simp+
  ultimately show "-719528 \<le> daysFromCivil y m d" "daysFromCivil y m d \<le> 2932896"
    using days_in_year [OF assms(1)] m year_start_step [of y] unfolding daysFromCivil_year [OF m(1,2)] by auto
qed

section \<open>Digits\<close>

lemma isDigit_char: "n < 10 \<Longrightarrow> isDigit (char_of (48 + n)) \<and> digit_val (char_of (48 + n)) = int n"
  by (simp add: isDigit_def digit_val_def)

lemma decimal_digits: "list_all isDigit (decimal n) \<and> num_of (decimal n) = int n \<and> decimal n \<noteq> []"
proof (induction n rule: decimal.induct)
  case (1 n)
  show ?case
  proof (cases "n < 10")
    case True
    then show ?thesis using isDigit_char [of n] num_of_snoc [of "[]" "char_of (48 + n)"]
      by (subst (1 2 3) decimal.simps) simp
  next
    case False
    with 1 have ih: "list_all isDigit (decimal (n div 10)) \<and> num_of (decimal (n div 10)) = int (n div 10)" by simp
    have "num_of (decimal n) = 10 * int (n div 10) + int (n mod 10)"
      using False ih isDigit_char [of "n mod 10"] by (subst decimal.simps) simp
    also have "\<dots> = int n" by presburger
    finally show ?thesis using False ih isDigit_char [of "n mod 10"]
      by (subst (1 3) decimal.simps) simp
  qed
qed

lemma decimal_length: "n < 10 ^ w \<Longrightarrow> 0 < w \<Longrightarrow> length (decimal n) \<le> w"
proof (induction n arbitrary: w rule: decimal.induct)
  case (1 n)
  show ?case
  proof (cases "n < 10")
    case True
    then show ?thesis using 1 by (subst decimal.simps) simp
  next
    case False
    with 1 obtain v where v: "w = Suc v" "0 < v" by (cases w; cases "w - 1") auto
    then have "n div 10 < 10 ^ v" using 1(2) by (simp add: less_mult_imp_div_less mult.commute)
    then have "length (decimal (n div 10)) \<le> v" using 1 False v by simp
    then show ?thesis using False v by (subst decimal.simps) simp
  qed
qed

lemma num_of_zeros: "num_of (replicate k CHR ''0'' @ s) = num_of s"
  by (induction k) (simp_all add: num_of_Cons digit_val_def)

lemma pad_digits:
  assumes "0 \<le> n" "n < 10 ^ w" "0 < w"
  shows "length (pad n w) = w" and "list_all isDigit (pad n w)" and "num_of (pad n w) = n"
proof -
  have "nat n < 10 ^ w" using assms by (simp add: nat_less_iff)
  then have len: "length (decimal (nat n)) \<le> w" using assms(3) by (rule decimal_length)
  then show "length (pad n w) = w" by (simp add: pad_def Let_def)
  have "isDigit CHR ''0''" by (simp add: isDigit_def)
  then show "list_all isDigit (pad n w)" using decimal_digits [of "nat n"] by (auto simp: pad_def Let_def list_all_iff)
  show "num_of (pad n w) = n" using decimal_digits [of "nat n"] assms(1) by (simp add: pad_def Let_def num_of_zeros)
qed

lemma pad_num_of:
  assumes "list_all isDigit s" "length s = n" "0 < n"
  shows "pad (num_of s) n = s"
  using assms num_of_bounds [OF assms(1)] pad_digits [of "num_of s" n]
  by (intro num_of_inj) auto

section \<open>The emitted form\<close>

definition stamp :: "int list \<Rightarrow> string" where
  "stamp p = pad (p ! 0) 4 @ ''-'' @ pad (p ! 1) 2 @ ''-'' @ pad (p ! 2) 2
     @ ''T'' @ pad (p ! 3) 2 @ '':'' @ pad (p ! 4) 2 @ '':'' @ pad (p ! 5) 2 @ ''.'' @ pad (p ! 6) 3 @ ''Z''"

definition stamp_fields :: "int list \<Rightarrow> bool" where
  "stamp_fields p \<longleftrightarrow> length p = 7 \<and> 0 \<le> p ! 0 \<and> p ! 0 \<le> 9999 \<and> civil_date (p ! 0) (p ! 1) (p ! 2)
     \<and> 0 \<le> p ! 3 \<and> p ! 3 \<le> 23 \<and> 0 \<le> p ! 4 \<and> p ! 4 \<le> 59 \<and> 0 \<le> p ! 5 \<and> p ! 5 \<le> 59
     \<and> 0 \<le> p ! 6 \<and> p ! 6 \<le> 999"

definition stamp_instant :: "int list \<Rightarrow> int" where
  "stamp_instant p = (daysFromCivil (p ! 0) (p ! 1) (p ! 2) * 86400 + p ! 3 * 3600 + p ! 4 * 60 + p ! 5) * 1000 + p ! 6"

lemma length7: "length p = 7 \<Longrightarrow> p = [p ! 0, p ! 1, p ! 2, p ! 3, p ! 4, p ! 5, p ! 6]"
  by (simp add: list_eq_iff_nth_eq less_Suc_eq numeral_eq_Suc)

lemma daysInMonth_le: "daysInMonth y m \<le> 31"
  by (simp add: daysInMonth_def)

lemma stamp_pads:
  assumes "stamp_fields p"
  shows "length (pad (p ! 0) 4) = 4" "list_all isDigit (pad (p ! 0) 4)" "num_of (pad (p ! 0) 4) = p ! 0"
    and "\<And>i. i \<in> {1, 2, 3, 4, 5} \<Longrightarrow> length (pad (p ! i) 2) = 2 \<and> list_all isDigit (pad (p ! i) 2) \<and> num_of (pad (p ! i) 2) = p ! i"
    and "length (pad (p ! 6) 3) = 3" "list_all isDigit (pad (p ! 6) 3)" "num_of (pad (p ! 6) 3) = p ! 6"
proof -
  have "0 \<le> p ! i \<and> p ! i < 100" if "i \<in> {1, 2, 3, 4, 5}" for i
    using that assms daysInMonth_le [of "p ! 0" "p ! 1"] by (auto simp: stamp_fields_def civil_date_def)
  then show "\<And>i. i \<in> {1, 2, 3, 4, 5} \<Longrightarrow> length (pad (p ! i) 2) = 2 \<and> list_all isDigit (pad (p ! i) 2) \<and> num_of (pad (p ! i) 2) = p ! i"
    using pad_digits [of _ 2] by auto
  show "length (pad (p ! 0) 4) = 4" "list_all isDigit (pad (p ! 0) 4)" "num_of (pad (p ! 0) 4) = p ! 0"
    "length (pad (p ! 6) 3) = 3" "list_all isDigit (pad (p ! 6) 3)" "num_of (pad (p ! 6) 3) = p ! 6"
    using assms pad_digits [of "p ! 0" 4] pad_digits [of "p ! 6" 3] by (auto simp: stamp_fields_def)
qed

lemma stamp_shape:
  assumes "stamp_fields p"
  shows "timestamp_shape (stamp p)" and "timestamp_parts (stamp p) = p"
proof -
  note q = stamp_pads [OF assms]
  have two: "length (pad (p ! i) 2) = 2" "list_all isDigit (pad (p ! i) 2)" "num_of (pad (p ! i) 2) = p ! i"
    if "i \<in> {1, 2, 3, 4, 5}" for i using q(4) [OF that] by blast+
  show "timestamp_shape (stamp p)"
    unfolding timestamp_shape_def stamp_def using q two [of 1] two [of 2] two [of 3] two [of 4] two [of 5]
    by (simp add: nth_append)
  have "timestamp_parts (stamp p) = [p ! 0, p ! 1, p ! 2, p ! 3, p ! 4, p ! 5, p ! 6]"
    unfolding timestamp_parts_def stamp_def using q two [of 1] two [of 2] two [of 3] two [of 4] two [of 5] by simp
  then show "timestamp_parts (stamp p) = p" using length7 [of p] assms by (metis stamp_fields_def)
qed

text \<open>On the twenty-four character form the regular expression reads the parts.\<close>

lemma RFC3339_shape:
  assumes "timestamp_shape s"
  shows "RFC3339 s = Some \<lparr>date_fields = take 6 (timestamp_parts s), frac = Some (take 3 (drop 20 s)), zone = None\<rparr>"
proof -
  have len: "length s = 24" using assms by (simp add: timestamp_shape_def)
  have tail: "drop 19 s = CHR ''.'' # take 3 (drop 20 s) @ ''Z''"
    by (subst list24 [OF len]) (use assms in \<open>simp add: timestamp_shape_def\<close>)
  have dig: "list_all isDigit (take 3 (drop 20 s))" and l3: "length (take 3 (drop 20 s)) = 3"
    using assms by (simp_all add: timestamp_shape_def)
  have "\<not> isDigit CHR ''Z''" by (simp add: isDigit_def)
  then have "takeWhile isDigit (take 3 (drop 20 s) @ ''Z'') = take 3 (drop 20 s)"
    "dropWhile isDigit (take 3 (drop 20 s) @ ''Z'') = ''Z''"
    using dig by (simp_all add: list_all_iff)
  then have "match_fraction (drop 19 s) = Some (Some (take 3 (drop 20 s)), ''Z'')"
    unfolding tail match_fraction_def using l3 by (auto simp: Let_def)
  then show ?thesis unfolding RFC3339_def using assms len
    by (simp add: timestamp_shape_def match_zone_def timestamp_parts_def)
qed

lemma stamp_instant_range:
  assumes "stamp_fields p"
  shows "-62167219200000 \<le> stamp_instant p" and "stamp_instant p \<le> 253402300799999"
  using assms daysFromCivil_range [of "p ! 0" "p ! 1" "p ! 2"] by (auto simp: stamp_fields_def stamp_instant_def)

lemma parse_shape:
  assumes "timestamp_shape s" "stamp_fields (timestamp_parts s)"
  shows "parseRfc3339 (JStr s) = Inr (stamp_instant (timestamp_parts s))"
proof -
  let ?p = "timestamp_parts s"
  have l3: "length (take 3 (drop 20 s)) = 3" using assms(1) by (simp add: timestamp_shape_def)
  have "\<bar>stamp_instant ?p\<bar> \<le> MAX_SAFE_INTEGER"
    using stamp_instant_range [OF assms(2)] by (simp add: MAX_SAFE_INTEGER_def)
  moreover have "millis_of (Some (take 3 (drop 20 s))) = ?p ! 6"
    using l3 by (simp add: millis_of_def timestamp_parts_def)
  ultimately show ?thesis using assms(2)
    by (simp add: parseRfc3339_def RFC3339_shape [OF assms(1)] instant_of_def stamp_instant_def stamp_fields_def
        civil_date_def zone_offset_def)
qed

lemma format_stamp:
  assumes "stamp_fields p"
  shows "formatRfc3339 (stamp_instant p) = Some (stamp p)"
proof -
  define D where "D = daysFromCivil (p ! 0) (p ! 1) (p ! 2)"
  define rest where "rest = p ! 3 * 3600000 + p ! 4 * 60000 + p ! 5 * 1000 + p ! 6"
  have f: "0 \<le> p ! 3" "p ! 3 \<le> 23" "0 \<le> p ! 4" "p ! 4 \<le> 59" "0 \<le> p ! 5" "p ! 5 \<le> 59" "0 \<le> p ! 6" "p ! 6 \<le> 999"
    and cd: "civil_date (p ! 0) (p ! 1) (p ! 2)" using assms by (auto simp: stamp_fields_def)
  have ms: "stamp_instant p = D * 86400000 + rest" by (simp add: stamp_instant_def D_def rest_def)
  have days: "stamp_instant p div 86400000 = D" using f unfolding ms rest_def by (intro div_unique) auto
  have "rest div 3600000 = p ! 3" using f unfolding rest_def by (intro div_unique) auto
  moreover have "rest mod 3600000 div 60000 = p ! 4"
  proof -
    have "rest mod 3600000 = p ! 4 * 60000 + p ! 5 * 1000 + p ! 6"
      using f unfolding rest_def by (intro int_mod_pos_eq [of _ _ "p ! 3"]) auto
    then show ?thesis using f by (intro div_unique) auto
  qed
  moreover have "rest mod 60000 div 1000 = p ! 5"
  proof -
    have "rest mod 60000 = p ! 5 * 1000 + p ! 6"
      using f unfolding rest_def by (intro int_mod_pos_eq [of _ _ "p ! 3 * 60 + p ! 4"]) auto
    then show ?thesis using f by (intro div_unique) auto
  qed
  moreover have "rest mod 1000 = p ! 6"
    using f unfolding rest_def by (intro int_mod_pos_eq [of _ _ "p ! 3 * 3600 + p ! 4 * 60 + p ! 5"]) auto
  moreover have "stamp_instant p - D * 86400000 = rest" by (simp add: ms)
  ultimately show ?thesis
    unfolding formatRfc3339_def Let_def days using stamp_instant_range [OF assms] civil_of_days [OF cd]
    by (simp add: D_def stamp_def)
qed

lemma instant_has_stamp:
  assumes "-62167219200000 \<le> ms" "ms \<le> 253402300799999"
  obtains p where "stamp_fields p" "stamp_instant p = ms"
proof -
  define D where "D = ms div 86400000"
  define rest where "rest = ms mod 86400000"
  obtain y m d where ymd: "civilFromDays D = (y, m, d)" by (cases "civilFromDays D") auto
  note cd = days_of_civil [OF ymd]
  have m: "1 \<le> m" "m \<le> 12" "1 \<le> d" using cd(1) by (auto simp: civil_date_def)
  have D: "-719528 \<le> D" "D \<le> 2932896" using zdiv_mono1 [OF assms(1), of 86400000] zdiv_mono1 [OF assms(2), of 86400000]
    unfolding D_def by simp_all
  have ys: "year_start 0 = -719528" "year_start 10000 = 2932897" by code_simp+
  have span: "year_start y \<le> D" "D < year_start (y + 1)"
    using days_in_year [OF cd(1)] cd(2) m year_start_step [of y] unfolding daysFromCivil_year [OF m(1,2)] by auto
  have y: "0 \<le> y" "y \<le> 9999"
    using span D ys year_start_mono [of "y + 1" 0] year_start_mono [of 10000 y] by linarith+
  let ?h = "rest div 3600000" and ?i = "rest mod 3600000 div 60000" and ?s = "rest mod 60000 div 1000" and ?l = "rest mod 1000"
  have r: "0 \<le> rest" "rest < 86400000" by (simp_all add: rest_def)
  have fields: "stamp_fields [y, m, d, ?h, ?i, ?s, ?l]"
    using y cd(1) r by (auto simp: stamp_fields_def)
  have "rest mod 3600000 mod 60000 = rest mod 60000" "rest mod 60000 mod 1000 = rest mod 1000"
    by (simp_all add: mod_mod_cancel)
  then have "rest = ?h * 3600000 + ?i * 60000 + ?s * 1000 + ?l"
    using div_mult_mod_eq [of rest 3600000] div_mult_mod_eq [of "rest mod 3600000" 60000]
      div_mult_mod_eq [of "rest mod 60000" 1000] by linarith
  moreover have "ms = D * 86400000 + rest" by (simp add: D_def rest_def)
  ultimately have "stamp_instant [y, m, d, ?h, ?i, ?s, ?l] = ms" using cd(2) by (simp add: stamp_instant_def)
  with fields show thesis by (rule that)
qed

lemma stamp_instant_less:
  assumes "stamp_fields p" "stamp_fields q" "p < q"
  shows "stamp_instant p < stamp_instant q"
proof -
  have f: "0 \<le> p ! 3" "p ! 3 \<le> 23" "0 \<le> p ! 4" "p ! 4 \<le> 59" "0 \<le> p ! 5" "p ! 5 \<le> 59" "0 \<le> p ! 6" "p ! 6 \<le> 999"
      "0 \<le> q ! 3" "q ! 3 \<le> 23" "0 \<le> q ! 4" "q ! 4 \<le> 59" "0 \<le> q ! 5" "q ! 5 \<le> 59" "0 \<le> q ! 6" "q ! 6 \<le> 999"
    and cd: "civil_date (p ! 0) (p ! 1) (p ! 2)" "civil_date (q ! 0) (q ! 1) (q ! 2)"
    and l: "length p = 7" "length q = 7" using assms(1,2) unfolding stamp_fields_def by blast+
  have "[p ! 0, p ! 1, p ! 2, p ! 3, p ! 4, p ! 5, p ! 6] < [q ! 0, q ! 1, q ! 2, q ! 3, q ! 4, q ! 5, q ! 6]"
    using assms(3) length7 [OF l(1)] length7 [OF l(2)] by metis
  then consider "[p ! 0, p ! 1, p ! 2] < [q ! 0, q ! 1, q ! 2]"
    | "[p ! 0, p ! 1, p ! 2] = [q ! 0, q ! 1, q ! 2]" "[p ! 3, p ! 4, p ! 5, p ! 6] < [q ! 3, q ! 4, q ! 5, q ! 6]"
    by auto
  then show ?thesis
  proof cases
    case 1
    from daysFromCivil_less [OF cd 1]
    have "daysFromCivil (p ! 0) (p ! 1) (p ! 2) + 1 \<le> daysFromCivil (q ! 0) (q ! 1) (q ! 2)" by simp
    then show ?thesis using f by (simp add: stamp_instant_def)
  next
    case 2
    then show ?thesis using f unfolding stamp_instant_def by auto
  qed
qed

text \<open>Canonical timestamps of the authority schema are the emitted ones, leap seconds apart.\<close>

lemma maxDay_daysInMonth: "1 \<le> m \<Longrightarrow> m \<le> 12 \<Longrightarrow> maxDay y m = daysInMonth y m"
proof -
  assume "1 \<le> m" "m \<le> 12"
  then have "m \<in> {1, 2, 3, 4, 5, 6, 7, 8, 9, 10, 11, 12}" using months12' by blast
  then show ?thesis
    by (elim insertE emptyE)
       (simp_all add: maxDay_def DAYS_IN_MONTH_def daysInMonth_def isLeapYear_def)
qed

lemma canonical_fields:
  "isCanonicalTimestamp s \<and> timestamp_parts s ! 5 \<noteq> 60 \<longleftrightarrow> timestamp_shape s \<and> stamp_fields (timestamp_parts s)"
  (is "?L \<longleftrightarrow> ?R")
proof -
  let ?p = "timestamp_parts s"
  have digits: "0 \<le> ?p ! 0 \<and> ?p ! 0 \<le> 9999 \<and> 0 \<le> ?p ! 6 \<and> ?p ! 6 \<le> 999" if "timestamp_shape s"
    using that num_of_bounds [of "take 4 s"] num_of_bounds [of "take 3 (drop 20 s)"]
    by (auto simp: timestamp_shape_def timestamp_parts_def)
  have len: "length ?p = 7" by (simp add: timestamp_parts_def)
  show ?thesis
  proof
    assume L: ?L
    then have sh: "timestamp_shape s" using canonical_timestamp_shape by blast
    from L have "?p ! 1 \<in> {1..12}" "1 \<le> ?p ! 2" "?p ! 2 \<le> maxDay (?p ! 0) (?p ! 1)" "?p ! 3 \<in> {0..23}"
        "?p ! 4 \<in> {0..59}" "?p ! 5 \<in> {0..60}" "?p ! 5 \<noteq> 60"
      by (auto simp: isCanonicalTimestamp_def CANONICAL_TIMESTAMP_def Let_def split: if_splits)
    then show ?R using sh digits len maxDay_daysInMonth [of "?p ! 1" "?p ! 0"]
      by (auto simp: stamp_fields_def civil_date_def)
  next
    assume R: ?R
    then show ?L using maxDay_daysInMonth [of "?p ! 1" "?p ! 0"] daysInMonth_le [of "?p ! 0" "?p ! 1"]
      by (auto simp: isCanonicalTimestamp_def CANONICAL_TIMESTAMP_def Let_def stamp_fields_def civil_date_def)
  qed
qed

lemma stamp_of_parts:
  assumes "timestamp_shape s"
  shows "stamp (timestamp_parts s) = s"
proof -
  have len: "length s = 24" using assms by (simp add: timestamp_shape_def)
  have pads: "pad (num_of (take 4 s)) 4 = take 4 s" "pad (num_of (take 3 (drop 20 s))) 3 = take 3 (drop 20 s)"
    "pad (num_of (take 2 (drop 5 s))) 2 = take 2 (drop 5 s)" "pad (num_of (take 2 (drop 8 s))) 2 = take 2 (drop 8 s)"
    "pad (num_of (take 2 (drop 11 s))) 2 = take 2 (drop 11 s)" "pad (num_of (take 2 (drop 14 s))) 2 = take 2 (drop 14 s)"
    "pad (num_of (take 2 (drop 17 s))) 2 = take 2 (drop 17 s)"
    using assms len by (simp_all add: timestamp_shape_def pad_num_of)
  have "stamp (timestamp_parts s) = take 4 s @ ''-'' @ take 2 (drop 5 s) @ ''-'' @ take 2 (drop 8 s) @ ''T''
    @ take 2 (drop 11 s) @ '':'' @ take 2 (drop 14 s) @ '':'' @ take 2 (drop 17 s) @ ''.'' @ take 3 (drop 20 s) @ ''Z''"
    by (simp add: stamp_def timestamp_parts_def pads)
  also have "\<dots> = take 4 s @ [s ! 4] @ take 2 (drop 5 s) @ [s ! 7] @ take 2 (drop 8 s) @ [s ! 10]
    @ take 2 (drop 11 s) @ [s ! 13] @ take 2 (drop 14 s) @ [s ! 16] @ take 2 (drop 17 s) @ [s ! 19]
    @ take 3 (drop 20 s) @ [s ! 23]"
    using assms by (simp add: timestamp_shape_def)
  also have "\<dots> = s" by (rule list24 [OF len, symmetric])
  finally show ?thesis .
qed

text \<open>What the regular expression bounds, before any range check.\<close>

lemma match_fraction_digits: "match_fraction r = Some (Some ds, r') \<Longrightarrow> list_all isDigit ds"
  by (auto simp: match_fraction_def Let_def list_all_iff dest: set_takeWhileD split: list.splits if_splits)

lemma millis_of_bounds: "(\<And>ds. f = Some ds \<Longrightarrow> list_all isDigit ds) \<Longrightarrow> 0 \<le> millis_of f \<and> millis_of f \<le> 999"
proof (cases f)
  case (Some ds)
  assume "\<And>ds. f = Some ds \<Longrightarrow> list_all isDigit ds"
  moreover have "isDigit CHR ''0''" by (simp add: isDigit_def)
  moreover define x where "x = take 3 (ds @ replicate (3 - length ds) CHR ''0'')"
  ultimately have "list_all isDigit x" using Some by (auto simp: list_all_iff dest: in_set_takeD)
  moreover have "length x = 3" by (simp add: x_def)
  ultimately show ?thesis using num_of_bounds [of x] Some by (simp add: millis_of_def x_def)
qed (simp add: millis_of_def)

lemma match_zone_nonneg: "match_zone r = Some (Some (sg, oh, om)) \<Longrightarrow> 0 \<le> oh \<and> 0 \<le> om"
  using num_of_bounds [of "take 2 (drop 1 r)"] num_of_bounds [of "take 2 (drop 4 r)"]
  by (auto simp: match_zone_def split: if_splits)

lemma RFC3339_bounds:
  assumes "RFC3339 s = Some m"
  shows "0 \<le> date_fields m ! 0" "date_fields m ! 0 \<le> 9999" "0 \<le> date_fields m ! 3" "0 \<le> date_fields m ! 4"
    "0 \<le> date_fields m ! 5" "0 \<le> millis_of (frac m)" "millis_of (frac m) \<le> 999"
    "\<And>sg oh om. zone m = Some (sg, oh, om) \<Longrightarrow> 0 \<le> oh \<and> 0 \<le> om"
proof -
  from assms obtain f r zn where mf: "match_fraction (drop 19 s) = Some (f, r)" and mz: "match_zone r = Some zn"
    and dig: "list_all isDigit (take 4 s)" "list_all isDigit (take 2 (drop 11 s))" "list_all isDigit (take 2 (drop 14 s))"
      "list_all isDigit (take 2 (drop 17 s))" and len: "19 \<le> length s"
    and m: "m = \<lparr>date_fields = [num_of (take 4 s), num_of (take 2 (drop 5 s)), num_of (take 2 (drop 8 s)),
              num_of (take 2 (drop 11 s)), num_of (take 2 (drop 14 s)), num_of (take 2 (drop 17 s))],
              frac = f, zone = zn\<rparr>"
    by (auto simp: RFC3339_def split: if_splits option.splits)
  show "0 \<le> date_fields m ! 0" "date_fields m ! 0 \<le> 9999" "0 \<le> date_fields m ! 3" "0 \<le> date_fields m ! 4"
    "0 \<le> date_fields m ! 5"
    using num_of_bounds [OF dig(1)] num_of_bounds [OF dig(2)] num_of_bounds [OF dig(3)] num_of_bounds [OF dig(4)] len m
    by simp_all
  show "0 \<le> millis_of (frac m)" "millis_of (frac m) \<le> 999"
    using millis_of_bounds [of f] match_fraction_digits mf m by auto
  show "\<And>sg oh om. zone m = Some (sg, oh, om) \<Longrightarrow> 0 \<le> oh \<and> 0 \<le> om"
    using match_zone_nonneg mz m by auto
qed

text \<open>The range checks leave an instant inside the safe integers.\<close>

lemma instant_of_cases:
  assumes "RFC3339 s = Some m"
  shows "instant_of m \<noteq> Inl Not_representable"
    and "instant_of m = Inr ms \<Longrightarrow> civil_date (date_fields m ! 0) (date_fields m ! 1) (date_fields m ! 2)
      \<and> date_fields m ! 3 \<le> 23 \<and> date_fields m ! 4 \<le> 59 \<and> date_fields m ! 5 \<le> 59 \<and> \<bar>ms\<bar> \<le> MAX_SAFE_INTEGER"
proof -
  note b = RFC3339_bounds [OF assms]
  let ?f = "date_fields m"
  let ?ms = "\<lambda>off. (daysFromCivil (?f ! 0) (?f ! 1) (?f ! 2) * 86400 + ?f ! 3 * 3600 + ?f ! 4 * 60 + ?f ! 5 - off) * 1000
      + millis_of (frac m)"
  have safe: "\<bar>?ms off\<bar> \<le> MAX_SAFE_INTEGER"
    if "civil_date (?f ! 0) (?f ! 1) (?f ! 2)" "?f ! 3 \<le> 23" "?f ! 4 \<le> 59" "?f ! 5 \<le> 59" "-86400 \<le> off" "off \<le> 86400" for off
    using that daysFromCivil_range [OF that(1) b(1,2)] b(3-7) unfolding MAX_SAFE_INTEGER_def by simp
  have off: "off \<in> {-86400..86400}" if "zone_offset (zone m) = Inr off" for off
    using that b(8) by (auto simp: zone_offset_def split: option.splits if_splits)
  have noff: "zone_offset (zone m) \<noteq> Inl Not_representable"
    by (auto simp: zone_offset_def split: option.splits)
  show "instant_of m \<noteq> Inl Not_representable"
  proof (cases "zone_offset (zone m)")
    case (Inr x)
    have "\<not> (\<not> \<bar>?ms x\<bar> \<le> MAX_SAFE_INTEGER \<and> civil_date (?f ! 0) (?f ! 1) (?f ! 2) \<and> ?f ! 3 \<le> 23 \<and> ?f ! 4 \<le> 59 \<and> ?f ! 5 \<le> 59)"
      using off [OF Inr] safe by auto
    then show ?thesis unfolding instant_of_def Let_def Inr civil_date_def
      by (auto simp only: bindE.simps not_less not_le sum.simps Rfc3339FailureReason.simps split: if_splits)
  qed (use noff in \<open>auto simp: instant_of_def Let_def\<close>)
  show "instant_of m = Inr ms \<Longrightarrow> civil_date (?f ! 0) (?f ! 1) (?f ! 2)
      \<and> ?f ! 3 \<le> 23 \<and> ?f ! 4 \<le> 59 \<and> ?f ! 5 \<le> 59 \<and> \<bar>ms\<bar> \<le> MAX_SAFE_INTEGER"
    by (auto simp: instant_of_def Let_def civil_date_def bindE_Inr_iff split: if_splits)
qed

text \<open>Whatever the formatter renders is read back.\<close>

lemma formatted_reads_back:
  assumes "formatRfc3339 ms = Some s"
  shows "parseRfc3339 (JStr s) = Inr ms"
proof -
  have "-62167219200000 \<le> ms" "ms \<le> 253402300799999" using assms by (auto simp: formatRfc3339_def split: if_splits)
  from instant_has_stamp [OF this] obtain p where p: "stamp_fields p" "stamp_instant p = ms" .
  then show ?thesis using format_stamp [OF p(1)] stamp_shape [OF p(1)] parse_shape assms by simp
qed

section \<open>Properties\<close>

text \<open>Formatting and parsing are inverse on instants: every instant of the four-digit years is
  rendered, the rendering is a canonical timestamp of the authority schema, and the strict
  parser reads the same instant back.\<close>

theorem format_then_parse:
  assumes "-62167219200000 \<le> ms" and "ms \<le> 253402300799999"
  shows "\<exists>s. formatRfc3339 ms = Some s \<and> parseRfc3339 (JStr s) = Inr ms \<and> isCanonicalTimestamp s"
proof -
  obtain p where p: "stamp_fields p" "stamp_instant p = ms" using instant_has_stamp [OF assms] .
  note sh = stamp_shape [OF p(1)]
  have "formatRfc3339 ms = Some (stamp p)" using format_stamp [OF p(1)] p(2) by simp
  moreover have "parseRfc3339 (JStr (stamp p)) = Inr ms" using parse_shape [OF sh(1)] sh(2) p by simp
  moreover have "isCanonicalTimestamp (stamp p)" using canonical_fields [of "stamp p"] sh p(1) by simp
  ultimately show ?thesis by blast
qed

theorem format_then_parse_witness:
  "\<exists>s. formatRfc3339 951782399999 = Some s \<and> parseRfc3339 (JStr s) = Inr 951782399999 \<and> isCanonicalTimestamp s"
  by (rule format_then_parse) simp_all

text \<open>Parsing and formatting are inverse on strings: a canonical timestamp that is not a leap second
  parses, and its instant is rendered as the same string.\<close>

theorem parse_then_format:
  assumes "isCanonicalTimestamp s" and "timestamp_parts s ! 5 \<noteq> 60"
  shows "\<exists>ms. parseRfc3339 (JStr s) = Inr ms \<and> formatRfc3339 ms = Some s"
proof -
  have sh: "timestamp_shape s" "stamp_fields (timestamp_parts s)" using assms canonical_fields by blast+
  then show ?thesis using parse_shape format_stamp [OF sh(2)] stamp_of_parts [OF sh(1)] by auto
qed

theorem parse_then_format_witness:
  "\<exists>ms. parseRfc3339 (JStr ''2024-02-29T23:59:59.999Z'') = Inr ms
     \<and> formatRfc3339 ms = Some ''2024-02-29T23:59:59.999Z''"
  by (rule parse_then_format; code_simp)

text \<open>C26. Comparing canonical timestamps as strings, as the chain verifier does, compares the instants
  the strict parser reads from them.\<close>

theorem string_order_is_instant_order:
  assumes "isCanonicalTimestamp s" and "timestamp_parts s ! 5 \<noteq> 60" and "parseRfc3339 (JStr s) = Inr a"
    and "isCanonicalTimestamp t" and "timestamp_parts t ! 5 \<noteq> 60" and "parseRfc3339 (JStr t) = Inr b"
  shows "compareCanonicalTimestamps s t = (if a < b then -1 else if a > b then 1 else 0)"
proof -
  have sh: "timestamp_shape s" "stamp_fields (timestamp_parts s)" "timestamp_shape t" "stamp_fields (timestamp_parts t)"
    using assms canonical_fields by blast+
  have ab: "a = stamp_instant (timestamp_parts s)" "b = stamp_instant (timestamp_parts t)"
    using parse_shape [OF sh(1,2)] parse_shape [OF sh(3,4)] assms(3,6) by auto
  have less: "s < t \<Longrightarrow> a < b" "t < s \<Longrightarrow> b < a"
    unfolding ab using stamp_instant_less sh timestamp_less_iff by blast+
  moreover have "s = t \<Longrightarrow> a = b" using ab by simp
  ultimately show ?thesis unfolding compareCanonicalTimestamps_def by (cases s t rule: linorder_cases) auto
qed

theorem string_order_is_instant_order_witness:
  "compareCanonicalTimestamps ''2025-12-31T23:59:59.999Z'' ''2026-01-01T00:00:00.000Z'' = -1"
proof -
  have "parseRfc3339 (JStr ''2025-12-31T23:59:59.999Z'') = Inr 1767225599999"
    "parseRfc3339 (JStr ''2026-01-01T00:00:00.000Z'') = Inr 1767225600000"
    "isCanonicalTimestamp ''2025-12-31T23:59:59.999Z''" "isCanonicalTimestamp ''2026-01-01T00:00:00.000Z''"
    "timestamp_parts ''2025-12-31T23:59:59.999Z'' ! 5 \<noteq> 60" "timestamp_parts ''2026-01-01T00:00:00.000Z'' ! 5 \<noteq> 60"
    by code_simp+
  from string_order_is_instant_order [OF this(3,5,1) this(4,6,2)] show ?thesis by simp
qed

text \<open>A parse that succeeds read a real calendar date and time, and no accepted string runs out of
  the safe integers: the last failure reason of the parser is never returned.\<close>

theorem parse_accepts_only_calendar_instants:
  "parseRfc3339 v \<noteq> Inl Not_representable
   \<and> (\<forall>ms. parseRfc3339 v = Inr ms \<longrightarrow>
        (\<exists>s m. v = JStr s \<and> RFC3339 s = Some m \<and> civil_date (date_fields m ! 0) (date_fields m ! 1) (date_fields m ! 2)
           \<and> date_fields m ! 3 \<le> 23 \<and> date_fields m ! 4 \<le> 59 \<and> date_fields m ! 5 \<le> 59
           \<and> \<bar>ms\<bar> \<le> MAX_SAFE_INTEGER))"
proof (cases v)
  case (JStr s)
  then show ?thesis using instant_of_cases [of s]
    by (cases "RFC3339 s") (auto simp: parseRfc3339_def)
qed (simp_all add: parseRfc3339_def)

theorem parse_accepts_only_calendar_instants_witness:
  "\<exists>s m. JStr ''2026-01-01T00:30:00.25+01:00'' = JStr s \<and> RFC3339 s = Some m
     \<and> civil_date (date_fields m ! 0) (date_fields m ! 1) (date_fields m ! 2)
     \<and> date_fields m ! 3 \<le> 23 \<and> date_fields m ! 4 \<le> 59 \<and> date_fields m ! 5 \<le> 59
     \<and> \<bar>1767223800250\<bar> \<le> MAX_SAFE_INTEGER"
proof -
  have "parseRfc3339 (JStr ''2026-01-01T00:30:00.25+01:00'') = Inr 1767223800250" by code_simp
  with parse_accepts_only_calendar_instants [of "JStr ''2026-01-01T00:30:00.25+01:00''"] show ?thesis by blast
qed

end
