(* ===== verification/Lifecycle_State.thy ===== *)
theory Lifecycle_State
  imports Authority_Types
begin

text \<open>
  \<^verbatim>\<open>src/v2/lifecycle-state/\<close>: the six-verdict lifecycle vocabulary (\<^verbatim>\<open>types.ts\<close>), its
  validating constructors (\<^verbatim>\<open>state.ts\<close>) and the read-only view of a chain result
  (\<^verbatim>\<open>map.ts\<close>).  The constructors take strings where the code checks them at run time
  and return values of closed types.

  \<open>lifecycle_module\<close> is the contract of the modules built on the vocabulary: on the inputs
  they accept they return a well-shaped result and never trip the constructor's rules.
\<close>

section \<open>Vocabulary\<close>

datatype LifecycleVerdict = V_valid | V_invalid | V_not_established | V_not_yet_effective | V_suspended | V_restricted

fun verdict_name :: "LifecycleVerdict \<Rightarrow> string" where
  "verdict_name V_valid = ''valid''"
| "verdict_name V_invalid = ''invalid''"
| "verdict_name V_not_established = ''not_established''"
| "verdict_name V_not_yet_effective = ''not_yet_effective''"
| "verdict_name V_suspended = ''suspended''"
| "verdict_name V_restricted = ''restricted''"

definition LIFECYCLE_VERDICTS :: "LifecycleVerdict list" where
  "LIFECYCLE_VERDICTS = [V_valid, V_invalid, V_not_established, V_not_yet_effective, V_suspended, V_restricted]"

datatype BoundaryOutcome = B_authorized | B_denied | B_not_established

fun outcome_name :: "BoundaryOutcome \<Rightarrow> string" where
  "outcome_name B_authorized = ''authorized''"
| "outcome_name B_denied = ''denied''"
| "outcome_name B_not_established = ''not_established''"

definition BOUNDARY_OUTCOMES :: "BoundaryOutcome list" where
  "BOUNDARY_OUTCOMES = [B_authorized, B_denied, B_not_established]"

datatype EstablishmentGap = G_source | G_freshness | G_coverage

fun gap_name :: "EstablishmentGap \<Rightarrow> string" where
  "gap_name G_source = ''source''"
| "gap_name G_freshness = ''freshness''"
| "gap_name G_coverage = ''coverage''"

definition ESTABLISHMENT_GAPS :: "EstablishmentGap list" where
  "ESTABLISHMENT_GAPS = [G_source, G_freshness, G_coverage]"

datatype EstablishedNegativeShape = Enabling_condition_not_yet_occurred | Composition_not_satisfied | Pinned_referent_mismatch

fun shape_name :: "EstablishedNegativeShape \<Rightarrow> string" where
  "shape_name Enabling_condition_not_yet_occurred = ''enabling_condition_not_yet_occurred''"
| "shape_name Composition_not_satisfied = ''composition_not_satisfied''"
| "shape_name Pinned_referent_mismatch = ''pinned_referent_mismatch''"

definition ESTABLISHED_NEGATIVE_SHAPES :: "EstablishedNegativeShape list" where
  "ESTABLISHED_NEGATIVE_SHAPES = [Enabling_condition_not_yet_occurred, Composition_not_satisfied, Pinned_referent_mismatch]"

text \<open>The member of a vocabulary with a given name, if any: \<open>LIST.includes(value)\<close>.\<close>

definition named :: "('a \<Rightarrow> string) \<Rightarrow> 'a list \<Rightarrow> string \<Rightarrow> 'a option" where
  "named nm xs s = List.find (\<lambda>x. nm x = s) xs"

definition isLifecycleVerdict :: "string \<Rightarrow> bool" where
  "isLifecycleVerdict s \<longleftrightarrow> named verdict_name LIFECYCLE_VERDICTS s \<noteq> None"

definition isBoundaryOutcome :: "string \<Rightarrow> bool" where
  "isBoundaryOutcome s \<longleftrightarrow> named outcome_name BOUNDARY_OUTCOMES s \<noteq> None"

definition isEstablishmentGap :: "string \<Rightarrow> bool" where
  "isEstablishmentGap s \<longleftrightarrow> named gap_name ESTABLISHMENT_GAPS s \<noteq> None"

definition isEstablishedNegativeShape :: "string \<Rightarrow> bool" where
  "isEstablishedNegativeShape s \<longleftrightarrow> named shape_name ESTABLISHED_NEGATIVE_SHAPES s \<noteq> None"

text \<open>The two subjects of an established negative, each with its output and reason code.\<close>

datatype EstablishedNegativeResolution =
    Artifact_resolution EstablishedNegativeShape LifecycleVerdict string
  | Boundary_resolution EstablishedNegativeShape BoundaryOutcome string

record OutstandingCause =
  outstanding_id :: string
  outstanding_kind :: string
  outstanding_reason :: string

record LifecycleStateResult =
  verdict :: LifecycleVerdict
  reason_code :: string
  missing :: "EstablishmentGap list option"
  applied_default :: "string option"
  outstanding :: "OutstandingCause list option"

section \<open>Constructors\<close>

datatype LifecycleStateError =
    VERDICT_UNKNOWN | REASON_CODE_INVALID | MISSING_REQUIRED | MISSING_UNKNOWN | MISSING_NOT_ALLOWED
  | OUTSTANDING_REQUIRED | OUTSTANDING_NOT_ALLOWED | OUTSTANDING_MALFORMED
  | APPLIED_DEFAULT_INVALID | APPLIED_DEFAULT_NOT_ALLOWED | ESTABLISHED_NEGATIVE_UNKNOWN

record LifecycleStateInput =
  in_verdict :: string
  in_reason_code :: string
  in_missing :: "string list option"
  in_applied_default :: "string option"
  in_outstanding :: "OutstandingCause list option"

text \<open>\<open>/^[A-Z][A-Z0-9_]*$/\<close>.\<close>

definition isUpper :: "char \<Rightarrow> bool" where
  "isUpper c \<longleftrightarrow> 65 \<le> (of_char c :: nat) \<and> (of_char c :: nat) \<le> 90"

definition REASON_CODE_PATTERN :: "string \<Rightarrow> bool" where
  "REASON_CODE_PATTERN s =
     (case s of [] \<Rightarrow> False | c # cs \<Rightarrow> isUpper c \<and> list_all (\<lambda>d. isUpper d \<or> isDigit d \<or> d = CHR ''_'') cs)"

definition assertCause :: "OutstandingCause \<Rightarrow> LifecycleStateError option" where
  "assertCause c =
     (if outstanding_id c = [] \<or> outstanding_kind c = [] \<or> outstanding_reason c = []
      then Some OUTSTANDING_MALFORMED else None)"

definition check_missing :: "LifecycleVerdict \<Rightarrow> string list option \<Rightarrow> (LifecycleStateError, EstablishmentGap list option) result" where
  "check_missing v ms =
     (if v = V_not_established then
        (case ms of
           None \<Rightarrow> Inl MISSING_REQUIRED
         | Some gs \<Rightarrow>
             if gs = [] then Inl MISSING_REQUIRED
             else if \<not> list_all isEstablishmentGap gs then Inl MISSING_UNKNOWN
             else Inr (Some (List.map_filter (named gap_name ESTABLISHMENT_GAPS) gs)))
      else if ms \<noteq> None then Inl MISSING_NOT_ALLOWED
      else Inr None)"

definition check_outstanding :: "LifecycleVerdict \<Rightarrow> OutstandingCause list option \<Rightarrow> (LifecycleStateError, unit) result" where
  "check_outstanding v os =
     (if v = V_suspended \<or> v = V_restricted then
        (case os of
           None \<Rightarrow> Inl OUTSTANDING_REQUIRED
         | Some cs \<Rightarrow> if cs = [] then Inl OUTSTANDING_REQUIRED else forE assertCause cs)
      else if os \<noteq> None then Inl OUTSTANDING_NOT_ALLOWED
      else Inr ())"

definition check_default :: "LifecycleVerdict \<Rightarrow> string option \<Rightarrow> (LifecycleStateError, unit) result" where
  "check_default v ad =
     (case ad of
        None \<Rightarrow> Inr ()
      | Some a \<Rightarrow>
          if a = [] then Inl APPLIED_DEFAULT_INVALID
          else if v = V_not_established then Inl APPLIED_DEFAULT_NOT_ALLOWED
          else Inr ())"

definition lifecycleState :: "LifecycleStateInput \<Rightarrow> (LifecycleStateError, LifecycleStateResult) result" where
  "lifecycleState i =
     (case named verdict_name LIFECYCLE_VERDICTS (in_verdict i) of
        None \<Rightarrow> Inl VERDICT_UNKNOWN
      | Some v \<Rightarrow>
          if \<not> REASON_CODE_PATTERN (in_reason_code i) then Inl REASON_CODE_INVALID
          else bindE (check_missing v (in_missing i)) (\<lambda>ms.
            bindE (check_outstanding v (in_outstanding i)) (\<lambda>_.
            bindE (check_default v (in_applied_default i)) (\<lambda>_.
              Inr \<lparr>verdict = v, reason_code = in_reason_code i, missing = ms,
                applied_default = in_applied_default i, outstanding = in_outstanding i\<rparr>))))"

definition plain_state :: "LifecycleVerdict \<Rightarrow> string \<Rightarrow> LifecycleStateInput" where
  "plain_state v rc = \<lparr>in_verdict = verdict_name v, in_reason_code = rc, in_missing = None,
     in_applied_default = None, in_outstanding = None\<rparr>"

definition notEstablished :: "EstablishmentGap list \<Rightarrow> string \<Rightarrow> (LifecycleStateError, LifecycleStateResult) result" where
  "notEstablished gaps rc =
     lifecycleState ((plain_state V_not_established rc)\<lparr>in_missing := Some (map gap_name gaps)\<rparr>)"

fun ESTABLISHED_NEGATIVE_RESOLUTIONS :: "EstablishedNegativeShape \<Rightarrow> EstablishedNegativeResolution" where
  "ESTABLISHED_NEGATIVE_RESOLUTIONS Enabling_condition_not_yet_occurred =
     Artifact_resolution Enabling_condition_not_yet_occurred V_not_yet_effective ''ENABLING_CONDITION_NOT_YET_OCCURRED''"
| "ESTABLISHED_NEGATIVE_RESOLUTIONS Composition_not_satisfied =
     Boundary_resolution Composition_not_satisfied B_denied ''COMPOSITION_NOT_SATISFIED''"
| "ESTABLISHED_NEGATIVE_RESOLUTIONS Pinned_referent_mismatch =
     Boundary_resolution Pinned_referent_mismatch B_denied ''PINNED_REFERENT_MISMATCH''"

definition resolveEstablishedNegative :: "string \<Rightarrow> (LifecycleStateError, EstablishedNegativeResolution) result" where
  "resolveEstablishedNegative s =
     (case named shape_name ESTABLISHED_NEGATIVE_SHAPES s of
        None \<Rightarrow> Inl ESTABLISHED_NEGATIVE_UNKNOWN
      | Some sh \<Rightarrow> Inr (ESTABLISHED_NEGATIVE_RESOLUTIONS sh))"

section \<open>Expressing a chain result\<close>

fun code_name :: "AuthorityFailureCode \<Rightarrow> string" where
  "code_name SCHEMA_INVALID = ''SCHEMA_INVALID''"
| "code_name UNSUPPORTED_VERSION = ''UNSUPPORTED_VERSION''"
| "code_name UNSUPPORTED_RECORD_TYPE = ''UNSUPPORTED_RECORD_TYPE''"
| "code_name UNSUPPORTED_PROFILE = ''UNSUPPORTED_PROFILE''"
| "code_name RESOURCE_LIMIT = ''RESOURCE_LIMIT''"
| "code_name NONCANONICAL_VALUE = ''NONCANONICAL_VALUE''"
| "code_name ID_MISMATCH = ''ID_MISMATCH''"
| "code_name KEY_RESOLUTION_FAILED = ''KEY_RESOLUTION_FAILED''"
| "code_name KEY_SCHEME_UNSUPPORTED = ''KEY_SCHEME_UNSUPPORTED''"
| "code_name KEY_NOT_FOUND = ''KEY_NOT_FOUND''"
| "code_name KEY_AMBIGUOUS = ''KEY_AMBIGUOUS''"
| "code_name KEY_UNREACHABLE = ''KEY_UNREACHABLE''"
| "code_name KEY_MATERIAL_MALFORMED = ''KEY_MATERIAL_MALFORMED''"
| "code_name SIGNATURE_INVALID = ''SIGNATURE_INVALID''"
| "code_name ROOT_UNTRUSTED = ''ROOT_UNTRUSTED''"
| "code_name CHAIN_DUPLICATE_ID = ''CHAIN_DUPLICATE_ID''"
| "code_name PARENT_MISMATCH = ''PARENT_MISMATCH''"
| "code_name CHAIN_CONTINUITY = ''CHAIN_CONTINUITY''"
| "code_name ISSUED_AT_OUTSIDE_PARENT = ''ISSUED_AT_OUTSIDE_PARENT''"
| "code_name SCOPE_WIDENING = ''SCOPE_WIDENING''"
| "code_name SPEND_WIDENING = ''SPEND_WIDENING''"
| "code_name SPEND_UNIT_CHANGE = ''SPEND_UNIT_CHANGE''"
| "code_name DEPTH_EXHAUSTED = ''DEPTH_EXHAUSTED''"
| "code_name DEPTH_WIDENING = ''DEPTH_WIDENING''"
| "code_name TIME_WIDENING = ''TIME_WIDENING''"
| "code_name REPUTATION_WIDENING = ''REPUTATION_WIDENING''"
| "code_name VALUES_WEAKENING = ''VALUES_WEAKENING''"
| "code_name REVERSIBILITY_WIDENING = ''REVERSIBILITY_WIDENING''"
| "code_name NOT_YET_VALID = ''NOT_YET_VALID''"
| "code_name EXPIRED = ''EXPIRED''"
| "code_name REVOKED = ''REVOKED''"
| "code_name REVOCATION_UNKNOWN = ''REVOCATION_UNKNOWN''"

definition GAPS_BY_CODE :: "(string \<times> EstablishmentGap list) list" where
  "GAPS_BY_CODE = [
     (''REVOCATION_UNKNOWN'', [G_source]), (''KEY_RESOLUTION_FAILED'', [G_source]), (''KEY_NOT_FOUND'', [G_source]),
     (''KEY_AMBIGUOUS'', [G_source]), (''KEY_UNREACHABLE'', [G_source]), (''KEY_MATERIAL_MALFORMED'', [G_source]),
     (''KEY_SCHEME_UNSUPPORTED'', [G_source]), (''RESOURCE_LIMIT'', [G_coverage]), (''UNSUPPORTED_VERSION'', [G_source]),
     (''UNSUPPORTED_RECORD_TYPE'', [G_source]), (''UNSUPPORTED_PROFILE'', [G_source])]"

definition DEFAULT_GAPS :: "EstablishmentGap list" where
  "DEFAULT_GAPS = [G_source]"

definition gaps_for :: "string \<Rightarrow> EstablishmentGap list" where
  "gaps_for c = (case map_of GAPS_BY_CODE c of Some gs \<Rightarrow> gs | None \<Rightarrow> DEFAULT_GAPS)"

text \<open>\<open>firstFailure(failures)?.code ?? fallback\<close>.\<close>

definition firstFailure :: "AuthorityFailure list \<Rightarrow> AuthorityFailure option" where
  "firstFailure fs = (case fs of [] \<Rightarrow> None | f # _ \<Rightarrow> Some f)"

definition code_or :: "string \<Rightarrow> AuthorityFailure option \<Rightarrow> string" where
  "code_or fallback f = (case f of None \<Rightarrow> fallback | Some g \<Rightarrow> code_name (failure_code g))"

fun state_name :: "AuthorityValidationState \<Rightarrow> string" where
  "state_name State_valid = ''valid''"
| "state_name State_invalid = ''invalid''"
| "state_name State_indeterminate = ''indeterminate''"
| "state_name State_unsupported = ''unsupported''"

text \<open>The switch, over any state string.\<close>

definition map_state :: "bool \<Rightarrow> string \<Rightarrow> AuthorityFailure list \<Rightarrow> (LifecycleStateError, LifecycleStateResult) result" where
  "map_state notYetValidAsNotYetEffective st fs =
     (if st = ''valid'' then lifecycleState (plain_state V_valid ''CHAIN_VALID'')
      else if st = ''invalid'' then
        (if notYetValidAsNotYetEffective \<and> fs \<noteq> [] \<and> list_all (\<lambda>f. failure_code f = NOT_YET_VALID) fs
         then lifecycleState (plain_state V_not_yet_effective ''NOT_BEFORE_UNREACHED'')
         else lifecycleState (plain_state V_invalid (code_or ''CHAIN_INVALID''
           (case List.find (\<lambda>f. failure_code f \<noteq> NOT_YET_VALID) fs of Some f \<Rightarrow> Some f | None \<Rightarrow> firstFailure fs))))
      else if st = ''indeterminate'' then
        (let c = code_or ''CHAIN_INDETERMINATE'' (firstFailure fs) in
         lifecycleState ((plain_state V_not_established c)\<lparr>in_missing := Some (map gap_name (gaps_for c))\<rparr>))
      else if st = ''unsupported'' then
        (let c = code_or ''CHAIN_UNSUPPORTED'' (firstFailure fs) in
         lifecycleState ((plain_state V_not_established c)\<lparr>in_missing := Some (map gap_name (gaps_for c))\<rparr>))
      else lifecycleState ((plain_state V_not_established ''CHAIN_STATE_UNRECOGNISED'')
             \<lparr>in_missing := Some (map gap_name DEFAULT_GAPS)\<rparr>))"

definition mapAuthorityValidationToLifecycle ::
  "bool \<Rightarrow> AuthorityValidationResult \<Rightarrow> (LifecycleStateError, LifecycleStateResult) result" where
  "mapAuthorityValidationToLifecycle notYetValidAsNotYetEffective r =
     map_state notYetValidAsNotYetEffective (state_name (state r)) (failures r)"

section \<open>Well-shaped results\<close>

definition lifecycle_wf :: "LifecycleStateResult \<Rightarrow> bool" where
  "lifecycle_wf r \<longleftrightarrow> REASON_CODE_PATTERN (reason_code r)
     \<and> (verdict r = V_not_established \<longleftrightarrow> missing r \<noteq> None) \<and> missing r \<noteq> Some []
     \<and> (verdict r = V_suspended \<or> verdict r = V_restricted \<longleftrightarrow> outstanding r \<noteq> None) \<and> outstanding r \<noteq> Some []
     \<and> (\<forall>cs. outstanding r = Some cs \<longrightarrow> (\<forall>c \<in> set cs. assertCause c = None))
     \<and> applied_default r \<noteq> Some [] \<and> (applied_default r \<noteq> None \<longrightarrow> verdict r \<noteq> V_not_established)"

lemma named_verdict [simp]: "named verdict_name LIFECYCLE_VERDICTS (verdict_name v) = Some v"
  by (cases v) (simp_all add: named_def LIFECYCLE_VERDICTS_def)

lemma named_gap [simp]: "named gap_name ESTABLISHMENT_GAPS (gap_name g) = Some g"
  by (cases g) (simp_all add: named_def ESTABLISHMENT_GAPS_def)

lemma named_shape [simp]: "named shape_name ESTABLISHED_NEGATIVE_SHAPES (shape_name g) = Some g"
  by (cases g) (simp_all add: named_def ESTABLISHED_NEGATIVE_SHAPES_def)

declare verdict_name.simps [simp del] and gap_name.simps [simp del] and shape_name.simps [simp del]

lemma named_SomeD: "named nm xs s = Some x \<Longrightarrow> nm x = s"
  by (auto simp: named_def find_Some_iff)

lemma isEstablishmentGap_name [simp]: "isEstablishmentGap (gap_name g)"
  by (simp add: isEstablishmentGap_def)

lemma map_filter_gaps [simp]: "List.map_filter (named gap_name ESTABLISHMENT_GAPS) (map gap_name gs) = gs"
  by (induction gs) (simp_all add: List.map_filter_simps)

section \<open>The constructors accept exactly the well-shaped results\<close>

lemma check_missing_Inr: "check_missing v ms = Inr gs \<longleftrightarrow>
    (v = V_not_established \<and> (\<exists>xs. ms = Some xs \<and> xs \<noteq> [] \<and> list_all isEstablishmentGap xs
       \<and> gs = Some (List.map_filter (named gap_name ESTABLISHMENT_GAPS) xs)))
    \<or> (v \<noteq> V_not_established \<and> ms = None \<and> gs = None)"
  by (auto simp: check_missing_def split: option.splits)

lemma check_outstanding_Inr: "check_outstanding v os = Inr u \<longleftrightarrow>
    (if v = V_suspended \<or> v = V_restricted
     then \<exists>cs. os = Some cs \<and> cs \<noteq> [] \<and> (\<forall>c \<in> set cs. assertCause c = None) else os = None)"
  by (auto simp: check_outstanding_def forE_ok_iff split: option.splits)

lemma check_default_Inr: "check_default v ad = Inr u \<longleftrightarrow>
    (\<forall>a. ad = Some a \<longrightarrow> a \<noteq> [] \<and> v \<noteq> V_not_established)"
  by (auto simp: check_default_def split: option.splits)

lemma map_filter_gaps_nonempty:
  "list_all isEstablishmentGap xs \<Longrightarrow> xs \<noteq> [] \<Longrightarrow> List.map_filter (named gap_name ESTABLISHMENT_GAPS) xs \<noteq> []"
  by (cases xs) (auto simp: List.map_filter_simps isEstablishmentGap_def split: option.split)

lemma lifecycleState_wf:
  assumes "lifecycleState i = Inr r"
  shows "lifecycle_wf r"
proof -
  from assms obtain v where v: "named verdict_name LIFECYCLE_VERDICTS (in_verdict i) = Some v"
    and rest: "REASON_CODE_PATTERN (in_reason_code i)" "check_missing v (in_missing i) = Inr (missing r)"
      "check_outstanding v (in_outstanding i) = Inr ()" "check_default v (in_applied_default i) = Inr ()"
    and r: "r = \<lparr>verdict = v, reason_code = in_reason_code i, missing = missing r,
      applied_default = in_applied_default i, outstanding = in_outstanding i\<rparr>"
    by (auto simp: lifecycleState_def bindE_Inr_iff split: option.splits if_splits)
  from r have f: "verdict r = v" "reason_code r = in_reason_code i" "applied_default r = in_applied_default i"
    "outstanding r = in_outstanding i" by (metis LifecycleStateResult.select_convs)+
  have "verdict r = V_not_established \<longleftrightarrow> missing r \<noteq> None" "missing r \<noteq> Some []"
    using rest(2) map_filter_gaps_nonempty unfolding check_missing_Inr f by auto
  moreover have "verdict r = V_suspended \<or> verdict r = V_restricted \<longleftrightarrow> outstanding r \<noteq> None" "outstanding r \<noteq> Some []"
      "\<forall>cs. outstanding r = Some cs \<longrightarrow> (\<forall>c \<in> set cs. assertCause c = None)"
    using rest(3) unfolding check_outstanding_Inr f by (auto split: if_splits)
  moreover have "applied_default r \<noteq> Some []" "applied_default r \<noteq> None \<longrightarrow> verdict r \<noteq> V_not_established"
    using rest(4) unfolding check_default_Inr f by auto
  ultimately show ?thesis unfolding lifecycle_wf_def using rest(1) f(2) by (intro conjI) metis+
qed

text \<open>The input that a well-shaped result is the output of.\<close>

definition input_of :: "LifecycleStateResult \<Rightarrow> LifecycleStateInput" where
  "input_of r = \<lparr>in_verdict = verdict_name (verdict r), in_reason_code = reason_code r,
     in_missing = map_option (map gap_name) (missing r), in_applied_default = applied_default r,
     in_outstanding = outstanding r\<rparr>"

lemma lifecycleState_complete:
  assumes "lifecycle_wf r"
  shows "lifecycleState (input_of r) = Inr r"
proof -
  have "check_missing (verdict r) (map_option (map gap_name) (missing r)) = Inr (missing r)"
    using assms by (cases "missing r") (auto simp: check_missing_def lifecycle_wf_def list_all_iff)
  moreover have "check_outstanding (verdict r) (outstanding r) = Inr ()"
    using assms unfolding check_outstanding_Inr lifecycle_wf_def by (cases "outstanding r") auto
  moreover have "check_default (verdict r) (applied_default r) = Inr ()"
    using assms unfolding check_default_Inr lifecycle_wf_def by auto
  ultimately show ?thesis using assms by (simp add: lifecycleState_def input_of_def lifecycle_wf_def)
qed

lemma plain_state_ok:
  assumes "REASON_CODE_PATTERN rc" "v \<notin> {V_not_established, V_suspended, V_restricted}"
  shows "lifecycleState (plain_state v rc) =
    Inr \<lparr>verdict = v, reason_code = rc, missing = None, applied_default = None, outstanding = None\<rparr>"
  using assms
  by (simp add: lifecycleState_def plain_state_def check_missing_def check_outstanding_def check_default_def)

lemma notEstablished_ok:
  assumes "REASON_CODE_PATTERN rc" "gs \<noteq> []"
  shows "notEstablished gs rc =
    Inr \<lparr>verdict = V_not_established, reason_code = rc, missing = Some gs, applied_default = None, outstanding = None\<rparr>"
  using assms
  by (simp add: notEstablished_def lifecycleState_def plain_state_def check_missing_def check_outstanding_def
      check_default_def list_all_iff)

lemma notEstablished_empty: "REASON_CODE_PATTERN rc \<Longrightarrow> notEstablished [] rc = Inl MISSING_REQUIRED"
  by (simp add: notEstablished_def lifecycleState_def plain_state_def check_missing_def)

lemma paused_ok:
  assumes "REASON_CODE_PATTERN rc" "v = V_suspended \<or> v = V_restricted" "cs \<noteq> []" "\<forall>c \<in> set cs. assertCause c = None"
  shows "lifecycleState ((plain_state v rc)\<lparr>in_outstanding := Some cs\<rparr>) =
    Inr \<lparr>verdict = v, reason_code = rc, missing = None, applied_default = None, outstanding = Some cs\<rparr>"
proof -
  have "check_outstanding v (Some cs) = Inr ()" using assms(2-4) unfolding check_outstanding_Inr by auto
  moreover have "check_missing v None = Inr None" using assms(2) by (auto simp: check_missing_def)
  ultimately show ?thesis using assms(1) by (simp add: lifecycleState_def plain_state_def check_default_def)
qed

section \<open>The contract of a lifecycle module\<close>

locale lifecycle_module =
  fixes accepts :: "'i \<Rightarrow> bool" and produce :: "'i \<Rightarrow> ('e, LifecycleStateResult) result"
  assumes total: "accepts i \<Longrightarrow> \<exists>r. produce i = Inr r"
    and shaped: "produce i = Inr r \<Longrightarrow> lifecycle_wf r"
begin

lemma ignorance_names_a_limb:
  "accepts i \<Longrightarrow> \<exists>r. produce i = Inr r \<and> (verdict r = V_not_established \<longrightarrow> (\<exists>g gs. missing r = Some (g # gs)))"
  using total shaped unfolding lifecycle_wf_def by (metis list.exhaust option.exhaust)

lemma pause_names_its_causes:
  "produce i = Inr r \<Longrightarrow> verdict r = V_suspended \<or> verdict r = V_restricted \<Longrightarrow> \<exists>c cs. outstanding r = Some (c # cs)"
  using shaped unfolding lifecycle_wf_def by (metis list.exhaust option.exhaust)

end

lemma code_name_pattern: "REASON_CODE_PATTERN (code_name c)"
  by (cases c) (simp_all add: REASON_CODE_PATTERN_def isUpper_def isDigit_def)

lemma code_or_pattern: "REASON_CODE_PATTERN d \<Longrightarrow> REASON_CODE_PATTERN (code_or d f)"
  by (simp add: code_or_def code_name_pattern split: option.split)

lemma base_codes:
  "REASON_CODE_PATTERN ''CHAIN_VALID''" "REASON_CODE_PATTERN ''CHAIN_INVALID''" "REASON_CODE_PATTERN ''CHAIN_INDETERMINATE''"
  "REASON_CODE_PATTERN ''CHAIN_UNSUPPORTED''" "REASON_CODE_PATTERN ''NOT_BEFORE_UNREACHED''"
  "REASON_CODE_PATTERN ''CHAIN_STATE_UNRECOGNISED''"
  by code_simp+

lemma gaps_for_cases: "gaps_for c = [G_source] \<or> gaps_for c = [G_coverage]"
proof -
  have "gs = [G_source] \<or> gs = [G_coverage]" if "map_of GAPS_BY_CODE c = Some gs" for gs
    using map_of_SomeD [OF that] by (auto simp: GAPS_BY_CODE_def)
  then show ?thesis by (auto simp: gaps_for_def DEFAULT_GAPS_def split: option.split)
qed

text \<open>The outcome of every branch of the mapping.\<close>

lemma map_state_cases:
  "map_state b ''valid'' fs =
     Inr \<lparr>verdict = V_valid, reason_code = ''CHAIN_VALID'', missing = None, applied_default = None, outstanding = None\<rparr>"
  "\<exists>rc v. map_state b ''invalid'' fs =
     Inr \<lparr>verdict = v, reason_code = rc, missing = None, applied_default = None, outstanding = None\<rparr>
     \<and> (v = V_invalid \<or> v = V_not_yet_effective \<and> b \<and> fs \<noteq> [] \<and> list_all (\<lambda>f. failure_code f = NOT_YET_VALID) fs)"
  "st \<notin> {''valid'', ''invalid''} \<Longrightarrow> \<exists>rc gs. map_state b st fs =
     Inr \<lparr>verdict = V_not_established, reason_code = rc, missing = Some gs, applied_default = None, outstanding = None\<rparr>
     \<and> (gs = [G_source] \<or> gs = [G_coverage])"
proof -
  show "map_state b ''valid'' fs =
     Inr \<lparr>verdict = V_valid, reason_code = ''CHAIN_VALID'', missing = None, applied_default = None, outstanding = None\<rparr>"
    by (simp add: map_state_def plain_state_ok base_codes)
  show "\<exists>rc v. map_state b ''invalid'' fs =
     Inr \<lparr>verdict = v, reason_code = rc, missing = None, applied_default = None, outstanding = None\<rparr>
     \<and> (v = V_invalid \<or> v = V_not_yet_effective \<and> b \<and> fs \<noteq> [] \<and> list_all (\<lambda>f. failure_code f = NOT_YET_VALID) fs)"
    by (simp add: map_state_def plain_state_ok base_codes code_or_pattern)
  have ne: "lifecycleState ((plain_state V_not_established c)\<lparr>in_missing := Some (map gap_name (gaps_for d))\<rparr>) =
    Inr \<lparr>verdict = V_not_established, reason_code = c, missing = Some (gaps_for d), applied_default = None, outstanding = None\<rparr>"
    if "REASON_CODE_PATTERN c" for c d
    using notEstablished_ok [OF that, of "gaps_for d"] gaps_for_cases [of d] by (auto simp: notEstablished_def)
  have df: "DEFAULT_GAPS = gaps_for []" by code_simp
  show "st \<notin> {''valid'', ''invalid''} \<Longrightarrow> \<exists>rc gs. map_state b st fs =
     Inr \<lparr>verdict = V_not_established, reason_code = rc, missing = Some gs, applied_default = None, outstanding = None\<rparr>
     \<and> (gs = [G_source] \<or> gs = [G_coverage])"
    using gaps_for_cases
    by (simp add: map_state_def Let_def df ne base_codes code_or_pattern split: if_splits)
qed

lemma map_state_wf: "map_state b st fs = Inr r \<Longrightarrow> lifecycle_wf r"
  by (auto simp: map_state_def Let_def intro: lifecycleState_wf split: if_splits)

lemma map_state_total: "\<exists>r. map_state b st fs = Inr r"
  using map_state_cases(1,2) [of b fs] map_state_cases(3) [of st b fs] by (cases "st \<in> {''valid'', ''invalid''}") auto

interpretation chain_view: lifecycle_module "\<lambda>_. True" "mapAuthorityValidationToLifecycle b" for b
  by unfold_locales (auto simp: mapAuthorityValidationToLifecycle_def map_state_total intro: map_state_wf)

lemma chain_view_valid:
  "\<exists>v. mapAuthorityValidationToLifecycle b r = Inr v \<and> (verdict v = V_valid \<longleftrightarrow> state r = State_valid)"
proof -
  obtain v where v: "mapAuthorityValidationToLifecycle b r = Inr v" using chain_view.total by blast
  then have "verdict v = V_valid \<longleftrightarrow> state r = State_valid"
    using map_state_cases(1,2) [of b "failures r"]
      map_state_cases(3) [of "''indeterminate''" b "failures r"] map_state_cases(3) [of "''unsupported''" b "failures r"]
    by (cases "state r") (auto simp: mapAuthorityValidationToLifecycle_def)
  with v show ?thesis by blast
qed

section \<open>Properties\<close>

text \<open>The validating constructor enforces the vocabulary exactly: everything it returns is
  well-shaped (a stable reason code, missing limbs exactly on not-established, outstanding
  causes exactly on suspended or restricted, no applied default on ignorance), and every
  well-shaped result is one it returns.\<close>

theorem lifecycle_constructor_exact:
  "lifecycle_wf r \<longleftrightarrow> (\<exists>i. lifecycleState i = Inr r)"
  using lifecycleState_wf lifecycleState_complete by blast

text \<open>Expressing a chain result never throws and never upgrades it: the view is valid exactly for a
  valid chain, an indeterminate or unsupported chain is ignorance with the missing limb
  named, and no suspension or restriction is invented.\<close>

theorem chain_view_faithful:
  "\<exists>v. mapAuthorityValidationToLifecycle b r = Inr v \<and> lifecycle_wf v
     \<and> (verdict v = V_valid \<longleftrightarrow> state r = State_valid)
     \<and> (verdict v = V_not_established \<longleftrightarrow> state r = State_indeterminate \<or> state r = State_unsupported)
     \<and> verdict v \<noteq> V_suspended \<and> verdict v \<noteq> V_restricted
     \<and> missing v \<in> {None, Some [G_source], Some [G_coverage]}"
proof -
  obtain v where v: "mapAuthorityValidationToLifecycle b r = Inr v" "lifecycle_wf v"
    using chain_view.total chain_view.shaped by blast
  have "(verdict v = V_valid \<longleftrightarrow> state r = State_valid)
     \<and> (verdict v = V_not_established \<longleftrightarrow> state r = State_indeterminate \<or> state r = State_unsupported)
     \<and> verdict v \<noteq> V_suspended \<and> verdict v \<noteq> V_restricted \<and> missing v \<in> {None, Some [G_source], Some [G_coverage]}"
    using v(1) map_state_cases(1,2) [of b "failures r"]
      map_state_cases(3) [of "''indeterminate''" b "failures r"] map_state_cases(3) [of "''unsupported''" b "failures r"]
    by (cases "state r") (auto simp: mapAuthorityValidationToLifecycle_def)
  with v show ?thesis by blast
qed

text \<open>An unsupported chain whose first failure is a resource ceiling is reported with the coverage
  limb missing, where the mapping's table promises the source limb for every unsupported
  chain.\<close>

theorem unsupported_over_ceiling_reports_coverage:
  "map_option missing (case mapAuthorityValidationToLifecycle b
     \<lparr>state = State_unsupported, valid = False, failures =
        [\<lparr>failure_code = RESOURCE_LIMIT, message = ''m'', failure_index = Some 0, facet = None\<rparr>,
         \<lparr>failure_code = UNSUPPORTED_PROFILE, message = ''m'', failure_index = Some 0, facet = None\<rparr>]\<rparr> of
       Inr v \<Rightarrow> Some v | Inl _ \<Rightarrow> None) = Some (Some [G_coverage])"
proof -
  have "gaps_for (code_name RESOURCE_LIMIT) = [G_coverage]" by code_simp
  then show ?thesis using notEstablished_ok [OF code_name_pattern [of RESOURCE_LIMIT], of "[G_coverage]"]
    by (simp add: mapAuthorityValidationToLifecycle_def map_state_def Let_def code_or_def firstFailure_def notEstablished_def)
qed

end
