(* ===== verification/Suspension.thy ===== *)
theory Suspension
  imports Lifecycle_State Samples "HOL-Library.Multiset"
begin

text \<open>
  \<^verbatim>\<open>src/v2/suspension/\<close>: suspension and restriction as a set of causes, each released on its
  own.  Records are plain JSON objects, because every member of a record is signed,
  including the ones the module does not read; \<open>SuspensionCause\<close> and \<open>SuspensionRelease\<close>
  are the typed views the code reads after the shape check.

  The key resolver answers \<open>None\<close> for null and for a thrown error; the standing resolver
  answers any string.  Ed25519 and number formatting are the \<open>crypto\<close> parameter.
\<close>

section \<open>Records\<close>

definition SUSPENSION_CAUSE_TYPE :: string where
  "SUSPENSION_CAUSE_TYPE = ''proposed:aps:suspension-cause:v0''"

definition SUSPENSION_RELEASE_TYPE :: string where
  "SUSPENSION_RELEASE_TYPE = ''proposed:aps:cause-release:v0''"

definition PAUSE_KINDS :: "string list" where
  "PAUSE_KINDS = [''suspension'', ''restriction'']"

definition RELEASE_STANDINGS :: "string list" where
  "RELEASE_STANDINGS = [''has_standing'', ''no_standing'', ''unknown'']"

record SuspensionCause =
  cause_record_type :: string
  cause_id :: string
  cause_delegation_id :: string
  cause_kind :: string
  imposed_by :: string
  cause_issued_at :: string
  cause_reason_code :: string
  cause_verification_method :: string
  cause_signature :: string
  cause_members :: members

record SuspensionRelease =
  release_record_type :: string
  release_id :: string
  release_delegation_id :: string
  cause_ids :: "string list"
  release_issuer :: string
  release_issued_at :: string
  release_verification_method :: string
  release_signature :: string
  release_members :: members

datatype SuspensionReasonCode =
    CAUSE_IN_EVIDENCE | CAUSE_NOT_ON_DELEGATION | CAUSE_RECORD_TYPE_UNRECOGNISED | CAUSE_NOT_YET_IN_EVIDENCE
  | CAUSE_SIGNATURE_UNVERIFIED | CAUSE_IMPOSER_BINDING_MISMATCH | CAUSE_RELEASED
  | RELEASE_IN_EVIDENCE | RELEASE_NOT_ON_DELEGATION | RELEASE_RECORD_TYPE_UNRECOGNISED
  | RELEASE_SIGNATURE_UNVERIFIED | RELEASE_ISSUER_BINDING_MISMATCH | RELEASE_AFTER_EVALUATION_INSTANT
  | CAUSE_NOT_PRESENTED | RELEASE_PRECEDES_IMPOSITION | RELEASER_WITHOUT_STANDING
  | RELEASE_STANDING_NOT_ESTABLISHED

record ReleaseCauseDisposition =
  rcd_cause_id :: string
  rcd_disposition :: SuspensionReasonCode

record ReleaseDisposition =
  rd_release_id :: string
  rd_disposition :: SuspensionReasonCode
  rd_causes :: "ReleaseCauseDisposition list"

record CauseDisposition =
  cd_cause_id :: string
  cd_disposition :: SuspensionReasonCode
  released_by :: "string option"

record PauseStateInput =
  delegationId :: string
  causes :: "json list"
  releases :: "json list"
  atInstant :: string
  resolveReleaseStanding :: "SuspensionRelease \<Rightarrow> SuspensionCause \<Rightarrow> string"
  resolveSuspensionKey :: "string \<Rightarrow> string \<Rightarrow> string option"

record PauseStateExplanation =
  pause_state :: LifecycleStateResult
  explained_causes :: "CauseDisposition list"
  explained_releases :: "ReleaseDisposition list"
  explained_outstanding :: "OutstandingCause list"

datatype SuspensionCauseError =
    INPUT_MALFORMED | CAUSE_MALFORMED | CAUSE_KIND_UNKNOWN | RELEASE_MALFORMED | DUPLICATE_CAUSE_ID
  | DUPLICATE_RELEASE_ID | STANDING_ANSWER_UNKNOWN | State_error LifecycleStateError

type_synonym 'a suspending = "(SuspensionCauseError, 'a) APS_Prelude.result"

section \<open>Shape checks\<close>

definition CAUSE_FIELDS :: "string list" where
  "CAUSE_FIELDS = [''record_type'', ''cause_id'', ''delegation_id'', ''imposed_by'', ''issued_at'', ''reason_code'',
     ''verification_method'', ''signature'']"

definition assertCauseShape :: "json \<Rightarrow> SuspensionCauseError option" where
  "assertCauseShape j =
     (case own_members j of
        None \<Rightarrow> Some CAUSE_MALFORMED
      | Some m \<Rightarrow>
          if \<not> list_all (\<lambda>f. isNonEmptyString (get m f)) CAUSE_FIELDS then Some CAUSE_MALFORMED
          else (case get_str m ''kind'' of
              None \<Rightarrow> Some CAUSE_KIND_UNKNOWN
            | Some k \<Rightarrow> if k \<in> set PAUSE_KINDS then None else Some CAUSE_KIND_UNKNOWN))"

definition RELEASE_FIELDS :: "string list" where
  "RELEASE_FIELDS = [''record_type'', ''release_id'', ''delegation_id'', ''issuer'', ''issued_at'',
     ''verification_method'', ''signature'']"

definition assertReleaseShape :: "json \<Rightarrow> SuspensionCauseError option" where
  "assertReleaseShape j =
     (case own_members j of
        None \<Rightarrow> Some RELEASE_MALFORMED
      | Some m \<Rightarrow>
          if \<not> list_all (\<lambda>f. isNonEmptyString (get m f)) RELEASE_FIELDS then Some RELEASE_MALFORMED
          else (case get_arr m ''cause_ids'' of
              None \<Rightarrow> Some RELEASE_MALFORMED
            | Some xs \<Rightarrow> if list_all (\<lambda>x. isNonEmptyString (Some x)) xs then None else Some RELEASE_MALFORMED))"

definition cause_of :: "json \<Rightarrow> SuspensionCause" where
  "cause_of j = (let m = (case own_members j of Some m \<Rightarrow> m | None \<Rightarrow> []) in
     \<lparr>cause_record_type = str_at m ''record_type'', cause_id = str_at m ''cause_id'',
      cause_delegation_id = str_at m ''delegation_id'', cause_kind = str_at m ''kind'',
      imposed_by = str_at m ''imposed_by'', cause_issued_at = str_at m ''issued_at'',
      cause_reason_code = str_at m ''reason_code'', cause_verification_method = str_at m ''verification_method'',
      cause_signature = str_at m ''signature'', cause_members = m\<rparr>)"

definition release_of :: "json \<Rightarrow> SuspensionRelease" where
  "release_of j = (let m = (case own_members j of Some m \<Rightarrow> m | None \<Rightarrow> []) in
     \<lparr>release_record_type = str_at m ''record_type'', release_id = str_at m ''release_id'',
      release_delegation_id = str_at m ''delegation_id'',
      cause_ids = (case get_strs m ''cause_ids'' of Some xs \<Rightarrow> xs | None \<Rightarrow> []),
      release_issuer = str_at m ''issuer'', release_issued_at = str_at m ''issued_at'',
      release_verification_method = str_at m ''verification_method'', release_signature = str_at m ''signature'',
      release_members = m\<rparr>)"

section \<open>Signatures and dispositions\<close>

definition suspensionRecordPreimage :: "crypto \<Rightarrow> members \<Rightarrow> (jcs_error, string) result" where
  "suspensionRecordPreimage C m =
     canonicalizeJCS (format_number C) (JObj (filter (\<lambda>kv. fst kv \<noteq> ''signature'' \<and> fst kv \<noteq> ''record_id'') m))"

definition signatureVerifies :: "crypto \<Rightarrow> PauseStateInput \<Rightarrow> members \<Rightarrow> string \<Rightarrow> string \<Rightarrow> string \<Rightarrow> bool" where
  "signatureVerifies C inp m signer meth sig =
     (case resolveSuspensionKey inp signer meth of
        None \<Rightarrow> False
      | Some publicKey \<Rightarrow>
          if publicKey = [] then False
          else (case suspensionRecordPreimage C m of
              Inl _ \<Rightarrow> False
            | Inr pre \<Rightarrow> ed25519_verify C pre sig publicKey))"

definition disposeCause :: "crypto \<Rightarrow> PauseStateInput \<Rightarrow> SuspensionCause \<Rightarrow> CauseDisposition" where
  "disposeCause C inp c =
     \<lparr>cd_cause_id = cause_id c, cd_disposition =
        (if cause_delegation_id c \<noteq> delegationId inp then CAUSE_NOT_ON_DELEGATION
         else if cause_record_type c \<noteq> SUSPENSION_CAUSE_TYPE then CAUSE_RECORD_TYPE_UNRECOGNISED
         else if cause_issued_at c > atInstant inp then CAUSE_NOT_YET_IN_EVIDENCE
         else if \<not> signatureVerifies C inp (cause_members c) (imposed_by c) (cause_verification_method c) (cause_signature c)
         then CAUSE_SIGNATURE_UNVERIFIED
         else if \<not> startsWith (cause_verification_method c) (imposed_by c @ ''#'') then CAUSE_IMPOSER_BINDING_MISMATCH
         else CAUSE_IN_EVIDENCE), released_by = None\<rparr>"

text \<open>The checks on a release record as a whole.\<close>

definition release_level :: "crypto \<Rightarrow> PauseStateInput \<Rightarrow> SuspensionRelease \<Rightarrow> SuspensionReasonCode" where
  "release_level C inp r =
     (if release_delegation_id r \<noteq> delegationId inp then RELEASE_NOT_ON_DELEGATION
      else if release_record_type r \<noteq> SUSPENSION_RELEASE_TYPE then RELEASE_RECORD_TYPE_UNRECOGNISED
      else if \<not> signatureVerifies C inp (release_members r) (release_issuer r) (release_verification_method r) (release_signature r)
      then RELEASE_SIGNATURE_UNVERIFIED
      else if \<not> startsWith (release_verification_method r) (release_issuer r @ ''#'') then RELEASE_ISSUER_BINDING_MISMATCH
      else if release_issued_at r > atInstant inp then RELEASE_AFTER_EVALUATION_INSTANT
      else RELEASE_IN_EVIDENCE)"

text \<open>One named cause of a release; \<open>None\<close> is the thrown \<open>STANDING_ANSWER_UNKNOWN\<close>.\<close>

definition dispose_named ::
  "PauseStateInput \<Rightarrow> (string \<rightharpoonup> SuspensionCause) \<Rightarrow> SuspensionRelease \<Rightarrow> string \<Rightarrow> SuspensionReasonCode option" where
  "dispose_named inp inEvidence r cid =
     (case inEvidence cid of
        None \<Rightarrow> Some CAUSE_NOT_PRESENTED
      | Some c \<Rightarrow>
          if release_issued_at r < cause_issued_at c then Some RELEASE_PRECEDES_IMPOSITION
          else let standing = resolveReleaseStanding inp r c in
            if standing \<notin> set RELEASE_STANDINGS then None
            else if standing = ''has_standing'' then Some CAUSE_RELEASED
            else if standing = ''no_standing'' then Some RELEASER_WITHOUT_STANDING
            else Some RELEASE_STANDING_NOT_ESTABLISHED)"

definition disposeRelease ::
  "crypto \<Rightarrow> PauseStateInput \<Rightarrow> (string \<rightharpoonup> SuspensionCause) \<Rightarrow> SuspensionRelease \<Rightarrow> ReleaseDisposition suspending" where
  "disposeRelease C inp inEvidence r =
     (if release_level C inp r \<noteq> RELEASE_IN_EVIDENCE
      then Inr \<lparr>rd_release_id = release_id r, rd_disposition = release_level C inp r, rd_causes = []\<rparr>
      else bindE (mapE (\<lambda>cid. case dispose_named inp inEvidence r cid of
             None \<Rightarrow> Inl STANDING_ANSWER_UNKNOWN
           | Some d \<Rightarrow> Inr \<lparr>rcd_cause_id = cid, rcd_disposition = d\<rparr>) (cause_ids r))
        (\<lambda>ds. Inr \<lparr>rd_release_id = release_id r, rd_disposition = RELEASE_IN_EVIDENCE, rd_causes = ds\<rparr>))"

section \<open>Evaluation\<close>

definition check_input :: "PauseStateInput \<Rightarrow> unit suspending" where
  "check_input inp =
     (if delegationId inp = [] \<or> atInstant inp = [] then Inl INPUT_MALFORMED
      else bindE (forE assertCauseShape (causes inp)) (\<lambda>_.
        bindE (forE assertReleaseShape (releases inp)) (\<lambda>_.
          if first_repeat [] 0 (map (cause_id \<circ> cause_of) (causes inp)) \<noteq> None then Inl DUPLICATE_CAUSE_ID
          else if first_repeat [] 0 (map (release_id \<circ> release_of) (releases inp)) \<noteq> None then Inl DUPLICATE_RELEASE_ID
          else Inr ())))"

text \<open>The two collections built by the loop over the release dispositions, entry by entry.\<close>

definition record_entry :: "string \<Rightarrow> (string \<times> string) list \<times> string list \<Rightarrow> ReleaseCauseDisposition
    \<Rightarrow> (string \<times> string) list \<times> string list" where
  "record_entry rid acc e =
     (if rcd_disposition e = CAUSE_RELEASED \<and> map_of (fst acc) (rcd_cause_id e) = None
      then (fst acc @ [(rcd_cause_id e, rid)], snd acc)
      else if rcd_disposition e = RELEASE_STANDING_NOT_ESTABLISHED then (fst acc, List.insert (rcd_cause_id e) (snd acc))
      else acc)"

definition collect :: "ReleaseDisposition list \<Rightarrow> (string \<times> string) list \<times> string list" where
  "collect ds = foldl (\<lambda>acc d. foldl (record_entry (rd_release_id d)) acc (rd_causes d)) ([], []) ds"

definition final_cause :: "(string \<times> string) list \<Rightarrow> CauseDisposition \<Rightarrow> CauseDisposition" where
  "final_cause releasedBy d =
     (case map_of releasedBy (cd_cause_id d) of
        Some rid \<Rightarrow> if cd_disposition d = CAUSE_IN_EVIDENCE
          then \<lparr>cd_cause_id = cd_cause_id d, cd_disposition = CAUSE_RELEASED, released_by = Some rid\<rparr> else d
      | None \<Rightarrow> d)"

definition evidence_causes :: "crypto \<Rightarrow> PauseStateInput \<Rightarrow> SuspensionCause list" where
  "evidence_causes C inp =
     filter (\<lambda>c. cd_disposition (disposeCause C inp c) = CAUSE_IN_EVIDENCE) (map cause_of (causes inp))"

definition evidence_map :: "SuspensionCause list \<Rightarrow> string \<rightharpoonup> SuspensionCause" where
  "evidence_map cs = map_of (map (\<lambda>c. (cause_id c, c)) cs)"

definition outstanding_cause :: "SuspensionCause \<Rightarrow> OutstandingCause" where
  "outstanding_cause c = \<lparr>outstanding_id = cause_id c, outstanding_kind = cause_kind c, outstanding_reason = cause_reason_code c\<rparr>"

definition lift_state :: "(LifecycleStateError, 'a) result \<Rightarrow> 'a suspending" where
  "lift_state r = (case r of Inl e \<Rightarrow> Inl (State_error e) | Inr v \<Rightarrow> Inr v)"

definition pause_verdict ::
  "PauseStateInput \<Rightarrow> SuspensionCause list \<Rightarrow> string list \<Rightarrow> SuspensionCause list \<Rightarrow> LifecycleStateResult suspending" where
  "pause_verdict inp inEvidence unresolved lefts =
     (if unresolved \<noteq> [] then lift_state (notEstablished [G_source] ''RELEASE_STANDING_NOT_ESTABLISHED'')
      else if lefts = [] then
        lift_state (lifecycleState (plain_state V_valid
          (if causes inp = [] then ''NO_CAUSE_PRESENTED''
           else if inEvidence = [] then ''NO_CAUSE_IN_EVIDENCE'' else ''ALL_CAUSES_RELEASED'')))
      else lift_state (lifecycleState
        ((plain_state (if list_ex (\<lambda>c. cause_kind c = ''suspension'') lefts then V_suspended else V_restricted)
            ''CAUSES_OUTSTANDING'')\<lparr>in_outstanding := Some (map outstanding_cause lefts)\<rparr>)))"

definition explainPauseState :: "crypto \<Rightarrow> PauseStateInput \<Rightarrow> PauseStateExplanation suspending" where
  "explainPauseState C inp =
     bindE (check_input inp) (\<lambda>_.
       let inEvidence = evidence_causes C inp in
       bindE (mapE (disposeRelease C inp (evidence_map inEvidence)) (map release_of (releases inp))) (\<lambda>rds.
         let (releasedBy, raw) = collect rds;
             unresolved = filter (\<lambda>cid. map_of releasedBy cid = None) raw;
             lefts = sort_key cause_id (filter (\<lambda>c. map_of releasedBy (cause_id c) = None) inEvidence)
         in bindE (pause_verdict inp inEvidence unresolved lefts) (\<lambda>st.
              Inr \<lparr>pause_state = st,
                explained_causes = map (final_cause releasedBy \<circ> disposeCause C inp \<circ> cause_of) (causes inp),
                explained_releases = rds,
                explained_outstanding = (case outstanding st of None \<Rightarrow> [] | Some os \<Rightarrow> os)\<rparr>)))"

definition evaluatePauseState :: "crypto \<Rightarrow> PauseStateInput \<Rightarrow> LifecycleStateResult suspending" where
  "evaluatePauseState C inp = bindE (explainPauseState C inp) (\<lambda>e. Inr (pause_state e))"

definition composeChainAndPause :: "LifecycleStateResult \<Rightarrow> LifecycleStateResult \<Rightarrow> LifecycleStateResult" where
  "composeChainAndPause chn pause = (if verdict chn = V_valid then pause else chn)"

section \<open>What releases do, declaratively\<close>

definition standing_answers :: "PauseStateInput \<Rightarrow> bool" where
  "standing_answers inp \<longleftrightarrow> (\<forall>r c. resolveReleaseStanding inp r c \<in> set RELEASE_STANDINGS)"

text \<open>An accepted release that names a cause it does not predate, with the given standing over it.\<close>

definition speaks_to :: "crypto \<Rightarrow> PauseStateInput \<Rightarrow> string \<Rightarrow> SuspensionRelease \<Rightarrow> SuspensionCause \<Rightarrow> bool" where
  "speaks_to C inp st r c \<longleftrightarrow> release_level C inp r = RELEASE_IN_EVIDENCE \<and> cause_id c \<in> set (cause_ids r)
     \<and> cause_issued_at c \<le> release_issued_at r \<and> resolveReleaseStanding inp r c = st"

definition released :: "crypto \<Rightarrow> PauseStateInput \<Rightarrow> SuspensionCause \<Rightarrow> bool" where
  "released C inp c \<longleftrightarrow> (\<exists>r \<in> release_of ` set (releases inp). speaks_to C inp ''has_standing'' r c)"

definition doubted :: "crypto \<Rightarrow> PauseStateInput \<Rightarrow> SuspensionCause \<Rightarrow> bool" where
  "doubted C inp c \<longleftrightarrow> \<not> released C inp c \<and> (\<exists>r \<in> release_of ` set (releases inp). speaks_to C inp ''unknown'' r c)"

definition left_standing :: "crypto \<Rightarrow> PauseStateInput \<Rightarrow> SuspensionCause list" where
  "left_standing C inp = sort_key cause_id (filter (\<lambda>c. \<not> released C inp c) (evidence_causes C inp))"

definition pause_spec :: "crypto \<Rightarrow> PauseStateInput \<Rightarrow> LifecycleStateResult" where
  "pause_spec C inp =
     (if \<exists>c \<in> set (evidence_causes C inp). doubted C inp c
      then \<lparr>verdict = V_not_established, reason_code = ''RELEASE_STANDING_NOT_ESTABLISHED'', missing = Some [G_source],
             applied_default = None, outstanding = None\<rparr>
      else if left_standing C inp = []
      then \<lparr>verdict = V_valid, reason_code = (if causes inp = [] then ''NO_CAUSE_PRESENTED''
              else if evidence_causes C inp = [] then ''NO_CAUSE_IN_EVIDENCE'' else ''ALL_CAUSES_RELEASED''),
             missing = None, applied_default = None, outstanding = None\<rparr>
      else \<lparr>verdict = (if list_ex (\<lambda>c. cause_kind c = ''suspension'') (left_standing C inp) then V_suspended else V_restricted),
             reason_code = ''CAUSES_OUTSTANDING'', missing = None, applied_default = None,
             outstanding = Some (map outstanding_cause (left_standing C inp))\<rparr>)"

section \<open>The loops\<close>

lemma record_entries:
  "(map_of (fst (foldl (record_entry rid) acc es)) cid \<noteq> None \<longleftrightarrow>
     map_of (fst acc) cid \<noteq> None \<or> (\<exists>e \<in> set es. rcd_cause_id e = cid \<and> rcd_disposition e = CAUSE_RELEASED))
   \<and> (cid \<in> set (snd (foldl (record_entry rid) acc es)) \<longleftrightarrow>
     cid \<in> set (snd acc) \<or> (\<exists>e \<in> set es. rcd_cause_id e = cid \<and> rcd_disposition e = RELEASE_STANDING_NOT_ESTABLISHED))"
proof (induction es arbitrary: acc)
  case (Cons e es)
  have "map_of (fst (record_entry rid acc e)) cid \<noteq> None \<longleftrightarrow>
      map_of (fst acc) cid \<noteq> None \<or> rcd_cause_id e = cid \<and> rcd_disposition e = CAUSE_RELEASED"
    "cid \<in> set (snd (record_entry rid acc e)) \<longleftrightarrow>
      cid \<in> set (snd acc) \<or> rcd_cause_id e = cid \<and> rcd_disposition e = RELEASE_STANDING_NOT_ESTABLISHED"
    by (auto simp: record_entry_def map_add_def split: option.split)
  then show ?case using Cons by auto
qed simp

lemma collect_acc:
  "(map_of (fst (foldl (\<lambda>acc d. foldl (record_entry (rd_release_id d)) acc (rd_causes d)) acc ds)) cid \<noteq> None \<longleftrightarrow>
     map_of (fst acc) cid \<noteq> None \<or> (\<exists>d \<in> set ds. \<exists>e \<in> set (rd_causes d). rcd_cause_id e = cid \<and> rcd_disposition e = CAUSE_RELEASED))
   \<and> (cid \<in> set (snd (foldl (\<lambda>acc d. foldl (record_entry (rd_release_id d)) acc (rd_causes d)) acc ds)) \<longleftrightarrow>
     cid \<in> set (snd acc) \<or> (\<exists>d \<in> set ds. \<exists>e \<in> set (rd_causes d). rcd_cause_id e = cid
       \<and> rcd_disposition e = RELEASE_STANDING_NOT_ESTABLISHED))"
proof (induction ds arbitrary: acc)
  case (Cons d ds)
  show ?case
    using Cons.IH [of "foldl (record_entry (rd_release_id d)) acc (rd_causes d)"]
      record_entries [of "rd_release_id d" acc "rd_causes d" cid] by auto
qed simp

lemma collect_iff:
  "map_of (fst (collect ds)) cid \<noteq> None \<longleftrightarrow>
     (\<exists>d \<in> set ds. \<exists>e \<in> set (rd_causes d). rcd_cause_id e = cid \<and> rcd_disposition e = CAUSE_RELEASED)"
  "cid \<in> set (snd (collect ds)) \<longleftrightarrow>
     (\<exists>d \<in> set ds. \<exists>e \<in> set (rd_causes d). rcd_cause_id e = cid \<and> rcd_disposition e = RELEASE_STANDING_NOT_ESTABLISHED)"
  using collect_acc [of "([], [])" ds cid] by (simp_all add: collect_def)

lemma disposeRelease_entries:
  assumes "disposeRelease C inp ev r = Inr d"
  shows "(\<exists>e \<in> set (rd_causes d). rcd_cause_id e = cid \<and> rcd_disposition e = x) \<longleftrightarrow>
    release_level C inp r = RELEASE_IN_EVIDENCE \<and> cid \<in> set (cause_ids r) \<and> dispose_named inp ev r cid = Some x"
proof (cases "release_level C inp r = RELEASE_IN_EVIDENCE")
  case False
  with assms show ?thesis by (auto simp: disposeRelease_def)
next
  case True
  let ?f = "\<lambda>cid. case dispose_named inp ev r cid of None \<Rightarrow> Inl STANDING_ANSWER_UNKNOWN
           | Some d \<Rightarrow> Inr \<lparr>rcd_cause_id = cid, rcd_disposition = d\<rparr>"
  from assms True have "list_all2 (\<lambda>cid e. ?f cid = Inr e) (cause_ids r) (rd_causes d)"
    by (auto simp: disposeRelease_def bindE_Inr_iff mapE_Inr_iff)
  then have "list_all2 (\<lambda>cid e. dispose_named inp ev r cid = Some (rcd_disposition e) \<and> rcd_cause_id e = cid)
      (cause_ids r) (rd_causes d)"
    by (rule list_all2_mono) (auto split: option.splits)
  then have "(\<exists>e \<in> set (rd_causes d). rcd_cause_id e = cid \<and> rcd_disposition e = x) \<longleftrightarrow>
      cid \<in> set (cause_ids r) \<and> dispose_named inp ev r cid = Some x"
    by (induction rule: list_all2_induct) auto
  with True show ?thesis by simp
qed

lemma disposeRelease_total: "standing_answers inp \<Longrightarrow> \<exists>d. disposeRelease C inp ev r = Inr d"
proof -
  assume ans: "standing_answers inp"
  have "\<exists>e. (case dispose_named inp ev r cid of None \<Rightarrow> Inl STANDING_ANSWER_UNKNOWN
           | Some d \<Rightarrow> Inr \<lparr>rcd_cause_id = cid, rcd_disposition = d\<rparr>) = Inr e" for cid
    using ans by (auto simp: dispose_named_def standing_answers_def Let_def split: option.split)
  then have "\<exists>ds. mapE (\<lambda>cid. case dispose_named inp ev r cid of None \<Rightarrow> Inl STANDING_ANSWER_UNKNOWN
           | Some d \<Rightarrow> Inr \<lparr>rcd_cause_id = cid, rcd_disposition = d\<rparr>) (cause_ids r) = Inr ds"
    by (rule mapE_total)
  then show ?thesis by (auto simp: disposeRelease_def)
qed

section \<open>The evaluation meets its specification\<close>

lemma check_input_ok:
  assumes "check_input inp = Inr ()"
  shows "\<forall>j \<in> set (causes inp). assertCauseShape j = None" "\<forall>j \<in> set (releases inp). assertReleaseShape j = None"
    "distinct (map (cause_id \<circ> cause_of) (causes inp))" "distinct (map (release_id \<circ> release_of) (releases inp))"
proof -
  have ok: "delegationId inp \<noteq> [] \<and> atInstant inp \<noteq> []" "forE assertCauseShape (causes inp) = Inr ()"
    "forE assertReleaseShape (releases inp) = Inr ()"
    "first_repeat [] 0 (map (cause_id \<circ> cause_of) (causes inp)) = None"
    "first_repeat [] 0 (map (release_id \<circ> release_of) (releases inp)) = None"
    using assms by (auto simp: check_input_def bindE_Inr_iff split: if_splits)
  then show "\<forall>j \<in> set (causes inp). assertCauseShape j = None" "\<forall>j \<in> set (releases inp). assertReleaseShape j = None"
    "distinct (map (cause_id \<circ> cause_of) (causes inp))" "distinct (map (release_id \<circ> release_of) (releases inp))"
    by (simp_all add: forE_ok_iff first_repeat_None_iff)
qed

lemma isNonEmptyString_iff: "isNonEmptyString v \<longleftrightarrow> (\<exists>s. v = Some (JStr s) \<and> s \<noteq> [])"
  by (cases v; cases "the v") (auto simp: isNonEmptyString_def)

lemma cause_shape_fields:
  assumes "assertCauseShape j = None"
  shows "cause_id (cause_of j) \<noteq> []" "cause_kind (cause_of j) \<in> set PAUSE_KINDS" "cause_reason_code (cause_of j) \<noteq> []"
proof -
  obtain m where m: "own_members j = Some m" "list_all (\<lambda>f. isNonEmptyString (get m f)) CAUSE_FIELDS"
    and k: "\<exists>k. get_str m ''kind'' = Some k \<and> k \<in> set PAUSE_KINDS"
    using assms by (auto simp: assertCauseShape_def split: option.splits if_splits)
  have "str_at m f \<noteq> []" if "f \<in> set CAUSE_FIELDS" for f
    using m(2) that by (auto simp: list_all_iff isNonEmptyString_iff str_at_def get_str_def)
  then show "cause_id (cause_of j) \<noteq> []" "cause_reason_code (cause_of j) \<noteq> []"
    using m(1) by (simp_all add: cause_of_def Let_def CAUSE_FIELDS_def)
  show "cause_kind (cause_of j) \<in> set PAUSE_KINDS"
    using m(1) k by (auto simp: cause_of_def Let_def str_at_def)
qed

lemma evidence_distinct: "check_input inp = Inr () \<Longrightarrow> distinct (map cause_id (evidence_causes C inp))"
  using check_input_ok(3) [of inp] by (auto simp: evidence_causes_def intro: distinct_map_filter)

lemma evidence_map_iff:
  assumes "check_input inp = Inr ()"
  shows "evidence_map (evidence_causes C inp) cid = Some c \<longleftrightarrow> c \<in> set (evidence_causes C inp) \<and> cause_id c = cid"
  using evidence_distinct [OF assms, of C]
  by (auto simp: evidence_map_def map_of_eq_Some_iff comp_def)

lemma dispose_named_iff:
  assumes "standing_answers inp"
  shows "dispose_named inp ev r cid = Some CAUSE_RELEASED \<longleftrightarrow>
      (\<exists>c. ev cid = Some c \<and> cause_issued_at c \<le> release_issued_at r \<and> resolveReleaseStanding inp r c = ''has_standing'')"
    and "dispose_named inp ev r cid = Some RELEASE_STANDING_NOT_ESTABLISHED \<longleftrightarrow>
      (\<exists>c. ev cid = Some c \<and> cause_issued_at c \<le> release_issued_at r \<and> resolveReleaseStanding inp r c = ''unknown'')"
proof -
  have "(dispose_named inp ev r cid = Some CAUSE_RELEASED \<longleftrightarrow>
      (\<exists>c. ev cid = Some c \<and> cause_issued_at c \<le> release_issued_at r \<and> resolveReleaseStanding inp r c = ''has_standing''))
    \<and> (dispose_named inp ev r cid = Some RELEASE_STANDING_NOT_ESTABLISHED \<longleftrightarrow>
      (\<exists>c. ev cid = Some c \<and> cause_issued_at c \<le> release_issued_at r \<and> resolveReleaseStanding inp r c = ''unknown''))"
  proof (cases "ev cid")
    case None
    then show ?thesis by (simp add: dispose_named_def)
  next
    case (Some c)
    from assms have "resolveReleaseStanding inp r c \<in> {''has_standing'', ''no_standing'', ''unknown''}"
      by (simp add: standing_answers_def RELEASE_STANDINGS_def)
    then show ?thesis using Some
      by (elim insertE emptyE; simp add: dispose_named_def RELEASE_STANDINGS_def Let_def; auto simp: not_le not_less)
  qed
  then show "dispose_named inp ev r cid = Some CAUSE_RELEASED \<longleftrightarrow>
      (\<exists>c. ev cid = Some c \<and> cause_issued_at c \<le> release_issued_at r \<and> resolveReleaseStanding inp r c = ''has_standing'')"
    "dispose_named inp ev r cid = Some RELEASE_STANDING_NOT_ESTABLISHED \<longleftrightarrow>
      (\<exists>c. ev cid = Some c \<and> cause_issued_at c \<le> release_issued_at r \<and> resolveReleaseStanding inp r c = ''unknown'')"
    by blast+
qed

text \<open>The collections the release loop builds, in terms of \<open>released\<close> and \<open>doubted\<close>.\<close>

lemma collect_releases:
  assumes ok: "check_input inp = Inr ()" and ans: "standing_answers inp"
    and rds: "mapE (disposeRelease C inp (evidence_map (evidence_causes C inp))) (map release_of (releases inp)) = Inr rds"
  shows "c \<in> set (evidence_causes C inp) \<Longrightarrow> map_of (fst (collect rds)) (cause_id c) \<noteq> None \<longleftrightarrow> released C inp c"
    and "filter (\<lambda>cid. map_of (fst (collect rds)) cid = None) (snd (collect rds)) \<noteq> []
      \<longleftrightarrow> (\<exists>c \<in> set (evidence_causes C inp). doubted C inp c)"
proof -
  let ?ev = "evidence_map (evidence_causes C inp)"
  have l2: "list_all2 (\<lambda>r d. disposeRelease C inp ?ev r = Inr d) (map release_of (releases inp)) rds"
    using rds by (simp add: mapE_Inr_iff)
  have entry: "(\<exists>d \<in> set rds. \<exists>e \<in> set (rd_causes d). rcd_cause_id e = cid \<and> rcd_disposition e = x) \<longleftrightarrow>
      (\<exists>r \<in> release_of ` set (releases inp). release_level C inp r = RELEASE_IN_EVIDENCE \<and> cid \<in> set (cause_ids r)
         \<and> dispose_named inp ?ev r cid = Some x)" for cid x
    unfolding set_map [symmetric] using l2
  proof (induction rule: list_all2_induct)
    case (Cons r rs d ds)
    then show ?case using disposeRelease_entries [of C inp ?ev r d cid x] by auto
  qed simp
  have named: "map_of (fst (collect rds)) cid \<noteq> None \<longleftrightarrow>
      (\<exists>c \<in> set (evidence_causes C inp). cause_id c = cid \<and> released C inp c)"
    "cid \<in> set (snd (collect rds)) \<longleftrightarrow> (\<exists>c \<in> set (evidence_causes C inp). cause_id c = cid
       \<and> (\<exists>r \<in> release_of ` set (releases inp). speaks_to C inp ''unknown'' r c))" for cid
    unfolding collect_iff entry dispose_named_iff [OF ans] evidence_map_iff [OF ok] released_def speaks_to_def by blast+
  have inj: "c = c'" if "c \<in> set (evidence_causes C inp)" "c' \<in> set (evidence_causes C inp)" "cause_id c = cause_id c'" for c c'
    using evidence_distinct [OF ok, of C] that by (auto simp: distinct_map dest: inj_onD)
  show rel: "c \<in> set (evidence_causes C inp) \<Longrightarrow> map_of (fst (collect rds)) (cause_id c) \<noteq> None \<longleftrightarrow> released C inp c" for c
    using named(1) [of "cause_id c"] inj by blast
  have "filter (\<lambda>cid. map_of (fst (collect rds)) cid = None) (snd (collect rds)) \<noteq> [] \<longleftrightarrow>
      (\<exists>cid \<in> set (snd (collect rds)). map_of (fst (collect rds)) cid = None)"
    by (simp add: filter_empty_conv)
  also have "\<dots> \<longleftrightarrow> (\<exists>c \<in> set (evidence_causes C inp). doubted C inp c)"
  proof
    assume "\<exists>cid \<in> set (snd (collect rds)). map_of (fst (collect rds)) cid = None"
    then obtain cid where cid: "cid \<in> set (snd (collect rds))" "map_of (fst (collect rds)) cid = None" by blast
    from cid(1) obtain c where c: "c \<in> set (evidence_causes C inp)" "cause_id c = cid"
      "\<exists>r \<in> release_of ` set (releases inp). speaks_to C inp ''unknown'' r c"
      unfolding named(2) by blast
    from rel [OF c(1)] cid(2) c(2) have "\<not> released C inp c" by simp
    with c show "\<exists>c \<in> set (evidence_causes C inp). doubted C inp c" unfolding doubted_def by blast
  next
    assume "\<exists>c \<in> set (evidence_causes C inp). doubted C inp c"
    then obtain c where c: "c \<in> set (evidence_causes C inp)" "\<not> released C inp c"
      "\<exists>r \<in> release_of ` set (releases inp). speaks_to C inp ''unknown'' r c"
      unfolding doubted_def by blast
    from c have "cause_id c \<in> set (snd (collect rds))" unfolding named(2) by blast
    moreover from rel [OF c(1)] c(2) have "map_of (fst (collect rds)) (cause_id c) = None" by simp
    ultimately show "\<exists>cid \<in> set (snd (collect rds)). map_of (fst (collect rds)) cid = None" by blast
  qed
  finally show "filter (\<lambda>cid. map_of (fst (collect rds)) cid = None) (snd (collect rds)) \<noteq> []
      \<longleftrightarrow> (\<exists>c \<in> set (evidence_causes C inp). doubted C inp c)" .
qed

lemma pause_codes:
  "REASON_CODE_PATTERN ''RELEASE_STANDING_NOT_ESTABLISHED''" "REASON_CODE_PATTERN ''NO_CAUSE_PRESENTED''"
  "REASON_CODE_PATTERN ''NO_CAUSE_IN_EVIDENCE''" "REASON_CODE_PATTERN ''ALL_CAUSES_RELEASED''"
  "REASON_CODE_PATTERN ''CAUSES_OUTSTANDING''"
  by code_simp+

lemma left_causes_shaped:
  assumes "check_input inp = Inr ()" "c \<in> set (evidence_causes C inp)"
  shows "assertCause (outstanding_cause c) = None"
proof -
  from assms(2) obtain j where j: "j \<in> set (causes inp)" "c = cause_of j" by (auto simp: evidence_causes_def)
  have "assertCauseShape j = None" using check_input_ok(1) [OF assms(1)] j by blast
  from cause_shape_fields [OF this] j show ?thesis
    by (auto simp: assertCause_def outstanding_cause_def PAUSE_KINDS_def)
qed

lemma pause_verdict_spec:
  assumes ok: "check_input inp = Inr ()"
    and un: "unresolved \<noteq> [] \<longleftrightarrow> (\<exists>c \<in> set (evidence_causes C inp). doubted C inp c)"
  shows "pause_verdict inp (evidence_causes C inp) unresolved (left_standing C inp) = Inr (pause_spec C inp)"
proof -
  let ?v = "if list_ex (\<lambda>c. cause_kind c = ''suspension'') (left_standing C inp) then V_suspended else V_restricted"
  have shaped: "\<forall>oc \<in> set (map outstanding_cause (left_standing C inp)). assertCause oc = None"
    using left_causes_shaped [OF ok] by (auto simp: left_standing_def)
  have v: "?v = V_suspended \<or> ?v = V_restricted" by simp
  have rc: "REASON_CODE_PATTERN (if causes inp = [] then ''NO_CAUSE_PRESENTED''
      else if evidence_causes C inp = [] then ''NO_CAUSE_IN_EVIDENCE'' else ''ALL_CAUSES_RELEASED'')"
    by (simp add: pause_codes)
  consider (doubt) "unresolved \<noteq> []" | (valid) "unresolved = []" "left_standing C inp = []"
    | (paused) "unresolved = []" "left_standing C inp \<noteq> []" by blast
  then show ?thesis
  proof cases
    case doubt
    with un notEstablished_ok [OF pause_codes(1), of "[G_source]"] show ?thesis
      by (simp add: pause_verdict_def pause_spec_def lift_state_def)
  next
    case valid
    with un have nd: "\<not> (\<exists>c \<in> set (evidence_causes C inp). doubted C inp c)" by blast
    from valid nd plain_state_ok [OF rc, of V_valid] show ?thesis
      unfolding pause_verdict_def pause_spec_def lift_state_def if_not_P [OF nd] by simp
  next
    case paused
    with un have nd: "\<not> (\<exists>c \<in> set (evidence_causes C inp). doubted C inp c)" by blast
    from paused nd paused_ok [OF pause_codes(5) v _ shaped] show ?thesis
      unfolding pause_verdict_def pause_spec_def lift_state_def if_not_P [OF nd] by simp
  qed
qed

lemma explainPauseState_ok:
  assumes ok: "check_input inp = Inr ()" and ans: "standing_answers inp"
  obtains rds where "mapE (disposeRelease C inp (evidence_map (evidence_causes C inp))) (map release_of (releases inp)) = Inr rds"
    and "explainPauseState C inp = Inr \<lparr>pause_state = pause_spec C inp,
       explained_causes = map (final_cause (fst (collect rds)) \<circ> disposeCause C inp \<circ> cause_of) (causes inp),
       explained_releases = rds,
       explained_outstanding = (case outstanding (pause_spec C inp) of None \<Rightarrow> [] | Some os \<Rightarrow> os)\<rparr>"
proof -
  have "\<exists>rds. mapE (disposeRelease C inp (evidence_map (evidence_causes C inp))) (map release_of (releases inp)) = Inr rds"
    by (rule mapE_total) (rule disposeRelease_total [OF ans])
  then obtain rds where rds: "mapE (disposeRelease C inp (evidence_map (evidence_causes C inp))) (map release_of (releases inp)) = Inr rds" ..
  note col = collect_releases [OF ok ans rds]
  have lefts: "filter (\<lambda>c. map_of (fst (collect rds)) (cause_id c) = None) (evidence_causes C inp)
      = filter (\<lambda>c. \<not> released C inp c) (evidence_causes C inp)"
    using col(1) by (intro filter_cong refl) blast
  have verdict: "pause_verdict inp (evidence_causes C inp)
      (filter (\<lambda>cid. map_of (fst (collect rds)) cid = None) (snd (collect rds)))
      (sort_key cause_id (filter (\<lambda>c. map_of (fst (collect rds)) (cause_id c) = None) (evidence_causes C inp)))
      = Inr (pause_spec C inp)"
    unfolding lefts left_standing_def [symmetric] by (rule pause_verdict_spec [OF ok col(2)])
  show thesis
    by (rule that [OF rds]) (simp add: explainPauseState_def ok rds Let_def case_prod_beta verdict)
qed

lemma evaluatePauseState_ok:
  "check_input inp = Inr () \<Longrightarrow> standing_answers inp \<Longrightarrow> evaluatePauseState C inp = Inr (pause_spec C inp)"
  by (rule explainPauseState_ok [of inp C]) (simp_all add: evaluatePauseState_def)

lemma pause_verdict_wf: "pause_verdict inp cs un ls = Inr r \<Longrightarrow> lifecycle_wf r"
  unfolding pause_verdict_def lift_state_def notEstablished_def
  using lifecycleState_wf by (auto split: if_splits sum.splits)

lemma evaluatePauseState_wf: "evaluatePauseState C inp = Inr r \<Longrightarrow> lifecycle_wf r"
  unfolding evaluatePauseState_def explainPauseState_def
  by (auto simp: bindE_Inr_iff Let_def case_prod_beta intro: pause_verdict_wf)

interpretation pause_view: lifecycle_module "\<lambda>inp. check_input inp = Inr () \<and> standing_answers inp" "evaluatePauseState C" for C
  by unfold_locales (auto simp: evaluatePauseState_ok intro: evaluatePauseState_wf)

section \<open>Errors, order and explanations\<close>

lemma pause_verdict_total:
  assumes ok: "check_input inp = Inr ()" and ls: "set ls \<subseteq> set (evidence_causes C inp)"
  shows "\<exists>r. pause_verdict inp cs un ls = Inr r"
proof -
  let ?v = "if list_ex (\<lambda>c. cause_kind c = ''suspension'') ls then V_suspended else V_restricted"
  have shaped: "\<forall>oc \<in> set (map outstanding_cause ls). assertCause oc = None"
    using left_causes_shaped [OF ok] ls by auto
  have v: "?v = V_suspended \<or> ?v = V_restricted" by simp
  have rc: "REASON_CODE_PATTERN (if causes inp = [] then ''NO_CAUSE_PRESENTED''
      else if cs = [] then ''NO_CAUSE_IN_EVIDENCE'' else ''ALL_CAUSES_RELEASED'')"
    by (simp add: pause_codes)
  show ?thesis
    using notEstablished_ok [OF pause_codes(1), of "[G_source]"] plain_state_ok [OF rc, of V_valid]
      paused_ok [OF pause_codes(5) v _ shaped]
    unfolding pause_verdict_def lift_state_def by simp
qed

lemma mapE_disposeRelease_Inl:
  "mapE (disposeRelease C inp ev) rs = Inl e \<Longrightarrow> e = STANDING_ANSWER_UNKNOWN"
proof -
  have inner: "mapE (\<lambda>cid. case g cid of None \<Rightarrow> Inl STANDING_ANSWER_UNKNOWN | Some d \<Rightarrow> Inr (h cid d)) cids = Inl e
      \<Longrightarrow> e = STANDING_ANSWER_UNKNOWN" for g h cids and e :: SuspensionCauseError
    by (induction cids) (auto simp: bindE_def split: sum.splits option.splits)
  have one: "disposeRelease C inp ev r = Inl e \<Longrightarrow> e = STANDING_ANSWER_UNKNOWN" for r e
    by (auto simp: disposeRelease_def bindE_def split: if_splits sum.splits intro: inner)
  show "mapE (disposeRelease C inp ev) rs = Inl e \<Longrightarrow> e = STANDING_ANSWER_UNKNOWN"
    by (induction rs) (auto simp: bindE_def split: sum.splits dest: one)
qed

lemma evidence_causes_mset:
  assumes "mset cs = mset (causes inp)"
  shows "mset (evidence_causes C (inp\<lparr>causes := cs, releases := rs\<rparr>)) = mset (evidence_causes C inp)"
proof -
  have "disposeCause C (inp\<lparr>causes := cs, releases := rs\<rparr>) = disposeCause C inp"
    by (rule ext) (simp add: disposeCause_def signatureVerifies_def cong: option.case_cong sum.case_cong)
  then show ?thesis using assms by (simp add: evidence_causes_def mset_filter)
qed

lemma speaks_to_update [simp]:
  "speaks_to C (inp\<lparr>causes := cs, releases := rs\<rparr>) = speaks_to C inp"
proof -
  have "release_level C (inp\<lparr>causes := cs, releases := rs\<rparr>) = release_level C inp"
    by (rule ext) (simp add: release_level_def signatureVerifies_def cong: option.case_cong sum.case_cong)
  then show ?thesis by (intro ext) (simp add: speaks_to_def)
qed

lemma released_reorder:
  assumes "mset rs = mset (releases inp)"
  shows "released C (inp\<lparr>causes := cs, releases := rs\<rparr>) = released C inp"
    "doubted C (inp\<lparr>causes := cs, releases := rs\<rparr>) = doubted C inp"
proof -
  have "set rs = set (releases inp)" using assms by (metis set_mset_mset)
  then show "released C (inp\<lparr>causes := cs, releases := rs\<rparr>) = released C inp"
    "doubted C (inp\<lparr>causes := cs, releases := rs\<rparr>) = doubted C inp"
    by (intro ext; simp add: released_def doubted_def)+
qed

lemma sort_key_perm: "mset xs = mset ys \<Longrightarrow> distinct (map f ys) \<Longrightarrow> sort_key f xs = sort_key f ys"
  by (rule sort_key_inj_key_eq) (auto simp: distinct_map dest: mset_eq_setD)

lemma check_input_reorder:
  assumes "check_input inp = Inr ()" "mset cs = mset (causes inp)" "mset rs = mset (releases inp)"
  shows "check_input (inp\<lparr>causes := cs, releases := rs\<rparr>) = Inr ()"
proof -
  have sets: "set cs = set (causes inp)" "set rs = set (releases inp)" using assms by (metis set_mset_mset)+
  have "distinct (map (cause_id \<circ> cause_of) cs)" "distinct (map (release_id \<circ> release_of) rs)"
    using check_input_ok(3,4) [OF assms(1)] assms(2,3) by (metis mset_eq_imp_distinct_iff mset_map)+
  moreover have "delegationId inp \<noteq> []" "atInstant inp \<noteq> []"
    using assms(1) by (auto simp: check_input_def split: if_splits)
  moreover have "forE assertCauseShape cs = Inr ()" "forE assertReleaseShape rs = Inr ()"
    using check_input_ok(1,2) [OF assms(1)] sets by (simp_all add: forE_ok_iff)
  ultimately show ?thesis by (simp add: check_input_def first_repeat_None_iff)
qed

lemma pause_spec_reorder:
  assumes ok: "check_input inp = Inr ()" and m: "mset cs = mset (causes inp)" "mset rs = mset (releases inp)"
  shows "pause_spec C (inp\<lparr>causes := cs, releases := rs\<rparr>) = pause_spec C inp"
proof -
  let ?inp = "inp\<lparr>causes := cs, releases := rs\<rparr>"
  note ev = evidence_causes_mset [OF m(1), where C = C and rs = rs]
  have "mset (filter (\<lambda>c. \<not> released C inp c) (evidence_causes C ?inp)) = mset (filter (\<lambda>c. \<not> released C inp c) (evidence_causes C inp))"
    using ev by (simp add: mset_filter)
  then have left: "left_standing C ?inp = left_standing C inp"
    unfolding left_standing_def released_reorder [OF m(2)]
    by (rule sort_key_perm) (rule distinct_map_filter [OF evidence_distinct [OF ok]])
  have "cs = [] \<longleftrightarrow> causes inp = []" using m(1) by (metis mset_zero_iff)
  moreover have "evidence_causes C ?inp = [] \<longleftrightarrow> evidence_causes C inp = []" using ev by (metis mset_zero_iff)
  moreover have "set (evidence_causes C ?inp) = set (evidence_causes C inp)" using ev by (metis set_mset_mset)
  ultimately show ?thesis unfolding pause_spec_def left released_reorder [OF m(2)] by simp
qed

lemma record_entries_source:
  "map_of (fst (foldl (record_entry rid) acc es)) cid = Some x \<Longrightarrow> map_of (fst acc) cid = Some x
     \<or> x = rid \<and> (\<exists>e \<in> set es. rcd_cause_id e = cid \<and> rcd_disposition e = CAUSE_RELEASED)"
proof (induction es arbitrary: acc)
  case (Cons e es)
  have "map_of (fst (record_entry rid acc e)) cid = Some x \<Longrightarrow> map_of (fst acc) cid = Some x
      \<or> x = rid \<and> rcd_cause_id e = cid \<and> rcd_disposition e = CAUSE_RELEASED"
    by (auto simp: record_entry_def map_add_def split: option.splits if_splits)
  with Cons.IH [of "record_entry rid acc e"] Cons.prems show ?case by auto
qed simp

lemma collect_source_acc:
  "map_of (fst (foldl (\<lambda>acc d. foldl (record_entry (rd_release_id d)) acc (rd_causes d)) acc ds)) cid = Some x \<Longrightarrow>
     map_of (fst acc) cid = Some x \<or> (\<exists>d \<in> set ds. rd_release_id d = x
       \<and> (\<exists>e \<in> set (rd_causes d). rcd_cause_id e = cid \<and> rcd_disposition e = CAUSE_RELEASED))"
proof (induction ds arbitrary: acc)
  case (Cons d ds)
  show ?case
    using Cons.IH [of "foldl (record_entry (rd_release_id d)) acc (rd_causes d)"] Cons.prems
      record_entries_source [of "rd_release_id d" acc "rd_causes d" cid x] by auto
qed simp

lemma collect_source:
  "map_of (fst (collect ds)) cid = Some x \<Longrightarrow> \<exists>d \<in> set ds. rd_release_id d = x
     \<and> (\<exists>e \<in> set (rd_causes d). rcd_cause_id e = cid \<and> rcd_disposition e = CAUSE_RELEASED)"
  using collect_source_acc [of "([], [])" ds cid x] by (simp add: collect_def)

lemma disposeRelease_id: "disposeRelease C inp ev r = Inr d \<Longrightarrow> rd_release_id d = release_id r"
  by (auto simp: disposeRelease_def bindE_Inr_iff split: if_splits)

lemma releasing_record:
  assumes ok: "check_input inp = Inr ()" and ans: "standing_answers inp"
    and rds: "mapE (disposeRelease C inp (evidence_map (evidence_causes C inp))) (map release_of (releases inp)) = Inr rds"
    and cid: "map_of (fst (collect rds)) cid = Some rid"
  shows "\<exists>j \<in> set (releases inp). \<exists>c \<in> set (evidence_causes C inp). release_id (release_of j) = rid \<and> cause_id c = cid
    \<and> speaks_to C inp ''has_standing'' (release_of j) c"
proof -
  let ?ev = "evidence_map (evidence_causes C inp)"
  obtain d where d: "d \<in> set rds" "rd_release_id d = rid"
    "\<exists>e \<in> set (rd_causes d). rcd_cause_id e = cid \<and> rcd_disposition e = CAUSE_RELEASED"
    using collect_source [OF cid] by blast
  from mapE_source [OF rds d(1)] obtain j where
    j: "j \<in> set (releases inp)" "disposeRelease C inp ?ev (release_of j) = Inr d" by auto
  from disposeRelease_entries [OF j(2)] d(3)
  have "release_level C inp (release_of j) = RELEASE_IN_EVIDENCE" "cid \<in> set (cause_ids (release_of j))"
    "dispose_named inp ?ev (release_of j) cid = Some CAUSE_RELEASED" by blast+
  then have "\<exists>c \<in> set (evidence_causes C inp). cause_id c = cid \<and> speaks_to C inp ''has_standing'' (release_of j) c"
    unfolding dispose_named_iff(1) [OF ans] evidence_map_iff [OF ok] speaks_to_def by blast
  moreover have "release_id (release_of j) = rid" using disposeRelease_id [OF j(2)] d(2) by simp
  ultimately show ?thesis using j(1) by blast
qed

lemma pause_spec_valid: "verdict (pause_spec C inp) = V_valid \<longleftrightarrow> (\<forall>c \<in> set (evidence_causes C inp). released C inp c)"
proof -
  have "left_standing C inp = [] \<longleftrightarrow> (\<forall>c \<in> set (evidence_causes C inp). released C inp c)"
    by (auto simp: left_standing_def filter_empty_conv dest!: arg_cong [where f = set])
  then show ?thesis by (auto simp: pause_spec_def doubted_def)
qed

section \<open>A pause and its release\<close>

definition sample_cause_record :: "string \<Rightarrow> string \<Rightarrow> json" where
  "sample_cause_record cid k = JObj [(''record_type'', JStr SUSPENSION_CAUSE_TYPE), (''cause_id'', JStr cid),
     (''delegation_id'', JStr ''d1''), (''kind'', JStr k), (''imposed_by'', JStr ''did:ops''),
     (''issued_at'', JStr ''2026-01-01''), (''reason_code'', JStr ''REVIEW''), (''verification_method'', JStr ''did:ops#k''),
     (''signature'', JStr (sample_sign [] ''key''))]"

definition sample_release_record :: "string \<Rightarrow> string list \<Rightarrow> json" where
  "sample_release_record rid cids = JObj [(''record_type'', JStr SUSPENSION_RELEASE_TYPE), (''release_id'', JStr rid),
     (''delegation_id'', JStr ''d1''), (''cause_ids'', JArr (map JStr cids)), (''issuer'', JStr ''did:ops''),
     (''issued_at'', JStr ''2026-02-01''), (''verification_method'', JStr ''did:ops#k''),
     (''signature'', JStr (sample_sign [] ''key''))]"

definition sample_pause :: PauseStateInput where
  "sample_pause = \<lparr>delegationId = ''d1'',
     causes = [sample_cause_record ''c2'' ''restriction'', sample_cause_record ''c1'' ''suspension''],
     releases = [sample_release_record ''r1'' [''c1'']], atInstant = ''2026-03-01'',
     resolveReleaseStanding = (\<lambda>_ _. ''has_standing''), resolveSuspensionKey = (\<lambda>_ _. Some ''key'')\<rparr>"

lemma sample_cause_shape:
  "cid \<noteq> [] \<Longrightarrow> k \<in> set PAUSE_KINDS \<Longrightarrow> assertCauseShape (sample_cause_record cid k) = None"
  by (simp add: assertCauseShape_def own_members_def sample_cause_record_def CAUSE_FIELDS_def get_defs
      isNonEmptyString_def SUSPENSION_CAUSE_TYPE_def sample_sign_def)

lemma sample_release_shape:
  "rid \<noteq> [] \<Longrightarrow> [] \<notin> set cids \<Longrightarrow> assertReleaseShape (sample_release_record rid cids) = None"
  by (auto simp add: assertReleaseShape_def own_members_def sample_release_record_def RELEASE_FIELDS_def get_defs
      isNonEmptyString_def SUSPENSION_RELEASE_TYPE_def sample_sign_def list_all_iff)

lemma sample_views:
  "cause_id (cause_of (sample_cause_record cid k)) = cid" "cause_kind (cause_of (sample_cause_record cid k)) = k"
  "release_id (release_of (sample_release_record rid cids)) = rid"
  "cause_ids (release_of (sample_release_record rid cids)) = cids"
  by (simp_all add: cause_of_def release_of_def own_members_def sample_cause_record_def sample_release_record_def
      str_at_def get_strs_def get_defs list_all_iff comp_def)

lemma sample_pause_input: "check_input sample_pause = Inr ()"
proof -
  have "forE assertCauseShape (causes sample_pause) = Inr ()" "forE assertReleaseShape (releases sample_pause) = Inr ()"
    by (simp_all add: sample_pause_def sample_cause_shape sample_release_shape PAUSE_KINDS_def)
  moreover have "map (cause_id \<circ> cause_of) (causes sample_pause) = [''c2'', ''c1'']"
    "map (release_id \<circ> release_of) (releases sample_pause) = [''r1'']"
    by (simp_all add: sample_pause_def sample_views)
  ultimately show ?thesis by (simp add: check_input_def) (simp add: sample_pause_def)
qed

lemma sample_pause_answers: "standing_answers sample_pause"
  by (simp add: standing_answers_def sample_pause_def RELEASE_STANDINGS_def)

lemma sample_pause_result: "evaluatePauseState sample_crypto sample_pause =
   Inr \<lparr>verdict = V_restricted, reason_code = ''CAUSES_OUTSTANDING'', missing = None, applied_default = None,
     outstanding = Some [\<lparr>outstanding_id = ''c2'', outstanding_kind = ''restriction'', outstanding_reason = ''REVIEW''\<rparr>]\<rparr>"
  by code_simp

section \<open>Properties\<close>

text \<open>C23. On well-shaped input with distinct identifiers and a standing resolver that answers inside
  its vocabulary, the evaluation returns, and returns what the declarative reading says:
  not established when some cause in evidence has only a release of unknown standing,
  otherwise valid when every cause in evidence is released, otherwise suspended or
  restricted with the unreleased causes in identifier order.\<close>

theorem pause_evaluation_correct:
  assumes "check_input inp = Inr ()" and "standing_answers inp"
  shows "evaluatePauseState C inp = Inr (pause_spec C inp)"
  using assms by (rule evaluatePauseState_ok)

theorem pause_evaluation_correct_witness:
  "evaluatePauseState sample_crypto sample_pause = Inr (pause_spec sample_crypto sample_pause)"
  by (rule pause_evaluation_correct [OF sample_pause_input sample_pause_answers])

text \<open>A pause lifts only cause by cause: the view is valid exactly when every cause in evidence is
  named by an accepted release with standing over it that does not predate it.\<close>

theorem pause_lifts_cause_by_cause:
  assumes "check_input inp = Inr ()" and "standing_answers inp"
  shows "\<exists>st. evaluatePauseState C inp = Inr st \<and>
    (verdict st = V_valid \<longleftrightarrow> (\<forall>c \<in> set (evidence_causes C inp). \<exists>j \<in> set (releases inp).
       release_level C inp (release_of j) = RELEASE_IN_EVIDENCE \<and> cause_id c \<in> set (cause_ids (release_of j))
       \<and> cause_issued_at c \<le> release_issued_at (release_of j)
       \<and> resolveReleaseStanding inp (release_of j) c = ''has_standing''))"
  using evaluatePauseState_ok [OF assms, of C] pause_spec_valid [of C inp] unfolding released_def speaks_to_def by auto

theorem pause_lifts_cause_by_cause_witness:
  "\<not> (\<forall>c \<in> set (evidence_causes sample_crypto sample_pause). \<exists>j \<in> set (releases sample_pause).
     release_level sample_crypto sample_pause (release_of j) = RELEASE_IN_EVIDENCE \<and> cause_id c \<in> set (cause_ids (release_of j))
     \<and> cause_issued_at c \<le> release_issued_at (release_of j)
     \<and> resolveReleaseStanding sample_pause (release_of j) c = ''has_standing'')"
  using pause_lifts_cause_by_cause [OF sample_pause_input sample_pause_answers, of sample_crypto]
  unfolding sample_pause_result by auto

text \<open>The order of the causes and of the releases in the input does not change the result.\<close>

theorem pause_order_irrelevant:
  assumes "check_input inp = Inr ()" and "standing_answers inp"
    and "mset cs = mset (causes inp)" and "mset rs = mset (releases inp)"
  shows "evaluatePauseState C (inp\<lparr>causes := cs, releases := rs\<rparr>) = evaluatePauseState C inp"
proof -
  have "standing_answers (inp\<lparr>causes := cs, releases := rs\<rparr>)" using assms(2) by (simp add: standing_answers_def)
  then show ?thesis
    using evaluatePauseState_ok check_input_reorder [OF assms(1,3,4)] pause_spec_reorder [OF assms(1,3,4)] assms(1,2)
    by simp
qed

theorem pause_order_irrelevant_witness:
  "evaluatePauseState sample_crypto (sample_pause\<lparr>causes := rev (causes sample_pause), releases := releases sample_pause\<rparr>)
   = evaluatePauseState sample_crypto sample_pause"
  by (rule pause_order_irrelevant [OF sample_pause_input sample_pause_answers]) simp_all

text \<open>The evaluation never fails inside the lifecycle constructor: whatever it throws is about the
  caller's records or the standing resolver's answer.\<close>

theorem pause_throws_only_input_errors:
  "evaluatePauseState C inp \<noteq> Inl (State_error e)"
proof
  assume err: "evaluatePauseState C inp = Inl (State_error e)"
  have chk: "check_input inp \<noteq> Inl (State_error e)"
    by (auto simp: check_input_def bindE_Inl_iff assertCauseShape_def assertReleaseShape_def
        split: if_splits option.splits dest!: forE_Inl)
  let ?ev = "evidence_causes C inp"
  have "\<exists>r. pause_verdict inp ?ev un (sort_key cause_id (filter P ?ev)) = Inr r" if "check_input inp = Inr ()" for un P
    by (rule pause_verdict_total [OF that]) auto
  with err chk show False
    by (auto simp: evaluatePauseState_def explainPauseState_def bindE_Inl_iff Let_def case_prod_beta
        dest: mapE_disposeRelease_Inl) (metis Inl_Inr_False)
qed

text \<open>The explanation names real evidence: a cause reported as released carries the identifier of
  a presented release that was accepted, names that cause, does not predate it, and whose
  issuer has standing over it.\<close>

theorem pause_explanation_names_the_release:
  assumes "check_input inp = Inr ()" and "standing_answers inp" and "explainPauseState C inp = Inr e"
    and "d \<in> set (explained_causes e)" and "released_by d = Some rid"
  shows "cd_disposition d = CAUSE_RELEASED \<and> (\<exists>j \<in> set (releases inp). \<exists>c \<in> set (evidence_causes C inp).
    release_id (release_of j) = rid \<and> cause_id c = cd_cause_id d \<and> speaks_to C inp ''has_standing'' (release_of j) c)"
proof -
  obtain rds where rds: "mapE (disposeRelease C inp (evidence_map (evidence_causes C inp))) (map release_of (releases inp)) = Inr rds"
    and e: "explained_causes e = map (final_cause (fst (collect rds)) \<circ> disposeCause C inp \<circ> cause_of) (causes inp)"
    by (rule explainPauseState_ok [OF assms(1,2), of C]) (use assms(3) in auto)
  from assms(4) e obtain j where d: "d = final_cause (fst (collect rds)) (disposeCause C inp (cause_of j))" by auto
  have none: "released_by (disposeCause C inp (cause_of j)) = None" by (simp add: disposeCause_def)
  have "map_of (fst (collect rds)) (cd_cause_id d) = Some rid \<and> cd_disposition d = CAUSE_RELEASED"
    using assms(5) none unfolding d final_cause_def by (auto split: option.splits if_splits)
  with releasing_record [OF assms(1,2) rds] show ?thesis by blast
qed

theorem pause_explanation_names_the_release_witness:
  "\<exists>j \<in> set (releases sample_pause). \<exists>c \<in> set (evidence_causes sample_crypto sample_pause).
    release_id (release_of j) = ''r1'' \<and> cause_id c = ''c1'' \<and> speaks_to sample_crypto sample_pause ''has_standing'' (release_of j) c"
proof -
  let ?d = "\<lparr>cd_cause_id = ''c1'', cd_disposition = CAUSE_RELEASED, released_by = Some ''r1''\<rparr>"
  obtain e where e: "explainPauseState sample_crypto sample_pause = Inr e"
    by (rule explainPauseState_ok [OF sample_pause_input sample_pause_answers, of sample_crypto]) blast
  have "map_option explained_causes (case explainPauseState sample_crypto sample_pause of Inl _ \<Rightarrow> None | Inr e \<Rightarrow> Some e)
      = Some [\<lparr>cd_cause_id = ''c2'', cd_disposition = CAUSE_IN_EVIDENCE, released_by = None\<rparr>, ?d]"
    by code_simp
  then have "?d \<in> set (explained_causes e)" unfolding e by simp
  from pause_explanation_names_the_release [OF sample_pause_input sample_pause_answers e this]
  show ?thesis by simp
qed

end
