(* ===== verification/Status_Coverage.thy ===== *)
theory Status_Coverage
  imports Lifecycle_State Rfc3339
begin

text \<open>
  \<^verbatim>\<open>src/v2/status-coverage/\<close>: what an authorization boundary establishes from a set of status
  answers, each measured against the freshness bound declared for its own source.

  Instants are parsed by the strict parser of \<open>Rfc3339\<close> and the artifact state is built by
  the validating constructor of \<open>Lifecycle_State\<close>, whose refusal is the error
  \<open>Status_state_error\<close>.  A source identifier that is missing or not a string is the empty
  string, which the code refuses with the same error; an argument that is null, or not an
  array where an array is wanted, is \<open>None\<close>; a member may be undefined (\<open>None\<close>) or null.
\<close>

section \<open>Vocabulary\<close>

datatype StatusAnswer = A_active | A_revoked | A_unavailable

definition STATUS_ANSWERS :: "(string \<times> StatusAnswer) list" where
  "STATUS_ANSWERS = [(''active'', A_active), (''revoked'', A_revoked), (''unavailable'', A_unavailable)]"

definition DETERMINATE_STATUS_ANSWERS :: "StatusAnswer list" where
  "DETERMINATE_STATUS_ANSWERS = [A_active, A_revoked]"

datatype SilencePolicy = Coverage_gap | Unavailable_answer
datatype VerifierMode = Online | Offline
datatype ConflictPolicy = Deny_with_conflict | Conflict_not_established

datatype StatusUseBasis =
    Within_freshness_bound | Revocation_observed_outside_bound_still_used | Stale_active_admitted_by_policy
  | Stale_beyond_bound | Source_gave_no_answer | Answer_dated_after_boundary | Source_not_accepted

datatype CoverageDenominator = Declared_required_set | Sources_that_answered

datatype StatusCoverageReasonCode =
    STATUS_ACTIVE_ALL_SOURCES_AGREE | ADMITTED_ON_SNAPSHOT_WITHIN_DECLARED_BOUND | STATUS_REVOKED
  | STATUS_SOURCES_CONFLICT | STATUS_STALE_BEYOND_BOUND | STATUS_COVERAGE_INCOMPLETE | STATUS_NO_USABLE_OBSERVATION

fun status_code_name :: "StatusCoverageReasonCode \<Rightarrow> string" where
  "status_code_name STATUS_ACTIVE_ALL_SOURCES_AGREE = ''STATUS_ACTIVE_ALL_SOURCES_AGREE''"
| "status_code_name ADMITTED_ON_SNAPSHOT_WITHIN_DECLARED_BOUND = ''ADMITTED_ON_SNAPSHOT_WITHIN_DECLARED_BOUND''"
| "status_code_name STATUS_REVOKED = ''STATUS_REVOKED''"
| "status_code_name STATUS_SOURCES_CONFLICT = ''STATUS_SOURCES_CONFLICT''"
| "status_code_name STATUS_STALE_BEYOND_BOUND = ''STATUS_STALE_BEYOND_BOUND''"
| "status_code_name STATUS_COVERAGE_INCOMPLETE = ''STATUS_COVERAGE_INCOMPLETE''"
| "status_code_name STATUS_NO_USABLE_OBSERVATION = ''STATUS_NO_USABLE_OBSERVATION''"

record DeclaredStatusSource =
  declared_source_id :: string
  declared_freshness_bound_s :: rat

record StatusAnswerInput =
  answer_source_id :: string
  answer_text :: string
  answer_as_of :: "json option"

record RequiredSourceSet =
  required_set :: "DeclaredStatusSource list"
  silence_text :: string

record SnapshotSource =
  snapshot_source_id :: string
  snapshot_declared_bound_s :: rat

record StatusTrustPolicy =
  mode_text :: string
  source_set :: "RequiredSourceSet option"
  snapshot_source :: "SnapshotSource option option"

record StaleAnswerPolicy =
  stale_revoked_still_counts :: bool
  stale_active_still_counts :: bool

record MultiSourceStatusInput =
  authority_ref :: string
  trustPolicy :: "StatusTrustPolicy option"
  answers :: "StatusAnswerInput list option"
  conflict_text :: string
  stalePolicy :: "StaleAnswerPolicy option"
  status_now :: json

record StatusSourceLine =
  line_source_id :: string
  line_answer :: StatusAnswer
  line_as_of :: "string option"
  age_s :: "int option"
  freshness_bound_s :: "int option"
  within_bound :: bool
  used :: bool
  use_basis :: StatusUseBasis

record StatusConflict =
  conflict_states :: "StatusAnswer list"
  conflict_sources :: "string list"

record StatusCoverage =
  cov_required :: nat
  cov_answered :: nat
  usable_determinate :: nat
  cov_silent :: "string list"
  measured_over :: CoverageDenominator
  cov_complete :: bool

record AdmittedSnapshot =
  admitted_source_id :: string
  admitted_as_of :: "string option"
  admitted_age_s :: "int option"
  admitted_declared_bound_s :: int

record MultiSourceStatusBasis =
  basis_authority_ref :: string
  evaluated_at :: json
  verifier_mode :: VerifierMode
  required_sources :: "string list"
  sources_consulted :: "StatusSourceLine list"
  sources_silent :: "string list"
  coverage :: StatusCoverage
  conflict :: "StatusConflict option"
  snapshot :: "AdmittedSnapshot option"
  basis_conflict_policy :: ConflictPolicy
  basis_stale_policy :: StaleAnswerPolicy
  basis_silence_is :: SilencePolicy

record MultiSourceStatusDecision =
  outcome :: BoundaryOutcome
  lifecycle :: LifecycleStateResult
  decision_reason :: StatusCoverageReasonCode
  basis :: MultiSourceStatusBasis

datatype StatusCoverageError =
    INSTANT_INVALID | BOUND_INVALID | FIELD_INVALID | INPUT_INVALID | MODE_UNKNOWN | SILENCE_POLICY_REQUIRED
  | REQUIRED_SET_EMPTY | CONFLICT_POLICY_REQUIRED | STALE_POLICY_REQUIRED | SOURCE_DECLARED_TWICE
  | SNAPSHOT_SOURCE_REQUIRED | SNAPSHOT_SOURCE_ALSO_REQUIRED | SNAPSHOT_SOURCE_NOT_ALLOWED
  | SOURCE_ANSWERED_TWICE | ANSWER_UNKNOWN | UNAVAILABLE_CARRIES_AS_OF | Status_state_error LifecycleStateError

type_synonym 'a deciding = "(StatusCoverageError, 'a) result"

section \<open>Input checks\<close>

definition requireInstant :: "json option \<Rightarrow> int deciding" where
  "requireInstant v = (case v of
     None \<Rightarrow> Inl INSTANT_INVALID
   | Some j \<Rightarrow> (case parseRfc3339 j of Inl _ \<Rightarrow> Inl INSTANT_INVALID | Inr ms \<Rightarrow> Inr ms))"

definition requireWholeSecondBound :: "rat \<Rightarrow> int deciding" where
  "requireWholeSecondBound v =
     (if snd (quotient_of v) = 1 \<and> \<bar>v\<bar> \<le> of_int MAX_SAFE_INTEGER \<and> \<not> v < 0 then Inr (fst (quotient_of v))
      else Inl BOUND_INVALID)"

definition requireNonEmptyString :: "string \<Rightarrow> string deciding" where
  "requireNonEmptyString s = (if s = [] then Inl FIELD_INVALID else Inr s)"

definition isStatusAnswer :: "string \<Rightarrow> StatusAnswer option" where
  "isStatusAnswer s = map_of STATUS_ANSWERS s"

text \<open>What the checks establish before the first answer is read.\<close>

record StatusContext =
  ctx_now :: int
  ctx_mode :: VerifierMode
  ctx_bounds :: "(string \<times> int) list"
  ctx_snapshot :: "(string \<times> int) option"
  ctx_silence :: SilencePolicy
  ctx_conflict :: ConflictPolicy
  ctx_stale :: StaleAnswerPolicy

definition requiredIds :: "StatusContext \<Rightarrow> string list" where
  "requiredIds ctx = map fst (ctx_bounds ctx)"

fun declare_sources :: "(string \<times> int) list \<Rightarrow> DeclaredStatusSource list \<Rightarrow> (string \<times> int) list deciding" where
  "declare_sources bounds [] = Inr bounds"
| "declare_sources bounds (d # ds) =
     bindE (requireNonEmptyString (declared_source_id d)) (\<lambda>i.
       if map_of bounds i \<noteq> None then Inl SOURCE_DECLARED_TWICE
       else bindE (requireWholeSecondBound (declared_freshness_bound_s d)) (\<lambda>b.
         declare_sources (bounds @ [(i, b)]) ds))"

definition check_mode :: "string \<Rightarrow> VerifierMode deciding" where
  "check_mode s = (if s = ''online'' then Inr Online else if s = ''offline'' then Inr Offline else Inl MODE_UNKNOWN)"

definition check_silence :: "string \<Rightarrow> SilencePolicy deciding" where
  "check_silence s = (if s = ''coverage_gap'' then Inr Coverage_gap
     else if s = ''unavailable_answer'' then Inr Unavailable_answer else Inl SILENCE_POLICY_REQUIRED)"

definition check_conflict :: "string \<Rightarrow> ConflictPolicy deciding" where
  "check_conflict s = (if s = ''deny_with_conflict'' then Inr Deny_with_conflict
     else if s = ''not_established'' then Inr Conflict_not_established else Inl CONFLICT_POLICY_REQUIRED)"

definition check_snapshot ::
  "VerifierMode \<Rightarrow> (string \<times> int) list \<Rightarrow> SnapshotSource option option \<Rightarrow> (string \<times> int) option deciding" where
  "check_snapshot mode bounds snap = (case mode of
     Offline \<Rightarrow> (case snap of
         Some (Some s) \<Rightarrow> bindE (requireNonEmptyString (snapshot_source_id s)) (\<lambda>i.
           bindE (requireWholeSecondBound (snapshot_declared_bound_s s)) (\<lambda>b.
             if map_of bounds i \<noteq> None then Inl SNAPSHOT_SOURCE_ALSO_REQUIRED else Inr (Some (i, b))))
       | _ \<Rightarrow> Inl SNAPSHOT_SOURCE_REQUIRED)
   | Online \<Rightarrow> if snap \<noteq> None then Inl SNAPSHOT_SOURCE_NOT_ALLOWED else Inr None)"

definition check_status_input :: "MultiSourceStatusInput \<Rightarrow> StatusContext deciding" where
  "check_status_input inp =
     bindE (requireNonEmptyString (authority_ref inp)) (\<lambda>_.
     bindE (requireInstant (Some (status_now inp))) (\<lambda>nowMs.
     case trustPolicy inp of None \<Rightarrow> Inl INPUT_INVALID
     | Some policy \<Rightarrow>
       bindE (check_mode (mode_text policy)) (\<lambda>mode.
       case source_set policy of None \<Rightarrow> Inl INPUT_INVALID
       | Some sourceSet \<Rightarrow>
         bindE (check_silence (silence_text sourceSet)) (\<lambda>silence.
         if required_set sourceSet = [] then Inl REQUIRED_SET_EMPTY
         else bindE (check_conflict (conflict_text inp)) (\<lambda>conflictPolicy.
           case stalePolicy inp of None \<Rightarrow> Inl STALE_POLICY_REQUIRED
           | Some stale \<Rightarrow>
             bindE (declare_sources [] (required_set sourceSet)) (\<lambda>bounds.
             bindE (check_snapshot mode bounds (snapshot_source policy)) (\<lambda>snap.
               Inr \<lparr>ctx_now = nowMs, ctx_mode = mode, ctx_bounds = bounds, ctx_snapshot = snap, ctx_silence = silence,
                    ctx_conflict = conflictPolicy, ctx_stale = stale\<rparr>)))))))"

section \<open>Ageing the answers\<close>

text \<open>The bound that applies to a source, absent when the source is not accepted.\<close>

definition boundS :: "StatusContext \<Rightarrow> string \<Rightarrow> int option" where
  "boundS ctx i = (case ctx_snapshot ctx of
     Some (s, b) \<Rightarrow> if i = s then Some b else map_of (ctx_bounds ctx) i
   | None \<Rightarrow> map_of (ctx_bounds ctx) i)"

definition stale_use :: "StaleAnswerPolicy \<Rightarrow> StatusAnswer \<Rightarrow> bool \<times> StatusUseBasis" where
  "stale_use st a =
     (if a = A_revoked \<and> stale_revoked_still_counts st then (True, Revocation_observed_outside_bound_still_used)
      else if a = A_active \<and> stale_active_still_counts st then (True, Stale_active_admitted_by_policy)
      else (False, Stale_beyond_bound))"

definition use_of :: "StatusContext \<Rightarrow> StatusAnswer \<Rightarrow> int \<Rightarrow> int \<Rightarrow> bool \<times> StatusUseBasis" where
  "use_of ctx a bound ageS =
     (if ageS < 0 then (False, Answer_dated_after_boundary)
      else if ageS \<le> bound then (True, Within_freshness_bound)
      else stale_use (ctx_stale ctx) a)"

definition as_of_text :: "json option \<Rightarrow> string option" where
  "as_of_text v = (case v of Some (JStr s) \<Rightarrow> Some s | _ \<Rightarrow> None)"

definition source_line :: "StatusContext \<Rightarrow> StatusAnswerInput \<Rightarrow> StatusAnswer \<Rightarrow> StatusSourceLine deciding" where
  "source_line ctx supplied a = (let i = answer_source_id supplied in
     case boundS ctx i of
       None \<Rightarrow> Inr \<lparr>line_source_id = i, line_answer = a, line_as_of = as_of_text (answer_as_of supplied), age_s = None,
                  freshness_bound_s = None, within_bound = False, used = False, use_basis = Source_not_accepted\<rparr>
     | Some bound \<Rightarrow>
         if a = A_unavailable then
           (if answer_as_of supplied \<noteq> None \<and> answer_as_of supplied \<noteq> Some JNull then Inl UNAVAILABLE_CARRIES_AS_OF
            else Inr \<lparr>line_source_id = i, line_answer = a, line_as_of = None, age_s = None,
                  freshness_bound_s = Some bound, within_bound = False, used = False, use_basis = Source_gave_no_answer\<rparr>)
         else bindE (requireInstant (answer_as_of supplied)) (\<lambda>asOfMs.
           let ageS = (ctx_now ctx - asOfMs) div 1000
           in Inr \<lparr>line_source_id = i, line_answer = a, line_as_of = as_of_text (answer_as_of supplied), age_s = Some ageS,
                freshness_bound_s = Some bound, within_bound = 0 \<le> ageS \<and> ageS \<le> bound, used = fst (use_of ctx a bound ageS),
                use_basis = snd (use_of ctx a bound ageS)\<rparr>))"

fun source_lines :: "StatusContext \<Rightarrow> string list \<Rightarrow> StatusAnswerInput list \<Rightarrow> StatusSourceLine list deciding" where
  "source_lines ctx seen [] = Inr []"
| "source_lines ctx seen (supplied # rest) =
     bindE (requireNonEmptyString (answer_source_id supplied)) (\<lambda>i.
       if i \<in> set seen then Inl SOURCE_ANSWERED_TWICE
       else case isStatusAnswer (answer_text supplied) of
           None \<Rightarrow> Inl ANSWER_UNKNOWN
         | Some a \<Rightarrow> bindE (source_line ctx supplied a) (\<lambda>l.
             bindE (source_lines ctx (i # seen) rest) (\<lambda>ls. Inr (l # ls))))"

section \<open>Coverage and the decision\<close>

definition line_by_id :: "StatusSourceLine list \<Rightarrow> string \<Rightarrow> StatusSourceLine option" where
  "line_by_id ls i = map_of (map (\<lambda>l. (line_source_id l, l)) ls) i"

definition silent :: "StatusContext \<Rightarrow> StatusSourceLine list \<Rightarrow> string list" where
  "silent ctx ls = sort (filter (\<lambda>i. line_by_id ls i = None) (requiredIds ctx))"

definition answeredRequired :: "StatusContext \<Rightarrow> StatusSourceLine list \<Rightarrow> string list" where
  "answeredRequired ctx ls = filter (\<lambda>i. line_by_id ls i \<noteq> None) (requiredIds ctx)"

definition usableRequired :: "StatusContext \<Rightarrow> StatusSourceLine list \<Rightarrow> string list" where
  "usableRequired ctx ls = filter (\<lambda>i. case line_by_id ls i of None \<Rightarrow> False
     | Some l \<Rightarrow> used l \<and> line_answer l \<noteq> A_unavailable) (requiredIds ctx)"

definition coverage_of :: "StatusContext \<Rightarrow> StatusSourceLine list \<Rightarrow> StatusCoverage" where
  "coverage_of ctx ls =
     (let measured = (if ctx_silence ctx = Coverage_gap then Declared_required_set else Sources_that_answered);
          denominator = (if measured = Declared_required_set then length (requiredIds ctx) else length (answeredRequired ctx ls))
      in \<lparr>cov_required = length (requiredIds ctx), cov_answered = length (answeredRequired ctx ls),
          usable_determinate = length (usableRequired ctx ls), cov_silent = silent ctx ls, measured_over = measured,
          cov_complete = 0 < denominator \<and> length (usableRequired ctx ls) = denominator\<rparr>)"

definition usedDeterminate :: "StatusSourceLine list \<Rightarrow> StatusSourceLine list" where
  "usedDeterminate ls = filter (\<lambda>l. used l \<and> line_answer l \<noteq> A_unavailable) ls"

definition usedStates :: "StatusSourceLine list \<Rightarrow> StatusAnswer list" where
  "usedStates ls = filter (\<lambda>a. a \<in> set (map line_answer (usedDeterminate ls))) DETERMINATE_STATUS_ANSWERS"

definition is_stale :: "StatusSourceLine \<Rightarrow> bool" where
  "is_stale l \<longleftrightarrow> use_basis l = Stale_beyond_bound \<or> use_basis l = Answer_dated_after_boundary"

definition missingLimbs :: "StatusContext \<Rightarrow> StatusSourceLine list \<Rightarrow> bool \<Rightarrow> EstablishmentGap list" where
  "missingLimbs ctx ls conflicted =
     (if conflicted \<or> usedDeterminate ls = [] then [G_source] else [])
     @ (if list_ex is_stale ls then [G_freshness] else [])
     @ (if cov_complete (coverage_of ctx ls) then [] else [G_coverage])"

definition makeBasis :: "MultiSourceStatusInput \<Rightarrow> StatusContext \<Rightarrow> StatusSourceLine list \<Rightarrow> StatusConflict option
    \<Rightarrow> AdmittedSnapshot option \<Rightarrow> MultiSourceStatusBasis" where
  "makeBasis inp ctx ls confl snap =
     \<lparr>basis_authority_ref = authority_ref inp, evaluated_at = status_now inp, verifier_mode = ctx_mode ctx,
      required_sources = requiredIds ctx, sources_consulted = ls, sources_silent = silent ctx ls,
      coverage = coverage_of ctx ls, conflict = confl, snapshot = snap, basis_conflict_policy = ctx_conflict ctx,
      basis_stale_policy = ctx_stale ctx, basis_silence_is = ctx_silence ctx\<rparr>"

definition decide :: "BoundaryOutcome \<Rightarrow> (LifecycleStateError, LifecycleStateResult) result \<Rightarrow> StatusCoverageReasonCode
    \<Rightarrow> MultiSourceStatusBasis \<Rightarrow> MultiSourceStatusDecision deciding" where
  "decide out lc rc b = (case lc of
     Inl e \<Rightarrow> Inl (Status_state_error e)
   | Inr l \<Rightarrow> Inr \<lparr>outcome = out, lifecycle = l, decision_reason = rc, basis = b\<rparr>)"

definition decide_conflict :: "MultiSourceStatusInput \<Rightarrow> StatusContext \<Rightarrow> StatusSourceLine list \<Rightarrow> MultiSourceStatusDecision deciding" where
  "decide_conflict inp ctx ls =
     decide (if ctx_conflict ctx = Deny_with_conflict then B_denied else B_not_established)
       (notEstablished (missingLimbs ctx ls True) (status_code_name STATUS_SOURCES_CONFLICT)) STATUS_SOURCES_CONFLICT
       (makeBasis inp ctx ls (Some \<lparr>conflict_states = usedStates ls,
          conflict_sources = sort (map line_source_id (usedDeterminate ls))\<rparr>) None)"

definition decide_unestablished :: "MultiSourceStatusInput \<Rightarrow> StatusContext \<Rightarrow> StatusSourceLine list \<Rightarrow> StatusCoverageReasonCode
    \<Rightarrow> MultiSourceStatusDecision deciding" where
  "decide_unestablished inp ctx ls rc =
     decide B_not_established (notEstablished (missingLimbs ctx ls False) (status_code_name rc)) rc (makeBasis inp ctx ls None None)"

definition decide_plain :: "MultiSourceStatusInput \<Rightarrow> StatusContext \<Rightarrow> StatusSourceLine list \<Rightarrow> BoundaryOutcome \<Rightarrow> LifecycleVerdict
    \<Rightarrow> StatusCoverageReasonCode \<Rightarrow> AdmittedSnapshot option \<Rightarrow> MultiSourceStatusDecision deciding" where
  "decide_plain inp ctx ls out v rc snap =
     decide out (lifecycleState (plain_state v (status_code_name rc))) rc (makeBasis inp ctx ls None snap)"

definition decide_offline :: "MultiSourceStatusInput \<Rightarrow> StatusContext \<Rightarrow> StatusSourceLine list \<Rightarrow> MultiSourceStatusDecision deciding" where
  "decide_offline inp ctx ls =
     (let snapLine = (case ctx_snapshot ctx of None \<Rightarrow> None | Some (i, _) \<Rightarrow> line_by_id ls i);
          snapBound = (case ctx_snapshot ctx of None \<Rightarrow> 0 | Some (_, b) \<Rightarrow> b) in
      case snapLine of
        None \<Rightarrow> decide_unestablished inp ctx ls STATUS_NO_USABLE_OBSERVATION
      | Some l \<Rightarrow>
          if used l \<and> line_answer l = A_active then
            decide_plain inp ctx ls B_authorized V_valid ADMITTED_ON_SNAPSHOT_WITHIN_DECLARED_BOUND
              (Some \<lparr>admitted_source_id = line_source_id l, admitted_as_of = line_as_of l, admitted_age_s = age_s l,
                     admitted_declared_bound_s = snapBound\<rparr>)
          else if is_stale l then decide_unestablished inp ctx ls STATUS_STALE_BEYOND_BOUND
          else decide_unestablished inp ctx ls STATUS_NO_USABLE_OBSERVATION)"

definition blockingStale :: "StatusContext \<Rightarrow> StatusSourceLine list \<Rightarrow> bool" where
  "blockingStale ctx ls = list_ex (\<lambda>i. case line_by_id ls i of None \<Rightarrow> False | Some l \<Rightarrow> is_stale l) (requiredIds ctx)"

definition decide_online :: "MultiSourceStatusInput \<Rightarrow> StatusContext \<Rightarrow> StatusSourceLine list \<Rightarrow> MultiSourceStatusDecision deciding" where
  "decide_online inp ctx ls =
     (if cov_complete (coverage_of ctx ls) \<and> usedStates ls = [A_active]
      then decide_plain inp ctx ls B_authorized V_valid STATUS_ACTIVE_ALL_SOURCES_AGREE None
      else decide_unestablished inp ctx ls
        (if usedDeterminate ls = [] then STATUS_NO_USABLE_OBSERVATION
         else if silent ctx ls \<noteq> [] \<and> measured_over (coverage_of ctx ls) = Declared_required_set then STATUS_COVERAGE_INCOMPLETE
         else if blockingStale ctx ls then STATUS_STALE_BEYOND_BOUND
         else STATUS_COVERAGE_INCOMPLETE))"

definition decide_lines :: "MultiSourceStatusInput \<Rightarrow> StatusContext \<Rightarrow> StatusSourceLine list \<Rightarrow> MultiSourceStatusDecision deciding" where
  "decide_lines inp ctx ls =
     (if 1 < length (usedStates ls) then decide_conflict inp ctx ls
      else if usedStates ls = [A_revoked] then decide_plain inp ctx ls B_denied V_invalid STATUS_REVOKED None
      else if ctx_mode ctx = Offline then decide_offline inp ctx ls
      else decide_online inp ctx ls)"

definition decideMultiSourceStatus :: "MultiSourceStatusInput \<Rightarrow> MultiSourceStatusDecision deciding" where
  "decideMultiSourceStatus inp =
     bindE (check_status_input inp) (\<lambda>ctx.
       case answers inp of None \<Rightarrow> Inl INPUT_INVALID
       | Some as \<Rightarrow> bindE (source_lines ctx [] as) (\<lambda>ls. decide_lines inp ctx ls))"

section \<open>Lines\<close>

definition stale_counts :: "StatusContext \<Rightarrow> StatusAnswer \<Rightarrow> bool" where
  "stale_counts ctx a \<longleftrightarrow> a = A_revoked \<and> stale_revoked_still_counts (ctx_stale ctx)
     \<or> a = A_active \<and> stale_active_still_counts (ctx_stale ctx)"

text \<open>An answer the decision may use: a determinate one from an accepted source, not dated after the
  boundary, within the source's bound or of a kind that still counts when stale.\<close>

definition usable :: "StatusContext \<Rightarrow> StatusSourceLine \<Rightarrow> bool" where
  "usable ctx l \<longleftrightarrow> line_answer l \<noteq> A_unavailable \<and> (\<exists>b n. boundS ctx (line_source_id l) = Some b \<and> age_s l = Some n
     \<and> 0 \<le> n \<and> (n \<le> b \<or> stale_counts ctx (line_answer l)))"

lemma source_line_id:
  "source_line ctx s a = Inr l \<Longrightarrow> line_source_id l = answer_source_id s \<and> line_answer l = a"
  by (auto simp: source_line_def Let_def bindE_Inr_iff split: option.splits if_splits prod.splits)

lemma source_line_age:
  assumes "source_line ctx s a = Inr l" "age_s l = Some n"
  shows "\<exists>ms. requireInstant (answer_as_of s) = Inr ms \<and> n = (ctx_now ctx - ms) div 1000"
  using assms by (auto simp: source_line_def Let_def bindE_Inr_iff split: option.splits if_splits prod.splits)

lemma source_line_dated:
  assumes "source_line ctx s a = Inr l" "boundS ctx (answer_source_id s) = Some b" "a \<noteq> A_unavailable"
  shows "\<exists>n. age_s l = Some n \<and> used l = fst (use_of ctx a b n) \<and> use_basis l = snd (use_of ctx a b n)"
  using assms by (auto simp: source_line_def Let_def bindE_Inr_iff)

lemma source_line_used:
  assumes l: "source_line ctx s a = Inr l"
  shows "used l \<longleftrightarrow> usable ctx l"
    and "is_stale l \<longleftrightarrow> a \<noteq> A_unavailable \<and> boundS ctx (answer_source_id s) \<noteq> None \<and> \<not> usable ctx l"
proof -
  note ids = source_line_id [OF l]
  consider (unaccepted) "boundS ctx (answer_source_id s) = None" | (silent) b where "boundS ctx (answer_source_id s) = Some b" "a = A_unavailable"
    | (dated) b where "boundS ctx (answer_source_id s) = Some b" "a \<noteq> A_unavailable" by blast
  then have "(used l \<longleftrightarrow> usable ctx l) \<and>
    (is_stale l \<longleftrightarrow> a \<noteq> A_unavailable \<and> boundS ctx (answer_source_id s) \<noteq> None \<and> \<not> usable ctx l)"
  proof cases
    case unaccepted
    with l show ?thesis by (auto simp: source_line_def usable_def is_stale_def)
  next
    case silent
    with l show ?thesis by (auto simp: source_line_def usable_def is_stale_def split: if_splits)
  next
    case (dated b)
    with source_line_dated [OF l dated] ids obtain n where n: "age_s l = Some n"
      and u: "used l = fst (use_of ctx a b n)" "use_basis l = snd (use_of ctx a b n)" by blast
    have us: "usable ctx l \<longleftrightarrow> 0 \<le> n \<and> (n \<le> b \<or> stale_counts ctx a)"
      using dated n ids by (simp add: usable_def)
    show ?thesis using dated unfolding us is_stale_def u
      by (cases a) (auto simp: use_of_def stale_use_def stale_counts_def)
  qed
  then show "used l \<longleftrightarrow> usable ctx l"
    "is_stale l \<longleftrightarrow> a \<noteq> A_unavailable \<and> boundS ctx (answer_source_id s) \<noteq> None \<and> \<not> usable ctx l" by blast+
qed

lemma source_lines_Inr:
  assumes "source_lines ctx seen as = Inr ls"
  shows "list_all2 (\<lambda>s l. \<exists>a. isStatusAnswer (answer_text s) = Some a \<and> source_line ctx s a = Inr l) as ls
    \<and> distinct (map line_source_id ls) \<and> set (map line_source_id ls) \<inter> set seen = {}"
  using assms
proof (induction ctx seen as arbitrary: ls rule: source_lines.induct)
  case (2 ctx seen s rest)
  from "2.prems" obtain a l ls' where a: "isStatusAnswer (answer_text s) = Some a" "source_line ctx s a = Inr l"
    and ls: "ls = l # ls'" and rest: "source_lines ctx (answer_source_id s # seen) rest = Inr ls'"
    and new: "answer_source_id s \<notin> set seen" and ne: "answer_source_id s \<noteq> []"
    by (auto simp: bindE_Inr_iff requireNonEmptyString_def split: if_splits option.splits)
  have "requireNonEmptyString (answer_source_id s) = Inr (answer_source_id s)"
    using ne by (simp add: requireNonEmptyString_def)
  from "2.IH" [OF new a(1) rest]
  have IH: "list_all2 (\<lambda>s l. \<exists>a. isStatusAnswer (answer_text s) = Some a \<and> source_line ctx s a = Inr l) rest ls'"
    "distinct (map line_source_id ls')" "set (map line_source_id ls') \<inter> set (answer_source_id s # seen) = {}" by blast+
  show ?case unfolding ls using IH a new source_line_id [OF a(2)] by auto
qed simp

text \<open>What the lines of an accepted input satisfy.\<close>

definition lines_ok :: "StatusContext \<Rightarrow> StatusSourceLine list \<Rightarrow> bool" where
  "lines_ok ctx ls \<longleftrightarrow> distinct (map line_source_id ls) \<and> (\<forall>l \<in> set ls. used l = usable ctx l)"

lemma source_lines_answer:
  assumes "source_lines ctx [] as = Inr ls" "l \<in> set ls"
  shows "\<exists>s \<in> set as. \<exists>a. isStatusAnswer (answer_text s) = Some a \<and> source_line ctx s a = Inr l"
  using source_lines_Inr [OF assms(1)] list_all2_source [OF _ assms(2)] by blast

lemma source_lines_ok: "source_lines ctx [] as = Inr ls \<Longrightarrow> lines_ok ctx ls"
  unfolding lines_ok_def
  using source_lines_Inr [of ctx "[]" as ls] source_lines_answer [of ctx as ls] source_line_used(1) by blast

lemma used_determinate: "lines_ok ctx ls \<Longrightarrow> l \<in> set ls \<Longrightarrow> used l \<Longrightarrow> line_answer l \<noteq> A_unavailable"
  by (auto simp: lines_ok_def usable_def)

lemma line_by_id_iff: "lines_ok ctx ls \<Longrightarrow> line_by_id ls i = Some l \<longleftrightarrow> l \<in> set ls \<and> line_source_id l = i"
  by (auto simp: line_by_id_def lines_ok_def map_of_eq_Some_iff comp_def)

lemma line_by_id_None: "line_by_id ls i = None \<longleftrightarrow> (\<forall>l \<in> set ls. line_source_id l \<noteq> i)"
  by (auto simp: line_by_id_def map_of_eq_None_iff image_image)

lemma usedDeterminate_eq: "lines_ok ctx ls \<Longrightarrow> set (usedDeterminate ls) = {l \<in> set ls. used l}"
  by (auto simp: usedDeterminate_def used_determinate)

lemma usedDeterminate_Nil: "lines_ok ctx ls \<Longrightarrow> usedDeterminate ls = [] \<longleftrightarrow> (\<forall>l \<in> set ls. \<not> used l)"
  using usedDeterminate_eq by (metis (mono_tags, lifting) empty_set mem_Collect_eq empty_iff ex_in_conv set_empty)

lemma usedStates_set:
  assumes "lines_ok ctx ls"
  shows "a \<in> set (usedStates ls) \<longleftrightarrow> (\<exists>l \<in> set ls. used l \<and> line_answer l = a)"
  using used_determinate [OF assms] usedDeterminate_eq [OF assms]
  by (cases a) (auto simp: usedStates_def DETERMINATE_STATUS_ANSWERS_def image_iff)

lemma usedStates_shape: "usedStates ls \<in> {[], [A_active], [A_revoked], [A_active, A_revoked]}"
  by (simp add: usedStates_def DETERMINATE_STATUS_ANSWERS_def)

lemma usedStates_cases:
  assumes ok: "lines_ok ctx ls"
  obtains (none) "usedStates ls = []" "\<forall>l \<in> set ls. \<not> used l"
  | (active) "usedStates ls = [A_active]" "\<forall>l \<in> set ls. used l \<longrightarrow> line_answer l = A_active" "\<exists>l \<in> set ls. used l"
  | (revoked) "usedStates ls = [A_revoked]" "\<forall>l \<in> set ls. used l \<longrightarrow> line_answer l = A_revoked" "\<exists>l \<in> set ls. used l"
  | (both) "usedStates ls = [A_active, A_revoked]" "\<exists>l \<in> set ls. used l \<and> line_answer l = A_active"
      "\<exists>l \<in> set ls. used l \<and> line_answer l = A_revoked"
proof -
  have st: "(\<exists>l \<in> set ls. used l \<and> line_answer l = a) \<longleftrightarrow> a \<in> set (usedStates ls)" for a
    using usedStates_set [OF ok] by blast
  have det: "used l \<Longrightarrow> l \<in> set ls \<Longrightarrow> line_answer l = A_active \<or> line_answer l = A_revoked" for l
    using used_determinate [OF ok] by (cases "line_answer l") auto
  from usedStates_shape [of ls] consider "usedStates ls = []" | "usedStates ls = [A_active]"
    | "usedStates ls = [A_revoked]" | "usedStates ls = [A_active, A_revoked]" by blast
  then show thesis
  proof cases
    case 1
    with st have "\<not> (\<exists>l \<in> set ls. used l \<and> line_answer l = a)" for a by simp
    with 1 show thesis by (intro none) blast+
  next
    case 2
    with st [of A_active] st [of A_revoked] det show thesis by (intro active) (simp_all, blast+)
  next
    case 3
    with st [of A_active] st [of A_revoked] det show thesis by (intro revoked) (simp_all, blast+)
  next
    case 4
    with st [of A_active] st [of A_revoked] show thesis by (intro both) simp_all
  qed
qed

lemma complete_iff:
  assumes ok: "lines_ok ctx ls"
  shows "cov_complete (coverage_of ctx ls) \<longleftrightarrow>
    (case ctx_silence ctx of
       Coverage_gap \<Rightarrow> requiredIds ctx \<noteq> [] \<and> (\<forall>i \<in> set (requiredIds ctx). \<exists>l \<in> set ls. line_source_id l = i \<and> used l)
     | Unavailable_answer \<Rightarrow> (\<exists>l \<in> set ls. line_source_id l \<in> set (requiredIds ctx))
         \<and> (\<forall>l \<in> set ls. line_source_id l \<in> set (requiredIds ctx) \<longrightarrow> used l))"
proof -
  have uniq: "l = l'" if "l \<in> set ls" "l' \<in> set ls" "line_source_id l = line_source_id l'" for l l'
    using ok that by (auto simp: lines_ok_def distinct_map dest: inj_onD)
  have usable: "usableRequired ctx ls = filter (\<lambda>i. \<exists>l \<in> set ls. line_source_id l = i \<and> used l) (requiredIds ctx)"
    unfolding usableRequired_def
    by (rule filter_cong)
      (auto simp: line_by_id_iff [OF ok] line_by_id_None split: option.split dest: used_determinate [OF ok] uniq)
  have ans: "answeredRequired ctx ls = filter (\<lambda>i. \<exists>l \<in> set ls. line_source_id l = i) (requiredIds ctx)"
    unfolding answeredRequired_def by (rule filter_cong) (auto simp: line_by_id_None)
  have sub: "usableRequired ctx ls = filter (\<lambda>i. \<exists>l \<in> set ls. line_source_id l = i \<and> used l) (answeredRequired ctx ls)"
    unfolding usable ans by (auto intro: filter_cong)
  have len: "length (filter P xs) = length xs \<longleftrightarrow> (\<forall>x \<in> set xs. P x)" for P and xs :: "string list"
    using length_filter_less [of _ xs P] by (metis filter_id_conv less_irrefl)
  show ?thesis
  proof (cases "ctx_silence ctx")
    case Coverage_gap
    then show ?thesis by (simp add: coverage_of_def Let_def usable len)
  next
    case Unavailable_answer
    have "cov_complete (coverage_of ctx ls) \<longleftrightarrow> answeredRequired ctx ls \<noteq> []
        \<and> (\<forall>i \<in> set (answeredRequired ctx ls). \<exists>l \<in> set ls. line_source_id l = i \<and> used l)"
      unfolding coverage_of_def Let_def using Unavailable_answer by (simp add: sub len)
    also have "answeredRequired ctx ls \<noteq> [] \<longleftrightarrow> (\<exists>l \<in> set ls. line_source_id l \<in> set (requiredIds ctx))"
      by (auto simp: ans filter_empty_conv)
    also have "(\<forall>i \<in> set (answeredRequired ctx ls). \<exists>l \<in> set ls. line_source_id l = i \<and> used l)
        \<longleftrightarrow> (\<forall>l \<in> set ls. line_source_id l \<in> set (requiredIds ctx) \<longrightarrow> used l)"
      using uniq by (auto simp: ans) metis
    finally show ?thesis using Unavailable_answer by simp
  qed
qed

lemma complete_used: "lines_ok ctx ls \<Longrightarrow> cov_complete (coverage_of ctx ls) \<Longrightarrow> \<exists>l \<in> set ls. used l"
  by (auto simp: complete_iff split: SilencePolicy.splits) (metis list.set_intros(1) list.exhaust)

section \<open>Decisions\<close>

lemma status_code_pattern: "REASON_CODE_PATTERN (status_code_name rc)"
  by (cases rc; simp only:; code_simp)

declare status_code_name.simps [simp del]

lemma decide_plain_ok:
  assumes "v = V_valid \<or> v = V_invalid"
  shows "decide_plain inp ctx ls out v rc snap = Inr \<lparr>outcome = out,
    lifecycle = \<lparr>verdict = v, reason_code = status_code_name rc, missing = None, applied_default = None, outstanding = None\<rparr>,
    decision_reason = rc, basis = makeBasis inp ctx ls None snap\<rparr>"
proof -
  have "v \<notin> {V_not_established, V_suspended, V_restricted}" using assms by auto
  from plain_state_ok [OF status_code_pattern this] show ?thesis by (simp add: decide_plain_def decide_def)
qed

lemma decide_unestablished_eq:
  "decide_unestablished inp ctx ls rc =
     (if missingLimbs ctx ls False = [] then Inl (Status_state_error MISSING_REQUIRED)
      else Inr \<lparr>outcome = B_not_established,
        lifecycle = \<lparr>verdict = V_not_established, reason_code = status_code_name rc, missing = Some (missingLimbs ctx ls False),
          applied_default = None, outstanding = None\<rparr>,
        decision_reason = rc, basis = makeBasis inp ctx ls None None\<rparr>)"
  using notEstablished_empty [OF status_code_pattern [of rc]] notEstablished_ok [OF status_code_pattern [of rc]]
  by (simp add: decide_unestablished_def decide_def)

lemma decide_conflict_eq:
  "decide_conflict inp ctx ls = Inr \<lparr>outcome = (if ctx_conflict ctx = Deny_with_conflict then B_denied else B_not_established),
     lifecycle = \<lparr>verdict = V_not_established, reason_code = status_code_name STATUS_SOURCES_CONFLICT,
       missing = Some (missingLimbs ctx ls True), applied_default = None, outstanding = None\<rparr>,
     decision_reason = STATUS_SOURCES_CONFLICT,
     basis = makeBasis inp ctx ls (Some \<lparr>conflict_states = usedStates ls,
       conflict_sources = sort (map line_source_id (usedDeterminate ls))\<rparr>) None\<rparr>"
proof -
  have "missingLimbs ctx ls True \<noteq> []" by (simp add: missingLimbs_def)
  from notEstablished_ok [OF status_code_pattern this] show ?thesis by (simp add: decide_conflict_def decide_def)
qed

text \<open>The snapshot answer an offline boundary resolves on.\<close>

definition snapshot_used :: "StatusContext \<Rightarrow> StatusSourceLine list \<Rightarrow> bool" where
  "snapshot_used ctx ls \<longleftrightarrow> (\<exists>l \<in> set ls. used l \<and> map_option fst (ctx_snapshot ctx) = Some (line_source_id l))"

lemma snap_line:
  assumes "lines_ok ctx ls"
  shows "snapshot_used ctx ls \<longleftrightarrow> (\<exists>l. (case ctx_snapshot ctx of None \<Rightarrow> None | Some (i, _) \<Rightarrow> line_by_id ls i) = Some l \<and> used l)"
  using line_by_id_iff [OF assms] by (auto simp: snapshot_used_def split: option.splits prod.splits)

lemma decide_offline_cases:
  assumes ok: "lines_ok ctx ls" and act: "\<forall>l \<in> set ls. used l \<longrightarrow> line_answer l = A_active"
  shows "snapshot_used ctx ls \<Longrightarrow> \<exists>snap. decide_offline inp ctx ls =
       decide_plain inp ctx ls B_authorized V_valid ADMITTED_ON_SNAPSHOT_WITHIN_DECLARED_BOUND (Some snap)"
    and "\<not> snapshot_used ctx ls \<Longrightarrow> \<exists>rc. decide_offline inp ctx ls = decide_unestablished inp ctx ls rc"
proof -
  let ?sl = "case ctx_snapshot ctx of None \<Rightarrow> None | Some (i, _) \<Rightarrow> line_by_id ls i"
  have mem: "?sl = Some l \<Longrightarrow> l \<in> set ls" for l
    using line_by_id_iff [OF ok] by (auto split: option.splits prod.splits)
  show "\<exists>snap. decide_offline inp ctx ls =
       decide_plain inp ctx ls B_authorized V_valid ADMITTED_ON_SNAPSHOT_WITHIN_DECLARED_BOUND (Some snap)"
    if "snapshot_used ctx ls"
    using that act mem unfolding snap_line [OF ok] decide_offline_def Let_def by (cases ?sl) auto
  show "\<exists>rc. decide_offline inp ctx ls = decide_unestablished inp ctx ls rc" if "\<not> snapshot_used ctx ls"
    using that unfolding snap_line [OF ok] decide_offline_def Let_def by (cases ?sl) auto
qed

lemma decide_lines_authorized:
  assumes ok: "lines_ok ctx ls" and d: "decide_lines inp ctx ls = Inr d"
  shows "outcome d = B_authorized \<longleftrightarrow> (\<forall>l \<in> set ls. used l \<longrightarrow> line_answer l = A_active)
    \<and> (if ctx_mode ctx = Offline then snapshot_used ctx ls else cov_complete (coverage_of ctx ls))"
  using ok
proof (cases rule: usedStates_cases)
  case both
  then have "outcome d \<noteq> B_authorized" using d by (auto simp: decide_lines_def decide_conflict_eq split: if_splits)
  moreover have "\<not> (\<forall>l \<in> set ls. used l \<longrightarrow> line_answer l = A_active)" using both(3) by force
  ultimately show ?thesis by blast
next
  case revoked
  then have "outcome d \<noteq> B_authorized" using d by (auto simp: decide_lines_def decide_plain_ok)
  moreover have "\<not> (\<forall>l \<in> set ls. used l \<longrightarrow> line_answer l = A_active)" using revoked by force
  ultimately show ?thesis by blast
next
  case none
  then have act: "\<forall>l \<in> set ls. used l \<longrightarrow> line_answer l = A_active" and ns: "\<not> snapshot_used ctx ls"
    and nc: "\<not> cov_complete (coverage_of ctx ls)"
    using complete_used [OF ok] by (auto simp: snapshot_used_def)
  obtain rc where "decide_lines inp ctx ls = decide_unestablished inp ctx ls rc"
    using none nc decide_offline_cases(2) [OF ok act ns, of inp] by (cases "ctx_mode ctx") (auto simp: decide_lines_def decide_online_def)
  then have "outcome d = B_not_established" using d by (auto simp: decide_unestablished_eq split: if_splits)
  then show ?thesis using ns nc by auto
next
  case active
  show ?thesis
  proof (cases "ctx_mode ctx")
    case Online
    then show ?thesis using active d
      by (auto simp: decide_lines_def decide_online_def decide_plain_ok decide_unestablished_eq split: if_splits)
  next
    case Offline
    then have eq: "decide_lines inp ctx ls = decide_offline inp ctx ls" using active by (simp add: decide_lines_def)
    show ?thesis
    proof (cases "snapshot_used ctx ls")
      case True
      from decide_offline_cases(1) [OF ok active(2) True, of inp] eq d Offline True active(2)
      show ?thesis by (auto simp: decide_plain_ok)
    next
      case False
      from decide_offline_cases(2) [OF ok active(2) False, of inp] eq d Offline False
      show ?thesis by (auto simp: decide_unestablished_eq split: if_splits)
    qed
  qed
qed

text \<open>An input that passes every check, with the context and the lines it gives.\<close>

definition status_ready :: "MultiSourceStatusInput \<Rightarrow> StatusContext \<Rightarrow> StatusSourceLine list \<Rightarrow> bool" where
  "status_ready inp ctx ls \<longleftrightarrow> check_status_input inp = Inr ctx
     \<and> (case answers inp of None \<Rightarrow> False | Some as \<Rightarrow> source_lines ctx [] as = Inr ls)"

lemma ready_decides: "status_ready inp ctx ls \<Longrightarrow> decideMultiSourceStatus inp = decide_lines inp ctx ls"
  by (auto simp: status_ready_def decideMultiSourceStatus_def split: option.splits)

lemma ready_lines_ok: "status_ready inp ctx ls \<Longrightarrow> lines_ok ctx ls"
  by (auto simp: status_ready_def source_lines_ok split: option.splits)

lemma decided_ready:
  "decideMultiSourceStatus inp = Inr d \<Longrightarrow> \<exists>ctx ls. status_ready inp ctx ls \<and> decide_lines inp ctx ls = Inr d"
  by (auto simp: status_ready_def decideMultiSourceStatus_def bindE_Inr_iff split: option.splits)

lemma decide_lines_basis:
  assumes "decide_lines inp ctx ls = Inr d"
  shows "\<exists>c s. basis d = makeBasis inp ctx ls c s"
proof -
  have "decide out lc rc b = Inr d \<Longrightarrow> basis d = b" for out lc rc b
    by (auto simp: decide_def split: sum.splits)
  then show ?thesis using assms
    unfolding decide_lines_def decide_conflict_def decide_plain_def decide_offline_def decide_online_def decide_unestablished_def Let_def
    by (auto split: if_splits option.splits prod.splits; blast)
qed

lemma missingLimbs_Nil:
  assumes "lines_ok ctx ls"
  shows "missingLimbs ctx ls False = [] \<longleftrightarrow> (\<forall>l \<in> set ls. \<not> is_stale l) \<and> cov_complete (coverage_of ctx ls)"
  using usedDeterminate_Nil [OF assms] complete_used [OF assms] by (auto simp: missingLimbs_def list_ex_iff)

lemma decide_lines_total:
  assumes ok: "lines_ok ctx ls"
  shows "(\<exists>d. decide_lines inp ctx ls = Inr d) \<longleftrightarrow> \<not> (ctx_mode ctx = Offline \<and> cov_complete (coverage_of ctx ls)
    \<and> (\<forall>l \<in> set ls. \<not> is_stale l \<and> (used l \<longrightarrow> line_answer l = A_active)) \<and> \<not> snapshot_used ctx ls)"
proof -
  have un: "(\<exists>d. decide_unestablished inp ctx ls rc = Inr d) \<longleftrightarrow>
      \<not> ((\<forall>l \<in> set ls. \<not> is_stale l) \<and> cov_complete (coverage_of ctx ls))" for rc
    unfolding decide_unestablished_eq missingLimbs_Nil [OF ok] by simp
  show ?thesis using ok
  proof (cases rule: usedStates_cases)
    case both
    then show ?thesis by (force simp: decide_lines_def decide_conflict_eq)
  next
    case revoked
    then show ?thesis by (force simp: decide_lines_def decide_plain_ok)
  next
    case none
    then have nc: "\<not> cov_complete (coverage_of ctx ls)" and ns: "\<not> snapshot_used ctx ls"
      and act: "\<forall>l \<in> set ls. used l \<longrightarrow> line_answer l = A_active"
      using complete_used [OF ok] by (auto simp: snapshot_used_def)
    obtain rc where "decide_lines inp ctx ls = decide_unestablished inp ctx ls rc"
      using none nc decide_offline_cases(2) [OF ok act ns, of inp] by (cases "ctx_mode ctx") (auto simp: decide_lines_def decide_online_def)
    with un nc show ?thesis by auto
  next
    case active
    show ?thesis
    proof (cases "ctx_mode ctx")
      case Online
      then show ?thesis using active un by (auto simp: decide_lines_def decide_online_def decide_plain_ok)
    next
      case Offline
      then have eq: "decide_lines inp ctx ls = decide_offline inp ctx ls" using active by (simp add: decide_lines_def)
      show ?thesis
      proof (cases "snapshot_used ctx ls")
        case True
        with decide_offline_cases(1) [OF ok active(2) True, of inp] show ?thesis unfolding eq by (auto simp: decide_plain_ok)
      next
        case False
        with decide_offline_cases(2) [OF ok active(2) False, of inp] obtain rc
          where "decide_lines inp ctx ls = decide_unestablished inp ctx ls rc" unfolding eq by blast
        with un Offline False active(2) show ?thesis by metis
      qed
    qed
  qed
qed

lemma decide_wf: "decide out (lifecycleState i) rc b = Inr d \<Longrightarrow> lifecycle_wf (lifecycle d)"
  using lifecycleState_wf by (auto simp: decide_def split: sum.splits)

lemma decide_lines_wf: "decide_lines inp ctx ls = Inr d \<Longrightarrow> lifecycle_wf (lifecycle d)"
  unfolding decide_lines_def decide_conflict_def decide_plain_def decide_offline_def decide_online_def decide_unestablished_def
    notEstablished_def Let_def
  by (auto split: if_splits option.splits prod.splits intro: decide_wf)

definition status_lifecycle :: "MultiSourceStatusInput \<Rightarrow> LifecycleStateResult deciding" where
  "status_lifecycle inp = bindE (decideMultiSourceStatus inp) (\<lambda>d. Inr (lifecycle d))"

interpretation status_view: lifecycle_module
  "\<lambda>inp. \<exists>ctx ls. status_ready inp ctx ls \<and> ctx_mode ctx = Online" status_lifecycle
proof unfold_locales
  fix inp
  assume "\<exists>ctx ls. status_ready inp ctx ls \<and> ctx_mode ctx = Online"
  then obtain ctx ls where r: "status_ready inp ctx ls" "ctx_mode ctx = Online" by blast
  with decide_lines_total [OF ready_lines_ok [OF r(1)], of inp] obtain d where "decide_lines inp ctx ls = Inr d" by auto
  then show "\<exists>r. status_lifecycle inp = Inr r" using ready_decides [OF r(1)] by (simp add: status_lifecycle_def)
next
  fix inp r
  assume "status_lifecycle inp = Inr r"
  then obtain d where "decideMultiSourceStatus inp = Inr d" "lifecycle d = r" by (auto simp: status_lifecycle_def bindE_Inr_iff)
  with decided_ready [of inp d] decide_lines_wf show "lifecycle_wf r" by blast
qed

section \<open>Two sources and a snapshot\<close>

definition sample_answer :: "string \<Rightarrow> string \<Rightarrow> string \<Rightarrow> StatusAnswerInput" where
  "sample_answer i a t = \<lparr>answer_source_id = i, answer_text = a, answer_as_of = Some (JStr t)\<rparr>"

definition sample_status :: "string \<Rightarrow> SnapshotSource option option \<Rightarrow> StatusAnswerInput list \<Rightarrow> MultiSourceStatusInput" where
  "sample_status mode snap as = \<lparr>authority_ref = ''d1'', trustPolicy = Some \<lparr>mode_text = mode,
       source_set = Some \<lparr>required_set = [\<lparr>declared_source_id = ''a'', declared_freshness_bound_s = 60\<rparr>,
           \<lparr>declared_source_id = ''b'', declared_freshness_bound_s = 60\<rparr>], silence_text = ''coverage_gap''\<rparr>,
       snapshot_source = snap\<rparr>,
     answers = Some as, conflict_text = ''deny_with_conflict'',
     stalePolicy = Some \<lparr>stale_revoked_still_counts = True, stale_active_still_counts = False\<rparr>,
     status_now = JStr ''2026-01-01T00:01:00Z''\<rparr>"

definition sample_online :: MultiSourceStatusInput where
  "sample_online = sample_status ''online'' None
     [sample_answer ''a'' ''active'' ''2026-01-01T00:00:30Z'', sample_answer ''b'' ''active'' ''2026-01-01T00:00:00Z'']"

definition sample_contested :: MultiSourceStatusInput where
  "sample_contested = sample_status ''online'' None
     [sample_answer ''a'' ''active'' ''2026-01-01T00:00:30Z'', sample_answer ''b'' ''revoked'' ''2025-01-01T00:00:00Z'']"

definition sample_offline :: MultiSourceStatusInput where
  "sample_offline = sample_status ''offline'' (Some (Some \<lparr>snapshot_source_id = ''s'', snapshot_declared_bound_s = 3600\<rparr>))
     [sample_answer ''a'' ''active'' ''2026-01-01T00:00:30Z'', sample_answer ''b'' ''active'' ''2026-01-01T00:00:00Z'']"

definition outcome_of :: "MultiSourceStatusDecision deciding \<Rightarrow> BoundaryOutcome option" where
  "outcome_of r = (case r of Inl _ \<Rightarrow> None | Inr d \<Rightarrow> Some (outcome d))"

lemma sample_outcomes:
  "outcome_of (decideMultiSourceStatus sample_online) = Some B_authorized"
  "outcome_of (decideMultiSourceStatus sample_contested) = Some B_denied"
  "outcome_of (decideMultiSourceStatus sample_offline) = None"
  by code_simp+

lemma outcome_of_Some: "outcome_of r = Some v \<Longrightarrow> \<exists>d. r = Inr d \<and> outcome d = v"
  by (auto simp: outcome_of_def split: sum.splits)

lemma sample_ready:
  "\<exists>ctx ls. status_ready sample_online ctx ls \<and> ctx_silence ctx = Coverage_gap \<and> ctx_mode ctx = Online"
  "\<exists>ctx ls. status_ready sample_contested ctx ls \<and> (\<exists>l \<in> set ls. used l \<and> line_answer l = A_revoked)"
  "\<exists>ctx ls. status_ready sample_offline ctx ls"
proof -
  have chk: "case check_status_input sample_online of Inl _ \<Rightarrow> False | Inr ctx \<Rightarrow> ctx_silence ctx = Coverage_gap \<and> ctx_mode ctx = Online
      \<and> (case answers sample_online of None \<Rightarrow> False | Some as \<Rightarrow> (case source_lines ctx [] as of Inl _ \<Rightarrow> False | Inr ls \<Rightarrow> True))"
    "case check_status_input sample_contested of Inl _ \<Rightarrow> False | Inr ctx \<Rightarrow>
      (case answers sample_contested of None \<Rightarrow> False | Some as \<Rightarrow> (case source_lines ctx [] as of Inl _ \<Rightarrow> False
         | Inr ls \<Rightarrow> list_ex (\<lambda>l. used l \<and> line_answer l = A_revoked) ls))"
    "case check_status_input sample_offline of Inl _ \<Rightarrow> False | Inr ctx \<Rightarrow>
      (case answers sample_offline of None \<Rightarrow> False | Some as \<Rightarrow> (case source_lines ctx [] as of Inl _ \<Rightarrow> False | Inr ls \<Rightarrow> True))"
    by code_simp+
  show "\<exists>ctx ls. status_ready sample_online ctx ls \<and> ctx_silence ctx = Coverage_gap \<and> ctx_mode ctx = Online"
    using chk(1) by (auto simp: status_ready_def case_Inr_iff split: option.splits)
  show "\<exists>ctx ls. status_ready sample_contested ctx ls \<and> (\<exists>l \<in> set ls. used l \<and> line_answer l = A_revoked)"
    using chk(2) by (auto simp: status_ready_def case_Inr_iff list_ex_iff split: option.splits)
  show "\<exists>ctx ls. status_ready sample_offline ctx ls"
    using chk(3) by (auto simp: status_ready_def case_Inr_iff split: option.splits)
qed

section \<open>Properties\<close>



text \<open>An online admission under the coverage-gap reading rests on real evidence: every declared
  source supplied an answer \<open>active\<close>, dated at an instant that parses, not after the boundary,
  and no older than the bound declared for that source unless the caller set the policy
  that lets a stale active answer count.\<close>

theorem online_admission_has_fresh_evidence:
  assumes "status_ready inp ctx ls" and "ctx_mode ctx = Online" and "ctx_silence ctx = Coverage_gap"
    and "decideMultiSourceStatus inp = Inr d" and "outcome d = B_authorized" and "i \<in> set (requiredIds ctx)"
  shows "\<exists>as s b ms. answers inp = Some as \<and> s \<in> set as \<and> answer_source_id s = i
    \<and> isStatusAnswer (answer_text s) = Some A_active \<and> boundS ctx i = Some b \<and> requireInstant (answer_as_of s) = Inr ms
    \<and> 0 \<le> (ctx_now ctx - ms) div 1000 \<and> ((ctx_now ctx - ms) div 1000 \<le> b \<or> stale_active_still_counts (ctx_stale ctx))"
proof -
  note ok = ready_lines_ok [OF assms(1)]
  have dl: "decide_lines inp ctx ls = Inr d" using ready_decides [OF assms(1)] assms(4) by simp
  from decide_lines_authorized [OF ok dl] assms(2,5)
  have act: "\<forall>l \<in> set ls. used l \<longrightarrow> line_answer l = A_active" and comp: "cov_complete (coverage_of ctx ls)" by auto
  from comp assms(3,6) obtain l where l: "l \<in> set ls" "line_source_id l = i" "used l" by (auto simp: complete_iff [OF ok])
  with act have a: "line_answer l = A_active" by blast
  obtain as where as: "answers inp = Some as" "source_lines ctx [] as = Inr ls"
    using assms(1) by (auto simp: status_ready_def split: option.splits)
  from source_lines_answer [OF as(2) l(1)] obtain s x where s: "s \<in> set as" "isStatusAnswer (answer_text s) = Some x"
    "source_line ctx s x = Inr l" by blast
  from source_line_id [OF s(3)] a l(2) have x: "x = A_active" "answer_source_id s = i" by auto
  from ok l have "usable ctx l" by (simp add: lines_ok_def)
  then obtain b n where b: "boundS ctx i = Some b" "age_s l = Some n" "0 \<le> n" "n \<le> b \<or> stale_counts ctx A_active"
    using a l(2) by (auto simp: usable_def)
  from source_line_age [OF s(3) b(2)] obtain ms where "requireInstant (answer_as_of s) = Inr ms" "n = (ctx_now ctx - ms) div 1000" by blast
  with as(1) s x b show ?thesis by (auto simp: stale_counts_def)
qed

theorem online_admission_has_fresh_evidence_witness:
  "\<exists>ctx ls. status_ready sample_online ctx ls \<and> (\<forall>i \<in> set (requiredIds ctx). \<exists>as s b ms. answers sample_online = Some as
    \<and> s \<in> set as \<and> answer_source_id s = i
    \<and> isStatusAnswer (answer_text s) = Some A_active \<and> boundS ctx i = Some b \<and> requireInstant (answer_as_of s) = Inr ms
    \<and> 0 \<le> (ctx_now ctx - ms) div 1000 \<and> ((ctx_now ctx - ms) div 1000 \<le> b \<or> stale_active_still_counts (ctx_stale ctx)))"
proof -
  obtain ctx ls d where r: "status_ready sample_online ctx ls" "ctx_mode ctx = Online" "ctx_silence ctx = Coverage_gap"
    and d: "decideMultiSourceStatus sample_online = Inr d" "outcome d = B_authorized"
    using sample_ready(1) outcome_of_Some [OF sample_outcomes(1)] by blast
  from online_admission_has_fresh_evidence [OF r(1-3) d] r(1) show ?thesis by blast
qed

text \<open>C25. A used revoked answer never admits, whatever the coverage and the mode: alone it denies with
  an invalid artifact state; against a used active answer it is a recorded conflict that
  names every source involved and leaves the artifact state not established with the
  source limb missing.\<close>

theorem observed_revocation_never_admits:
  assumes "status_ready inp ctx ls" and "l \<in> set ls" and "used l" and "line_answer l = A_revoked"
  shows "\<exists>d. decideMultiSourceStatus inp = Inr d \<and> outcome d \<noteq> B_authorized \<and>
    (if \<forall>k \<in> set ls. used k \<longrightarrow> line_answer k = A_revoked
     then outcome d = B_denied \<and> verdict (lifecycle d) = V_invalid \<and> decision_reason d = STATUS_REVOKED
     else verdict (lifecycle d) = V_not_established \<and> (\<exists>gs. missing (lifecycle d) = Some (G_source # gs))
       \<and> (\<exists>c. conflict (basis d) = Some c \<and> set (conflict_sources c) = {line_source_id k | k. k \<in> set ls \<and> used k}))"
  using ready_lines_ok [OF assms(1)]
proof (cases rule: usedStates_cases)
  case revoked
  then show ?thesis using assms ready_decides [OF assms(1)] by (auto simp: decide_lines_def decide_plain_ok)
next
  case both
  have "set (conflict_sources \<lparr>conflict_states = usedStates ls, conflict_sources = sort (map line_source_id (usedDeterminate ls))\<rparr>)
      = {line_source_id k | k. k \<in> set ls \<and> used k}"
    using usedDeterminate_eq [OF ready_lines_ok [OF assms(1)]] by auto
  moreover have "\<not> (\<forall>k \<in> set ls. used k \<longrightarrow> line_answer k = A_revoked)" using both(2) by force
  moreover have "missingLimbs ctx ls True = G_source # (if list_ex is_stale ls then [G_freshness] else [])
      @ (if cov_complete (coverage_of ctx ls) then [] else [G_coverage])" by (simp add: missingLimbs_def)
  ultimately show ?thesis using both(1) ready_decides [OF assms(1)]
    by (simp add: decide_lines_def decide_conflict_eq makeBasis_def)
next
  case active
  with assms show ?thesis by force
next
  case none
  with assms show ?thesis by blast
qed

theorem observed_revocation_never_admits_witness:
  "\<exists>d. decideMultiSourceStatus sample_contested = Inr d \<and> outcome d \<noteq> B_authorized"
  using sample_ready(2) observed_revocation_never_admits [of sample_contested] by blast

text \<open>The decision returns for every accepted online input.  Offline it throws from the lifecycle
  constructor in exactly one situation: the declared snapshot gave no used answer while the
  required sources were completely covered, nothing was stale and every used answer was
  active, so that no limb is named missing.  The documented procedure says the source limb
  is missing there.\<close>

theorem status_decision_returns_unless_offline_gap:
  assumes "status_ready inp ctx ls"
  shows "(\<exists>d. decideMultiSourceStatus inp = Inr d) \<longleftrightarrow> \<not> (ctx_mode ctx = Offline \<and> cov_complete (coverage_of ctx ls)
    \<and> (\<forall>l \<in> set ls. \<not> is_stale l \<and> (used l \<longrightarrow> line_answer l = A_active)) \<and> \<not> snapshot_used ctx ls)"
  unfolding ready_decides [OF assms] by (rule decide_lines_total [OF ready_lines_ok [OF assms]])

theorem status_decision_returns_unless_offline_gap_witness:
  "\<exists>ctx ls. status_ready sample_offline ctx ls \<and> ctx_mode ctx = Offline \<and> cov_complete (coverage_of ctx ls)
     \<and> \<not> snapshot_used ctx ls"
proof -
  obtain ctx ls where r: "status_ready sample_offline ctx ls" using sample_ready(3) by blast
  have "\<not> (\<exists>d. decideMultiSourceStatus sample_offline = Inr d)"
    using sample_outcomes(3) by (auto simp: outcome_of_def)
  with status_decision_returns_unless_offline_gap [OF r] r show ?thesis by blast
qed

end
