(* ===== verification/Authority_Revocation.thy ===== *)
theory Authority_Revocation
  imports Lifecycle_State Authority_System
begin

text \<open>
  \<^verbatim>\<open>src/v2/authority-revocation/\<close>: direct revocation of a delegation by its issuer, in the
  order of the module's files: the record and its closed schema, the three domain-separated
  preimages, issuance, verification against the target delegation, the store and its
  first-write primitive, the recording path, and the resolver handed to the chain verifier.

  A store is used through its interface only: \<open>store_ops\<close> holds the three operations, each
  returning \<open>None\<close> where the implementation throws.  \<open>revocation_store\<close> states what the
  interface promises; the in-memory store interprets it.
\<close>

section \<open>Records\<close>

definition AUTHORITY_REVOCATION_RECORD_TYPE :: string where
  "AUTHORITY_REVOCATION_RECORD_TYPE = ''aps:authority-revocation:v1''"

definition AUTHORITY_REVOCATION_VERSION :: string where
  "AUTHORITY_REVOCATION_VERSION = ''1.0''"

record AuthorityRevocationBodyV1 =
  rev_record_type :: string
  rev_version :: string
  rev_delegation_id :: string
  revoker :: string
  rev_verification_method :: string
  revoked_at :: string
  rev_reason_code :: string
  rev_detail :: "string option"
  cascade_transaction_id :: string
  rev_nonce :: string

record AuthorityRevocationV1 = AuthorityRevocationBodyV1 +
  revocation_id :: string
  rev_signature :: string

datatype AuthorityRevocationFailureCode =
    R_SCHEMA_INVALID | R_UNSUPPORTED_RECORD_TYPE | R_UNSUPPORTED_VERSION | R_NONCANONICAL_VALUE
  | R_ID_MISMATCH | R_CASCADE_TRANSACTION_MISMATCH | R_TARGET_MISMATCH | R_TARGET_ID_MISMATCH | R_REVOKER_NOT_ISSUER
  | R_KEY_RESOLUTION_FAILED | R_KEY_SCHEME_UNSUPPORTED | R_KEY_NOT_FOUND | R_KEY_AMBIGUOUS | R_KEY_UNREACHABLE
  | R_KEY_MATERIAL_MALFORMED | R_SIGNATURE_INVALID

record AuthorityRevocationFailure =
  rev_failure_code :: AuthorityRevocationFailureCode
  rev_failure_message :: string

record AuthorityRevocationVerificationResult =
  rev_state :: AuthorityValidationState
  rev_valid :: bool
  rev_failures :: "AuthorityRevocationFailure list"

text \<open>The JSON members of the record and of its parts; an absent detail is no member at all.\<close>

definition detail_member :: "string option \<Rightarrow> members" where
  "detail_member d = (case d of None \<Rightarrow> [] | Some s \<Rightarrow> [(''detail'', JStr s)])"

definition origin_members :: "'a AuthorityRevocationBodyV1_scheme \<Rightarrow> members" where
  "origin_members b =
     [(''record_type'', JStr (rev_record_type b)), (''version'', JStr (rev_version b)),
      (''delegation_id'', JStr (rev_delegation_id b)), (''revoker'', JStr (revoker b)),
      (''verification_method'', JStr (rev_verification_method b)), (''revoked_at'', JStr (revoked_at b)),
      (''reason_code'', JStr (rev_reason_code b))] @ detail_member (rev_detail b) @ [(''nonce'', JStr (rev_nonce b))]"

definition rev_body_members :: "'a AuthorityRevocationBodyV1_scheme \<Rightarrow> members" where
  "rev_body_members b = origin_members b @ [(''cascade_transaction_id'', JStr (cascade_transaction_id b))]"

definition rev_unsigned_members :: "AuthorityRevocationV1 \<Rightarrow> members" where
  "rev_unsigned_members r = rev_body_members r @ [(''revocation_id'', JStr (revocation_id r))]"

definition json_of_revocation :: "AuthorityRevocationV1 \<Rightarrow> json" where
  "json_of_revocation r = JObj (rev_unsigned_members r @ [(''signature'', JStr (rev_signature r))])"

text \<open>The typed view of shape-checked data.\<close>

definition revocation_of :: "json \<Rightarrow> AuthorityRevocationV1" where
  "revocation_of j = (let m = (case as_obj j of Some m \<Rightarrow> m | None \<Rightarrow> []);
       s = (\<lambda>k. case get_str m k of Some s \<Rightarrow> s | None \<Rightarrow> []) in
     \<lparr>rev_record_type = s ''record_type'', rev_version = s ''version'', rev_delegation_id = s ''delegation_id'',
      revoker = s ''revoker'', rev_verification_method = s ''verification_method'', revoked_at = s ''revoked_at'',
      rev_reason_code = s ''reason_code'', rev_detail = get_str m ''detail'',
      cascade_transaction_id = s ''cascade_transaction_id'', rev_nonce = s ''nonce'',
      revocation_id = s ''revocation_id'', rev_signature = s ''signature''\<rparr>)"

section \<open>Schema\<close>

definition CONTENT_ADDRESS :: "string \<Rightarrow> bool" where
  "CONTENT_ADDRESS s \<longleftrightarrow> startsWith s ''sha256:'' \<and> lower_hex 64 (drop 7 s)"

definition REQUIRED_KEYS :: "string list" where
  "REQUIRED_KEYS = [''record_type'', ''version'', ''revocation_id'', ''delegation_id'', ''revoker'', ''verification_method'',
     ''revoked_at'', ''reason_code'', ''cascade_transaction_id'', ''nonce'', ''signature'']"

definition OPTIONAL_KEYS :: "string list" where
  "OPTIONAL_KEYS = [''detail'']"

definition rev_failure :: "AuthorityRevocationFailureCode \<Rightarrow> string \<Rightarrow> AuthorityRevocationFailure" where
  "rev_failure c msg = \<lparr>rev_failure_code = c, rev_failure_message = msg\<rparr>"

text \<open>One check of a string member: the failure is reported unless the member is a string with
  the property.\<close>

definition member_check :: "members \<Rightarrow> string \<Rightarrow> (string \<Rightarrow> bool) \<Rightarrow> AuthorityRevocationFailureCode \<Rightarrow> string
    \<Rightarrow> AuthorityRevocationFailure list" where
  "member_check m k P c msg = (case get_str m k of
     Some s \<Rightarrow> if P s then [] else [rev_failure c msg] | None \<Rightarrow> [rev_failure c msg])"

definition validateAuthorityRevocationShape :: "json \<Rightarrow> AuthorityRevocationFailure list" where
  "validateAuthorityRevocationShape j =
     (case j of
        JObj m \<Rightarrow>
          if get m ''record_type'' \<noteq> Some (JStr AUTHORITY_REVOCATION_RECORD_TYPE)
          then [rev_failure R_UNSUPPORTED_RECORD_TYPE (''record_type must be '' @ AUTHORITY_REVOCATION_RECORD_TYPE)]
          else if get m ''version'' \<noteq> Some (JStr AUTHORITY_REVOCATION_VERSION)
          then [rev_failure R_UNSUPPORTED_VERSION (''version must be '' @ AUTHORITY_REVOCATION_VERSION)]
          else
            map (\<lambda>k. rev_failure R_SCHEMA_INVALID (k @ '' is required'')) (filter (\<lambda>k. get m k = None) REQUIRED_KEYS)
            @ map (\<lambda>k. rev_failure R_SCHEMA_INVALID (''unknown member '' @ k))
                (filter (\<lambda>k. k \<notin> set (REQUIRED_KEYS @ OPTIONAL_KEYS)) (map fst m))
            @ member_check m ''revocation_id'' CONTENT_ADDRESS R_SCHEMA_INVALID ''revocation_id must be sha256:<64 lowercase hex>''
            @ member_check m ''delegation_id'' CONTENT_ADDRESS R_SCHEMA_INVALID ''delegation_id must be sha256:<64 lowercase hex>''
            @ member_check m ''cascade_transaction_id'' CONTENT_ADDRESS R_SCHEMA_INVALID
                ''cascade_transaction_id must be sha256:<64 lowercase hex>''
            @ member_check m ''revoker'' (\<lambda>s. s \<noteq> []) R_SCHEMA_INVALID ''revoker must be a non-empty string''
            @ member_check m ''verification_method'' (\<lambda>s. s \<noteq> []) R_SCHEMA_INVALID ''verification_method must be a non-empty string''
            @ member_check m ''revoked_at'' isCanonicalTimestamp R_NONCANONICAL_VALUE
                ''revoked_at must be a canonical UTC-millisecond timestamp''
            @ member_check m ''reason_code'' (\<lambda>s. s \<noteq> []) R_SCHEMA_INVALID ''reason_code must be a non-empty string''
            @ (if get m ''detail'' \<noteq> None then member_check m ''detail'' (\<lambda>_. True) R_SCHEMA_INVALID
                 ''detail, when present, must be a string'' else [])
            @ member_check m ''nonce'' (lower_hex 32) R_NONCANONICAL_VALUE ''nonce must be 32 lowercase hex characters''
            @ member_check m ''signature'' (lower_hex 128) R_SCHEMA_INVALID ''signature must be 128 lowercase hex characters''
      | _ \<Rightarrow> [rev_failure R_SCHEMA_INVALID ''revocation must be a JSON object''])"

definition isAuthorityRevocationV1 :: "json \<Rightarrow> bool" where
  "isAuthorityRevocationV1 j \<longleftrightarrow> validateAuthorityRevocationShape j = []"

section \<open>Preimages\<close>

definition AUTHORITY_REVOCATION_ID_DOMAIN :: string where
  "AUTHORITY_REVOCATION_ID_DOMAIN = ''APS-AUTHORITY-REVOCATION-ID-V1'' @ [CHR 0x00]"

definition AUTHORITY_REVOCATION_SIGNATURE_DOMAIN :: string where
  "AUTHORITY_REVOCATION_SIGNATURE_DOMAIN = ''APS-AUTHORITY-REVOCATION-SIGNATURE-V1'' @ [CHR 0x00]"

definition AUTHORITY_REVOCATION_CASCADE_TRANSACTION_DOMAIN :: string where
  "AUTHORITY_REVOCATION_CASCADE_TRANSACTION_DOMAIN = ''APS-AUTHORITY-REVOCATION-CASCADE-TRANSACTION-ID-V1'' @ [CHR 0x00]"

definition content_address :: "crypto \<Rightarrow> string \<Rightarrow> string \<Rightarrow> string" where
  "content_address C domain bytes = ''sha256:'' @ sha256Hex C (domain @ bytes)"

definition authorityRevocationCascadeTransactionInput :: "crypto \<Rightarrow> 'a AuthorityRevocationBodyV1_scheme \<Rightarrow> string" where
  "authorityRevocationCascadeTransactionInput C origin =
     AUTHORITY_REVOCATION_CASCADE_TRANSACTION_DOMAIN @ canonicalizeValue (format_number C) (JObj (origin_members origin))"

definition computeAuthorityRevocationCascadeTransactionId :: "crypto \<Rightarrow> 'a AuthorityRevocationBodyV1_scheme \<Rightarrow> string" where
  "computeAuthorityRevocationCascadeTransactionId C origin =
     ''sha256:'' @ sha256Hex C (authorityRevocationCascadeTransactionInput C origin)"

definition computeAuthorityRevocationCascadeTransactionIdForWrite :: "crypto \<Rightarrow> members \<Rightarrow> (jcs_error, string) result" where
  "computeAuthorityRevocationCascadeTransactionIdForWrite C origin =
     bindE (canonicalizeJCSForWrite (format_number C) (JObj origin)) (\<lambda>s.
       Inr (content_address C AUTHORITY_REVOCATION_CASCADE_TRANSACTION_DOMAIN s))"

definition authorityRevocationIdInput :: "crypto \<Rightarrow> 'a AuthorityRevocationBodyV1_scheme \<Rightarrow> string" where
  "authorityRevocationIdInput C body =
     AUTHORITY_REVOCATION_ID_DOMAIN @ canonicalizeValue (format_number C) (JObj (rev_body_members body))"

definition computeAuthorityRevocationId :: "crypto \<Rightarrow> 'a AuthorityRevocationBodyV1_scheme \<Rightarrow> string" where
  "computeAuthorityRevocationId C body = ''sha256:'' @ sha256Hex C (authorityRevocationIdInput C body)"

definition computeAuthorityRevocationIdForWrite :: "crypto \<Rightarrow> members \<Rightarrow> (jcs_error, string) result" where
  "computeAuthorityRevocationIdForWrite C body =
     bindE (canonicalizeJCSForWrite (format_number C) (JObj body)) (\<lambda>s.
       Inr (content_address C AUTHORITY_REVOCATION_ID_DOMAIN s))"

definition authorityRevocationSignatureInput :: "crypto \<Rightarrow> AuthorityRevocationV1 \<Rightarrow> string" where
  "authorityRevocationSignatureInput C r =
     AUTHORITY_REVOCATION_SIGNATURE_DOMAIN @ canonicalizeValue (format_number C) (JObj (rev_unsigned_members r))"

definition signAuthorityRevocation :: "crypto \<Rightarrow> members \<Rightarrow> string \<Rightarrow> (jcs_error, string) result" where
  "signAuthorityRevocation C unsigned privateKey =
     bindE (canonicalizeJCSForWrite (format_number C) (JObj unsigned)) (\<lambda>s.
       Inr (ed25519_sign C (AUTHORITY_REVOCATION_SIGNATURE_DOMAIN @ s) privateKey))"

definition verifyAuthorityRevocationSignature :: "crypto \<Rightarrow> AuthorityRevocationV1 \<Rightarrow> string \<Rightarrow> bool" where
  "verifyAuthorityRevocationSignature C r publicKey =
     ed25519_verify C (authorityRevocationSignatureInput C r) (rev_signature r) publicKey"

section \<open>Issuance\<close>

text \<open>
  The caller's input as plain data; a member that is missing or cannot be read is undefined,
  which is not JSON, hence the marker.  \<open>in_detail\<close> is \<open>None\<close> when the key is not present.
\<close>

record AuthorityRevocationIssueInput =
  in_now :: json
  in_revoker :: json
  in_verification_method :: json
  in_reason_code :: json
  in_detail :: "json option"
  in_nonce :: json

datatype RevocationIssueError =
    Rev_now_noncanonical
  | Rev_target_invalid AuthorityFailureCode
  | Rev_target_id_mismatch
  | Rev_revoker_not_issuer
  | Rev_write_refused jcs_error
  | Rev_invalid AuthorityRevocationFailure

type_synonym 'a revoking = "(RevocationIssueError, 'a) APS_Prelude.result"

definition rev_write :: "(jcs_error, 'a) result \<Rightarrow> 'a revoking" where
  "rev_write r = (case r of Inl e \<Rightarrow> Inl (Rev_write_refused e) | Inr v \<Rightarrow> Inr v)"

definition issue_origin :: "AuthorityDelegationV1 \<Rightarrow> AuthorityRevocationIssueInput \<Rightarrow> members" where
  "issue_origin target inp =
     [(''record_type'', JStr AUTHORITY_REVOCATION_RECORD_TYPE), (''version'', JStr AUTHORITY_REVOCATION_VERSION),
      (''delegation_id'', JStr (delegation_id target)), (''revoker'', in_revoker inp),
      (''verification_method'', in_verification_method inp), (''revoked_at'', in_now inp),
      (''reason_code'', in_reason_code inp)]
     @ (case in_detail inp of None \<Rightarrow> [] | Some d \<Rightarrow> [(''detail'', d)]) @ [(''nonce'', in_nonce inp)]"

definition revocation_probe :: "members \<Rightarrow> json" where
  "revocation_probe body = JObj (body @ [(''revocation_id'', JStr (''sha256:'' @ replicate 64 CHR ''0'')),
     (''signature'', JStr (replicate 128 CHR ''0''))])"

definition issueAuthorityRevocation ::
  "crypto \<Rightarrow> json \<Rightarrow> AuthorityRevocationIssueInput \<Rightarrow> string \<Rightarrow> AuthorityRevocationV1 revoking" where
  "issueAuthorityRevocation C delegation inp privateKey =
     (if \<not> (case in_now inp of JStr s \<Rightarrow> isCanonicalTimestamp s | _ \<Rightarrow> False) then Inl Rev_now_noncanonical
      else case validateAuthorityDelegationShape delegation of
        f # _ \<Rightarrow> Inl (Rev_target_invalid (failure_code f))
      | [] \<Rightarrow>
        (let target = the (delegation_of delegation) in
         if computeAuthorityDelegationId C (authorityDelegationBody target) \<noteq> delegation_id target then Inl Rev_target_id_mismatch
         else if in_revoker inp \<noteq> JStr (issuer target) then Inl Rev_revoker_not_issuer
         else let origin = issue_origin target inp in
           bindE (rev_write (computeAuthorityRevocationCascadeTransactionIdForWrite C origin)) (\<lambda>cid.
             let body = origin @ [(''cascade_transaction_id'', JStr cid)] in
             case validateAuthorityRevocationShape (revocation_probe body) of
               f # _ \<Rightarrow> Inl (Rev_invalid f)
             | [] \<Rightarrow>
                 bindE (rev_write (computeAuthorityRevocationIdForWrite C body)) (\<lambda>rid.
                   let unsigned = body @ [(''revocation_id'', JStr rid)] in
                   bindE (rev_write (signAuthorityRevocation C unsigned privateKey)) (\<lambda>sig.
                     Inr (revocation_of (JObj (unsigned @ [(''signature'', JStr sig)]))))))))"

section \<open>Verification\<close>

type_synonym key_resolver = "string \<Rightarrow> string \<Rightarrow> string \<Rightarrow> KeyResolution"

definition rev_result :: "AuthorityValidationState \<Rightarrow> AuthorityRevocationFailure list \<Rightarrow> AuthorityRevocationVerificationResult" where
  "rev_result st fs = \<lparr>rev_state = st, rev_valid = (st = State_valid), rev_failures = fs\<rparr>"

definition rev_invalid :: "AuthorityRevocationFailureCode \<Rightarrow> string \<Rightarrow> AuthorityRevocationVerificationResult" where
  "rev_invalid c msg = rev_result State_invalid [rev_failure c msg]"

definition rev_indeterminate :: "AuthorityRevocationFailureCode \<Rightarrow> string \<Rightarrow> AuthorityRevocationVerificationResult" where
  "rev_indeterminate c msg = rev_result State_indeterminate [rev_failure c msg]"

definition REV_UNSUPPORTED_CODES :: "AuthorityRevocationFailureCode list" where
  "REV_UNSUPPORTED_CODES = [R_UNSUPPORTED_RECORD_TYPE, R_UNSUPPORTED_VERSION]"

definition revocationKeyFailure :: "KeyResolution \<Rightarrow> AuthorityRevocationVerificationResult option" where
  "revocationKeyFailure r = (case r of
      Key k \<Rightarrow> if KEY_MATERIAL k then None
        else Some (rev_indeterminate R_KEY_MATERIAL_MALFORMED ''resolved key material is not a 32-byte Ed25519 public key'')
    | KeyResolutionFailure oc \<Rightarrow> Some
        (if oc = ''unsupported_scheme'' then
           rev_result State_unsupported [rev_failure R_KEY_SCHEME_UNSUPPORTED ''identifier scheme is not supported by the resolver'']
         else if oc = ''not_found'' then rev_indeterminate R_KEY_NOT_FOUND ''revoker or key was not found''
         else if oc = ''ambiguous'' then rev_indeterminate R_KEY_AMBIGUOUS ''key resolution was ambiguous''
         else if oc = ''unreachable'' then rev_indeterminate R_KEY_UNREACHABLE ''key material was unreachable''
         else if oc = ''malformed'' then rev_indeterminate R_KEY_MATERIAL_MALFORMED ''resolved key material is structurally malformed''
         else rev_indeterminate R_KEY_RESOLUTION_FAILED ''revoker verification key could not be resolved'')
    | NoKey \<Rightarrow> Some (rev_indeterminate R_KEY_RESOLUTION_FAILED ''revoker verification key could not be resolved''))"

text \<open>The checks on shape-checked records, in order.\<close>

definition verify_checked ::
  "crypto \<Rightarrow> AuthorityRevocationV1 \<Rightarrow> AuthorityDelegationV1 \<Rightarrow> key_resolver option \<Rightarrow> AuthorityRevocationVerificationResult" where
  "verify_checked C r target resolver =
     (if computeAuthorityDelegationId C (authorityDelegationBody target) \<noteq> delegation_id target
      then rev_invalid R_TARGET_ID_MISMATCH ''target delegation content address does not match its body''
      else if rev_delegation_id r \<noteq> delegation_id target
      then rev_invalid R_TARGET_MISMATCH ''revocation does not name this delegation''
      else if revoker r \<noteq> issuer target
      then rev_invalid R_REVOKER_NOT_ISSUER ''revoker is not the target delegation issuer''
      else case resolver of
          None \<Rightarrow> rev_indeterminate R_KEY_RESOLUTION_FAILED ''no verification key resolver was supplied''
        | Some resolve \<Rightarrow>
            (let resolved = resolve (issuer target) (rev_verification_method r) (revoked_at r) in
             case revocationKeyFailure resolved of
               Some f \<Rightarrow> f
             | None \<Rightarrow>
                 if \<not> (case resolved of Key k \<Rightarrow> verifyAuthorityRevocationSignature C r k | _ \<Rightarrow> False)
                 then rev_invalid R_SIGNATURE_INVALID ''Ed25519 signature is invalid''
                 else rev_result State_valid []))"

definition verifyAuthorityRevocation ::
  "crypto \<Rightarrow> json \<Rightarrow> json \<Rightarrow> key_resolver option \<Rightarrow> AuthorityRevocationVerificationResult" where
  "verifyAuthorityRevocation C cand delegation resolver =
     (let shapeFailures = validateAuthorityRevocationShape cand in
      if shapeFailures \<noteq> [] then
        rev_result (if list_all (\<lambda>f. rev_failure_code f \<in> set REV_UNSUPPORTED_CODES) shapeFailures
          then State_unsupported else State_invalid) shapeFailures
      else let r = revocation_of cand in
        if computeAuthorityRevocationCascadeTransactionId C r \<noteq> cascade_transaction_id r
        then rev_invalid R_CASCADE_TRANSACTION_MISMATCH ''cascade_transaction_id does not recompute from the record''
        else if computeAuthorityRevocationId C r \<noteq> revocation_id r
        then rev_invalid R_ID_MISMATCH ''revocation content address does not match its body''
        else (case validateAuthorityDelegationShape delegation of
            f # _ \<Rightarrow> rev_invalid R_SCHEMA_INVALID (''target delegation invalid ('' @ code_name (failure_code f) @ '')'')
          | [] \<Rightarrow> verify_checked C r (the (delegation_of delegation)) resolver))"

section \<open>Store, recording and resolving\<close>

record 's store_ops =
  tracks_op :: "'s \<Rightarrow> string \<Rightarrow> bool option"
  get_op :: "'s \<Rightarrow> string \<Rightarrow> AuthorityRevocationV1 option option"
  insert_op :: "'s \<Rightarrow> AuthorityRevocationV1 \<Rightarrow> ((bool \<times> AuthorityRevocationV1) \<times> 's) option"

record AuthorityRevocationRecordResult =
  recorded :: bool
  inserted :: bool
  stored :: "AuthorityRevocationV1 option"
  verification :: AuthorityRevocationVerificationResult

definition recordAuthorityRevocation ::
  "crypto \<Rightarrow> 's store_ops \<Rightarrow> 's \<Rightarrow> json \<Rightarrow> json \<Rightarrow> key_resolver option \<Rightarrow> (AuthorityRevocationRecordResult \<times> 's) option" where
  "recordAuthorityRevocation C ops s delegation cand resolver =
     (let v = verifyAuthorityRevocation C cand delegation resolver in
      if \<not> rev_valid v then Some (\<lparr>recorded = False, inserted = False, stored = None, verification = v\<rparr>, s)
      else case insert_op ops s (revocation_of cand) of
          None \<Rightarrow> None
        | Some ((ins, r), s') \<Rightarrow> Some (\<lparr>recorded = True, inserted = ins, stored = Some r, verification = v\<rparr>, s'))"

definition createAuthorityRevocationResolver ::
  "crypto \<Rightarrow> 's store_ops \<Rightarrow> 's \<Rightarrow> key_resolver option \<Rightarrow> AuthorityDelegationV1 \<Rightarrow> RevocationResolution" where
  "createAuthorityRevocationResolver C ops s resolver d =
     (let did = computeAuthorityDelegationId C (authorityDelegationBody d) in
      if did \<noteq> delegation_id d then Status_unknown
      else case get_op ops s did of
          None \<Rightarrow> Status_unknown
        | Some (Some r) \<Rightarrow>
            if rev_state (verifyAuthorityRevocation C (json_of_revocation r) (json_of_delegation d) resolver) = State_valid
            then Status_revoked else Status_unknown
        | Some None \<Rightarrow> (case tracks_op ops s did of Some True \<Rightarrow> Status_active | _ \<Rightarrow> Status_unknown))"

record InMemoryAuthorityRevocationStore =
  tracked :: "string list"
  records :: "(string \<times> AuthorityRevocationV1) list"

definition empty_store :: InMemoryAuthorityRevocationStore where
  "empty_store = \<lparr>tracked = [], records = []\<rparr>"

definition track :: "string \<Rightarrow> InMemoryAuthorityRevocationStore \<Rightarrow> InMemoryAuthorityRevocationStore" where
  "track did s = s\<lparr>tracked := List.insert did (tracked s)\<rparr>"

definition tracks :: "InMemoryAuthorityRevocationStore \<Rightarrow> string \<Rightarrow> bool" where
  "tracks s did \<longleftrightarrow> did \<in> set (tracked s)"

definition get_revocation :: "InMemoryAuthorityRevocationStore \<Rightarrow> string \<Rightarrow> AuthorityRevocationV1 option" where
  "get_revocation s did = map_of (records s) did"

definition insertVerifiedRevocation :: "InMemoryAuthorityRevocationStore \<Rightarrow> AuthorityRevocationV1
    \<Rightarrow> (bool \<times> AuthorityRevocationV1) \<times> InMemoryAuthorityRevocationStore" where
  "insertVerifiedRevocation s r =
     (case get_revocation s (rev_delegation_id r) of
        Some existing \<Rightarrow> ((False, existing), s)
      | None \<Rightarrow> ((True, r), s\<lparr>records := records s @ [(rev_delegation_id r, r)],
                            tracked := List.insert (rev_delegation_id r) (tracked s)\<rparr>))"

definition in_memory :: "InMemoryAuthorityRevocationStore store_ops" where
  "in_memory = \<lparr>tracks_op = (\<lambda>s d. Some (tracks s d)), get_op = (\<lambda>s d. Some (get_revocation s d)),
     insert_op = (\<lambda>s r. Some (insertVerifiedRevocation s r))\<rparr>"

section \<open>Well-formed records\<close>

definition wf_revocation :: "AuthorityRevocationV1 \<Rightarrow> bool" where
  "wf_revocation r \<longleftrightarrow> rev_record_type r = AUTHORITY_REVOCATION_RECORD_TYPE \<and> rev_version r = AUTHORITY_REVOCATION_VERSION
     \<and> CONTENT_ADDRESS (revocation_id r) \<and> CONTENT_ADDRESS (rev_delegation_id r) \<and> CONTENT_ADDRESS (cascade_transaction_id r)
     \<and> revoker r \<noteq> [] \<and> rev_verification_method r \<noteq> [] \<and> isCanonicalTimestamp (revoked_at r) \<and> rev_reason_code r \<noteq> []
     \<and> lower_hex 32 (rev_nonce r) \<and> lower_hex 128 (rev_signature r)"

lemmas revocation_members = json_of_revocation_def rev_unsigned_members_def rev_body_members_def origin_members_def detail_member_def

lemma revocation_roundtrip: "revocation_of (json_of_revocation r) = r"
  by (cases "rev_detail r")
    (simp_all add: revocation_of_def revocation_members get_defs Let_def)

lemma member_check_Nil: "member_check m k P c msg = [] \<longleftrightarrow> (\<exists>s. get_str m k = Some s \<and> P s)"
  by (auto simp: member_check_def split: option.split)

lemma member_check_get: "member_check m k P c msg = [] \<Longrightarrow> \<exists>s. get m k = Some (JStr s) \<and> get_str m k = Some s \<and> P s"
  by (auto simp: member_check_Nil get_str_def bind_eq_Some_conv elim!: as_str.elims)

lemma validate_revocation_json: "validateAuthorityRevocationShape (json_of_revocation r) = [] \<longleftrightarrow> wf_revocation r"
proof -
  define m where "m = rev_unsigned_members r @ [(''signature'', JStr (rev_signature r))]"
  have m: "json_of_revocation r = JObj m" by (simp add: json_of_revocation_def m_def)
  have g: "get_str m ''revocation_id'' = Some (revocation_id r)" "get_str m ''delegation_id'' = Some (rev_delegation_id r)"
    "get_str m ''cascade_transaction_id'' = Some (cascade_transaction_id r)" "get_str m ''revoker'' = Some (revoker r)"
    "get_str m ''verification_method'' = Some (rev_verification_method r)" "get_str m ''revoked_at'' = Some (revoked_at r)"
    "get_str m ''reason_code'' = Some (rev_reason_code r)" "get_str m ''nonce'' = Some (rev_nonce r)"
    "get_str m ''signature'' = Some (rev_signature r)" "get m ''record_type'' = Some (JStr (rev_record_type r))"
    "get m ''version'' = Some (JStr (rev_version r))" "get m ''detail'' = map_option JStr (rev_detail r)"
    "get_str m ''detail'' = rev_detail r"
    by (cases "rev_detail r"; simp add: m_def revocation_members get_defs)+
  have req: "filter (\<lambda>k. get m k = None) REQUIRED_KEYS = []"
    "filter (\<lambda>k. k \<notin> set (REQUIRED_KEYS @ OPTIONAL_KEYS)) (map fst m) = []"
    by (cases "rev_detail r"; simp add: m_def revocation_members get_defs REQUIRED_KEYS_def OPTIONAL_KEYS_def)+
  show ?thesis unfolding m validateAuthorityRevocationShape_def wf_revocation_def json.case req
    by (cases "rev_detail r") (simp_all add: member_check_Nil g)
qed

lemma validate_revocation_raw:
  assumes "validateAuthorityRevocationShape j = []"
  shows "\<exists>m. j = JObj m" "wf_revocation (revocation_of j)"
proof -
  from assms obtain m where m: "j = JObj m"
    by (cases j) (simp_all add: validateAuthorityRevocationShape_def)
  then show "\<exists>m. j = JObj m" by blast
  have rt: "get m ''record_type'' = Some (JStr AUTHORITY_REVOCATION_RECORD_TYPE)"
    using assms by (rule contrapos_pp) (simp add: m validateAuthorityRevocationShape_def)
  have vn: "get m ''version'' = Some (JStr AUTHORITY_REVOCATION_VERSION)"
    using assms by (rule contrapos_pp) (simp add: m validateAuthorityRevocationShape_def)
  from assms rt vn show "wf_revocation (revocation_of j)"
    unfolding m validateAuthorityRevocationShape_def json.case
    by (simp add: member_check_Nil wf_revocation_def revocation_of_def Let_def) (auto simp: get_str_def)
qed

section \<open>What verification establishes\<close>

definition revokes :: "crypto \<Rightarrow> key_resolver option \<Rightarrow> AuthorityRevocationV1 \<Rightarrow> AuthorityDelegationV1 \<Rightarrow> bool" where
  "revokes C resolver r d \<longleftrightarrow> wf_revocation r \<and> wf_delegation d
     \<and> computeAuthorityRevocationCascadeTransactionId C r = cascade_transaction_id r
     \<and> computeAuthorityRevocationId C r = revocation_id r
     \<and> computeAuthorityDelegationId C (authorityDelegationBody d) = delegation_id d
     \<and> rev_delegation_id r = delegation_id d \<and> revoker r = issuer d
     \<and> (\<exists>resolve k. resolver = Some resolve \<and> resolve (issuer d) (rev_verification_method r) (revoked_at r) = Key k
          \<and> KEY_MATERIAL k \<and> verifyAuthorityRevocationSignature C r k)"

lemma rev_result_simps [simp]:
  "rev_state (rev_result st fs) = st" "rev_valid (rev_result st fs) = (st = State_valid)" "rev_failures (rev_result st fs) = fs"
  "rev_state (rev_invalid c msg) = State_invalid" "rev_state (rev_indeterminate c msg) = State_indeterminate"
  "rev_valid (rev_invalid c msg) = False" "rev_valid (rev_indeterminate c msg) = False"
  by (simp_all add: rev_result_def rev_invalid_def rev_indeterminate_def)

lemma revocationKeyFailure_None: "revocationKeyFailure res = None \<longleftrightarrow> (\<exists>k. res = Key k \<and> KEY_MATERIAL k)"
  by (auto simp: revocationKeyFailure_def split: KeyResolution.split)

lemma revocationKeyFailure_Some: "revocationKeyFailure res = Some f \<Longrightarrow> rev_state f \<noteq> State_valid \<and> \<not> rev_valid f \<and> rev_failures f \<noteq> []"
  by (auto simp: revocationKeyFailure_def rev_indeterminate_def split: KeyResolution.splits if_splits)

lemma verify_checked_iff:
  "rev_state (verify_checked C r d resolver) = State_valid \<longleftrightarrow>
     computeAuthorityDelegationId C (authorityDelegationBody d) = delegation_id d
     \<and> rev_delegation_id r = delegation_id d \<and> revoker r = issuer d
     \<and> (\<exists>resolve k. resolver = Some resolve \<and> resolve (issuer d) (rev_verification_method r) (revoked_at r) = Key k
          \<and> KEY_MATERIAL k \<and> verifyAuthorityRevocationSignature C r k)"
proof (cases "computeAuthorityDelegationId C (authorityDelegationBody d) = delegation_id d
     \<and> rev_delegation_id r = delegation_id d \<and> revoker r = issuer d")
  case False
  then show ?thesis by (auto simp: verify_checked_def)
next
  case True
  show ?thesis
  proof (cases resolver)
    case None
    with True show ?thesis by (simp add: verify_checked_def)
  next
    case (Some resolve)
    let ?res = "resolve (issuer d) (rev_verification_method r) (revoked_at r)"
    show ?thesis
    proof (cases "revocationKeyFailure ?res")
      case None
      then obtain k where k: "?res = Key k" "KEY_MATERIAL k" unfolding revocationKeyFailure_None by blast
      with True Some None show ?thesis by (simp add: verify_checked_def Let_def)
    next
      case (Some f)
      then have "\<not> (\<exists>k. ?res = Key k \<and> KEY_MATERIAL k)" using revocationKeyFailure_None [of ?res] by auto
      with revocationKeyFailure_Some [OF Some] True \<open>resolver = Some resolve\<close> Some show ?thesis
        by (auto simp: verify_checked_def Let_def)
    qed
  qed
qed

lemma verify_revocation_iff:
  "rev_state (verifyAuthorityRevocation C j dj resolver) = State_valid \<longleftrightarrow>
     validateAuthorityRevocationShape j = [] \<and> validateAuthorityDelegationShape dj = []
     \<and> revokes C resolver (revocation_of j) (the (delegation_of dj))"
proof (cases "validateAuthorityRevocationShape j = [] \<and> validateAuthorityDelegationShape dj = []")
  case False
  then show ?thesis
    by (cases "validateAuthorityDelegationShape dj") (auto simp: verifyAuthorityRevocation_def Let_def)
next
  case True
  then have "wf_revocation (revocation_of j)" "wf_delegation (the (delegation_of dj))"
    using validate_revocation_raw(2) validate_Nil_decodes by force+
  with True verify_checked_iff [of C "revocation_of j" "the (delegation_of dj)" resolver] show ?thesis
    by (simp add: verifyAuthorityRevocation_def Let_def revokes_def)
qed

lemma verify_revocation_typed:
  "rev_state (verifyAuthorityRevocation C (json_of_revocation r) (json_of_delegation d) resolver) = State_valid
   \<longleftrightarrow> revokes C resolver r d"
  unfolding verify_revocation_iff validate_revocation_json validate_iff_wf revocation_roundtrip delegation_roundtrip option.sel
  by (auto simp: revokes_def)

lemma verify_revocation_consistent:
  "rev_valid (verifyAuthorityRevocation C j dj resolver) \<longleftrightarrow> rev_state (verifyAuthorityRevocation C j dj resolver) = State_valid"
proof -
  have "rev_valid (verify_checked C r d resolver) \<longleftrightarrow> rev_state (verify_checked C r d resolver) = State_valid" for r d
    using revocationKeyFailure_Some by (auto simp: verify_checked_def Let_def split: option.split)
  then show ?thesis by (simp add: verifyAuthorityRevocation_def Let_def split: list.split)
qed

section \<open>Issued records verify\<close>

lemma write_strings: "\<forall>kv \<in> set kvs. \<exists>s. snd kv = JStr s \<Longrightarrow>
  canonicalizeJCSForWrite fmt (JObj kvs) = Inr (canonicalizeValue fmt (JObj kvs))"
proof -
  assume "\<forall>kv \<in> set kvs. \<exists>s. snd kv = JStr s"
  then have "write_fault (JObj kvs) = None" unfolding write_fault_JObj_None by fastforce
  then show ?thesis by (simp add: canonicalizeJCSForWrite_def)
qed

lemma validate_gets:
  assumes "validateAuthorityRevocationShape (JObj m) = []"
  shows "\<exists>s. get m ''verification_method'' = Some (JStr s)" "\<exists>s. get m ''reason_code'' = Some (JStr s)"
    "\<exists>s. get m ''nonce'' = Some (JStr s)" "get m ''detail'' = None \<or> (\<exists>s. get m ''detail'' = Some (JStr s))"
proof -
  have rt: "get m ''record_type'' = Some (JStr AUTHORITY_REVOCATION_RECORD_TYPE)"
    using assms by (rule contrapos_pp) (simp add: validateAuthorityRevocationShape_def)
  have vn: "get m ''version'' = Some (JStr AUTHORITY_REVOCATION_VERSION)"
    using assms by (rule contrapos_pp) (simp add: validateAuthorityRevocationShape_def)
  have str: "get_str m k = Some s \<Longrightarrow> get m k = Some (JStr s)" for k s
    by (auto simp: get_str_def bind_eq_Some_conv elim!: as_str.elims)
  have "\<exists>s. get_str m ''verification_method'' = Some s" "\<exists>s. get_str m ''reason_code'' = Some s"
    "\<exists>s. get_str m ''nonce'' = Some s" "get m ''detail'' = None \<or> (\<exists>s. get_str m ''detail'' = Some s)"
    using assms rt vn by (simp_all add: validateAuthorityRevocationShape_def member_check_Nil split: if_splits) blast+
  then show "\<exists>s. get m ''verification_method'' = Some (JStr s)" "\<exists>s. get m ''reason_code'' = Some (JStr s)"
    "\<exists>s. get m ''nonce'' = Some (JStr s)" "get m ''detail'' = None \<or> (\<exists>s. get m ''detail'' = Some (JStr s))"
    using str by blast+
qed

text \<open>The record issuance builds from typed inputs.\<close>

definition issued_body :: "crypto \<Rightarrow> AuthorityDelegationV1 \<Rightarrow> string \<Rightarrow> string \<Rightarrow> string \<Rightarrow> string option \<Rightarrow> string \<Rightarrow> AuthorityRevocationBodyV1" where
  "issued_body C d t meth rc dt nn =
     (let b = \<lparr>rev_record_type = AUTHORITY_REVOCATION_RECORD_TYPE, rev_version = AUTHORITY_REVOCATION_VERSION,
        rev_delegation_id = delegation_id d, revoker = issuer d, rev_verification_method = meth, revoked_at = t,
        rev_reason_code = rc, rev_detail = dt, cascade_transaction_id = [], rev_nonce = nn\<rparr>
      in b\<lparr>cascade_transaction_id := computeAuthorityRevocationCascadeTransactionId C b\<rparr>)"

definition issued_revocation :: "crypto \<Rightarrow> AuthorityRevocationBodyV1 \<Rightarrow> string \<Rightarrow> AuthorityRevocationV1" where
  "issued_revocation C b sk =
     (let r = AuthorityRevocationBodyV1.extend b \<lparr>revocation_id = computeAuthorityRevocationId C b, rev_signature = []\<rparr>
      in r\<lparr>rev_signature := ed25519_sign C (authorityRevocationSignatureInput C r) sk\<rparr>)"

lemma origin_ignores [simp]:
  "origin_members (b\<lparr>cascade_transaction_id := x\<rparr>) = origin_members b"
  by (simp add: origin_members_def)

lemma issued_fields:
  "origin_members (issued_revocation C b sk) = origin_members b"
  "rev_body_members (issued_revocation C b sk) = rev_body_members b"
  "rev_unsigned_members (issued_revocation C b sk) = rev_body_members b @ [(''revocation_id'', JStr (computeAuthorityRevocationId C b))]"
  "revocation_id (issued_revocation C b sk) = computeAuthorityRevocationId C b"
  "rev_signature (issued_revocation C b sk) = ed25519_sign C (AUTHORITY_REVOCATION_SIGNATURE_DOMAIN @ canonicalizeValue (format_number C)
     (JObj (rev_body_members b @ [(''revocation_id'', JStr (computeAuthorityRevocationId C b))]))) sk"
  by (simp_all add: issued_revocation_def rev_unsigned_members_def rev_body_members_def origin_members_def Let_def
      AuthorityRevocationBodyV1.defs authorityRevocationSignatureInput_def)

lemma probe_gets:
  "get (issue_origin d inp @ [(''cascade_transaction_id'', JStr cid)] @ [(''revocation_id'', x), (''signature'', y)]) ''verification_method''
     = Some (in_verification_method inp)"
  "get (issue_origin d inp @ [(''cascade_transaction_id'', JStr cid)] @ [(''revocation_id'', x), (''signature'', y)]) ''reason_code''
     = Some (in_reason_code inp)"
  "get (issue_origin d inp @ [(''cascade_transaction_id'', JStr cid)] @ [(''revocation_id'', x), (''signature'', y)]) ''nonce''
     = Some (in_nonce inp)"
  "get (issue_origin d inp @ [(''cascade_transaction_id'', JStr cid)] @ [(''revocation_id'', x), (''signature'', y)]) ''detail''
     = in_detail inp"
  by (cases "in_detail inp"; simp add: issue_origin_def get_def)+

text \<open>The members of the finished record, once the inputs are the strings the schema asks for.\<close>

lemma issue_origin_typed:
  assumes "in_now inp = JStr t" "in_revoker inp = JStr (issuer d)" "in_verification_method inp = JStr meth"
    "in_reason_code inp = JStr rc" "in_detail inp = map_option JStr dt" "in_nonce inp = JStr nn"
  shows "issue_origin d inp = origin_members (issued_body C d t meth rc dt nn)"
  using assms by (cases dt) (simp_all add: issue_origin_def origin_members_def issued_body_def Let_def detail_member_def)

lemma typed_members_strings:
  "\<forall>kv \<in> set (origin_members b). \<exists>s. snd kv = JStr s" "\<forall>kv \<in> set (rev_body_members b). \<exists>s. snd kv = JStr s"
  by (auto simp: rev_body_members_def origin_members_def detail_member_def split: option.splits)

lemma issued_body_cascade:
  "computeAuthorityRevocationCascadeTransactionId C (issued_body C d t meth rc dt nn) = cascade_transaction_id (issued_body C d t meth rc dt nn)"
  by (simp add: issued_body_def Let_def computeAuthorityRevocationCascadeTransactionId_def authorityRevocationCascadeTransactionInput_def
      origin_members_def)

lemma issue_typed:
  assumes "validateAuthorityDelegationShape dj = []" "delegation_of dj = Some d"
    "computeAuthorityDelegationId C (authorityDelegationBody d) = delegation_id d"
    and "in_now inp = JStr t" "isCanonicalTimestamp t" "in_revoker inp = JStr (issuer d)" "in_verification_method inp = JStr meth"
    "in_reason_code inp = JStr rc" "in_detail inp = map_option JStr dt" "in_nonce inp = JStr nn"
  shows "issueAuthorityRevocation C dj inp sk =
    (case validateAuthorityRevocationShape (revocation_probe (rev_body_members (issued_body C d t meth rc dt nn))) of
       f # _ \<Rightarrow> Inl (Rev_invalid f)
     | [] \<Rightarrow> Inr (issued_revocation C (issued_body C d t meth rc dt nn) sk))"
proof -
  let ?b = "issued_body C d t meth rc dt nn"
  have origin: "issue_origin d inp = origin_members ?b" using issue_origin_typed assms(4,6-) by blast
  have cid: "computeAuthorityRevocationCascadeTransactionIdForWrite C (origin_members ?b) = Inr (cascade_transaction_id ?b)"
    unfolding issued_body_cascade [symmetric]
    by (simp add: computeAuthorityRevocationCascadeTransactionIdForWrite_def write_strings typed_members_strings content_address_def
        computeAuthorityRevocationCascadeTransactionId_def authorityRevocationCascadeTransactionInput_def)
  have body: "origin_members ?b @ [(''cascade_transaction_id'', JStr (cascade_transaction_id ?b))] = rev_body_members ?b"
    by (simp add: rev_body_members_def)
  have rid: "computeAuthorityRevocationIdForWrite C (rev_body_members ?b) = Inr (computeAuthorityRevocationId C ?b)"
    by (simp add: computeAuthorityRevocationIdForWrite_def write_strings typed_members_strings content_address_def
        computeAuthorityRevocationId_def authorityRevocationIdInput_def)
  let ?u = "rev_body_members ?b @ [(''revocation_id'', JStr (computeAuthorityRevocationId C ?b))]"
  have "\<forall>kv \<in> set ?u. \<exists>s. snd kv = JStr s" using typed_members_strings(2) [of ?b] by auto
  then have sig: "signAuthorityRevocation C ?u sk = Inr (rev_signature (issued_revocation C ?b sk))"
    unfolding issued_fields by (simp add: signAuthorityRevocation_def write_strings)
  have "JObj (?u @ [(''signature'', JStr (rev_signature (issued_revocation C ?b sk)))]) = json_of_revocation (issued_revocation C ?b sk)"
    by (simp add: json_of_revocation_def issued_fields(3))
  then have rec: "revocation_of (JObj (?u @ [(''signature'', JStr (rev_signature (issued_revocation C ?b sk)))])) = issued_revocation C ?b sk"
    by (simp only: revocation_roundtrip)
  show ?thesis
    by (simp only: issueAuthorityRevocation_def assms Let_def origin cid rev_write_def body rid sig rec json.case list.case option.sel
        sum.case bindE.simps not_True_eq_False if_False if_True simp_thms cong: list.case_cong)
qed

lemma issue_revocation_Inr:
  assumes r: "issueAuthorityRevocation C dj inp sk = Inr r"
  obtains d t meth rc dt nn where "validateAuthorityDelegationShape dj = []" "delegation_of dj = Some d" "wf_delegation d"
    "computeAuthorityDelegationId C (authorityDelegationBody d) = delegation_id d" "in_now inp = JStr t" "isCanonicalTimestamp t"
    "validateAuthorityRevocationShape (revocation_probe (rev_body_members (issued_body C d t meth rc dt nn))) = []"
    "r = issued_revocation C (issued_body C d t meth rc dt nn) sk"
proof -
  obtain t where t: "in_now inp = JStr t" "isCanonicalTimestamp t"
    using r by (cases "in_now inp") (auto simp: issueAuthorityRevocation_def split: if_splits)
  have shape: "validateAuthorityDelegationShape dj = []"
    using r t by (cases "validateAuthorityDelegationShape dj") (simp_all add: issueAuthorityRevocation_def)
  then obtain d where d: "delegation_of dj = Some d" "wf_delegation d" using validate_Nil_decodes by blast
  have addr: "computeAuthorityDelegationId C (authorityDelegationBody d) = delegation_id d"
    and who: "in_revoker inp = JStr (issuer d)"
    using r t shape d by (auto simp: issueAuthorityRevocation_def Let_def split: if_splits)
  obtain cid where "validateAuthorityRevocationShape (revocation_probe (issue_origin d inp @ [(''cascade_transaction_id'', JStr cid)])) = []"
    using r t shape d addr who
    by (auto simp: issueAuthorityRevocation_def Let_def bindE_Inr_iff case_list_Inr)
  from validate_gets [OF this [unfolded revocation_probe_def append_assoc]]
  obtain meth rc nn where s: "in_verification_method inp = JStr meth" "in_reason_code inp = JStr rc" "in_nonce inp = JStr nn"
    and dt: "in_detail inp = None \<or> (\<exists>s. in_detail inp = Some (JStr s))"
    unfolding probe_gets by auto
  from dt obtain dt where "in_detail inp = map_option JStr dt" by (metis option.map(1,2))
  note eq = issue_typed [OF shape d(1) addr t who s(1,2) this s(3), of sk]
  show thesis
  proof (cases "validateAuthorityRevocationShape (revocation_probe (rev_body_members (issued_body C d t meth rc dt nn)))")
    case Nil
    with r eq have "r = issued_revocation C (issued_body C d t meth rc dt nn) sk" by simp
    with Nil show thesis by (rule that [OF shape d addr t])
  next
    case (Cons f fs)
    with r eq show thesis by simp
  qed
qed

lemma probe_wf:
  assumes "validateAuthorityRevocationShape (revocation_probe (rev_body_members b)) = []"
    and "CONTENT_ADDRESS rid" and "lower_hex 128 sig"
  shows "wf_revocation (AuthorityRevocationBodyV1.extend b \<lparr>revocation_id = rid, rev_signature = sig\<rparr>)"
proof -
  let ?p = "AuthorityRevocationBodyV1.extend b \<lparr>revocation_id = ''sha256:'' @ replicate 64 CHR ''0'', rev_signature = replicate 128 CHR ''0''\<rparr>"
  have "revocation_probe (rev_body_members b) = json_of_revocation ?p"
    by (simp add: revocation_probe_def json_of_revocation_def rev_unsigned_members_def rev_body_members_def origin_members_def
        AuthorityRevocationBodyV1.defs)
  with assms(1) have "wf_revocation ?p" using validate_revocation_json by simp
  with assms(2,3) show ?thesis by (simp add: wf_revocation_def AuthorityRevocationBodyV1.defs)
qed

lemma content_address_digest: "digest_well_formed C \<Longrightarrow> CONTENT_ADDRESS (computeAuthorityRevocationId C b)"
  by (simp add: CONTENT_ADDRESS_def computeAuthorityRevocationId_def digest_well_formed_def startsWith_def)

lemma issued_revokes:
  assumes dig: "digest_well_formed C" and key: "keypair C sk pk"
    and shape: "validateAuthorityRevocationShape (revocation_probe (rev_body_members b)) = []"
    and b: "b = issued_body C d t meth rc dt nn" and wf: "wf_delegation d"
    and addr: "computeAuthorityDelegationId C (authorityDelegationBody d) = delegation_id d"
    and res: "resolve (issuer d) meth t = Key pk"
  shows "revokes C (Some resolve) (issued_revocation C b sk) d"
proof -
  let ?r = "issued_revocation C b sk"
  have sig: "lower_hex 128 (rev_signature ?r)" using key by (simp add: issued_fields keypair_def)
  have ext: "?r = AuthorityRevocationBodyV1.extend b \<lparr>revocation_id = computeAuthorityRevocationId C b, rev_signature = rev_signature ?r\<rparr>"
    by (simp add: issued_revocation_def Let_def AuthorityRevocationBodyV1.defs)
  have "wf_revocation ?r" by (subst ext) (rule probe_wf [OF shape content_address_digest [OF dig] sig])
  moreover have "computeAuthorityRevocationCascadeTransactionId C ?r = cascade_transaction_id ?r"
    using issued_body_cascade [of C d t meth rc dt nn]
    by (simp add: computeAuthorityRevocationCascadeTransactionId_def authorityRevocationCascadeTransactionInput_def issued_fields(1) b)
      (simp add: issued_revocation_def Let_def AuthorityRevocationBodyV1.defs)
  moreover have "computeAuthorityRevocationId C ?r = revocation_id ?r"
    by (simp add: computeAuthorityRevocationId_def authorityRevocationIdInput_def issued_fields(2,4))
  moreover have "verifyAuthorityRevocationSignature C ?r pk"
    using key by (simp add: verifyAuthorityRevocationSignature_def authorityRevocationSignatureInput_def issued_fields(3,5) keypair_def)
  moreover have "rev_delegation_id ?r = delegation_id d \<and> revoker ?r = issuer d \<and> rev_verification_method ?r = meth \<and> revoked_at ?r = t"
    by (simp add: issued_revocation_def Let_def AuthorityRevocationBodyV1.defs b issued_body_def)
  ultimately show ?thesis using wf addr res key by (simp add: revokes_def keypair_def)
qed

section \<open>The store's contract\<close>

text \<open>
  What the interface promises of a write that does not throw: the first write for a target
  takes the slot and brings the target into view, a later one changes nothing the interface
  shows and returns the record held, and other targets are untouched.
\<close>

locale revocation_store =
  fixes ops :: "'s store_ops"
  assumes first_write: "insert_op ops s r = Some ((ins, q), s') \<Longrightarrow> get_op ops s (rev_delegation_id r) = Some None \<Longrightarrow>
      ins \<and> q = r \<and> get_op ops s' (rev_delegation_id r) = Some (Some r) \<and> tracks_op ops s' (rev_delegation_id r) = Some True"
    and slot_taken: "insert_op ops s r = Some ((ins, q), s') \<Longrightarrow> get_op ops s (rev_delegation_id r) = Some (Some e) \<Longrightarrow>
      \<not> ins \<and> q = e \<and> get_op ops s' = get_op ops s \<and> tracks_op ops s' = tracks_op ops s"
    and frame: "insert_op ops s r = Some ((ins, q), s') \<Longrightarrow> did \<noteq> rev_delegation_id r \<Longrightarrow>
      get_op ops s' did = get_op ops s did \<and> tracks_op ops s' did = tracks_op ops s did"
    and readable: "insert_op ops s r = Some ((ins, q), s') \<Longrightarrow> get_op ops s (rev_delegation_id r) \<noteq> None"
begin

lemma insert_keeps:
  assumes "insert_op ops s r = Some ((ins, q), s')" "get_op ops s did = Some (Some e)"
  shows "get_op ops s' did = Some (Some e)"
  using assms slot_taken frame by (cases "did = rev_delegation_id r") auto

lemma recorded_stays:
  assumes "recordAuthorityRevocation C ops s dj j resolver = Some (x, s')" "get_op ops s did = Some (Some e)"
  shows "get_op ops s' did = Some (Some e)"
  using assms insert_keeps
  by (auto simp: recordAuthorityRevocation_def Let_def split: if_splits option.splits)

lemma recorded_holds:
  assumes "recordAuthorityRevocation C ops s dj j resolver = Some (x, s')" "recorded x"
  shows "\<exists>e. get_op ops s' (rev_delegation_id (revocation_of j)) = Some (Some e) \<and> stored x = Some e
    \<and> (inserted x \<longrightarrow> e = revocation_of j) \<and> (\<not> inserted x \<longrightarrow> get_op ops s (rev_delegation_id (revocation_of j)) = Some (Some e))"
proof -
  from assms obtain ins q where i: "insert_op ops s (revocation_of j) = Some ((ins, q), s')" "x = \<lparr>recorded = True, inserted = ins,
      stored = Some q, verification = verifyAuthorityRevocation C j dj resolver\<rparr>"
    by (auto simp: recordAuthorityRevocation_def Let_def split: if_splits option.splits)
  from readable [OF i(1)] obtain held where "get_op ops s (rev_delegation_id (revocation_of j)) = Some held" by blast
  with first_write [OF i(1)] slot_taken [OF i(1)] i(2) show ?thesis by (cases held) auto
qed

lemma revoked_answer_stays:
  assumes "createAuthorityRevocationResolver C ops s resolver d = Status_revoked"
    and "recordAuthorityRevocation C ops s dj j resolver' = Some (x, s')"
  shows "createAuthorityRevocationResolver C ops s' resolver d = Status_revoked"
proof -
  obtain e where "get_op ops s (delegation_id d) = Some (Some e)"
    using assms(1) by (auto simp: createAuthorityRevocationResolver_def Let_def split: if_splits option.splits bool.splits)
  with recorded_stays [OF assms(2) this] assms(1) show ?thesis
    by (auto simp: createAuthorityRevocationResolver_def Let_def split: if_splits)
qed

lemma recording_revokes:
  assumes "recordAuthorityRevocation C ops s (json_of_delegation d) j resolver = Some (x, s')" "recorded x" "inserted x"
  shows "createAuthorityRevocationResolver C ops s' resolver d = Status_revoked"
proof -
  have "rev_valid (verifyAuthorityRevocation C j (json_of_delegation d) resolver)"
    using assms(1,2) by (auto simp: recordAuthorityRevocation_def Let_def split: if_splits)
  then have rv: "revokes C resolver (revocation_of j) d"
    unfolding verify_revocation_consistent verify_revocation_iff delegation_roundtrip option.sel by blast
  from recorded_holds [OF assms(1,2)] assms(3)
  have "get_op ops s' (rev_delegation_id (revocation_of j)) = Some (Some (revocation_of j))" by auto
  with rv have "get_op ops s' (delegation_id d) = Some (Some (revocation_of j))" by (simp add: revokes_def)
  with rv show ?thesis
    by (simp add: createAuthorityRevocationResolver_def Let_def verify_revocation_typed) (simp add: revokes_def)
qed

end

interpretation in_memory_store: revocation_store in_memory
  by unfold_locales
    (auto simp: in_memory_def insertVerifiedRevocation_def get_revocation_def tracks_def map_add_def fun_eq_iff split: option.splits)

section \<open>The in-memory store as a machine\<close>

datatype StoreOp = Track string | Record json json

definition store_apply :: "crypto \<Rightarrow> key_resolver option \<Rightarrow> InMemoryAuthorityRevocationStore \<Rightarrow> StoreOp \<Rightarrow> InMemoryAuthorityRevocationStore" where
  "store_apply C resolver s l = (case l of
     Track did \<Rightarrow> track did s
   | Record dj j \<Rightarrow> (case recordAuthorityRevocation C in_memory s dj j resolver of Some (_, s') \<Rightarrow> s' | None \<Rightarrow> s))"

definition store_step :: "crypto \<Rightarrow> key_resolver option \<Rightarrow> InMemoryAuthorityRevocationStore \<Rightarrow> StoreOp \<Rightarrow> InMemoryAuthorityRevocationStore \<Rightarrow> bool" where
  "store_step C resolver s l t \<longleftrightarrow> t = store_apply C resolver s l"

definition holds_verified :: "crypto \<Rightarrow> key_resolver option \<Rightarrow> InMemoryAuthorityRevocationStore \<Rightarrow> bool" where
  "holds_verified C resolver s \<longleftrightarrow> (\<forall>did r. get_revocation s did = Some r \<longrightarrow>
     tracks s did \<and> rev_delegation_id r = did \<and> (\<exists>d. delegation_id d = did \<and> revokes C resolver r d))"

definition keeps_records :: "InMemoryAuthorityRevocationStore \<Rightarrow> InMemoryAuthorityRevocationStore \<Rightarrow> bool" where
  "keeps_records s t \<longleftrightarrow> (\<forall>did r. get_revocation s did = Some r \<longrightarrow> get_revocation t did = Some r)
     \<and> (\<forall>did. tracks s did \<longrightarrow> tracks t did)"

lemma track_simps [simp]:
  "get_revocation (track did s) x = get_revocation s x" "tracks (track did s) x \<longleftrightarrow> x = did \<or> tracks s x"
  by (auto simp: track_def get_revocation_def tracks_def)

lemma insert_simps:
  "get_revocation (snd (insertVerifiedRevocation s r)) x =
     (if get_revocation s (rev_delegation_id r) = None \<and> x = rev_delegation_id r then Some r else get_revocation s x)"
  "tracks (snd (insertVerifiedRevocation s r)) x \<longleftrightarrow>
     tracks s x \<or> get_revocation s (rev_delegation_id r) = None \<and> x = rev_delegation_id r"
  by (auto simp: insertVerifiedRevocation_def get_revocation_def tracks_def map_add_def split: option.split)

lemma record_in_memory:
  "recordAuthorityRevocation C in_memory s dj j resolver =
     (let v = verifyAuthorityRevocation C j dj resolver; ((ins, r), s') = insertVerifiedRevocation s (revocation_of j) in
      if rev_valid v then Some (\<lparr>recorded = True, inserted = ins, stored = Some r, verification = v\<rparr>, s')
      else Some (\<lparr>recorded = False, inserted = False, stored = None, verification = v\<rparr>, s))"
  by (simp add: recordAuthorityRevocation_def in_memory_def Let_def split: prod.split)

lemma store_apply_Record:
  "store_apply C resolver s (Record dj j) =
     (if rev_valid (verifyAuthorityRevocation C j dj resolver) then snd (insertVerifiedRevocation s (revocation_of j)) else s)"
  by (simp add: store_apply_def record_in_memory Let_def split: prod.split)

lemma verified_revokes:
  assumes "rev_valid (verifyAuthorityRevocation C j dj resolver)"
  shows "\<exists>d. delegation_of dj = Some d \<and> revokes C resolver (revocation_of j) d"
  using assms validate_Nil_decodes [of dj] unfolding verify_revocation_consistent verify_revocation_iff by auto

lemma store_apply_verified:
  assumes "holds_verified C resolver s"
  shows "holds_verified C resolver (store_apply C resolver s l)"
proof (cases l)
  case (Track did)
  with assms show ?thesis by (auto simp: store_apply_def holds_verified_def)
next
  case (Record dj j)
  show ?thesis
  proof (cases "rev_valid (verifyAuthorityRevocation C j dj resolver)")
    case True
    from verified_revokes [OF this] obtain d where d: "revokes C resolver (revocation_of j) d" by blast
    then have "rev_delegation_id (revocation_of j) = delegation_id d" by (simp add: revokes_def)
    with assms d True Record show ?thesis
      by (auto simp: store_apply_Record holds_verified_def insert_simps)
  next
    case False
    with assms Record show ?thesis by (simp add: store_apply_Record)
  qed
qed

lemma store_apply_Track: "store_apply C resolver s (Track did) = track did s"
  by (simp add: store_apply_def)

lemma store_apply_keeps: "keeps_records s (store_apply C resolver s l)"
  by (cases l) (auto simp: store_apply_Record store_apply_Track keeps_records_def insert_simps)

lemma empty_store_verified: "holds_verified C resolver empty_store"
  by (simp add: holds_verified_def empty_store_def get_revocation_def)

lemma keeps_records_order: "keeps_records s s" "keeps_records s t \<Longrightarrow> keeps_records t u \<Longrightarrow> keeps_records s u"
  by (simp_all add: keeps_records_def)

interpretation verified_store: machine_invariant empty_store "store_step C resolver" "\<lambda>_. True" "holds_verified C resolver" for C resolver
  by unfold_locales (simp_all add: empty_store_verified store_step_def store_apply_verified)

interpretation growing_store: machine_progress "store_step C resolver" "holds_verified C resolver" keeps_records for C resolver
  by unfold_locales (auto simp: store_step_def store_apply_verified store_apply_keeps intro: keeps_records_order)

lemma resolver_in_memory:
  "createAuthorityRevocationResolver C in_memory s resolver d =
     (if computeAuthorityDelegationId C (authorityDelegationBody d) \<noteq> delegation_id d then Status_unknown
      else case get_revocation s (delegation_id d) of
          Some r \<Rightarrow> if revokes C resolver r d then Status_revoked else Status_unknown
        | None \<Rightarrow> if tracks s (delegation_id d) then Status_active else Status_unknown)"
  by (auto simp: createAuthorityRevocationResolver_def in_memory_def Let_def verify_revocation_typed split: option.split)

lemma revoked_kept:
  assumes "keeps_records s t" "createAuthorityRevocationResolver C in_memory s resolver d = Status_revoked"
  shows "createAuthorityRevocationResolver C in_memory t resolver d = Status_revoked"
    "get_revocation t (delegation_id d) = get_revocation s (delegation_id d)"
proof -
  obtain r where r: "get_revocation s (delegation_id d) = Some r"
    using assms(2) unfolding resolver_in_memory by (cases "get_revocation s (delegation_id d)") (auto split: if_splits)
  with assms(1) show "get_revocation t (delegation_id d) = get_revocation s (delegation_id d)" by (simp add: keeps_records_def)
  with assms(2) r show "createAuthorityRevocationResolver C in_memory t resolver d = Status_revoked"
    by (simp add: resolver_in_memory split: if_splits)
qed

section \<open>A revocation of the sample root\<close>

definition sample_revocation_input :: AuthorityRevocationIssueInput where
  "sample_revocation_input = \<lparr>in_now = JStr ''2026-02-15T00:00:00.000Z'', in_revoker = JStr ''did:aps:root'',
     in_verification_method = JStr ''did:aps:root#key'', in_reason_code = JStr ''key_compromise'', in_detail = None,
     in_nonce = JStr (replicate 32 CHR ''4'')\<rparr>"

definition sample_keys :: key_resolver where
  "sample_keys = (\<lambda>_ _ _. Key sample_key)"

definition sample_revocation :: AuthorityRevocationV1 where
  "sample_revocation = issued_revocation sample_crypto (issued_body sample_crypto sample_root ''2026-02-15T00:00:00.000Z''
     ''did:aps:root#key'' ''key_compromise'' None (replicate 32 CHR ''4'')) sample_key"

lemma sample_root_addressed:
  "computeAuthorityDelegationId sample_crypto (authorityDelegationBody sample_root) = delegation_id sample_root"
  "issuer sample_root = ''did:aps:root''"
  using sample_chain_valid
  by (simp_all add: valid_chain_def member_ok_def sample_chain_def)
    (simp add: sample_root_def sample_signed_def sample_body_def AuthorityDelegationBodyV1.defs)

lemma sample_probe:
  "validateAuthorityRevocationShape (revocation_probe (rev_body_members (issued_body sample_crypto sample_root ''2026-02-15T00:00:00.000Z''
     ''did:aps:root#key'' ''key_compromise'' None (replicate 32 CHR ''4'')))) = []"
  by code_simp

lemma sample_revocation_issued:
  "issueAuthorityRevocation sample_crypto (json_of_delegation sample_root) sample_revocation_input sample_key = Inr sample_revocation"
proof -
  have shape: "validateAuthorityDelegationShape (json_of_delegation sample_root) = []" using validate_iff_wf sample_root_wf by simp
  have "isCanonicalTimestamp ''2026-02-15T00:00:00.000Z''" by code_simp
  from issue_typed [OF shape delegation_roundtrip sample_root_addressed(1) _ this, of sample_revocation_input "''did:aps:root#key''"
      "''key_compromise''" None "replicate 32 CHR ''4''" sample_key]
  show ?thesis unfolding sample_probe sample_revocation_def
    by (simp add: sample_revocation_input_def sample_root_addressed(2))
qed

lemma sample_revokes: "revokes sample_crypto (Some sample_keys) sample_revocation sample_root"
  unfolding sample_revocation_def
  by (rule issued_revokes [OF sample_digest_ok sample_keypair sample_probe refl sample_root_wf sample_root_addressed(1)])
    (simp add: sample_keys_def)

definition sample_record :: StoreOp where
  "sample_record = Record (json_of_delegation sample_root) (json_of_revocation sample_revocation)"

definition sample_store :: InMemoryAuthorityRevocationStore where
  "sample_store = store_apply sample_crypto (Some sample_keys) empty_store sample_record"

lemma sample_store_run: "run (store_step sample_crypto (Some sample_keys)) empty_store [sample_record] sample_store"
  using run_snoc [OF run_Nil, of "store_step sample_crypto (Some sample_keys)" empty_store sample_record sample_store]
  by (simp add: store_step_def sample_store_def)

lemma sample_store_record: "get_revocation sample_store (delegation_id sample_root) = Some sample_revocation"
proof -
  have "rev_valid (verifyAuthorityRevocation sample_crypto (json_of_revocation sample_revocation) (json_of_delegation sample_root) (Some sample_keys))"
    unfolding verify_revocation_consistent verify_revocation_typed by (rule sample_revokes)
  moreover have "rev_delegation_id sample_revocation = delegation_id sample_root" using sample_revokes by (simp add: revokes_def)
  moreover have "get_revocation empty_store did = None" for did by (simp add: empty_store_def get_revocation_def)
  ultimately show ?thesis
    by (simp add: sample_store_def sample_record_def store_apply_Record revocation_roundtrip insert_simps)
qed

lemma sample_store_revoked: "createAuthorityRevocationResolver sample_crypto in_memory sample_store (Some sample_keys) sample_root = Status_revoked"
  by (simp add: resolver_in_memory sample_root_addressed sample_store_record sample_revokes)

section \<open>Properties\<close>

text \<open>C18. Verification answers valid exactly on the revocations of a delegation by its own issuer: a
  record of the closed schema whose cascade identity and content address recompute, that
  names a well-formed delegation whose address recomputes, whose revoker is that
  delegation's issuer, and whose signature verifies under the key the issuer's identifier
  resolves to at the revocation time.\<close>

theorem revocation_verification_exact:
  "rev_state (verifyAuthorityRevocation C j dj resolver) = State_valid \<longleftrightarrow>
     isAuthorityRevocationV1 j \<and> isAuthorityDelegationV1 dj \<and> revokes C resolver (revocation_of j) (the (delegation_of dj))"
  unfolding isAuthorityRevocationV1_def isAuthorityDelegationV1_def by (rule verify_revocation_iff)

text \<open>Whatever issuance returns verifies against the delegation it was issued for, under any
  resolver that returns the signer's public key for the issuer, method and time the record
  carries.\<close>

theorem issued_revocation_verifies:
  assumes "issueAuthorityRevocation C dj inp sk = Inr r" and "digest_well_formed C" and "keypair C sk pk"
    and "resolve (revoker r) (rev_verification_method r) (revoked_at r) = Key pk"
  shows "rev_state (verifyAuthorityRevocation C (json_of_revocation r) dj (Some resolve)) = State_valid"
proof -
  from assms(1) obtain d t meth rc dt nn where d: "validateAuthorityDelegationShape dj = []" "delegation_of dj = Some d" "wf_delegation d"
    "computeAuthorityDelegationId C (authorityDelegationBody d) = delegation_id d"
    and shape: "validateAuthorityRevocationShape (revocation_probe (rev_body_members (issued_body C d t meth rc dt nn))) = []"
    and r: "r = issued_revocation C (issued_body C d t meth rc dt nn) sk"
    by (rule issue_revocation_Inr)
  have "revoker r = issuer d" "rev_verification_method r = meth" "revoked_at r = t"
    by (simp_all add: r issued_revocation_def Let_def AuthorityRevocationBodyV1.defs issued_body_def)
  with assms(4) have "revokes C (Some resolve) r d"
    unfolding r using issued_revokes [OF assms(2,3) shape refl d(3,4)] by simp
  then show ?thesis
    unfolding verify_revocation_iff validate_revocation_json revocation_roundtrip using d by (simp add: revokes_def)
qed

theorem issued_revocation_verifies_witness:
  "rev_state (verifyAuthorityRevocation sample_crypto (json_of_revocation sample_revocation) (json_of_delegation sample_root) (Some sample_keys))
     = State_valid"
  by (rule issued_revocation_verifies [OF sample_revocation_issued sample_digest_ok sample_keypair]) (simp add: sample_keys_def)

text \<open>C19. Every record the in-memory store holds, after any sequence of track and record operations,
  was verified: it names the delegation it is filed under, revokes it, and that delegation is
  inside the store's view.\<close>

theorem store_holds_only_verified_revocations:
  assumes "run (store_step C resolver) empty_store ops s" and "get_revocation s did = Some r"
  shows "tracks s did \<and> (\<exists>d. delegation_id d = did \<and> revokes C resolver r d)"
  using verified_store.reachable [OF assms(1)] assms(2) by (auto simp: holds_verified_def list_all_iff)

theorem store_holds_only_verified_revocations_witness:
  "tracks sample_store (delegation_id sample_root)"
  using store_holds_only_verified_revocations [OF sample_store_run sample_store_record] by blast

text \<open>C20. Revocation is irreversible: once the resolver answers revoked for a delegation, it answers
  revoked after any further sequence of operations, and the record first stored is the one
  that stays.\<close>

theorem revocation_is_irreversible:
  assumes "run (store_step C resolver) empty_store ops s" and "run (store_step C resolver) s ops' t"
    and "createAuthorityRevocationResolver C in_memory s resolver d = Status_revoked"
  shows "createAuthorityRevocationResolver C in_memory t resolver d = Status_revoked
    \<and> get_revocation t (delegation_id d) = get_revocation s (delegation_id d)"
proof -
  have "keeps_records s t"
    using growing_store.run_forward [OF assms(2)] verified_store.reachable [OF assms(1)] by (simp add: list_all_iff)
  from revoked_kept [OF this assms(3)] show ?thesis by blast
qed

theorem revocation_is_irreversible_witness:
  "createAuthorityRevocationResolver sample_crypto in_memory (track ''other'' sample_store) (Some sample_keys) sample_root = Status_revoked"
proof -
  have "run (store_step sample_crypto (Some sample_keys)) sample_store [Track ''other''] (track ''other'' sample_store)"
    using run_snoc [OF run_Nil, of "store_step sample_crypto (Some sample_keys)" sample_store "Track ''other''"]
    by (simp add: store_step_def store_apply_Track)
  from revocation_is_irreversible [OF sample_store_run this sample_store_revoked] show ?thesis by blast
qed

text \<open>A recorded revocation that took the slot is visible at once: the resolver answers revoked for
  the delegation it was recorded against.\<close>

theorem recorded_revocation_is_visible:
  assumes "recordAuthorityRevocation C in_memory s (json_of_delegation d) j resolver = Some (x, s')" and "inserted x"
  shows "createAuthorityRevocationResolver C in_memory s' resolver d = Status_revoked"
proof -
  have "recorded x" using assms by (auto simp: recordAuthorityRevocation_def in_memory_def Let_def split: if_splits prod.splits)
  then show ?thesis using in_memory_store.recording_revokes assms by blast
qed

theorem recorded_revocation_is_visible_witness:
  "\<exists>x s'. recordAuthorityRevocation sample_crypto in_memory empty_store (json_of_delegation sample_root)
      (json_of_revocation sample_revocation) (Some sample_keys) = Some (x, s')
     \<and> createAuthorityRevocationResolver sample_crypto in_memory s' (Some sample_keys) sample_root = Status_revoked"
proof -
  have "rev_valid (verifyAuthorityRevocation sample_crypto (json_of_revocation sample_revocation) (json_of_delegation sample_root) (Some sample_keys))"
    unfolding verify_revocation_consistent verify_revocation_typed by (rule sample_revokes)
  then obtain x s' where "recordAuthorityRevocation sample_crypto in_memory empty_store (json_of_delegation sample_root)
      (json_of_revocation sample_revocation) (Some sample_keys) = Some (x, s')" "inserted x"
    by (simp add: record_in_memory Let_def insertVerifiedRevocation_def empty_store_def get_revocation_def)
  with recorded_revocation_is_visible show ?thesis by blast
qed

text \<open>The resolver never manufactures an active answer: it answers active exactly for a delegation
  whose address recomputes, that the store tracks, and for which it holds no record.\<close>

theorem active_answer_is_earned:
  "createAuthorityRevocationResolver C in_memory s resolver d = Status_active \<longleftrightarrow>
     computeAuthorityDelegationId C (authorityDelegationBody d) = delegation_id d
     \<and> tracks s (delegation_id d) \<and> get_revocation s (delegation_id d) = None"
  by (auto simp: resolver_in_memory split: option.splits)

end
