(* ===== verification/Authority_State.thy ===== *)
theory Authority_State
  imports Authority_Revocation "HOL-Library.Multiset"
begin

text \<open>
  \<^verbatim>\<open>src/v2/authority-state/\<close>: generation markers on authority state and their comparison, the
  fenced publication log, revocation resolution under a retained high-water mark, the
  withdrawal of a recorded revocation, and the report that carries them beside a chain
  result.

  A marker value that is not a string is represented by a string that is not a canonical
  decimal, which every operation treats alike.  A resolver that throws answers
  \<open>Status_unknown\<close>, and a standing resolver that throws or answers outside its vocabulary
  answers \<open>None\<close>.
\<close>

section \<open>Markers\<close>

definition STATE_MARKER_SCOPES :: "string list" where
  "STATE_MARKER_SCOPES = [''global'', ''per_delegation'', ''per_principal'', ''per_store'']"

record StateMarker =
  marker_value :: string
  marker_scope :: string
  scope_ref :: "string option"

datatype MonotonicityOutcome = Forward | Regressed | Unplaceable

datatype UnplaceableDisposition = Read_presented | Refuse

datatype AuthorityStateError =
    MARKER_VALUE_NONCANONICAL | MARKER_SCOPE_UNKNOWN | MARKER_SCOPE_REF_NOT_ALLOWED | MARKER_SCOPE_REF_REQUIRED
  | WITHDRAWAL_ID_NONCANONICAL | WITHDRAWAL_FIELD_REQUIRED | WITHDRAWAL_DETAIL_INVALID

definition isStateMarkerScope :: "string \<Rightarrow> bool" where
  "isStateMarkerScope s \<longleftrightarrow> s \<in> set STATE_MARKER_SCOPES"

definition stateMarker :: "StateMarker \<Rightarrow> (AuthorityStateError, StateMarker) result" where
  "stateMarker inp =
     (if \<not> is_decimal (marker_value inp) then Inl MARKER_VALUE_NONCANONICAL
      else if \<not> isStateMarkerScope (marker_scope inp) then Inl MARKER_SCOPE_UNKNOWN
      else if marker_scope inp = ''global'' then
        (if scope_ref inp \<noteq> None then Inl MARKER_SCOPE_REF_NOT_ALLOWED
         else Inr \<lparr>marker_value = marker_value inp, marker_scope = marker_scope inp, scope_ref = None\<rparr>)
      else case scope_ref inp of
          None \<Rightarrow> Inl MARKER_SCOPE_REF_REQUIRED
        | Some s \<Rightarrow> if s = [] then Inl MARKER_SCOPE_REF_REQUIRED
            else Inr \<lparr>marker_value = marker_value inp, marker_scope = marker_scope inp, scope_ref = Some s\<rparr>)"

definition sameScope :: "StateMarker \<Rightarrow> StateMarker \<Rightarrow> bool" where
  "sameScope a b \<longleftrightarrow> marker_scope a = marker_scope b \<and> scope_ref a = scope_ref b"

definition compareStateMarker :: "StateMarker option \<Rightarrow> StateMarker option \<Rightarrow> MonotonicityOutcome" where
  "compareStateMarker established presented =
     (case (established, presented) of
        (Some e, Some p) \<Rightarrow>
          if \<not> is_decimal (marker_value e) then Unplaceable
          else if \<not> is_decimal (marker_value p) then Unplaceable
          else if \<not> sameScope e p then Unplaceable
          else if BigInt (marker_value p) \<ge> BigInt (marker_value e) then Forward else Regressed
      | _ \<Rightarrow> Unplaceable)"

definition advanceHighWaterMark :: "StateMarker option \<Rightarrow> StateMarker option \<Rightarrow> StateMarker option" where
  "advanceHighWaterMark established presented =
     (case presented of
        None \<Rightarrow> established
      | Some p \<Rightarrow> (case established of
          None \<Rightarrow> presented
        | Some e \<Rightarrow> if compareStateMarker established presented = Forward then presented else established))"

section \<open>The fenced log\<close>

datatype FencedWriteRefusalCode = Stale_fencing_token | Fencing_scope_mismatch | Fencing_token_unreadable

record 'p FencedWrite =
  write_token :: "StateMarker option"
  write_payload :: 'p

datatype 'p FencedWriteOutcome =
    Accepted_write StateMarker 'p
  | Refused_write FencedWriteRefusalCode "StateMarker option"

record 'p FencedAuthorityStateLog =
  highest :: "StateMarker option"
  log_payload :: "'p option"
  log_written :: bool

definition empty_log :: "'p FencedAuthorityStateLog" where
  "empty_log = \<lparr>highest = None, log_payload = None, log_written = False\<rparr>"

definition fenced_write :: "'p FencedAuthorityStateLog \<Rightarrow> 'p FencedWrite \<Rightarrow> 'p FencedWriteOutcome \<times> 'p FencedAuthorityStateLog" where
  "fenced_write lg w =
     (if compareStateMarker (write_token w) (write_token w) \<noteq> Forward
      then (Refused_write Fencing_token_unreadable (highest lg), lg)
      else let token = the (write_token w) in
        case highest lg of
          Some h \<Rightarrow>
            if \<not> sameScope h token then (Refused_write Fencing_scope_mismatch (highest lg), lg)
            else if compareStateMarker (highest lg) (write_token w) \<noteq> Forward
            then (Refused_write Stale_fencing_token (highest lg), lg)
            else (Accepted_write token (write_payload w),
                  \<lparr>highest = Some token, log_payload = Some (write_payload w), log_written = True\<rparr>)
        | None \<Rightarrow> (Accepted_write token (write_payload w),
                   \<lparr>highest = Some token, log_payload = Some (write_payload w), log_written = True\<rparr>))"

section \<open>Resolution under a retained mark\<close>

record RetainedAuthorityState =
  retained_records :: "AuthorityRevocationV1 list"
  highWaterMark :: "StateMarker option"

definition resolveUnderRetainedState ::
  "crypto \<Rightarrow> AuthorityDelegationV1 \<Rightarrow> RetainedAuthorityState \<Rightarrow> key_resolver option \<Rightarrow> RevocationResolution" where
  "resolveUnderRetainedState C d retained resolver =
     (if list_ex (\<lambda>r. rev_state (verifyAuthorityRevocation C (json_of_revocation r) (json_of_delegation d) resolver) = State_valid)
           (retained_records retained)
      then Status_revoked else Status_unknown)"

record MonotonicRevocationResolverOptions =
  presented :: "AuthorityDelegationV1 \<Rightarrow> RevocationResolution"
  presentedMarker :: "StateMarker option"
  retained :: RetainedAuthorityState
  retained_keys :: "key_resolver option"
  onUnplaceable :: UnplaceableDisposition

record MonotonicRevocationResolver =
  resolve :: "AuthorityDelegationV1 \<Rightarrow> RevocationResolution"
  monotonicity :: MonotonicityOutcome
  highWaterMarkAfter :: "StateMarker option"

definition createMonotonicRevocationResolver :: "crypto \<Rightarrow> MonotonicRevocationResolverOptions \<Rightarrow> MonotonicRevocationResolver" where
  "createMonotonicRevocationResolver C opts =
     (let placing = compareStateMarker (highWaterMark (retained opts)) (presentedMarker opts) in
      \<lparr>resolve = (\<lambda>d.
         if placing = Regressed then resolveUnderRetainedState C d (retained opts) (retained_keys opts)
         else if placing = Unplaceable \<and> onUnplaceable opts = Refuse then Status_unknown
         else presented opts d),
       monotonicity = placing,
       highWaterMarkAfter = advanceHighWaterMark (highWaterMark (retained opts)) (presentedMarker opts)\<rparr>)"

section \<open>Withdrawals\<close>

definition REVOCATION_WITHDRAWAL_RECORD_TYPE :: string where
  "REVOCATION_WITHDRAWAL_RECORD_TYPE = ''proposed:aps:revocation-withdrawal:v0''"

definition REVOCATION_WITHDRAWAL_VERSION :: string where
  "REVOCATION_WITHDRAWAL_VERSION = ''0''"

record RevocationWithdrawalInput =
  wd_revocation_id :: string
  wd_delegation_id :: string
  withdrawn_by :: string
  withdrawn_at :: string
  wd_reason_code :: string
  wd_detail :: "string option"

record RevocationWithdrawalV0 = RevocationWithdrawalInput +
  wd_record_type :: string
  wd_version :: string

datatype WithdrawalStanding = Has_standing | No_standing | Standing_unknown

type_synonym WithdrawalStandingResolver = "RevocationWithdrawalV0 \<Rightarrow> AuthorityRevocationV1 \<Rightarrow> WithdrawalStanding option"

datatype WithdrawalOutcomeCode =
    WITHDRAWAL_ACCEPTED | WITHDRAWAL_SCHEMA_INVALID | WITHDRAWAL_NAMES_NO_HELD_REVOCATION | WITHDRAWAL_TARGET_MISMATCH
  | WITHDRAWAL_SIGNER_WITHOUT_STANDING | WITHDRAWAL_STANDING_NOT_ESTABLISHED

record WithdrawalEvaluation =
  wd_accepted :: bool
  wd_outcome :: WithdrawalOutcomeCode
  standing :: "WithdrawalStanding option"
  evaluated :: RevocationWithdrawalV0

record CorrectedRevocationView =
  view_revocation :: AuthorityRevocationV1
  view_accepted :: "WithdrawalEvaluation list"
  view_refused :: "WithdrawalEvaluation list"

definition revocationWithdrawal :: "RevocationWithdrawalInput \<Rightarrow> (AuthorityStateError, RevocationWithdrawalV0) result" where
  "revocationWithdrawal inp =
     (if \<not> CONTENT_ADDRESS (wd_revocation_id inp) \<or> \<not> CONTENT_ADDRESS (wd_delegation_id inp) then Inl WITHDRAWAL_ID_NONCANONICAL
      else if withdrawn_by inp = [] \<or> withdrawn_at inp = [] \<or> wd_reason_code inp = [] then Inl WITHDRAWAL_FIELD_REQUIRED
      else if wd_detail inp = Some [] then Inl WITHDRAWAL_DETAIL_INVALID
      else Inr (RevocationWithdrawalInput.extend inp
        \<lparr>wd_record_type = REVOCATION_WITHDRAWAL_RECORD_TYPE, wd_version = REVOCATION_WITHDRAWAL_VERSION\<rparr>))"

definition withdrawalSignerIsRevoker :: WithdrawalStandingResolver where
  "withdrawalSignerIsRevoker w r = Some (if withdrawn_by w = revoker r then Has_standing else No_standing)"

definition malformed :: "RevocationWithdrawalV0 \<Rightarrow> bool" where
  "malformed w \<longleftrightarrow> wd_record_type w \<noteq> REVOCATION_WITHDRAWAL_RECORD_TYPE \<or> wd_version w \<noteq> REVOCATION_WITHDRAWAL_VERSION
     \<or> \<not> CONTENT_ADDRESS (wd_revocation_id w) \<or> \<not> CONTENT_ADDRESS (wd_delegation_id w)
     \<or> withdrawn_by w = [] \<or> withdrawn_at w = [] \<or> wd_reason_code w = []"

definition evaluateRevocationWithdrawal ::
  "RevocationWithdrawalV0 \<Rightarrow> AuthorityRevocationV1 list \<Rightarrow> WithdrawalStandingResolver \<Rightarrow> WithdrawalEvaluation" where
  "evaluateRevocationWithdrawal w heldRevocations resolveStanding =
     (if malformed w
      then \<lparr>wd_accepted = False, wd_outcome = WITHDRAWAL_SCHEMA_INVALID, standing = None, evaluated = w\<rparr>
      else case List.find (\<lambda>r. revocation_id r = wd_revocation_id w) heldRevocations of
          None \<Rightarrow> \<lparr>wd_accepted = False, wd_outcome = WITHDRAWAL_NAMES_NO_HELD_REVOCATION, standing = None, evaluated = w\<rparr>
        | Some target \<Rightarrow>
            if rev_delegation_id target \<noteq> wd_delegation_id w
            then \<lparr>wd_accepted = False, wd_outcome = WITHDRAWAL_TARGET_MISMATCH, standing = None, evaluated = w\<rparr>
            else let st = (case resolveStanding w target of Some s \<Rightarrow> s | None \<Rightarrow> Standing_unknown) in
              (case st of
                 Has_standing \<Rightarrow> \<lparr>wd_accepted = True, wd_outcome = WITHDRAWAL_ACCEPTED, standing = Some st, evaluated = w\<rparr>
               | No_standing \<Rightarrow> \<lparr>wd_accepted = False, wd_outcome = WITHDRAWAL_SIGNER_WITHOUT_STANDING, standing = Some st, evaluated = w\<rparr>
               | Standing_unknown \<Rightarrow>
                   \<lparr>wd_accepted = False, wd_outcome = WITHDRAWAL_STANDING_NOT_ESTABLISHED, standing = Some st, evaluated = w\<rparr>))"

definition correctedRevocationView ::
  "AuthorityRevocationV1 \<Rightarrow> RevocationWithdrawalV0 list \<Rightarrow> WithdrawalStandingResolver \<Rightarrow> CorrectedRevocationView" where
  "correctedRevocationView r ws resolveStanding =
     (let evaluations = map (\<lambda>w. evaluateRevocationWithdrawal w [r] resolveStanding) ws in
      \<lparr>view_revocation = r, view_accepted = filter wd_accepted evaluations,
       view_refused = filter (\<lambda>e. \<not> wd_accepted e) evaluations\<rparr>)"

section \<open>The report\<close>

record AuthorityStateReport =
  report_chain :: AuthorityValidationResult
  report_lifecycle :: "LifecycleStateResult option"
  report_monotonicity :: "MonotonicityOutcome option"
  report_highWaterMarkAfter :: "StateMarker option option"
  report_corrections :: "CorrectedRevocationView list option"

text \<open>\<open>authorityStateReport\<close> copies its five members; an absent member stays absent.\<close>

definition authorityStateReport :: "AuthorityStateReport \<Rightarrow> AuthorityStateReport" where
  "authorityStateReport inp = \<lparr>report_chain = report_chain inp, report_lifecycle = report_lifecycle inp,
     report_monotonicity = report_monotonicity inp, report_highWaterMarkAfter = report_highWaterMarkAfter inp,
     report_corrections = report_corrections inp\<rparr>"

definition reportAuthorityState ::
  "AuthorityValidationResult \<Rightarrow> bool \<Rightarrow> MonotonicityOutcome option \<Rightarrow> StateMarker option option \<Rightarrow> CorrectedRevocationView list option
    \<Rightarrow> (LifecycleStateError, AuthorityStateReport) result" where
  "reportAuthorityState chn lifecycleOptions placing hw corrections =
     bindE (mapAuthorityValidationToLifecycle lifecycleOptions chn) (\<lambda>lc.
       Inr (authorityStateReport \<lparr>report_chain = chn, report_lifecycle = Some lc, report_monotonicity = placing,
         report_highWaterMarkAfter = hw, report_corrections = corrections\<rparr>))"

section \<open>Lemmas\<close>

text \<open>The order of readable markers counted in one scope.\<close>

definition marker_le :: "StateMarker option \<Rightarrow> StateMarker option \<Rightarrow> bool" where
  "marker_le a b \<longleftrightarrow> (case a of None \<Rightarrow> True
     | Some x \<Rightarrow> (case b of None \<Rightarrow> False
        | Some y \<Rightarrow> x = y \<or> sameScope x y \<and> BigInt (marker_value x) \<le> BigInt (marker_value y)))"

lemma sameScope_equiv: "sameScope a a" "sameScope a b \<Longrightarrow> sameScope b c \<Longrightarrow> sameScope a c" "sameScope a b \<Longrightarrow> sameScope b a"
  by (simp_all add: sameScope_def)

lemma marker_le_order: "marker_le a a" "marker_le a b \<Longrightarrow> marker_le b c \<Longrightarrow> marker_le a c"
  by (auto simp: marker_le_def sameScope_def split: option.splits)

lemma compare_self: "compareStateMarker t t = Forward \<longleftrightarrow> (\<exists>m. t = Some m \<and> is_decimal (marker_value m))"
  by (auto simp: compareStateMarker_def sameScope_def split: option.split)

lemma compare_Forward:
  "compareStateMarker a b = Forward \<Longrightarrow> marker_le a b"
  "compareStateMarker a b = Forward \<longleftrightarrow> (\<exists>x y. a = Some x \<and> b = Some y \<and> is_decimal (marker_value x) \<and> is_decimal (marker_value y)
     \<and> sameScope x y \<and> BigInt (marker_value x) \<le> BigInt (marker_value y))"
  by (auto simp: compareStateMarker_def marker_le_def split: option.splits if_splits)

lemma advance_forward: "marker_le e (advanceHighWaterMark e p)"
  using compare_Forward(1) [of e p] marker_le_order(1)
  by (auto simp: advanceHighWaterMark_def marker_le_def split: option.splits)

definition fenced_step :: "'p FencedAuthorityStateLog \<Rightarrow> 'p FencedWrite \<Rightarrow> 'p FencedAuthorityStateLog \<Rightarrow> bool" where
  "fenced_step s w t \<longleftrightarrow> t = snd (fenced_write s w)"

definition log_ok :: "'p FencedAuthorityStateLog \<Rightarrow> bool" where
  "log_ok lg \<longleftrightarrow> (log_written lg \<longleftrightarrow> highest lg \<noteq> None) \<and> (log_payload lg \<noteq> None \<longleftrightarrow> log_written lg)
     \<and> (\<forall>m. highest lg = Some m \<longrightarrow> is_decimal (marker_value m))"

lemma fenced_write_cases:
  "(\<exists>c. fenced_write lg w = (Refused_write c (highest lg), lg)
      \<and> \<not> (\<exists>tk. write_token w = Some tk \<and> is_decimal (marker_value tk) \<and>
           (case highest lg of None \<Rightarrow> True | Some h \<Rightarrow> compareStateMarker (highest lg) (write_token w) = Forward)))
   \<or> (\<exists>tk. write_token w = Some tk \<and> is_decimal (marker_value tk)
      \<and> (case highest lg of None \<Rightarrow> True | Some h \<Rightarrow> compareStateMarker (highest lg) (write_token w) = Forward)
      \<and> fenced_write lg w = (Accepted_write tk (write_payload w),
           \<lparr>highest = Some tk, log_payload = Some (write_payload w), log_written = True\<rparr>))"
  using compare_self [of "write_token w"]
  by (auto simp: fenced_write_def Let_def compare_Forward(2) split: option.split)

lemma fenced_step_ok: "log_ok s \<Longrightarrow> fenced_step s w t \<Longrightarrow> log_ok t"
  using fenced_write_cases [of s w] by (auto simp: fenced_step_def log_ok_def)

lemma fenced_step_forward: "fenced_step s w t \<Longrightarrow> marker_le (highest s) (highest t)"
  using fenced_write_cases [of s w] compare_Forward(1) [of "highest s" "write_token w"] marker_le_order(1) [of "highest s"]
  by (cases "highest s") (auto simp: fenced_step_def, simp add: marker_le_def)

lemma empty_log_ok: "log_ok empty_log"
  by (simp add: log_ok_def empty_log_def)

interpretation fenced: machine_progress fenced_step log_ok "\<lambda>s t. marker_le (highest s) (highest t)"
  by unfold_locales (auto intro: marker_le_order fenced_step_ok fenced_step_forward)

interpretation fenced_shape: machine_invariant empty_log fenced_step "\<lambda>_. True" log_ok
  by unfold_locales (auto intro: empty_log_ok fenced_step_ok)

lemma retained_iff:
  "resolveUnderRetainedState C d rt resolver = (if \<exists>r \<in> set (retained_records rt). revokes C resolver r d then Status_revoked else Status_unknown)"
  by (auto simp: resolveUnderRetainedState_def list_ex_iff verify_revocation_typed)

lemma regressed_resolve:
  assumes "monotonicity (createMonotonicRevocationResolver C opts) = Regressed"
  shows "resolve (createMonotonicRevocationResolver C opts) d = resolveUnderRetainedState C d (retained opts) (retained_keys opts)"
  using assms by (simp add: createMonotonicRevocationResolver_def Let_def)

text \<open>A sequence of reads, each advancing the mark the verifier holds.\<close>

definition read_marks :: "StateMarker option \<Rightarrow> StateMarker option list \<Rightarrow> StateMarker option" where
  "read_marks e ps = foldl advanceHighWaterMark e ps"

lemma read_marks_forward: "marker_le e (read_marks e ps)"
proof (induction ps arbitrary: e)
  case Nil
  then show ?case by (simp add: read_marks_def marker_le_order)
next
  case (Cons p ps)
  from marker_le_order(2) [OF advance_forward Cons.IH [of "advanceHighWaterMark e p"]] show ?case
    by (simp add: read_marks_def)
qed

lemma marker_constructed:
  "stateMarker inp = Inr m \<longleftrightarrow> m = inp \<and> is_decimal (marker_value inp) \<and> isStateMarkerScope (marker_scope inp)
     \<and> (scope_ref inp = None \<longleftrightarrow> marker_scope inp = ''global'') \<and> scope_ref inp \<noteq> Some []"
  by (cases inp) (auto simp: stateMarker_def split: option.splits)

lemma advance_readable:
  "is_decimal (marker_value m) \<Longrightarrow> \<exists>h. advanceHighWaterMark (Some m) p = Some h \<and> is_decimal (marker_value h)"
  by (auto simp: advanceHighWaterMark_def compare_Forward(2) split: option.split)

lemma read_marks_readable:
  "is_decimal (marker_value m) \<Longrightarrow> \<exists>h. read_marks (Some m) ps = Some h \<and> is_decimal (marker_value h)"
proof (induction ps arbitrary: m)
  case Nil
  then show ?case by (simp add: read_marks_def)
next
  case (Cons p ps)
  obtain h where h: "advanceHighWaterMark (Some m) p = Some h" "is_decimal (marker_value h)"
    using advance_readable [OF Cons.prems] by blast
  from Cons.IH [OF h(2)] h(1) show ?case by (simp add: read_marks_def)
qed

lemma evaluate_accepted_iff:
  "wd_accepted (evaluateRevocationWithdrawal w hs st) \<longleftrightarrow> \<not> malformed w \<and> (\<exists>r. List.find (\<lambda>r. revocation_id r = wd_revocation_id w) hs = Some r
     \<and> rev_delegation_id r = wd_delegation_id w \<and> st w r = Some Has_standing)"
  by (auto simp: evaluateRevocationWithdrawal_def Let_def split: option.splits WithdrawalStanding.splits)

lemma evaluated_is_input: "evaluated (evaluateRevocationWithdrawal w hs st) = w"
  by (simp add: evaluateRevocationWithdrawal_def Let_def split: option.splits WithdrawalStanding.splits)

section \<open>Sample markers\<close>

definition sample_marker :: "string \<Rightarrow> StateMarker" where
  "sample_marker v = \<lparr>marker_value = v, marker_scope = ''per_store'', scope_ref = Some ''store-1''\<rparr>"

definition sample_write :: "string \<Rightarrow> string \<Rightarrow> string FencedWrite" where
  "sample_write v p = \<lparr>write_token = Some (sample_marker v), write_payload = p\<rparr>"

definition sample_monotonic :: MonotonicRevocationResolverOptions where
  "sample_monotonic = \<lparr>presented = (\<lambda>_. Status_active), presentedMarker = Some (sample_marker ''9''),
     retained = \<lparr>retained_records = [sample_revocation], highWaterMark = Some (sample_marker ''10'')\<rparr>,
     retained_keys = Some sample_keys, onUnplaceable = Read_presented\<rparr>"

definition sample_withdrawal_input :: RevocationWithdrawalInput where
  "sample_withdrawal_input = \<lparr>wd_revocation_id = ''sha256:'' @ replicate 64 CHR ''a'', wd_delegation_id = ''sha256:'' @ replicate 64 CHR ''b'',
     withdrawn_by = ''did:aps:root'', withdrawn_at = ''2026-02-16T00:00:00.000Z'', wd_reason_code = ''recorded_in_error'', wd_detail = None\<rparr>"

lemma sample_marks:
  "is_decimal ''9''" "is_decimal ''10''" "BigInt ''9'' = 9" "BigInt ''10'' = 10"
  by code_simp+

lemma sample_regressed: "monotonicity (createMonotonicRevocationResolver C sample_monotonic) = Regressed"
  by (simp add: createMonotonicRevocationResolver_def Let_def sample_monotonic_def compareStateMarker_def sample_marker_def
      sample_marks sameScope_def)

section \<open>Properties\<close>

text \<open>The fencing gate accepts a write exactly when its token is readable and, once something is
  published, counted in the same scope and not behind the highest token accepted; an accepted
  write publishes its own token and payload, and a refused one changes nothing.\<close>

theorem fencing_gate_exact:
  assumes "log_ok lg"
  shows "if \<exists>tk. write_token w = Some tk \<and> is_decimal (marker_value tk)
         \<and> (\<forall>h. highest lg = Some h \<longrightarrow> sameScope h tk \<and> BigInt (marker_value h) \<le> BigInt (marker_value tk))
     then fenced_write lg w = (Accepted_write (the (write_token w)) (write_payload w),
         \<lparr>highest = write_token w, log_payload = Some (write_payload w), log_written = True\<rparr>)
     else \<exists>c. fenced_write lg w = (Refused_write c (highest lg), lg)"
  using fenced_write_cases [of lg w] assms by (auto simp: log_ok_def compare_Forward(2) split: option.splits)

theorem fencing_gate_exact_witness:
  "fenced_write (snd (fenced_write empty_log (sample_write ''9'' ''a''))) (sample_write ''10'' ''b'')
     = (Accepted_write (sample_marker ''10'') ''b'', \<lparr>highest = Some (sample_marker ''10''), log_payload = Some ''b'', log_written = True\<rparr>)"
proof -
  let ?lg = "snd (fenced_write empty_log (sample_write ''9'' ''a''))"
  have hi: "highest ?lg = Some (sample_marker ''9'')" and ok: "log_ok ?lg"
    by (simp_all add: fenced_write_def Let_def empty_log_def compareStateMarker_def sample_write_def sample_marker_def sample_marks sameScope_def log_ok_def)
  from fencing_gate_exact [OF ok, of "sample_write ''10'' ''b''"] show ?thesis
    unfolding hi by (simp add: sample_write_def sample_marker_def sample_marks sameScope_def)
qed

text \<open>C21. Whatever sequence of writes is submitted, published authority state never goes backwards: the
  highest token of a later log is at or after that of an earlier one, in the same scope.\<close>

theorem published_state_never_goes_back:
  assumes "run fenced_step empty_log ws s" and "run fenced_step s ws' t"
  shows "marker_le (highest s) (highest t)"
proof -
  have "log_ok s" using fenced_shape.reachable [OF assms(1)] by (simp add: list_all_iff)
  from fenced.run_forward [OF assms(2) this] show ?thesis ..
qed

theorem published_state_never_goes_back_witness:
  "marker_le (Some (sample_marker ''10'')) (highest (snd (fenced_write (snd (fenced_write empty_log (sample_write ''10'' ''a''))) (sample_write ''9'' ''b''))))"
proof -
  let ?s = "snd (fenced_write empty_log (sample_write ''10'' ''a''))"
  let ?t = "snd (fenced_write ?s (sample_write ''9'' ''b''))"
  have "run fenced_step empty_log [sample_write ''10'' ''a''] ?s" "run fenced_step ?s [sample_write ''9'' ''b''] ?t"
    using run_snoc [OF run_Nil, of fenced_step empty_log "sample_write ''10'' ''a''" ?s]
      run_snoc [OF run_Nil, of fenced_step ?s "sample_write ''9'' ''b''" ?t] by (simp_all add: fenced_step_def)
  from published_state_never_goes_back [OF this]
  show ?thesis by (simp add: fenced_write_def Let_def empty_log_def compareStateMarker_def sample_write_def sample_marker_def sample_marks sameScope_def)
qed

text \<open>A verifier that has established a mark recognises every older view of that scope as
  regressed, whatever it reads in between.\<close>

theorem older_view_is_always_regressed:
  assumes "is_decimal (marker_value m)" and "is_decimal (marker_value q)" and "sameScope m q"
    and "BigInt (marker_value q) < BigInt (marker_value m)"
  shows "compareStateMarker (read_marks (Some m) ps) (Some q) = Regressed"
proof -
  obtain h where h: "read_marks (Some m) ps = Some h" "is_decimal (marker_value h)" using read_marks_readable [OF assms(1)] by blast
  have "marker_le (Some m) (Some h)" using read_marks_forward [of "Some m" ps] h(1) by simp
  then have "sameScope m h" "BigInt (marker_value m) \<le> BigInt (marker_value h)"
    by (auto simp: marker_le_def sameScope_def)
  with h assms show ?thesis by (simp add: compareStateMarker_def sameScope_def)
qed

theorem older_view_is_always_regressed_witness:
  "compareStateMarker (read_marks (Some (sample_marker ''10'')) [None, Some (sample_marker ''9'')]) (Some (sample_marker ''9'')) = Regressed"
  by (rule older_view_is_always_regressed) (simp_all add: sample_marker_def sample_marks sameScope_def)

text \<open>On a regressed view the resolver consults the retained records alone: revoked exactly when
  one of them verifies against the delegation, unknown otherwise, never active.\<close>

theorem regressed_view_is_never_read_as_current:
  assumes "monotonicity (createMonotonicRevocationResolver C opts) = Regressed"
  shows "resolve (createMonotonicRevocationResolver C opts) d =
    (if \<exists>r \<in> set (retained_records (retained opts)). revokes C (retained_keys opts) r d then Status_revoked else Status_unknown)"
  unfolding regressed_resolve [OF assms] by (rule retained_iff)

theorem regressed_view_is_never_read_as_current_witness:
  "resolve (createMonotonicRevocationResolver sample_crypto sample_monotonic) sample_root = Status_revoked"
  unfolding regressed_view_is_never_read_as_current [OF sample_regressed] by (simp add: sample_monotonic_def sample_revokes)

text \<open>C22. A withdrawal is evaluated without touching what it withdraws: the corrected view carries the
  revocation unchanged and every submitted withdrawal exactly once, accepted exactly when it is
  well formed, names this revocation and its delegation, and its author has standing.\<close>

theorem withdrawal_never_removes_the_revocation:
  "view_revocation (correctedRevocationView r ws st) = r
   \<and> mset (map evaluated (view_accepted (correctedRevocationView r ws st)) @ map evaluated (view_refused (correctedRevocationView r ws st))) = mset ws
   \<and> map evaluated (view_accepted (correctedRevocationView r ws st))
     = filter (\<lambda>w. \<not> malformed w \<and> revocation_id r = wd_revocation_id w \<and> rev_delegation_id r = wd_delegation_id w
         \<and> st w r = Some Has_standing) ws"
proof -
  let ?ev = "\<lambda>w. evaluateRevocationWithdrawal w [r] st"
  have acc: "wd_accepted (?ev w) \<longleftrightarrow> \<not> malformed w \<and> revocation_id r = wd_revocation_id w \<and> rev_delegation_id r = wd_delegation_id w
      \<and> st w r = Some Has_standing" for w
    by (auto simp: evaluate_accepted_iff)
  have parts: "map evaluated (filter P (map ?ev ws)) = filter (\<lambda>w. P (?ev w)) ws" for P
    by (simp add: filter_map comp_def evaluated_is_input)
  show ?thesis
    by (simp add: correctedRevocationView_def Let_def parts acc [symmetric] mset_filter flip: multiset_partition)
qed

text \<open>The withdrawal constructor builds exactly the records evaluation takes as well formed, apart
  from an empty detail, which it refuses and evaluation does not look at.\<close>

theorem withdrawal_constructor_well_formed:
  "(\<exists>w. revocationWithdrawal inp = Inr w) \<longleftrightarrow>
     \<not> malformed (RevocationWithdrawalInput.extend inp
        \<lparr>wd_record_type = REVOCATION_WITHDRAWAL_RECORD_TYPE, wd_version = REVOCATION_WITHDRAWAL_VERSION\<rparr>)
     \<and> wd_detail inp \<noteq> Some []"
  by (auto simp: revocationWithdrawal_def malformed_def RevocationWithdrawalInput.defs)

text \<open>The report never lets a finding rewrite another: the chain result is carried unchanged, and
  its lifecycle reading is the same whatever marks and corrections are attached.\<close>

theorem report_keeps_the_chain_verdict:
  "\<exists>v. mapAuthorityValidationToLifecycle b chn = Inr v
     \<and> reportAuthorityState chn b placing hw corrections = Inr \<lparr>report_chain = chn, report_lifecycle = Some v,
         report_monotonicity = placing, report_highWaterMarkAfter = hw, report_corrections = corrections\<rparr>"
  using chain_view.total [of b chn] by (auto simp: reportAuthorityState_def authorityStateReport_def)

end
