(* ===== verification/Chain_Selection.thy ===== *)
theory Chain_Selection
  imports Authority_System
begin

text \<open>
  \<^verbatim>\<open>src/v2/chain-selection/\<close>: the one chain an action is decided against, out of the set an
  agent holds.  A candidate is verified by the chain verifier, its leaf must cover every
  needed grant, and the action's spend is reserved against it through the caller's reserver.

  The reserver is an argument over a state of its own; \<open>None\<close> as its answer is a thrown error
  or an answer without a code.  \<open>ledger_reserver\<close> is the in-memory ledger.  The caller's
  objects are plain data, read once.
\<close>

section \<open>Data\<close>

definition HELD_SET_CEILING :: nat where
  "HELD_SET_CEILING = 256"

record ReadHeldChain =
  held_chain_id :: string
  held_chain :: json

record RequiredSpendV1 =
  spend_unit :: string
  spend_amount :: string
  spend_action_ref :: string

datatype ChainEvaluationOutcome = Authorizes | Refuses | Undecided

datatype EvaluationCode =
    Chain_code AuthorityFailureCode
  | Chain_state_code AuthorityValidationState
  | Budget_code BudgetCode
  | Scope_covered | Scope_not_covered | Chain_set_presented_as_one | Spend_ledger_unavailable

record ChainEvaluation =
  ev_chain_id :: string
  ev_outcome :: ChainEvaluationOutcome
  ev_code :: EvaluationCode
  ev_chain_state :: "AuthorityValidationState option"

datatype ChainSelectionFailureCode =
    Held_set_empty | Held_set_over_ceiling | Held_chain_malformed | Duplicate_chain_id | Invalid_action_requirement
  | Preferred_chain_not_held | No_valid_chain | No_chain_covers_action | Selection_undecided

record SelectionOutcome =
  selected :: bool
  sel_chain_id :: "string option"
  sel_code :: "ChainSelectionFailureCode option"
  sel_result :: "AuthorityValidationResult option"
  evaluations :: "ChainEvaluation list"
  switched_from :: "string option"
  fallback_ref :: "string option"
  fallback_considered :: "bool option"

type_synonym 's reserver = "'s \<Rightarrow> json \<Rightarrow> string \<Rightarrow> string \<Rightarrow> string \<Rightarrow> (BudgetOperationResult \<times> 's) option"

record 's ChainSelectionInput =
  held_set :: json
  requiredGrants :: json
  requiredSpend :: "json option"
  sel_options :: options
  reserveBudget :: "'s reserver option"

record 's ChainSelectionWithFallbackInput = "'s ChainSelectionInput" +
  preferred_chain_id :: "json option"
  fallback :: "json option"

definition ledger_reserver :: "crypto \<Rightarrow> Ledger reserver" where
  "ledger_reserver C L ch act u amt = Some (reserve C L ch act u amt)"

section \<open>Reading the request\<close>

fun read_entries :: "string list \<Rightarrow> json list \<Rightarrow> (ChainSelectionFailureCode, ReadHeldChain list) result" where
  "read_entries seen [] = Inr []"
| "read_entries seen (e # es) =
     (case own_members e of
        None \<Rightarrow> Inl Held_chain_malformed
      | Some m \<Rightarrow>
          (case get_str m ''chain_id'' of
             None \<Rightarrow> Inl Held_chain_malformed
           | Some i \<Rightarrow>
               if i = [] then Inl Held_chain_malformed
               else (case get m ''chain'' of
                   None \<Rightarrow> Inl Held_chain_malformed
                 | Some c \<Rightarrow>
                     if i \<in> set seen then Inl Duplicate_chain_id
                     else bindE (read_entries (i # seen) es) (\<lambda>rest. Inr (\<lparr>held_chain_id = i, held_chain = c\<rparr> # rest)))))"

definition readHeldSet :: "json \<Rightarrow> (ChainSelectionFailureCode, ReadHeldChain list) result" where
  "readHeldSet j = (case j of
      JArr es \<Rightarrow>
        if length es > HELD_SET_CEILING then Inl Held_set_over_ceiling
        else if length es < 1 then Inl Held_set_empty
        else read_entries [] es
    | _ \<Rightarrow> Inl Held_set_empty)"

definition read_spend :: "json option \<Rightarrow> RequiredSpendV1 option option" where
  "read_spend v = (case v of
      None \<Rightarrow> Some None
    | Some JNull \<Rightarrow> Some None
    | Some j \<Rightarrow>
        (case own_members j of
           None \<Rightarrow> None
         | Some m \<Rightarrow>
             (case (get_str m ''unit'', get_str m ''amount'', get_str m ''action_ref'') of
                (Some u, Some a, Some r) \<Rightarrow>
                  if u \<noteq> [] \<and> is_decimal a \<and> ACTION_REF r
                  then Some (Some \<lparr>spend_unit = u, spend_amount = a, spend_action_ref = r\<rparr>) else None
              | _ \<Rightarrow> None)))"

definition readRequirement :: "json \<Rightarrow> json option \<Rightarrow> (string list \<times> RequiredSpendV1 option) option" where
  "readRequirement gs sp = (case gs of
      JArr xs \<Rightarrow>
        if list_all (\<lambda>x. case x of JStr g \<Rightarrow> isValidScopeGrant g | _ \<Rightarrow> False) xs
        then map_option (Pair (map (the \<circ> as_str) xs)) (read_spend sp)
        else None
    | _ \<Rightarrow> None)"

section \<open>One chain\<close>

record Evaluated =
  evaluation :: ChainEvaluation
  evaluated_result :: "AuthorityValidationResult option"

definition refuse :: "string \<Rightarrow> EvaluationCode \<Rightarrow> AuthorityValidationState option \<Rightarrow> Evaluated" where
  "refuse i c st = \<lparr>evaluation = \<lparr>ev_chain_id = i, ev_outcome = Refuses, ev_code = c, ev_chain_state = st\<rparr>, evaluated_result = None\<rparr>"

definition undecided :: "string \<Rightarrow> EvaluationCode \<Rightarrow> AuthorityValidationState option \<Rightarrow> Evaluated" where
  "undecided i c st = \<lparr>evaluation = \<lparr>ev_chain_id = i, ev_outcome = Undecided, ev_code = c, ev_chain_state = st\<rparr>, evaluated_result = None\<rparr>"

definition authorizes :: "string \<Rightarrow> EvaluationCode \<Rightarrow> AuthorityValidationResult \<Rightarrow> Evaluated" where
  "authorizes i c r = \<lparr>evaluation = \<lparr>ev_chain_id = i, ev_outcome = Authorizes, ev_code = c, ev_chain_state = Some (state r)\<rparr>,
     evaluated_result = Some r\<rparr>"

definition not_valid :: "string \<Rightarrow> EvaluationCode \<Rightarrow> AuthorityValidationResult \<Rightarrow> Evaluated" where
  "not_valid i dflt r =
     (let c = (case failures r of f # _ \<Rightarrow> Chain_code (failure_code f) | [] \<Rightarrow> dflt) in
      if state r = State_invalid then refuse i c (Some (state r)) else undecided i c (Some (state r)))"

definition second_root :: "json list \<Rightarrow> bool" where
  "second_root recs = list_ex (\<lambda>j. case j of JObj m \<Rightarrow> get m ''parent_delegation_id'' = Some JNull | _ \<Rightarrow> False) (tl recs)"

definition leaf_grants :: "json list \<Rightarrow> string list" where
  "leaf_grants recs = (case delegation_of (last recs) of Some d \<Rightarrow> grants (scope (authority d)) | None \<Rightarrow> [])"

definition covers_needed :: "string list \<Rightarrow> string list \<Rightarrow> bool" where
  "covers_needed gs needed = list_all (\<lambda>want. list_ex (\<lambda>g. scopeGrantCovers g want) gs) needed"

definition evaluateHeldChain ::
  "crypto \<Rightarrow> ReadHeldChain \<Rightarrow> string list \<Rightarrow> RequiredSpendV1 option \<Rightarrow> options \<Rightarrow> 's reserver option \<Rightarrow> 's \<Rightarrow> Evaluated \<times> 's" where
  "evaluateHeldChain C entry needed sp opt reserver s =
     (let i = held_chain_id entry in
      case readPlainDataChainContainer (held_chain entry) 1 256 of
        Inl _ \<Rightarrow> (not_valid i (Chain_code SCHEMA_INVALID)
                   (verifyAuthorityDelegationChain C (case held_chain entry of JArr xs \<Rightarrow> JArr xs | _ \<Rightarrow> JArr []) opt), s)
      | Inr recs \<Rightarrow>
          if second_root recs then (refuse i Chain_set_presented_as_one None, s)
          else let r = verifyAuthorityDelegationChain C (JArr recs) opt in
            if state r \<noteq> State_valid then (not_valid i (Chain_state_code (state r)) r, s)
            else if \<not> covers_needed (leaf_grants recs) needed then (refuse i Scope_not_covered (Some (state r)), s)
            else case sp of
                None \<Rightarrow> (authorizes i Scope_covered r, s)
              | Some q \<Rightarrow>
                  (case reserver of
                     None \<Rightarrow> (undecided i Spend_ledger_unavailable (Some (state r)), s)
                   | Some rsv \<Rightarrow>
                       (case rsv s (JArr recs) (spend_action_ref q) (spend_unit q) (spend_amount q) of
                          None \<Rightarrow> (undecided i Spend_ledger_unavailable (Some (state r)), s)
                        | Some (b, s') \<Rightarrow>
                            if \<not> ok b then (refuse i (Budget_code (code b)) (Some (state r)), s')
                            else (authorizes i (Budget_code (code b)) r, s'))))"

definition failureFor :: "ChainEvaluation list \<Rightarrow> ChainSelectionFailureCode" where
  "failureFor evs =
     (if list_ex (\<lambda>e. ev_outcome e = Undecided) evs then Selection_undecided
      else if list_ex (\<lambda>e. ev_chain_state e = Some State_valid) evs then No_chain_covers_action else No_valid_chain)"

definition fail_selection :: "ChainSelectionFailureCode \<Rightarrow> ChainEvaluation list \<Rightarrow> SelectionOutcome" where
  "fail_selection c evs = \<lparr>selected = False, sel_chain_id = None, sel_code = Some c, sel_result = None, evaluations = evs,
     switched_from = None, fallback_ref = None, fallback_considered = None\<rparr>"

definition select_outcome :: "string \<Rightarrow> AuthorityValidationResult \<Rightarrow> ChainEvaluation list \<Rightarrow> SelectionOutcome" where
  "select_outcome i r evs = \<lparr>selected = True, sel_chain_id = Some i, sel_code = None, sel_result = Some r, evaluations = evs,
     switched_from = None, fallback_ref = None, fallback_considered = None\<rparr>"

section \<open>Selection\<close>

text \<open>The first pass: evaluations up to and including the first candidate that authorizes.\<close>

fun scan_held :: "(ReadHeldChain \<Rightarrow> Evaluated) \<Rightarrow> ReadHeldChain list \<Rightarrow> ChainEvaluation list \<times> (ReadHeldChain \<times> AuthorityValidationResult) option" where
  "scan_held f [] = ([], None)"
| "scan_held f (e # es) =
     (let ev = f e in
      if ev_outcome (evaluation ev) = Authorizes
      then ([evaluation ev], map_option (Pair e) (evaluated_result ev))
      else let (evs, c) = scan_held f es in (evaluation ev # evs, c))"

definition scope_only :: "crypto \<Rightarrow> string list \<Rightarrow> options \<Rightarrow> ReadHeldChain \<Rightarrow> Evaluated" where
  "scope_only C needed opt e = fst (evaluateHeldChain C e needed None opt (None :: unit reserver option) ())"

definition selectChainForAction :: "crypto \<Rightarrow> 's ChainSelectionInput \<Rightarrow> 's \<Rightarrow> SelectionOutcome \<times> 's" where
  "selectChainForAction C inp s =
     (case readHeldSet (held_set inp) of
        Inl p \<Rightarrow> (fail_selection p [], s)
      | Inr hs \<Rightarrow>
          (case readRequirement (requiredGrants inp) (requiredSpend inp) of
             None \<Rightarrow> (fail_selection Invalid_action_requirement [], s)
           | Some (needed, sp) \<Rightarrow>
               (case scan_held (scope_only C needed (sel_options inp)) hs of
                  (evs, None) \<Rightarrow> (fail_selection (failureFor evs) evs, s)
                | (evs, Some (e, r)) \<Rightarrow>
                    (case sp of
                       None \<Rightarrow> (select_outcome (held_chain_id e) r evs, s)
                     | Some q \<Rightarrow>
                         (let (adm, s') = evaluateHeldChain C e needed (Some q) (sel_options inp) (reserveBudget inp) s;
                              evs' = butlast evs @ [evaluation adm] in
                          case (ev_outcome (evaluation adm), evaluated_result adm) of
                            (Authorizes, Some r') \<Rightarrow> (select_outcome (held_chain_id e) r' evs', s')
                          | _ \<Rightarrow> (fail_selection (failureFor evs') evs', s'))))))"

section \<open>Selection with an explicit fallback\<close>

definition decide_entry :: "crypto \<Rightarrow> string list \<Rightarrow> RequiredSpendV1 option \<Rightarrow> options \<Rightarrow> 's reserver option \<Rightarrow> 's \<Rightarrow> ReadHeldChain
    \<Rightarrow> (ChainEvaluation \<times> AuthorityValidationResult option) \<times> 's" where
  "decide_entry C needed sp opt reserver s e =
     (let scoped = scope_only C needed opt e in
      if ev_outcome (evaluation scoped) \<noteq> Authorizes then ((evaluation scoped, None), s)
      else case sp of
          None \<Rightarrow> ((evaluation scoped, evaluated_result scoped), s)
        | Some q \<Rightarrow>
            (let (adm, s') = evaluateHeldChain C e needed (Some q) opt reserver s in
             ((evaluation adm, if ev_outcome (evaluation adm) = Authorizes then evaluated_result adm else None), s')))"

fun try_others :: "('s \<Rightarrow> ReadHeldChain \<Rightarrow> (ChainEvaluation \<times> AuthorityValidationResult option) \<times> 's) \<Rightarrow> string \<Rightarrow> ReadHeldChain list \<Rightarrow> 's
    \<Rightarrow> (ChainEvaluation list \<times> (string \<times> AuthorityValidationResult) option) \<times> 's" where
  "try_others f pref [] s = (([], None), s)"
| "try_others f pref (e # es) s =
     (if held_chain_id e = pref then try_others f pref es s
      else case f s e of
          ((ev, Some r), s') \<Rightarrow> (([ev], Some (held_chain_id e, r)), s')
        | ((ev, None), s') \<Rightarrow> (let ((evs, c), s'') = try_others f pref es s' in ((ev # evs, c), s'')))"

text \<open>The caller's authorization object: absent, a usable reference, or neither (\<open>None\<close>).\<close>

definition read_fallback :: "json option \<Rightarrow> string option option" where
  "read_fallback v = (case v of
      None \<Rightarrow> Some None
    | Some JNull \<Rightarrow> Some None
    | Some (JObj m) \<Rightarrow> (case get_str m ''authorization_ref'' of Some r \<Rightarrow> if r = [] then None else Some (Some r) | None \<Rightarrow> None)
    | _ \<Rightarrow> None)"

definition selectWithFallback :: "crypto \<Rightarrow> 's ChainSelectionWithFallbackInput \<Rightarrow> 's \<Rightarrow> SelectionOutcome \<times> 's" where
  "selectWithFallback C inp s =
     (case readHeldSet (held_set inp) of
        Inl p \<Rightarrow> (fail_selection p [], s)
      | Inr hs \<Rightarrow>
          (case readRequirement (requiredGrants inp) (requiredSpend inp) of
             None \<Rightarrow> (fail_selection Invalid_action_requirement [], s)
           | Some (needed, sp) \<Rightarrow>
               (case (case preferred_chain_id inp of
                        Some (JStr i) \<Rightarrow> List.find (\<lambda>e. held_chain_id e = i) hs | _ \<Rightarrow> None) of
                  None \<Rightarrow> (fail_selection Preferred_chain_not_held [], s)
                | Some pref \<Rightarrow>
                    (case read_fallback (fallback inp) of
                       None \<Rightarrow> (fail_selection Invalid_action_requirement [], s)
                     | Some ref \<Rightarrow>
                         (case decide_entry C needed sp (sel_options inp) (reserveBudget inp) s pref of
                            ((ev, Some r), s') \<Rightarrow>
                              ((select_outcome (held_chain_id pref) r [ev])\<lparr>fallback_considered := Some (ref \<noteq> None)\<rparr>, s')
                          | ((ev, None), s') \<Rightarrow>
                              (case ref of
                                 None \<Rightarrow> ((fail_selection (failureFor [ev]) [ev])\<lparr>fallback_considered := Some False\<rparr>, s')
                               | Some rf \<Rightarrow>
                                   (case try_others (decide_entry C needed sp (sel_options inp) (reserveBudget inp)) (held_chain_id pref) hs s' of
                                      ((evs, Some (i, r)), s'') \<Rightarrow>
                                        ((select_outcome i r (ev # evs))\<lparr>switched_from := Some (held_chain_id pref),
                                           fallback_ref := Some rf, fallback_considered := Some True\<rparr>, s'')
                                    | ((evs, None), s'') \<Rightarrow>
                                        ((fail_selection (failureFor (ev # evs)) (ev # evs))\<lparr>fallback_considered := Some True\<rparr>, s''))))))))"

section \<open>What a candidate must meet\<close>

text \<open>The candidate on its own: it verifies, and the leaf covers every needed grant.\<close>

definition suits :: "crypto \<Rightarrow> options \<Rightarrow> string list \<Rightarrow> ReadHeldChain \<Rightarrow> bool" where
  "suits C opt needed e \<longleftrightarrow> state (verifyAuthorityDelegationChain C (held_chain e) opt) = State_valid
     \<and> (case held_chain e of JArr recs \<Rightarrow> covers_needed (leaf_grants recs) needed | _ \<Rightarrow> False)"

lemma decoded_parent:
  assumes "delegation_of j = Some d" and "parent_delegation_id d = Some p"
  shows "\<not> (case j of JObj m \<Rightarrow> get m ''parent_delegation_id'' = Some JNull | _ \<Rightarrow> False)"
proof (cases j)
  case (JObj m)
  with assms have "get_str m ''parent_delegation_id'' = Some p"
    by (auto simp: delegation_of_def Option.bind_eq_Some_conv)
  with JObj show ?thesis by (auto simp: get_str_def)
qed simp_all

lemma verified_single_root:
  assumes "map delegation_of recs = map Some ch" and "valid_chain C opt ch"
  shows "\<not> second_root recs"
proof -
  have len: "length recs = length ch" using arg_cong [OF assms(1), of length] by simp
  have "\<not> (case recs ! Suc k of JObj m \<Rightarrow> get m ''parent_delegation_id'' = Some JNull | _ \<Rightarrow> False)" if "Suc k < length recs" for k
  proof (rule decoded_parent)
    show "delegation_of (recs ! Suc k) = Some (ch ! Suc k)"
      using arg_cong [OF assms(1), of "\<lambda>xs. xs ! Suc k"] that len by simp
    show "parent_delegation_id (ch ! Suc k) = Some (delegation_id (ch ! k))"
      using assms(2) that len by (auto simp: valid_chain_def linked_def)
  qed
  then show ?thesis unfolding second_root_def list_ex_iff by (auto simp: in_set_conv_nth nth_tl)
qed

lemma valid_container:
  assumes "state (verifyAuthorityDelegationChain C j opt) = State_valid"
  obtains recs ch where "j = JArr recs" "readPlainDataChainContainer j 1 256 = Inr recs" "\<not> second_root recs"
    "map delegation_of recs = map Some ch" "valid_chain C opt ch"
    "leaf_grants recs = grants (scope (authority (last ch)))"
proof (rule verify_sound [OF assms])
  fix recs ch
  assume a: "j = JArr recs" "map delegation_of recs = map Some ch" "valid_chain C opt ch"
  have len: "length recs = length ch" using arg_cong [OF a(2), of length] by simp
  with a(3) have ne: "recs \<noteq> []" "ch \<noteq> []" "length recs \<le> 256" by (auto simp: valid_chain_def)
  have "delegation_of (last recs) = Some (last ch)"
    using arg_cong [OF a(2), of last] ne by (simp add: last_map)
  with a ne that [of recs ch] verified_single_root [OF a(2,3)] show thesis
    by (simp add: readPlainDataChainContainer_Inr leaf_grants_def Suc_le_eq)
qed

lemma not_valid_outcome: "ev_outcome (evaluation (not_valid i c r)) \<noteq> Authorizes" "evaluated_result (not_valid i c r) = None"
  by (simp_all add: not_valid_def refuse_def undecided_def Let_def)

lemma evaluate_suits:
  assumes "suits C opt needed e"
  shows "evaluateHeldChain C e needed sp opt rv s =
      (let i = held_chain_id e; r = verifyAuthorityDelegationChain C (held_chain e) opt in
       case sp of None \<Rightarrow> (authorizes i Scope_covered r, s)
       | Some q \<Rightarrow> (case rv of None \<Rightarrow> (undecided i Spend_ledger_unavailable (Some State_valid), s)
         | Some rsv \<Rightarrow> (case rsv s (held_chain e) (spend_action_ref q) (spend_unit q) (spend_amount q) of
             None \<Rightarrow> (undecided i Spend_ledger_unavailable (Some State_valid), s)
           | Some (b, s') \<Rightarrow> if ok b then (authorizes i (Budget_code (code b)) r, s')
                               else (refuse i (Budget_code (code b)) (Some State_valid), s'))))"
proof -
  from assms have v: "state (verifyAuthorityDelegationChain C (held_chain e) opt) = State_valid" by (simp add: suits_def)
  then show ?thesis
  proof (rule valid_container)
    fix recs
    assume "held_chain e = JArr recs" "readPlainDataChainContainer (held_chain e) 1 256 = Inr recs" "\<not> second_root recs"
    with assms v show ?thesis by (simp add: evaluateHeldChain_def suits_def Let_def split: option.splits)
  qed
qed

lemma evaluate_not_suits:
  assumes "\<not> suits C opt needed e"
  shows "ev_outcome (evaluation (fst (evaluateHeldChain C e needed sp opt rv s))) \<noteq> Authorizes"
    and "evaluated_result (fst (evaluateHeldChain C e needed sp opt rv s)) = None"
    and "snd (evaluateHeldChain C e needed sp opt rv s) = s"
proof -
  have *: "\<not> (state (verifyAuthorityDelegationChain C (JArr recs) opt) = State_valid \<and> covers_needed (leaf_grants recs) needed)"
    if "readPlainDataChainContainer (held_chain e) 1 256 = Inr recs" for recs
    using assms that by (simp add: suits_def readPlainDataChainContainer_Inr)
  show "ev_outcome (evaluation (fst (evaluateHeldChain C e needed sp opt rv s))) \<noteq> Authorizes"
    and "evaluated_result (fst (evaluateHeldChain C e needed sp opt rv s)) = None"
    and "snd (evaluateHeldChain C e needed sp opt rv s) = s"
    using * by (auto simp: evaluateHeldChain_def not_valid_outcome refuse_def Let_def split: sum.split)
qed

lemma authorizes_result:
  "ev_outcome (evaluation (fst (evaluateHeldChain C e needed sp opt rv s))) = Authorizes \<longleftrightarrow>
   evaluated_result (fst (evaluateHeldChain C e needed sp opt rv s)) \<noteq> None"
  by (cases "suits C opt needed e")
     (auto simp: evaluate_not_suits evaluate_suits authorizes_def refuse_def undecided_def Let_def split: option.splits)

lemma scope_only_iff: "ev_outcome (evaluation (scope_only C needed opt e)) = Authorizes \<longleftrightarrow> suits C opt needed e"
  by (cases "suits C opt needed e") (simp_all add: scope_only_def evaluate_not_suits evaluate_suits authorizes_def Let_def)

lemma scope_only_result:
  "suits C opt needed e \<Longrightarrow>
   evaluated_result (scope_only C needed opt e) = Some (verifyAuthorityDelegationChain C (held_chain e) opt)"
  by (simp add: scope_only_def evaluate_suits authorizes_def Let_def)

lemma scan_held_find:
  "map_option fst (snd (scan_held (scope_only C needed opt) hs)) = List.find (suits C opt needed) hs"
  by (induction hs) (auto simp: Let_def scope_only_iff scope_only_result split: prod.split)

lemma scan_held_Some:
  assumes "scan_held (scope_only C needed opt) hs = (evs, Some (e, r))"
  shows "r = verifyAuthorityDelegationChain C (held_chain e) opt" "evs \<noteq> []"
  using assms by (induction hs arbitrary: evs) (auto simp: Let_def scope_only_iff scope_only_result split: prod.splits if_splits)

text \<open>The three ways the selector may end, over the first candidate that suits.\<close>

lemma select_cases:
  obtains (failed) c evs where "selectChainForAction C inp s = (fail_selection c evs, s)"
      "\<And>hs needed sp. readHeldSet (held_set inp) = Inr hs \<Longrightarrow> readRequirement (requiredGrants inp) (requiredSpend inp) = Some (needed, sp)
         \<Longrightarrow> \<forall>e \<in> set hs. \<not> suits C (sel_options inp) needed e"
  | (scoped) hs needed e evs where "readHeldSet (held_set inp) = Inr hs"
      "readRequirement (requiredGrants inp) (requiredSpend inp) = Some (needed, None)"
      "List.find (suits C (sel_options inp) needed) hs = Some e"
      "selectChainForAction C inp s = (select_outcome (held_chain_id e) (verifyAuthorityDelegationChain C (held_chain e) (sel_options inp)) evs, s)"
  | (spend) hs needed q e evs where "readHeldSet (held_set inp) = Inr hs"
      "readRequirement (requiredGrants inp) (requiredSpend inp) = Some (needed, Some q)"
      "List.find (suits C (sel_options inp) needed) hs = Some e"
      "evs \<noteq> []"
      "selectChainForAction C inp s = (let (adm, s') = evaluateHeldChain C e needed (Some q) (sel_options inp) (reserveBudget inp) s;
           evs' = butlast evs @ [evaluation adm] in
         (case evaluated_result adm of Some r \<Rightarrow> select_outcome (held_chain_id e) r evs' | None \<Rightarrow> fail_selection (failureFor evs') evs', s'))"
proof (cases "readHeldSet (held_set inp)")
  case (Inl p)
  then show thesis by (intro failed [of p "[]"]) (simp_all add: selectChainForAction_def)
next
  case hs: (Inr hs)
  show thesis
  proof (cases "readRequirement (requiredGrants inp) (requiredSpend inp)")
    case None
    with hs show thesis by (intro failed [of Invalid_action_requirement "[]"]) (simp_all add: selectChainForAction_def)
  next
    case (Some ns)
    obtain needed sp where ns: "ns = (needed, sp)" by (cases ns)
    obtain evs c where scan: "scan_held (scope_only C needed (sel_options inp)) hs = (evs, c)" by (cases "scan_held (scope_only C needed (sel_options inp)) hs")
    note find = scan_held_find [of C needed "sel_options inp" hs, unfolded scan, simplified]
    show thesis
    proof (cases c)
      case None
      with find have "\<forall>e \<in> set hs. \<not> suits C (sel_options inp) needed e" by (simp add: find_None_iff eq_commute [of None])
      with hs Some ns scan None show thesis
        by (intro failed [of "failureFor evs" evs]) (simp_all add: selectChainForAction_def)
    next
      case c: (Some er)
      obtain e r where er: "er = (e, r)" by (cases er)
      note hit = scan_held_Some [OF scan [unfolded c er]]
      show thesis
      proof (cases sp)
        case None
        with hs Some ns scan c er hit find show thesis
          by (intro scoped [of hs needed e evs]) (simp_all add: selectChainForAction_def)
      next
        case sp: (Some q)
        obtain adm s' where adm: "evaluateHeldChain C e needed (Some q) (sel_options inp) (reserveBudget inp) s = (adm, s')"
          by (cases "evaluateHeldChain C e needed (Some q) (sel_options inp) (reserveBudget inp) s")
        have "ev_outcome (evaluation adm) = Authorizes \<longleftrightarrow> evaluated_result adm \<noteq> None"
          using authorizes_result [of C e needed "Some q" "sel_options inp" "reserveBudget inp" s] adm by simp
        with hs Some ns scan c er hit find sp adm show thesis
          by (intro spend [of hs needed q e evs])
             (auto simp: selectChainForAction_def Let_def split: option.split ChainEvaluationOutcome.split)
      qed
    qed
  qed
qed

section \<open>The reserver as an interface\<close>

text \<open>What the selector relies on: a refusal leaves the reserver's state as it was.\<close>

locale spend_reserver =
  fixes rsv :: "'s reserver"
  assumes refusal_keeps: "rsv s c act u amt = Some (b, s') \<Longrightarrow> \<not> ok b \<Longrightarrow> s' = s"
begin

lemma evaluate_keeps:
  assumes "ev_outcome (evaluation (fst (evaluateHeldChain C e needed sp opt (Some rsv) s))) \<noteq> Authorizes"
  shows "snd (evaluateHeldChain C e needed sp opt (Some rsv) s) = s"
proof (cases "suits C opt needed e")
  case True
  then show ?thesis using assms refusal_keeps
    by (auto simp: evaluate_suits authorizes_def Let_def split: option.splits if_splits)
qed (simp add: evaluate_not_suits)

lemma decide_keeps:
  "decide_entry C needed sp opt (Some rsv) s e = ((ev, None), s') \<Longrightarrow> s' = s"
  using evaluate_keeps [of C e needed sp opt s]
  by (cases "suits C opt needed e")
     (auto simp: decide_entry_def Let_def scope_only_iff scope_only_result evaluate_suits authorizes_def refuse_def undecided_def
        split: option.splits prod.splits if_splits dest: refusal_keeps)

lemma try_others_keeps:
  "try_others (decide_entry C needed sp opt (Some rsv)) pref es s = ((evs, None), s') \<Longrightarrow> s' = s"
  by (induction es arbitrary: s evs) (auto split: prod.splits option.splits if_splits dest!: decide_keeps)

lemma failed_selection_keeps:
  assumes "reserveBudget inp = Some rsv" and "selectChainForAction C inp s = (out, s')" and "\<not> selected out"
  shows "s' = s"
proof (cases rule: select_cases [of C inp s])
  case (spend hs needed q e evs)
  let ?adm = "evaluateHeldChain C e needed (Some q) (sel_options inp) (reserveBudget inp) s"
  from spend(5) assms(2,3) have "evaluated_result (fst ?adm) = None" "s' = snd ?adm"
    by (auto simp: select_outcome_def Let_def split: option.splits prod.splits)
  with evaluate_keeps [of C e needed "Some q" "sel_options inp" s] assms(1) show ?thesis by (simp add: authorizes_result)
qed (use assms(2,3) in \<open>auto simp: select_outcome_def\<close>)

lemma failed_fallback_keeps:
  assumes "reserveBudget inp = Some rsv" and "selectWithFallback C inp s = (out, s')" and "\<not> selected out"
  shows "s' = s"
  using assms
  by (auto simp: selectWithFallback_def fail_selection_def select_outcome_def
      split: sum.splits option.splits prod.splits json.splits dest!: decide_keeps try_others_keeps)

end

lemma reserve_refusal: "reserve C L c act u amt = (b, L') \<Longrightarrow> \<not> ok b \<Longrightarrow> L' = L"
  by (cases rule: reserve_cases [of C L c act u amt]) (auto simp: outcome_defs)

interpretation ledger_selection: spend_reserver "ledger_reserver C" for C
  by unfold_locales (auto simp: ledger_reserver_def dest: reserve_refusal)

section \<open>Properties\<close>

text \<open>The first candidate that suits, split off the held set and decoded.\<close>

lemma first_suitable:
  assumes "List.find (suits C opt needed) hs = Some e"
  obtains pre suf recs ch where "hs = pre @ e # suf" "\<forall>x \<in> set pre. \<not> suits C opt needed x" "suits C opt needed e"
    "held_chain e = JArr recs" "map delegation_of recs = map Some ch" "valid_chain C opt ch"
    "covers_needed (grants (scope (authority (last ch)))) needed"
proof -
  from assms obtain i where i: "i < length hs" "suits C opt needed (hs ! i)" "e = hs ! i" "\<forall>j < i. \<not> suits C opt needed (hs ! j)"
    by (auto simp: find_Some_iff)
  have pre: "\<forall>x \<in> set (take i hs). \<not> suits C opt needed x" using i by (auto simp: in_set_conv_nth)
  have hs: "hs = take i hs @ e # drop (Suc i) hs" using id_take_nth_drop [OF i(1)] i(3) by simp
  from i(2,3) have "state (verifyAuthorityDelegationChain C (held_chain e) opt) = State_valid" by (simp add: suits_def)
  then show thesis by (rule valid_container) (use i that [OF hs pre] in \<open>auto simp: suits_def\<close>)
qed

text \<open>C16. An action is decided against one chain: whenever a chain is selected, it is the first held
  candidate that suits the action, its own records form a valid chain, its own leaf covers
  every needed grant, and a required spend was accepted by the reserver on that chain.  No
  other held chain adds a grant or a budget.\<close>

theorem selection_rests_on_one_chain:
  assumes "selectChainForAction C inp s = (out, s')" and "selected out"
  shows "\<exists>pre e suf needed sp recs ch. readHeldSet (held_set inp) = Inr (pre @ e # suf)
    \<and> readRequirement (requiredGrants inp) (requiredSpend inp) = Some (needed, sp)
    \<and> sel_chain_id out = Some (held_chain_id e)
    \<and> (\<forall>x \<in> set pre. \<not> suits C (sel_options inp) needed x)
    \<and> held_chain e = JArr recs \<and> map delegation_of recs = map Some ch \<and> valid_chain C (sel_options inp) ch
    \<and> covers_needed (grants (scope (authority (last ch)))) needed
    \<and> (case sp of None \<Rightarrow> s' = s
       | Some q \<Rightarrow> \<exists>rsv b. reserveBudget inp = Some rsv \<and> ok b
           \<and> rsv s (JArr recs) (spend_action_ref q) (spend_unit q) (spend_amount q) = Some (b, s'))"
proof (cases rule: select_cases [of C inp s])
  case (failed c evs)
  with assms show ?thesis by (auto simp: fail_selection_def)
next
  case (scoped hs needed e evs)
  from first_suitable [OF scoped(3)] obtain pre suf recs ch where f: "hs = pre @ e # suf"
    "\<forall>x \<in> set pre. \<not> suits C (sel_options inp) needed x" "suits C (sel_options inp) needed e"
    and c: "held_chain e = JArr recs" "map delegation_of recs = map Some ch" "valid_chain C (sel_options inp) ch"
      "covers_needed (grants (scope (authority (last ch)))) needed" by metis
  from scoped(4) assms(1) have "sel_chain_id out = Some (held_chain_id e)" "s' = s" by (auto simp: select_outcome_def)
  with scoped(1,2) f(1,2) c show ?thesis
    by (intro exI [of _ pre] exI [of _ e] exI [of _ suf] exI [of _ needed] exI [of _ None] exI [of _ recs] exI [of _ ch]) simp
next
  case (spend hs needed q e evs)
  from first_suitable [OF spend(3)] obtain pre suf recs ch where f: "hs = pre @ e # suf"
    "\<forall>x \<in> set pre. \<not> suits C (sel_options inp) needed x" "suits C (sel_options inp) needed e"
    and c: "held_chain e = JArr recs" "map delegation_of recs = map Some ch" "valid_chain C (sel_options inp) ch"
      "covers_needed (grants (scope (authority (last ch)))) needed" by metis
  from spend(5) assms f(3) have "sel_chain_id out = Some (held_chain_id e)" and
    "\<exists>rsv b. reserveBudget inp = Some rsv \<and> ok b \<and> rsv s (held_chain e) (spend_action_ref q) (spend_unit q) (spend_amount q) = Some (b, s')"
    by (auto simp: evaluate_suits authorizes_def refuse_def undecided_def select_outcome_def fail_selection_def Let_def
        split: option.splits prod.splits if_splits)
  with spend(1,2) f(1,2) c show ?thesis
    by (intro exI [of _ pre] exI [of _ e] exI [of _ suf] exI [of _ needed] exI [of _ "Some q"] exI [of _ recs] exI [of _ ch]) simp
qed

definition sample_held :: json where
  "sample_held = JArr [
     JObj [(''chain_id'', JStr ''narrow''), (''chain'', JArr (map json_of_delegation sample_chain))],
     JObj [(''chain_id'', JStr ''broken''), (''chain'', JArr (map json_of_delegation (rev sample_chain)))]]"

definition sample_selection :: "Ledger ChainSelectionInput" where
  "sample_selection = \<lparr>held_set = sample_held, requiredGrants = JArr [JStr ''data:read''],
     requiredSpend = Some (JObj [(''unit'', JStr ''USD-cents''), (''amount'', JStr ''150''), (''action_ref'', JStr sample_action)]),
     sel_options = sample_options, reserveBudget = Some (ledger_reserver sample_crypto)\<rparr>"

lemma sample_held_read: "readHeldSet sample_held = Inr [
    \<lparr>held_chain_id = ''narrow'', held_chain = JArr (map json_of_delegation sample_chain)\<rparr>,
    \<lparr>held_chain_id = ''broken'', held_chain = JArr (map json_of_delegation (rev sample_chain))\<rparr>]"
  by (simp add: readHeldSet_def sample_held_def HELD_SET_CEILING_def own_members_def get_defs)

lemma sample_requirement_read:
  "readRequirement (requiredGrants sample_selection) (requiredSpend sample_selection) = Some ([''data:read''],
     Some \<lparr>spend_unit = ''USD-cents'', spend_amount = ''150'', spend_action_ref = sample_action\<rparr>)"
proof -
  have "ACTION_REF sample_action" "is_decimal ''150''" "isValidScopeGrant ''data:read''" by code_simp+
  then show ?thesis by (simp add: readRequirement_def sample_selection_def read_spend_def own_members_def get_defs)
qed

lemma sample_narrow_suits:
  "suits sample_crypto sample_options [''data:read''] \<lparr>held_chain_id = ''narrow'', held_chain = JArr (map json_of_delegation sample_chain)\<rparr>"
proof -
  have "scopeGrantCovers ''data:read'' ''data:read''" by code_simp
  then show ?thesis using sample_verified
    by (simp add: suits_def leaf_grants_def sample_chain_def delegation_roundtrip covers_needed_def sample_child_def sample_signed_def
        sample_body_def sample_authority_def AuthorityDelegationBodyV1.defs)
qed

lemma sample_reserved:
  "\<exists>L1. reserve sample_crypto empty_ledger (JArr (map json_of_delegation sample_chain)) sample_action ''USD-cents'' ''150''
     = (done_in RESERVED Reserved, L1)"
  unfolding sample_reserve reserve_checked_def Let_def sample_bounded sample_limits by (simp add: empty_ledger_def)

lemma sample_selected:
  "\<exists>out L'. selectChainForAction sample_crypto sample_selection empty_ledger = (out, L') \<and> selected out"
proof (cases rule: select_cases [of sample_crypto sample_selection empty_ledger])
  case (failed c evs)
  from failed(2) [OF _ sample_requirement_read] sample_held_read sample_narrow_suits show ?thesis
    by (simp add: sample_selection_def)
next
  case (scoped hs needed e evs)
  with sample_requirement_read show ?thesis by simp
next
  case (spend hs needed q e evs)
  from spend(1) sample_held_read have hs: "hs = [\<lparr>held_chain_id = ''narrow'', held_chain = JArr (map json_of_delegation sample_chain)\<rparr>,
    \<lparr>held_chain_id = ''broken'', held_chain = JArr (map json_of_delegation (rev sample_chain))\<rparr>]"
    by (simp add: sample_selection_def)
  from spend(2) sample_requirement_read have q: "needed = [''data:read'']"
    "q = \<lparr>spend_unit = ''USD-cents'', spend_amount = ''150'', spend_action_ref = sample_action\<rparr>" by simp_all
  from spend(3) have e: "e = \<lparr>held_chain_id = ''narrow'', held_chain = JArr (map json_of_delegation sample_chain)\<rparr>"
    unfolding hs q by (simp add: sample_narrow_suits sample_selection_def)
  from sample_reserved obtain L1 where "reserve sample_crypto empty_ledger (JArr (map json_of_delegation sample_chain))
      sample_action ''USD-cents'' ''150'' = (done_in RESERVED Reserved, L1)" ..
  then show ?thesis unfolding spend(5) e q
    by (simp add: sample_selection_def evaluate_suits [OF sample_narrow_suits] ledger_reserver_def authorizes_def
        select_outcome_def outcome_defs Let_def split: prod.split)
qed

theorem selection_rests_on_one_chain_witness:
  "\<exists>pre e suf. readHeldSet sample_held = Inr (pre @ e # suf)
    \<and> sel_chain_id (fst (selectChainForAction sample_crypto sample_selection empty_ledger)) = Some (held_chain_id e)"
proof -
  from sample_selected obtain out L' where sel: "selectChainForAction sample_crypto sample_selection empty_ledger = (out, L')" "selected out"
    by blast
  from selection_rests_on_one_chain [OF sel] obtain pre e suf where
    "readHeldSet (held_set sample_selection) = Inr (pre @ e # suf)" "sel_chain_id out = Some (held_chain_id e)" by (elim exE conjE)
  with sel(1) show ?thesis by (intro exI conjI) (simp_all add: sample_selection_def)
qed

text \<open>C17. A failed selection spends nothing: with the in-memory ledger as reserver, an answer that
  selects no chain leaves every counter and every reservation as they were, with or without
  an authorized fallback.\<close>

theorem failed_selection_spends_nothing:
  assumes "reserveBudget inp = Some (ledger_reserver C)" and "selectChainForAction C inp L = (out, L')" and "\<not> selected out"
    and "reserveBudget inp2 = Some (ledger_reserver C)" and "selectWithFallback C inp2 L = (out2, L2)" and "\<not> selected out2"
  shows "L' = L \<and> L2 = L"
  using ledger_selection.failed_selection_keeps [OF assms(1-3)] ledger_selection.failed_fallback_keeps [OF assms(4-6)] by simp

definition sample_switch :: "json option \<Rightarrow> Ledger ChainSelectionWithFallbackInput" where
  "sample_switch auth = \<lparr>held_set = sample_held, requiredGrants = requiredGrants sample_selection,
     requiredSpend = requiredSpend sample_selection, sel_options = sample_options,
     reserveBudget = Some (ledger_reserver sample_crypto), preferred_chain_id = Some (JStr ''broken''), fallback = auth\<rparr>"

lemma sample_broken_unsuited:
  "\<not> suits sample_crypto sample_options needed \<lparr>held_chain_id = ''broken'', held_chain = JArr (map json_of_delegation (rev sample_chain))\<rparr>"
  unfolding suits_def ReadHeldChain.simps verify_decides
  by (simp add: valid_chain_def sample_chain_def root_ok_def sample_child_def sample_signed_def sample_body_def AuthorityDelegationBodyV1.defs)

lemma decide_unsuited:
  "\<not> suits C opt needed e \<Longrightarrow> decide_entry C needed sp opt rv s e = ((evaluation (scope_only C needed opt e), None), s)"
  by (simp add: decide_entry_def Let_def scope_only_iff)

lemma sample_switch_refused:
  "selectWithFallback sample_crypto (sample_switch None) L =
     ((let ev = evaluation (scope_only sample_crypto [''data:read''] sample_options
          \<lparr>held_chain_id = ''broken'', held_chain = JArr (map json_of_delegation (rev sample_chain))\<rparr>) in
       (fail_selection (failureFor [ev]) [ev])\<lparr>fallback_considered := Some False\<rparr>), L)"
  using sample_requirement_read
  by (simp add: selectWithFallback_def sample_switch_def sample_held_read read_fallback_def decide_unsuited sample_broken_unsuited Let_def)

theorem failed_selection_spends_nothing_witness:
  "snd (selectWithFallback sample_crypto (sample_switch None) sample_ledger) = sample_ledger"
proof -
  let ?none = "sample_selection\<lparr>requiredGrants := JNull\<rparr>"
  have "selectChainForAction sample_crypto ?none sample_ledger = (fail_selection Invalid_action_requirement [], sample_ledger)"
    using sample_held_read by (simp add: selectChainForAction_def sample_selection_def readRequirement_def)
  from failed_selection_spends_nothing [OF _ this _ _ sample_switch_refused] show ?thesis
    unfolding sample_switch_refused by (simp add: sample_selection_def sample_switch_def fail_selection_def Let_def)
qed

lemma try_others_id:
  "try_others f pref es s = ((evs, Some (i, r)), s') \<Longrightarrow> i \<noteq> pref \<and> (\<exists>e \<in> set es. held_chain_id e = i)"
  by (induction es arbitrary: s evs) (auto split: if_splits prod.splits option.splits)

text \<open>A switch is always on the record: a selected chain is either the preferred one, reported
  without a switch, or another held chain, reported with the chain it left and the reference
  the caller gave; and without a reference there is no switch.\<close>

theorem switch_is_visible:
  assumes "selectWithFallback C inp s = (out, s')" and "selected out"
  shows "\<exists>hs i. readHeldSet (held_set inp) = Inr hs \<and> preferred_chain_id inp = Some (JStr i)
    \<and> (sel_chain_id out = Some i \<and> switched_from out = None \<and> fallback_ref out = None
       \<or> (\<exists>e ref. e \<in> set hs \<and> sel_chain_id out = Some (held_chain_id e) \<and> held_chain_id e \<noteq> i \<and> switched_from out = Some i
           \<and> fallback_ref out = Some ref \<and> read_fallback (fallback inp) = Some (Some ref)))"
proof -
  from assms obtain hs needed sp where hs: "readHeldSet (held_set inp) = Inr hs"
    and req: "readRequirement (requiredGrants inp) (requiredSpend inp) = Some (needed, sp)"
    by (auto simp: selectWithFallback_def fail_selection_def split: sum.splits option.splits)
  from assms hs req obtain i pref where i: "preferred_chain_id inp = Some (JStr i)"
    and pref: "List.find (\<lambda>e. held_chain_id e = i) hs = Some pref"
    by (auto simp: selectWithFallback_def fail_selection_def split: option.splits json.splits)
  from pref have "held_chain_id pref = i" by (auto simp: find_Some_iff)
  with assms hs req i pref show ?thesis
    by (auto simp: selectWithFallback_def fail_selection_def select_outcome_def
        split: option.splits prod.splits dest!: try_others_id)
qed

lemma read_entries_distinct:
  "read_entries seen es = Inr hs \<Longrightarrow> distinct (map held_chain_id hs) \<and> set (map held_chain_id hs) \<inter> set seen = {}"
  by (induction seen es arbitrary: hs rule: read_entries.induct) (fastforce split: option.splits if_splits sum.splits simp: bindE_def)+

lemma held_set_distinct: "readHeldSet j = Inr hs \<Longrightarrow> distinct (map held_chain_id hs)"
  by (auto simp: readHeldSet_def split: json.splits if_splits dest: read_entries_distinct)

lemma find_held:
  assumes "readHeldSet j = Inr hs" and "e \<in> set hs"
  shows "List.find (\<lambda>x. held_chain_id x = held_chain_id e) hs = Some e"
proof -
  from assms(2) obtain k where k: "k < length hs" "hs ! k = e" by (auto simp: in_set_conv_nth)
  have "held_chain_id (hs ! m) \<noteq> held_chain_id e" if "m < k" for m
    using held_set_distinct [OF assms(1)] k that by (auto simp: distinct_conv_nth)
  with k show ?thesis by (auto simp: find_Some_iff)
qed

text \<open>Without an authorization no other chain is read: the answer and the reserver's state are
  the same for every held set that holds the preferred chain, so nothing another chain
  grants can reach the decision.\<close>

theorem no_authorization_reads_one_chain:
  assumes "fallback inp = None \<or> fallback inp = Some JNull" and "preferred_chain_id inp = Some (JStr (held_chain_id e))"
    and "readHeldSet (held_set inp) = Inr hs" and "e \<in> set hs" and "readHeldSet other = Inr hs2" and "e \<in> set hs2"
  shows "selectWithFallback C (inp\<lparr>held_set := other\<rparr>) s = selectWithFallback C inp s"
  using assms(1,2,3,5) find_held [OF assms(3,4)] find_held [OF assms(5,6)]
  by (cases "readRequirement (requiredGrants inp) (requiredSpend inp)")
     (auto simp: selectWithFallback_def read_fallback_def split: option.split prod.split)


theorem no_authorization_reads_one_chain_witness:
  "selectWithFallback sample_crypto ((sample_switch None)\<lparr>held_set := JArr [JObj [(''chain_id'', JStr ''broken''),
      (''chain'', JArr (map json_of_delegation (rev sample_chain)))]]\<rparr>) empty_ledger
   = selectWithFallback sample_crypto (sample_switch None) empty_ledger"
proof (rule no_authorization_reads_one_chain)
  let ?e = "\<lparr>held_chain_id = ''broken'', held_chain = JArr (map json_of_delegation (rev sample_chain))\<rparr>"
  show "readHeldSet (held_set (sample_switch None)) = Inr [
    \<lparr>held_chain_id = ''narrow'', held_chain = JArr (map json_of_delegation sample_chain)\<rparr>, ?e]"
    using sample_held_read by (simp add: sample_switch_def)
  show "readHeldSet (JArr [JObj [(''chain_id'', JStr ''broken''), (''chain'', JArr (map json_of_delegation (rev sample_chain)))]]) = Inr [?e]"
    by (simp add: readHeldSet_def HELD_SET_CEILING_def own_members_def get_defs)
qed (simp_all add: sample_switch_def read_fallback_def)

lemma sample_switched:
  "\<exists>out L'. selectWithFallback sample_crypto (sample_switch (Some (JObj [(''authorization_ref'', JStr ''ticket'')]))) empty_ledger = (out, L')
     \<and> selected out \<and> sel_chain_id out = Some ''narrow''"
proof -
  from sample_reserved obtain L1 where res: "reserve sample_crypto empty_ledger (JArr (map json_of_delegation sample_chain))
      sample_action ''USD-cents'' ''150'' = (done_in RESERVED Reserved, L1)" ..
  show ?thesis using sample_requirement_read
    by (simp add: selectWithFallback_def sample_switch_def sample_held_read read_fallback_def get_defs decide_unsuited sample_broken_unsuited
        decide_entry_def scope_only_iff sample_narrow_suits evaluate_suits [OF sample_narrow_suits] ledger_reserver_def res
        authorizes_def outcome_defs select_outcome_def Let_def)
qed

theorem switch_is_visible_witness:
  "switched_from (fst (selectWithFallback sample_crypto (sample_switch (Some (JObj [(''authorization_ref'', JStr ''ticket'')]))) empty_ledger))
     = Some ''broken''"
proof -
  from sample_switched obtain out L' where o: "selectWithFallback sample_crypto
      (sample_switch (Some (JObj [(''authorization_ref'', JStr ''ticket'')]))) empty_ledger = (out, L')"
    "selected out" "sel_chain_id out = Some ''narrow''" by blast
  from switch_is_visible [OF o(1,2)] o(3) show ?thesis unfolding o(1) by (auto simp: sample_switch_def)
qed

end
