(* ===== verification/Authority_Bounds.thy ===== *)
theory Authority_Bounds
  imports Lifecycle_State Authority_System Rfc3339
begin

text \<open>
  \<^verbatim>\<open>src/v2/bounds/\<close>: bounds on a grant other than time (a purpose, a use count, a budget), the
  signed fulfilment attestations that reach a purpose bound, and the signed exhaustion
  record a boundary may mint for a bound it found reached.

  A bound declaration and a fulfilment record are plain JSON data: the declaration is checked
  and then read through its typed view, every member of a fulfilment record is signed.  The
  role resolver answers any string, the key resolver a key or null; a resolver that throws is
  outside the model.
\<close>

section \<open>Vocabulary\<close>

definition AUTHORITY_BOUND_TYPE :: string where
  "AUTHORITY_BOUND_TYPE = ''proposed:aps:authority-bound:v0''"

definition AUTHORITY_BOUND_FULFILMENT_TYPE :: string where
  "AUTHORITY_BOUND_FULFILMENT_TYPE = ''proposed:aps:authority-bound-fulfilment:v0''"

definition AUTHORITY_EXHAUSTION_TYPE :: string where
  "AUTHORITY_EXHAUSTION_TYPE = ''proposed:aps:authority-exhaustion:v0''"

datatype BoundKind = Purpose_bound | Use_count_bound | Budget_bound

fun kind_name :: "BoundKind \<Rightarrow> string" where
  "kind_name Purpose_bound = ''purpose''"
| "kind_name Use_count_bound = ''use_count''"
| "kind_name Budget_bound = ''budget''"

definition BOUND_KINDS :: "BoundKind list" where
  "BOUND_KINDS = [Purpose_bound, Use_count_bound, Budget_bound]"

datatype BoundState = Bound_not_reached | Bound_exhausted | Bound_not_established

datatype BoundEnding = Exhaustion

record AuthorityBound =
  bound_id :: string
  bound_delegation_id :: string
  bound_kind :: BoundKind
  bound_value :: string
  fulfilment_attestor_roles :: "string list"

datatype AttestorRoleAnswer = Holds_role | Does_not_hold_role | Role_unknown

fun role_name :: "AttestorRoleAnswer \<Rightarrow> string" where
  "role_name Holds_role = ''holds_role''"
| "role_name Does_not_hold_role = ''does_not_hold_role''"
| "role_name Role_unknown = ''unknown''"

definition ATTESTOR_ROLE_ANSWERS :: "AttestorRoleAnswer list" where
  "ATTESTOR_ROLE_ANSWERS = [Holds_role, Does_not_hold_role, Role_unknown]"

type_synonym AttestorRoleResolver = "string \<Rightarrow> string list \<Rightarrow> string \<Rightarrow> string"

type_synonym BoundVerificationKeyResolver = "string \<Rightarrow> string \<Rightarrow> string \<Rightarrow> string option"

datatype BoundReasonCode =
    BOUND_NOT_REACHED | PURPOSE_EXHAUSTED | USE_COUNT_EXHAUSTED | BUDGET_EXHAUSTED | BOUND_STATE_NOT_ESTABLISHED

fun bound_code_name :: "BoundReasonCode \<Rightarrow> string" where
  "bound_code_name BOUND_NOT_REACHED = ''BOUND_NOT_REACHED''"
| "bound_code_name PURPOSE_EXHAUSTED = ''PURPOSE_EXHAUSTED''"
| "bound_code_name USE_COUNT_EXHAUSTED = ''USE_COUNT_EXHAUSTED''"
| "bound_code_name BUDGET_EXHAUSTED = ''BUDGET_EXHAUSTED''"
| "bound_code_name BOUND_STATE_NOT_ESTABLISHED = ''BOUND_STATE_NOT_ESTABLISHED''"

datatype FulfilmentReasonCode =
    FULFILMENT_ACCEPTED | FULFILMENT_SCHEMA_INVALID | FULFILMENT_NOT_BOUND_TO_BOUND | FULFILMENT_OUTCOME_NOT_FULFILLED
  | FULFILMENT_NOT_YET_ATTESTED | FULFILMENT_KEY_UNRESOLVED | FULFILMENT_SIGNATURE_INVALID
  | FULFILMENT_ATTESTOR_WITHOUT_STANDING | FULFILMENT_ATTESTOR_ROLE_UNKNOWN | FULFILMENT_NOT_APPLICABLE_TO_KIND

record FulfilmentAssessment =
  as_attestor :: string
  as_attested_at :: string
  accepted :: bool
  as_reason_code :: FulfilmentReasonCode
  role_answer :: "AttestorRoleAnswer option"
  as_missing :: "EstablishmentGap list option"

record BoundEvaluation =
  ev_bound_id :: string
  ev_kind :: BoundKind
  bound_state :: BoundState
  bound_reason :: BoundReasonCode
  ending :: "BoundEnding option"
  bound_lifecycle :: LifecycleStateResult
  fulfilment_assessments :: "FulfilmentAssessment list"
  bound_remaining :: "string option"

datatype AuthorityBoundError =
    BOUND_MALFORMED | BOUND_RECORD_TYPE_UNSUPPORTED | BOUND_KIND_UNSUPPORTED | BOUND_VALUE_NONCANONICAL
  | INSTANT_MISSING | ROLE_RESOLVER_MISSING | KEY_RESOLVER_MISSING | COUNTER_NONCANONICAL
  | FULFILMENT_ISSUE_MALFORMED | EXHAUSTION_ISSUE_MALFORMED | EXHAUSTION_STATE_NOT_EXHAUSTED
  | Bound_canonicalization jcs_error | Bound_lifecycle_error LifecycleStateError

type_synonym 'a bounding = "(AuthorityBoundError, 'a) APS_Prelude.result"

definition as_bounding :: "('e \<Rightarrow> AuthorityBoundError) \<Rightarrow> ('e, 'a) result \<Rightarrow> 'a bounding" where
  "as_bounding f r = (case r of Inl e \<Rightarrow> Inl (f e) | Inr v \<Rightarrow> Inr v)"

section \<open>Purpose membership\<close>

definition purpose_matches :: "string \<Rightarrow> string \<Rightarrow> bool" where
  "purpose_matches requested a \<longleftrightarrow> a = requested
     \<or> endsWith a '':*'' \<and> startsWith requested (butlast a)
     \<or> CHR '':'' \<notin> set a \<and> startsWith requested (a @ '':'')"

definition isPurposePermitted :: "string \<Rightarrow> string list \<Rightarrow> bool" where
  "isPurposePermitted requested allowed = list_ex (purpose_matches requested) allowed"

definition purposeCategory :: "string \<Rightarrow> string" where
  "purposeCategory p = takeWhile (\<lambda>c. c \<noteq> CHR '':'') p"

section \<open>Preimages\<close>

definition AUTHORITY_BOUND_FULFILMENT_SIGNATURE_DOMAIN :: string where
  "AUTHORITY_BOUND_FULFILMENT_SIGNATURE_DOMAIN = ''PROPOSED-APS-AUTHORITY-BOUND-FULFILMENT-SIGNATURE-V0'' @ [CHR 0x00]"

definition AUTHORITY_EXHAUSTION_ID_DOMAIN :: string where
  "AUTHORITY_EXHAUSTION_ID_DOMAIN = ''PROPOSED-APS-AUTHORITY-EXHAUSTION-ID-V0'' @ [CHR 0x00]"

definition AUTHORITY_EXHAUSTION_SIGNATURE_DOMAIN :: string where
  "AUTHORITY_EXHAUSTION_SIGNATURE_DOMAIN = ''PROPOSED-APS-AUTHORITY-EXHAUSTION-SIGNATURE-V0'' @ [CHR 0x00]"

text \<open>A domain tag before the canonical form of an object, for reading and for writing.\<close>

definition tagged :: "crypto \<Rightarrow> string \<Rightarrow> members \<Rightarrow> string bounding" where
  "tagged C tag m = bindE (as_bounding Bound_canonicalization (canonicalizeJCS (format_number C) (JObj m))) (\<lambda>s. Inr (tag @ s))"

definition tagged_for_write :: "crypto \<Rightarrow> string \<Rightarrow> members \<Rightarrow> string bounding" where
  "tagged_for_write C tag m =
     bindE (as_bounding Bound_canonicalization (canonicalizeJCSForWrite (format_number C) (JObj m))) (\<lambda>s. Inr (tag @ s))"

definition withoutSignature :: "members \<Rightarrow> members" where
  "withoutSignature m = filter (\<lambda>kv. fst kv \<noteq> ''signature'') m"

definition authorityBoundFulfilmentSignatureInput :: "crypto \<Rightarrow> members \<Rightarrow> string bounding" where
  "authorityBoundFulfilmentSignatureInput C body = tagged C AUTHORITY_BOUND_FULFILMENT_SIGNATURE_DOMAIN body"

definition authorityBoundFulfilmentSignatureInputForWrite :: "crypto \<Rightarrow> members \<Rightarrow> string bounding" where
  "authorityBoundFulfilmentSignatureInputForWrite C body = tagged_for_write C AUTHORITY_BOUND_FULFILMENT_SIGNATURE_DOMAIN body"

definition signAuthorityBoundFulfilment :: "crypto \<Rightarrow> members \<Rightarrow> string \<Rightarrow> string bounding" where
  "signAuthorityBoundFulfilment C body privateKeyHex =
     bindE (authorityBoundFulfilmentSignatureInputForWrite C body) (\<lambda>p. Inr (ed25519_sign C p privateKeyHex))"

definition verifyAuthorityBoundFulfilmentSignature :: "crypto \<Rightarrow> members \<Rightarrow> string \<Rightarrow> string \<Rightarrow> bool bounding" where
  "verifyAuthorityBoundFulfilmentSignature C m sig publicKeyHex =
     bindE (authorityBoundFulfilmentSignatureInput C (withoutSignature m)) (\<lambda>p. Inr (ed25519_verify C p sig publicKeyHex))"

definition authorityExhaustionIdInput :: "crypto \<Rightarrow> members \<Rightarrow> string bounding" where
  "authorityExhaustionIdInput C body = tagged C AUTHORITY_EXHAUSTION_ID_DOMAIN body"

definition computeAuthorityExhaustionId :: "crypto \<Rightarrow> members \<Rightarrow> string bounding" where
  "computeAuthorityExhaustionId C body = bindE (authorityExhaustionIdInput C body) (\<lambda>p. Inr (''sha256:'' @ sha256Hex C p))"

definition computeAuthorityExhaustionIdForWrite :: "crypto \<Rightarrow> members \<Rightarrow> string bounding" where
  "computeAuthorityExhaustionIdForWrite C body =
     bindE (tagged_for_write C AUTHORITY_EXHAUSTION_ID_DOMAIN body) (\<lambda>p. Inr (''sha256:'' @ sha256Hex C p))"

definition authorityExhaustionSignatureInput :: "crypto \<Rightarrow> members \<Rightarrow> string bounding" where
  "authorityExhaustionSignatureInput C m = tagged C AUTHORITY_EXHAUSTION_SIGNATURE_DOMAIN m"

definition authorityExhaustionSignatureInputForWrite :: "crypto \<Rightarrow> members \<Rightarrow> string bounding" where
  "authorityExhaustionSignatureInputForWrite C m = tagged_for_write C AUTHORITY_EXHAUSTION_SIGNATURE_DOMAIN m"

definition signAuthorityExhaustion :: "crypto \<Rightarrow> members \<Rightarrow> string \<Rightarrow> string bounding" where
  "signAuthorityExhaustion C m privateKeyHex =
     bindE (authorityExhaustionSignatureInputForWrite C m) (\<lambda>p. Inr (ed25519_sign C p privateKeyHex))"

definition verifyAuthorityExhaustionSignature :: "crypto \<Rightarrow> members \<Rightarrow> string \<Rightarrow> string \<Rightarrow> bool bounding" where
  "verifyAuthorityExhaustionSignature C m sig publicKeyHex =
     bindE (authorityExhaustionSignatureInput C (withoutSignature m)) (\<lambda>p. Inr (ed25519_verify C p sig publicKeyHex))"

section \<open>Checking a bound declaration\<close>

definition isBoundKind :: "string \<Rightarrow> bool" where
  "isBoundKind s \<longleftrightarrow> named kind_name BOUND_KINDS s \<noteq> None"

definition isAttestorRoleAnswer :: "string \<Rightarrow> bool" where
  "isAttestorRoleAnswer s \<longleftrightarrow> named role_name ATTESTOR_ROLE_ANSWERS s \<noteq> None"

definition non_empty_text :: "json \<Rightarrow> bool" where
  "non_empty_text v = (case v of JStr s \<Rightarrow> s \<noteq> [] | _ \<Rightarrow> False)"

text \<open>The check returns the typed view of the declaration it accepted.\<close>

definition assertAuthorityBound :: "json \<Rightarrow> AuthorityBound bounding" where
  "assertAuthorityBound j =
     (case own_members j of
        None \<Rightarrow> Inl BOUND_MALFORMED
      | Some m \<Rightarrow>
          if get_str m ''record_type'' \<noteq> Some AUTHORITY_BOUND_TYPE then Inl BOUND_RECORD_TYPE_UNSUPPORTED
          else if \<not> isNonEmptyString (get m ''bound_id'') then Inl BOUND_MALFORMED
          else if \<not> (case get_str m ''delegation_id'' of None \<Rightarrow> False | Some d \<Rightarrow> is_delegation_id d) then Inl BOUND_MALFORMED
          else (case Option.bind (get_str m ''kind'') (named kind_name BOUND_KINDS) of
              None \<Rightarrow> Inl BOUND_KIND_UNSUPPORTED
            | Some k \<Rightarrow>
                if \<not> isNonEmptyString (get m ''value'') then Inl BOUND_MALFORMED
                else if k \<noteq> Purpose_bound \<and> \<not> is_decimal (str_at m ''value'') then Inl BOUND_VALUE_NONCANONICAL
                else (case get_arr m ''fulfilment_attestor_roles'' of
                    None \<Rightarrow> Inl BOUND_MALFORMED
                  | Some rs \<Rightarrow>
                      if \<not> list_all non_empty_text rs then Inl BOUND_MALFORMED
                      else Inr \<lparr>bound_id = str_at m ''bound_id'', bound_delegation_id = str_at m ''delegation_id'',
                             bound_kind = k, bound_value = str_at m ''value'',
                             fulfilment_attestor_roles = map (the \<circ> as_str) rs\<rparr>)))"

section \<open>Assessing a fulfilment record\<close>

definition readableFulfilment :: "json \<Rightarrow> bool" where
  "readableFulfilment j =
     (case own_members j of
        None \<Rightarrow> False
      | Some m \<Rightarrow>
          get_str m ''record_type'' = Some AUTHORITY_BOUND_FULFILMENT_TYPE
          \<and> isNonEmptyString (get m ''bound_id'')
          \<and> (case get_str m ''delegation_id'' of None \<Rightarrow> False | Some d \<Rightarrow> is_delegation_id d)
          \<and> isNonEmptyString (get m ''attestor'') \<and> isNonEmptyString (get m ''verification_method'')
          \<and> isNonEmptyString (get m ''attested_at'')
          \<and> (get_str m ''outcome'' = Some ''fulfilled'' \<or> get_str m ''outcome'' = Some ''not_fulfilled'')
          \<and> isNonEmptyString (get m ''reason_code'')
          \<and> (case get_str m ''signature'' of None \<Rightarrow> False | Some s \<Rightarrow> lower_hex 128 s))"

definition assessment :: "string \<Rightarrow> string \<Rightarrow> bool \<Rightarrow> FulfilmentReasonCode \<Rightarrow> AttestorRoleAnswer option
    \<Rightarrow> EstablishmentGap list option \<Rightarrow> FulfilmentAssessment" where
  "assessment attestor attestedAt acc c ra ms = \<lparr>as_attestor = attestor, as_attested_at = attestedAt, accepted = acc,
     as_reason_code = c, role_answer = ra, as_missing = ms\<rparr>"

definition assessFulfilment ::
  "crypto \<Rightarrow> json \<Rightarrow> json \<Rightarrow> string \<Rightarrow> AttestorRoleResolver \<Rightarrow> BoundVerificationKeyResolver \<Rightarrow> FulfilmentAssessment bounding" where
  "assessFulfilment C boundj j inst roles keys =
     bindE (assertAuthorityBound boundj) (\<lambda>b.
       if bound_kind b \<noteq> Purpose_bound
       then Inr (assessment [] [] False FULFILMENT_NOT_APPLICABLE_TO_KIND None (Some [G_coverage]))
       else if \<not> readableFulfilment j then Inr (assessment [] [] False FULFILMENT_SCHEMA_INVALID None (Some [G_source]))
       else let m = the (own_members j);
                attestor = str_at m ''attestor'';
                attestedAt = str_at m ''attested_at'' in
         if str_at m ''bound_id'' \<noteq> bound_id b \<or> str_at m ''delegation_id'' \<noteq> bound_delegation_id b
         then Inr (assessment attestor attestedAt False FULFILMENT_NOT_BOUND_TO_BOUND None (Some [G_coverage]))
         else if attestedAt > inst
         then Inr (assessment attestor attestedAt False FULFILMENT_NOT_YET_ATTESTED None (Some [G_coverage]))
         else (case named role_name ATTESTOR_ROLE_ANSWERS (roles attestor (fulfilment_attestor_roles b) inst) of
             None \<Rightarrow> Inr (assessment attestor attestedAt False FULFILMENT_ATTESTOR_ROLE_UNKNOWN None (Some [G_source]))
           | Some Role_unknown \<Rightarrow>
               Inr (assessment attestor attestedAt False FULFILMENT_ATTESTOR_ROLE_UNKNOWN (Some Role_unknown) (Some [G_source]))
           | Some Does_not_hold_role \<Rightarrow>
               Inr (assessment attestor attestedAt False FULFILMENT_ATTESTOR_WITHOUT_STANDING (Some Does_not_hold_role) (Some [G_source]))
           | Some Holds_role \<Rightarrow>
               (case keys attestor (str_at m ''verification_method'') attestedAt of
                  None \<Rightarrow> Inr (assessment attestor attestedAt False FULFILMENT_KEY_UNRESOLVED (Some Holds_role) (Some [G_source]))
                | Some publicKey \<Rightarrow>
                    if publicKey = []
                    then Inr (assessment attestor attestedAt False FULFILMENT_KEY_UNRESOLVED (Some Holds_role) (Some [G_source]))
                    else bindE (verifyAuthorityBoundFulfilmentSignature C m (str_at m ''signature'') publicKey) (\<lambda>good.
                      if \<not> good
                      then Inr (assessment attestor attestedAt False FULFILMENT_SIGNATURE_INVALID (Some Holds_role) (Some [G_source]))
                      else if str_at m ''outcome'' \<noteq> ''fulfilled''
                      then Inr (assessment attestor attestedAt False FULFILMENT_OUTCOME_NOT_FULFILLED (Some Holds_role) None)
                      else Inr (assessment attestor attestedAt True FULFILMENT_ACCEPTED (Some Holds_role) None)))))"

section \<open>Evaluating a bound\<close>

record BudgetCounter =
  counter_committed :: string
  counter_reserved :: string

record EvaluateBoundInput =
  eb_bound :: json
  eb_fulfilments :: "json list option"
  eb_at :: string
  eb_roles :: "AttestorRoleResolver option"
  eb_keys :: "BoundVerificationKeyResolver option"
  eb_consumed :: "string option"
  eb_counter :: "BudgetCounter option"

definition bound_decimal :: "string option \<Rightarrow> string \<Rightarrow> int bounding" where
  "bound_decimal v dflt = (let raw = (case v of None \<Rightarrow> dflt | Some s \<Rightarrow> s) in
     if is_decimal raw then Inr (BigInt raw) else Inl COUNTER_NONCANONICAL)"

definition lifecycleFor :: "BoundState \<Rightarrow> BoundReasonCode \<Rightarrow> EstablishmentGap list \<Rightarrow> LifecycleStateResult bounding" where
  "lifecycleFor st c ms = as_bounding Bound_lifecycle_error
     (if st = Bound_not_established then notEstablished ms (bound_code_name c)
      else lifecycleState (plain_state (if st = Bound_exhausted then V_invalid else V_valid) (bound_code_name c)))"

definition gaps_of :: "FulfilmentAssessment list \<Rightarrow> EstablishmentGap list" where
  "gaps_of xs = foldl (\<lambda>acc a. foldl (\<lambda>acc g. if g \<in> set acc then acc else acc @ [g]) acc
     (case as_missing a of None \<Rightarrow> [] | Some gs \<Rightarrow> gs)) [] xs"

definition purpose_verdict :: "FulfilmentAssessment list \<Rightarrow> BoundState \<times> BoundReasonCode \<times> EstablishmentGap list" where
  "purpose_verdict xs =
     (let unestablished = filter (\<lambda>a. \<not> accepted a \<and> as_missing a \<noteq> None) xs in
      if list_ex accepted xs then (Bound_exhausted, PURPOSE_EXHAUSTED, [])
      else if unestablished \<noteq> [] then (Bound_not_established, BOUND_STATE_NOT_ESTABLISHED, gaps_of unestablished)
      else (Bound_not_reached, BOUND_NOT_REACHED, []))"

text \<open>State, reason, missing limbs, assessments and remaining uses, by kind.\<close>

definition assess_all :: "crypto \<Rightarrow> EvaluateBoundInput \<Rightarrow> FulfilmentAssessment list bounding" where
  "assess_all C inp =
     (let recs = (case eb_fulfilments inp of None \<Rightarrow> [] | Some xs \<Rightarrow> xs) in
      if recs \<noteq> [] \<and> eb_roles inp = None then Inl ROLE_RESOLVER_MISSING
      else if recs \<noteq> [] \<and> eb_keys inp = None then Inl KEY_RESOLVER_MISSING
      else mapE (\<lambda>j. assessFulfilment C (eb_bound inp) j (eb_at inp)
          (case eb_roles inp of None \<Rightarrow> (\<lambda>_ _ _. ''unknown'') | Some f \<Rightarrow> f)
          (case eb_keys inp of None \<Rightarrow> (\<lambda>_ _ _. None) | Some f \<Rightarrow> f)) recs)"

definition conclude :: "AuthorityBound \<Rightarrow> FulfilmentAssessment list \<Rightarrow> string option
    \<Rightarrow> BoundState \<times> BoundReasonCode \<times> EstablishmentGap list \<Rightarrow> BoundEvaluation bounding" where
  "conclude b xs left v = (case v of (st, c, ms) \<Rightarrow>
     bindE (lifecycleFor st c (if ms \<noteq> [] then ms else [G_source])) (\<lambda>l.
       Inr \<lparr>ev_bound_id = bound_id b, ev_kind = bound_kind b, bound_state = st, bound_reason = c,
         ending = (if st = Bound_exhausted then Some Exhaustion else None), bound_lifecycle = l,
         fulfilment_assessments = xs, bound_remaining = left\<rparr>))"

definition evaluateBound :: "crypto \<Rightarrow> EvaluateBoundInput \<Rightarrow> BoundEvaluation bounding" where
  "evaluateBound C inp =
     bindE (assertAuthorityBound (eb_bound inp)) (\<lambda>b.
       if eb_at inp = [] then Inl INSTANT_MISSING
       else (case bound_kind b of
           Purpose_bound \<Rightarrow> bindE (assess_all C inp) (\<lambda>xs. conclude b xs None (purpose_verdict xs))
         | Use_count_bound \<Rightarrow>
             bindE (bound_decimal (Some (bound_value b)) ''0'') (\<lambda>limit.
             bindE (bound_decimal (eb_consumed inp) ''0'') (\<lambda>consumed.
               conclude b [] (Some (bigint_string (if consumed \<ge> limit then 0 else limit - consumed)))
                 (if consumed \<ge> limit then (Bound_exhausted, USE_COUNT_EXHAUSTED, []) else (Bound_not_reached, BOUND_NOT_REACHED, []))))
         | Budget_bound \<Rightarrow>
             bindE (bound_decimal (Some (bound_value b)) ''0'') (\<lambda>ceiling.
             bindE (bound_decimal (map_option counter_committed (eb_counter inp)) ''0'') (\<lambda>committed.
             bindE (bound_decimal (map_option counter_reserved (eb_counter inp)) ''0'') (\<lambda>reserved.
               conclude b [] None
                 (if committed + reserved \<ge> ceiling then (Bound_exhausted, BUDGET_EXHAUSTED, [])
                  else (Bound_not_reached, BOUND_NOT_REACHED, [])))))))"

section \<open>Fulfilment and exhaustion records\<close>

text \<open>
  Issuance inputs as plain data: a missing member is the marker, an absent detail is \<open>None\<close>.
  The evaluation handed to the exhaustion issuer is one \<open>evaluateBound\<close> returned, so its type
  rules out the two malformed shapes the code also refuses.
\<close>

record IssueFulfilmentInput =
  if_bound_id :: json
  if_delegation_id :: json
  if_attestor :: json
  if_verification_method :: json
  if_attested_at :: json
  if_outcome :: json
  if_reason_code :: json
  if_detail :: "json option"

definition detail_entry :: "json option \<Rightarrow> members" where
  "detail_entry d = (case d of None \<Rightarrow> [] | Some v \<Rightarrow> [(''detail'', v)])"

definition fulfilment_body :: "IssueFulfilmentInput \<Rightarrow> members" where
  "fulfilment_body i =
     [(''record_type'', JStr AUTHORITY_BOUND_FULFILMENT_TYPE), (''bound_id'', if_bound_id i), (''delegation_id'', if_delegation_id i),
      (''attestor'', if_attestor i), (''verification_method'', if_verification_method i), (''attested_at'', if_attested_at i),
      (''outcome'', if_outcome i), (''reason_code'', if_reason_code i)] @ detail_entry (if_detail i)"

definition issueAuthorityBoundFulfilment :: "crypto \<Rightarrow> IssueFulfilmentInput \<Rightarrow> string \<Rightarrow> json bounding" where
  "issueAuthorityBoundFulfilment C i privateKeyHex =
     (if \<not> list_all non_empty_text [if_bound_id i, if_delegation_id i, if_attestor i, if_verification_method i, if_attested_at i, if_reason_code i]
      then Inl FULFILMENT_ISSUE_MALFORMED
      else if if_outcome i \<noteq> JStr ''fulfilled'' \<and> if_outcome i \<noteq> JStr ''not_fulfilled'' then Inl FULFILMENT_ISSUE_MALFORMED
      else bindE (signAuthorityBoundFulfilment C (fulfilment_body i) privateKeyHex) (\<lambda>sig.
        Inr (JObj (fulfilment_body i @ [(''signature'', JStr sig)]))))"

record IssueExhaustionInput =
  ie_boundary :: json
  ie_verification_method :: json
  ie_found_at :: json
  ie_detail :: "json option"

definition exhaustion_body :: "BoundEvaluation \<Rightarrow> string \<Rightarrow> IssueExhaustionInput \<Rightarrow> members" where
  "exhaustion_body ev delegationId i =
     [(''record_type'', JStr AUTHORITY_EXHAUSTION_TYPE), (''bound_id'', JStr (ev_bound_id ev)), (''delegation_id'', JStr delegationId),
      (''kind'', JStr (kind_name (ev_kind ev))), (''boundary'', ie_boundary i), (''verification_method'', ie_verification_method i),
      (''found_at'', ie_found_at i), (''reason_code'', JStr (bound_code_name (bound_reason ev))),
      (''evidence'', JArr (map (\<lambda>a. JObj [(''attestor'', JStr (as_attestor a)), (''attested_at'', JStr (as_attested_at a))])
         (filter accepted (fulfilment_assessments ev))))] @ detail_entry (ie_detail i)"

definition issueAuthorityExhaustion :: "crypto \<Rightarrow> BoundEvaluation \<Rightarrow> string \<Rightarrow> IssueExhaustionInput \<Rightarrow> string \<Rightarrow> json bounding" where
  "issueAuthorityExhaustion C ev delegationId i privateKeyHex =
     (if bound_state ev \<noteq> Bound_exhausted then Inl EXHAUSTION_STATE_NOT_EXHAUSTED
      else if \<not> list_all non_empty_text [ie_boundary i, ie_verification_method i, ie_found_at i] then Inl EXHAUSTION_ISSUE_MALFORMED
      else let body = exhaustion_body ev delegationId i in
        bindE (computeAuthorityExhaustionIdForWrite C body) (\<lambda>eid.
          let unsigned = body @ [(''exhaustion_id'', JStr eid)] in
          bindE (signAuthorityExhaustion C unsigned privateKeyHex) (\<lambda>sig.
            Inr (JObj (unsigned @ [(''signature'', JStr sig)])))))"

datatype AuthorityExhaustionFailureCode =
    X_SCHEMA_INVALID | X_UNSUPPORTED_RECORD_TYPE | X_ID_MISMATCH | X_KEY_UNRESOLVED | X_SIGNATURE_INVALID

text \<open>The verdict on one record: \<open>None\<close> is valid, \<open>Some c\<close> is invalid with the one failure \<open>c\<close>.\<close>

definition EXHAUSTION_FIELDS :: "string list" where
  "EXHAUSTION_FIELDS = [''bound_id'', ''delegation_id'', ''boundary'', ''verification_method'', ''found_at'', ''reason_code'',
     ''exhaustion_id'', ''signature'']"

definition exhaustion_unsigned_body :: "members \<Rightarrow> members" where
  "exhaustion_unsigned_body m = filter (\<lambda>kv. fst kv \<noteq> ''exhaustion_id'' \<and> fst kv \<noteq> ''signature'') m"

definition verifyAuthorityExhaustion ::
  "crypto \<Rightarrow> json \<Rightarrow> BoundVerificationKeyResolver \<Rightarrow> AuthorityExhaustionFailureCode option bounding" where
  "verifyAuthorityExhaustion C j keys =
     (case own_members j of
        None \<Rightarrow> Inr (Some X_SCHEMA_INVALID)
      | Some m \<Rightarrow>
          if get_str m ''record_type'' \<noteq> Some AUTHORITY_EXHAUSTION_TYPE then Inr (Some X_UNSUPPORTED_RECORD_TYPE)
          else if \<not> list_all (\<lambda>f. isNonEmptyString (get m f)) EXHAUSTION_FIELDS then Inr (Some X_SCHEMA_INVALID)
          else if get_arr m ''evidence'' = None \<or> Option.bind (get_str m ''kind'') (named kind_name BOUND_KINDS) = None
          then Inr (Some X_SCHEMA_INVALID)
          else bindE (computeAuthorityExhaustionId C (exhaustion_unsigned_body m)) (\<lambda>eid.
            if eid \<noteq> str_at m ''exhaustion_id'' then Inr (Some X_ID_MISMATCH)
            else (case keys (str_at m ''boundary'') (str_at m ''verification_method'') (str_at m ''found_at'') of
                None \<Rightarrow> Inr (Some X_KEY_UNRESOLVED)
              | Some publicKey \<Rightarrow>
                  if publicKey = [] then Inr (Some X_KEY_UNRESOLVED)
                  else bindE (verifyAuthorityExhaustionSignature C m (str_at m ''signature'') publicKey) (\<lambda>good.
                    Inr (if good then None else Some X_SIGNATURE_INVALID)))))"

section \<open>What a fulfilment record must meet\<close>

text \<open>Everything but what the record says: it is readable, about this bound, attested by now,
  by a party that holds a named role, and signed under that party's key.\<close>

definition authentic :: "crypto \<Rightarrow> AuthorityBound \<Rightarrow> string \<Rightarrow> AttestorRoleResolver \<Rightarrow> BoundVerificationKeyResolver \<Rightarrow> json \<Rightarrow> bool" where
  "authentic C b inst roles keys j \<longleftrightarrow> readableFulfilment j \<and>
     (let m = the (own_members j); attestor = str_at m ''attestor''; attestedAt = str_at m ''attested_at'' in
       str_at m ''bound_id'' = bound_id b \<and> str_at m ''delegation_id'' = bound_delegation_id b \<and> attestedAt \<le> inst
       \<and> roles attestor (fulfilment_attestor_roles b) inst = ''holds_role''
       \<and> (\<exists>k. keys attestor (str_at m ''verification_method'') attestedAt = Some k \<and> k \<noteq> []
            \<and> verifyAuthorityBoundFulfilmentSignature C m (str_at m ''signature'') k = Inr True))"

definition says_fulfilled :: "json \<Rightarrow> bool" where
  "says_fulfilled j \<longleftrightarrow> str_at (the (own_members j)) ''outcome'' = ''fulfilled''"

lemma named_role [simp]: "named role_name ATTESTOR_ROLE_ANSWERS s = Some r \<longleftrightarrow> role_name r = s"
  by (cases r) (auto simp: named_def ATTESTOR_ROLE_ANSWERS_def split: if_splits)

lemma named_holds [simp]: "named role_name ATTESTOR_ROLE_ANSWERS ''holds_role'' = Some Holds_role"
  by simp

lemma assess_exact:
  assumes "assertAuthorityBound bj = Inr b" and "bound_kind b = Purpose_bound"
    and "assessFulfilment C bj j inst roles keys = Inr a"
  shows "accepted a \<longleftrightarrow> authentic C b inst roles keys j \<and> says_fulfilled j"
    and "as_missing a \<noteq> None \<longleftrightarrow> \<not> authentic C b inst roles keys j"
proof -
  have "(accepted a \<longleftrightarrow> authentic C b inst roles keys j \<and> says_fulfilled j) \<and> (as_missing a \<noteq> None \<longleftrightarrow> \<not> authentic C b inst roles keys j)"
    using assms
    by (auto simp: assessFulfilment_def authentic_def says_fulfilled_def assessment_def Let_def bindE_Inr_iff
        split: if_splits option.splits AttestorRoleAnswer.splits)
  then show "accepted a \<longleftrightarrow> authentic C b inst roles keys j \<and> says_fulfilled j"
    and "as_missing a \<noteq> None \<longleftrightarrow> \<not> authentic C b inst roles keys j" by simp_all
qed

section \<open>The lifecycle view of a bound\<close>

lemma bound_code_pattern: "REASON_CODE_PATTERN (bound_code_name c)"
  by (cases c) (simp_all add: REASON_CODE_PATTERN_def isUpper_def isDigit_def)

definition bound_view :: "BoundState \<Rightarrow> LifecycleVerdict" where
  "bound_view st = (case st of Bound_not_reached \<Rightarrow> V_valid | Bound_exhausted \<Rightarrow> V_invalid | Bound_not_established \<Rightarrow> V_not_established)"

lemma lifecycleFor_ok:
  assumes "ms \<noteq> []"
  shows "lifecycleFor st c ms = Inr \<lparr>verdict = bound_view st, reason_code = bound_code_name c,
    missing = (if st = Bound_not_established then Some ms else None), applied_default = None, outstanding = None\<rparr>"
  using assms bound_code_pattern
  by (cases st) (simp_all add: lifecycleFor_def as_bounding_def bound_view_def notEstablished_ok plain_state_ok)

lemma conclude_ok:
  "conclude b xs l (st, c, ms) = Inr \<lparr>ev_bound_id = bound_id b, ev_kind = bound_kind b, bound_state = st, bound_reason = c,
     ending = (if st = Bound_exhausted then Some Exhaustion else None),
     bound_lifecycle = \<lparr>verdict = bound_view st, reason_code = bound_code_name c,
       missing = (if st = Bound_not_established then Some (if ms \<noteq> [] then ms else [G_source]) else None),
       applied_default = None, outstanding = None\<rparr>,
     fulfilment_assessments = xs, bound_remaining = l\<rparr>"
  by (simp add: conclude_def lifecycleFor_ok)

lemma conclude_total: "\<exists>ev. conclude b xs l v = Inr ev \<and> bound_state ev = fst v \<and> verdict (bound_lifecycle ev) = bound_view (fst v)
    \<and> fulfilment_assessments ev = xs \<and> bound_remaining ev = l \<and> lifecycle_wf (bound_lifecycle ev)"
proof -
  obtain st c ms where v: "v = (st, c, ms)" by (cases v)
  show ?thesis unfolding v conclude_ok
    by (cases st) (simp_all add: lifecycle_wf_def bound_view_def bound_code_pattern)
qed

lemma conclude_bound_id: "conclude b xs l v = Inr ev \<Longrightarrow> ev_bound_id ev = bound_id b"
  by (cases v) (auto simp: conclude_ok)

lemma purpose_verdict_state:
  "fst (purpose_verdict xs) = (if \<exists>a \<in> set xs. accepted a then Bound_exhausted
     else if \<exists>a \<in> set xs. as_missing a \<noteq> None then Bound_not_established else Bound_not_reached)"
  by (auto simp: purpose_verdict_def Let_def list_ex_iff filter_empty_conv)

section \<open>Inputs the evaluation accepts\<close>

definition presented_records :: "EvaluateBoundInput \<Rightarrow> json list" where
  "presented_records inp = (case eb_fulfilments inp of None \<Rightarrow> [] | Some xs \<Rightarrow> xs)"

text \<open>Plain records, both resolvers for a purpose bound, canonical counters for the other kinds.\<close>

definition bound_input_ok :: "EvaluateBoundInput \<Rightarrow> bool" where
  "bound_input_ok inp \<longleftrightarrow> eb_at inp \<noteq> [] \<and> (\<exists>b. assertAuthorityBound (eb_bound inp) = Inr b \<and>
     (case bound_kind b of
        Purpose_bound \<Rightarrow> eb_roles inp \<noteq> None \<and> eb_keys inp \<noteq> None \<and> list_all plain (presented_records inp)
      | Use_count_bound \<Rightarrow> (\<forall>s. eb_consumed inp = Some s \<longrightarrow> is_decimal s)
      | Budget_bound \<Rightarrow> (\<forall>c. eb_counter inp = Some c \<longrightarrow> is_decimal (counter_committed c) \<and> is_decimal (counter_reserved c))))"

lemma plain_members: "plain j \<Longrightarrow> own_members j = Some m \<Longrightarrow> plain (JObj (filter P m))"
  by (cases j) (auto simp: own_members_def list_all_iff)

lemma assess_total:
  assumes "assertAuthorityBound bj = Inr b" and "plain j"
  shows "\<exists>a. assessFulfilment C bj j inst roles keys = Inr a"
proof (cases "readableFulfilment j")
  case True
  then obtain m where m: "own_members j = Some m" by (auto simp: readableFulfilment_def split: option.splits)
  then have "plain (JObj (withoutSignature m))" unfolding withoutSignature_def by (rule plain_members [OF assms(2)])
  then have "\<exists>g. verifyAuthorityBoundFulfilmentSignature C m s k = Inr g" for s k
    by (simp add: verifyAuthorityBoundFulfilmentSignature_def authorityBoundFulfilmentSignatureInput_def tagged_def canonicalizeJCS_def as_bounding_def)
  then have sig: "\<exists>g. verifyAuthorityBoundFulfilmentSignature C m (str_at m ''signature'') k = Inr g" for k by blast
  show ?thesis
  proof (cases "keys (str_at m ''attestor'') (str_at m ''verification_method'') (str_at m ''attested_at'')")
    case None
    with True m assms(1) show ?thesis by (simp add: assessFulfilment_def Let_def split: option.split AttestorRoleAnswer.split)
  next
    case (Some k)
    obtain g where "verifyAuthorityBoundFulfilmentSignature C m (str_at m ''signature'') k = Inr g" using sig by blast
    with Some True m assms(1) show ?thesis by (simp add: assessFulfilment_def Let_def split: option.split AttestorRoleAnswer.split)
  qed
qed (use assms(1) in \<open>simp add: assessFulfilment_def\<close>)

lemma bound_value_decimal:
  "assertAuthorityBound bj = Inr b \<Longrightarrow> bound_kind b \<noteq> Purpose_bound \<Longrightarrow> is_decimal (bound_value b)"
  by (auto simp: assertAuthorityBound_def split: option.splits if_splits)

lemma is_decimal_zero [simp]: "is_decimal ''0''"
  by (simp add: is_decimal_def)

lemma bound_decimal_Inr: "(\<forall>s. v = Some s \<longrightarrow> is_decimal s) \<Longrightarrow> bound_decimal v ''0'' = Inr (BigInt (case v of None \<Rightarrow> ''0'' | Some s \<Rightarrow> s))"
  by (auto simp: bound_decimal_def split: option.split)

lemma assess_all_records:
  assumes "eb_roles inp = Some roles" and "eb_keys inp = Some keys"
  shows "assess_all C inp = mapE (\<lambda>j. assessFulfilment C (eb_bound inp) j (eb_at inp) roles keys) (presented_records inp)"
  using assms by (simp add: assess_all_def presented_records_def Let_def)

lemma evaluate_purpose:
  assumes "assertAuthorityBound (eb_bound inp) = Inr b" and "bound_kind b = Purpose_bound" and "eb_at inp \<noteq> []"
    and "eb_roles inp = Some roles" and "eb_keys inp = Some keys"
  shows "evaluateBound C inp = bindE (mapE (\<lambda>j. assessFulfilment C (eb_bound inp) j (eb_at inp) roles keys) (presented_records inp))
    (\<lambda>xs. conclude b xs None (purpose_verdict xs))"
  using assms by (simp add: evaluateBound_def assess_all_records)

definition count_of :: "string option \<Rightarrow> int" where
  "count_of v = BigInt (case v of None \<Rightarrow> ''0'' | Some s \<Rightarrow> s)"

lemma evaluate_use_count:
  assumes "assertAuthorityBound (eb_bound inp) = Inr b" and "bound_kind b = Use_count_bound" and "eb_at inp \<noteq> []"
    and "\<forall>s. eb_consumed inp = Some s \<longrightarrow> is_decimal s"
  shows "evaluateBound C inp = (let limit = BigInt (bound_value b); consumed = count_of (eb_consumed inp) in
    conclude b [] (Some (bigint_string (if consumed \<ge> limit then 0 else limit - consumed)))
      (if consumed \<ge> limit then (Bound_exhausted, USE_COUNT_EXHAUSTED, []) else (Bound_not_reached, BOUND_NOT_REACHED, [])))"
  using assms bound_value_decimal [OF assms(1)] by (simp add: evaluateBound_def bound_decimal_Inr count_of_def Let_def)

lemma evaluate_budget:
  assumes "assertAuthorityBound (eb_bound inp) = Inr b" and "bound_kind b = Budget_bound" and "eb_at inp \<noteq> []"
    and "\<forall>c. eb_counter inp = Some c \<longrightarrow> is_decimal (counter_committed c) \<and> is_decimal (counter_reserved c)"
  shows "evaluateBound C inp = conclude b [] None
    (if count_of (map_option counter_committed (eb_counter inp)) + count_of (map_option counter_reserved (eb_counter inp)) \<ge> BigInt (bound_value b)
     then (Bound_exhausted, BUDGET_EXHAUSTED, []) else (Bound_not_reached, BOUND_NOT_REACHED, []))"
  using assms bound_value_decimal [OF assms(1)] by (cases "eb_counter inp") (simp_all add: evaluateBound_def bound_decimal_Inr count_of_def)

lemma evaluate_total:
  assumes "bound_input_ok inp"
  shows "\<exists>ev. evaluateBound C inp = Inr ev \<and> verdict (bound_lifecycle ev) = bound_view (bound_state ev) \<and> lifecycle_wf (bound_lifecycle ev)"
proof -
  from assms obtain b where b: "assertAuthorityBound (eb_bound inp) = Inr b" "eb_at inp \<noteq> []" by (auto simp: bound_input_ok_def)
  have "\<exists>xs l v. evaluateBound C inp = conclude b xs l v"
  proof (cases "bound_kind b")
    case Purpose_bound
    with assms b obtain roles keys where rk: "eb_roles inp = Some roles" "eb_keys inp = Some keys" "list_all plain (presented_records inp)"
      by (auto simp: bound_input_ok_def)
    have "\<exists>xs. mapE (\<lambda>j. assessFulfilment C (eb_bound inp) j (eb_at inp) roles keys) (presented_records inp) = Inr xs"
      by (rule mapE_total) (use assess_total [OF b(1)] rk(3) in \<open>simp add: list_all_iff\<close>)
    with evaluate_purpose [OF b(1) Purpose_bound b(2) rk(1,2), of C] show ?thesis
      by (elim exE) (simp del: split_paired_Ex, blast)
  next
    case Use_count_bound
    with assms b have "\<forall>s. eb_consumed inp = Some s \<longrightarrow> is_decimal s" by (simp add: bound_input_ok_def)
    from evaluate_use_count [OF b(1) Use_count_bound b(2) this, of C] show ?thesis unfolding Let_def by blast
  next
    case Budget_bound
    with assms b have "\<forall>c. eb_counter inp = Some c \<longrightarrow> is_decimal (counter_committed c) \<and> is_decimal (counter_reserved c)"
      by (simp add: bound_input_ok_def)
    from evaluate_budget [OF b(1) Budget_bound b(2) this, of C] show ?thesis by blast
  qed
  then show ?thesis using conclude_total by metis
qed

lemma evaluated_wf:
  assumes "evaluateBound C inp = Inr ev"
  shows "lifecycle_wf (bound_lifecycle ev)"
proof -
  have "\<exists>b xs l v. conclude b xs l v = Inr ev"
    using assms by (auto simp: evaluateBound_def bindE_Inr_iff simp del: split_paired_Ex split: if_splits BoundKind.splits)
  then show ?thesis using conclude_total by (metis sum.inject(2))
qed

interpretation bound_reading: lifecycle_module bound_input_ok "\<lambda>inp. bindE (evaluateBound C inp) (\<lambda>ev. Inr (bound_lifecycle ev))" for C
proof
  show "\<exists>r. bindE (evaluateBound C inp) (\<lambda>ev. Inr (bound_lifecycle ev)) = Inr r" if "bound_input_ok inp" for inp
    using evaluate_total [OF that, of C] by auto
  show "lifecycle_wf r" if "bindE (evaluateBound C inp) (\<lambda>ev. Inr (bound_lifecycle ev)) = Inr r" for inp r
    using that evaluated_wf by (auto simp: bindE_Inr_iff)
qed

section \<open>Records that were issued\<close>

lemma tagged_write: "tagged_for_write C tag m = Inr p \<Longrightarrow> tagged C tag m = Inr p"
  by (auto simp: tagged_for_write_def tagged_def bindE_Inr_iff as_bounding_def ForWrite_same_bytes split: sum.splits)

lemma tagged_write_total:
  assumes "\<forall>kv \<in> set m. write_fault (snd kv) = None"
  shows "\<exists>p. tagged_for_write C tag m = Inr p"
proof -
  have "write_fault (JObj m) = None" using assms by (auto simp: first_some_None_iff)
  then show ?thesis by (simp add: tagged_for_write_def canonicalizeJCSForWrite_def as_bounding_def)
qed

lemma non_empty_text_iff: "non_empty_text v \<longleftrightarrow> (\<exists>s. v = JStr s \<and> s \<noteq> [])"
  by (cases v) (simp_all add: non_empty_text_def)

lemma detail_filter: "filter (\<lambda>kv. fst kv \<noteq> ''signature'') (detail_entry d) = detail_entry d"
  "filter (\<lambda>kv. fst kv \<noteq> ''exhaustion_id'' \<and> fst kv \<noteq> ''signature'') (detail_entry d) = detail_entry d"
  by (simp_all add: detail_entry_def split: option.split)

lemma fulfilment_issued:
  assumes "issueAuthorityBoundFulfilment C i sk = Inr j"
  obtains bid did att meth t oc rc p where "if_bound_id i = JStr bid" "if_delegation_id i = JStr did" "if_attestor i = JStr att"
    "if_verification_method i = JStr meth" "if_attested_at i = JStr t" "if_outcome i = JStr oc" "if_reason_code i = JStr rc"
    "bid \<noteq> []" "att \<noteq> []" "meth \<noteq> []" "t \<noteq> []" "rc \<noteq> []" "oc = ''fulfilled'' \<or> oc = ''not_fulfilled''"
    "tagged C AUTHORITY_BOUND_FULFILMENT_SIGNATURE_DOMAIN (fulfilment_body i) = Inr p"
    "j = JObj (fulfilment_body i @ [(''signature'', JStr (ed25519_sign C p sk))])"
proof -
  from assms have fields: "list_all non_empty_text [if_bound_id i, if_delegation_id i, if_attestor i, if_verification_method i, if_attested_at i, if_reason_code i]"
    and oc: "if_outcome i = JStr ''fulfilled'' \<or> if_outcome i = JStr ''not_fulfilled''"
    and "bindE (signAuthorityBoundFulfilment C (fulfilment_body i) sk) (\<lambda>sig. Inr (JObj (fulfilment_body i @ [(''signature'', JStr sig)]))) = Inr j"
    by (auto simp: issueAuthorityBoundFulfilment_def split: if_splits)
  then obtain p where p: "tagged C AUTHORITY_BOUND_FULFILMENT_SIGNATURE_DOMAIN (fulfilment_body i) = Inr p"
    "j = JObj (fulfilment_body i @ [(''signature'', JStr (ed25519_sign C p sk))])"
    by (auto simp: signAuthorityBoundFulfilment_def authorityBoundFulfilmentSignatureInputForWrite_def bindE_Inr_iff dest: tagged_write)
  from fields oc show thesis by (elim disjE) (auto simp: non_empty_text_iff intro!: that p)
qed

lemma tagged_plain: "tagged C tag m = Inr p \<Longrightarrow> plain (JObj m)"
  by (auto simp: tagged_def bindE_Inr_iff as_bounding_def canonicalizeJCS_def split: sum.splits if_splits)

lemma filled_member: "get_str m k = Some s \<Longrightarrow> isNonEmptyString (get m k) \<longleftrightarrow> s \<noteq> []"
  by (cases "the (get m k)") (auto simp: isNonEmptyString_def get_str_def Option.bind_eq_Some_conv)

lemma issued_fulfilment_authentic:
  assumes "issueAuthorityBoundFulfilment C i sk = Inr j" and "keypair C sk pk" and "is_delegation_id (bound_delegation_id b)"
    and "if_bound_id i = JStr (bound_id b)" and "if_delegation_id i = JStr (bound_delegation_id b)"
    and "if_attestor i = JStr att" and "if_verification_method i = JStr meth" and "if_attested_at i = JStr t" and "t \<le> inst"
    and "roles att (fulfilment_attestor_roles b) inst = ''holds_role''" and "keys att meth t = Some pk"
  shows "authentic C b inst roles keys j" and "says_fulfilled j \<longleftrightarrow> if_outcome i = JStr ''fulfilled''" and "plain j"
proof -
  from assms(1) obtain bid did oc rc p where f: "if_outcome i = JStr oc" "if_reason_code i = JStr rc"
    "bound_id b \<noteq> []" "att \<noteq> []" "meth \<noteq> []" "t \<noteq> []" "rc \<noteq> []" "oc = ''fulfilled'' \<or> oc = ''not_fulfilled''"
    and p: "tagged C AUTHORITY_BOUND_FULFILMENT_SIGNATURE_DOMAIN (fulfilment_body i) = Inr p"
    and j: "j = JObj (fulfilment_body i @ [(''signature'', JStr (ed25519_sign C p sk))])"
    by (rule fulfilment_issued) (use assms(4-8) in auto)
  let ?m = "fulfilment_body i @ [(''signature'', JStr (ed25519_sign C p sk))]"
  from assms(2) have key: "lower_hex 128 (ed25519_sign C p sk)" "ed25519_verify C p (ed25519_sign C p sk) pk" "pk \<noteq> []"
    by (auto simp: keypair_def KEY_MATERIAL_def)
  have own: "own_members j = Some ?m" by (simp add: j own_members_def)
  have without: "withoutSignature ?m = fulfilment_body i"
    by (simp add: withoutSignature_def fulfilment_body_def detail_filter)
  have gets: "get_str ?m ''record_type'' = Some AUTHORITY_BOUND_FULFILMENT_TYPE" "get_str ?m ''bound_id'' = Some (bound_id b)"
    "get_str ?m ''delegation_id'' = Some (bound_delegation_id b)" "get_str ?m ''attestor'' = Some att"
    "get_str ?m ''verification_method'' = Some meth" "get_str ?m ''attested_at'' = Some t" "get_str ?m ''outcome'' = Some oc"
    "get_str ?m ''reason_code'' = Some rc" "get_str ?m ''signature'' = Some (ed25519_sign C p sk)"
    by (cases "if_detail i"; simp add: get_str_def get_def fulfilment_body_def detail_entry_def assms(4-8) f(1,2))+
  have "readableFulfilment j"
    unfolding readableFulfilment_def own using gets f(3-8) assms(3) key(1) by (simp add: filled_member)
  then show "authentic C b inst roles keys j"
    using gets assms(9-11) key(2,3) p
    by (simp add: authentic_def own str_at_def Let_def verifyAuthorityBoundFulfilmentSignature_def
        authorityBoundFulfilmentSignatureInput_def without)
  show "says_fulfilled j \<longleftrightarrow> if_outcome i = JStr ''fulfilled''"
    unfolding says_fulfilled_def own using gets f(1) by (simp add: str_at_def)
  show "plain j" using tagged_plain [OF p] by (simp add: j)
qed

lemma exhaustion_issued:
  assumes "issueAuthorityExhaustion C ev did i sk = Inr j"
  obtains bd meth t p q where "bound_state ev = Bound_exhausted"
    "ie_boundary i = JStr bd" "ie_verification_method i = JStr meth" "ie_found_at i = JStr t" "bd \<noteq> []" "meth \<noteq> []" "t \<noteq> []"
    "tagged C AUTHORITY_EXHAUSTION_ID_DOMAIN (exhaustion_body ev did i) = Inr p"
    "tagged C AUTHORITY_EXHAUSTION_SIGNATURE_DOMAIN (exhaustion_body ev did i @ [(''exhaustion_id'', JStr (''sha256:'' @ sha256Hex C p))]) = Inr q"
    "j = JObj (exhaustion_body ev did i @ [(''exhaustion_id'', JStr (''sha256:'' @ sha256Hex C p)), (''signature'', JStr (ed25519_sign C q sk))])"
proof -
  from assms have st: "bound_state ev = Bound_exhausted"
    and fields: "list_all non_empty_text [ie_boundary i, ie_verification_method i, ie_found_at i]"
    by (auto simp: issueAuthorityExhaustion_def split: if_splits)
  from assms st fields obtain p q where
    "tagged C AUTHORITY_EXHAUSTION_ID_DOMAIN (exhaustion_body ev did i) = Inr p"
    "tagged C AUTHORITY_EXHAUSTION_SIGNATURE_DOMAIN (exhaustion_body ev did i @ [(''exhaustion_id'', JStr (''sha256:'' @ sha256Hex C p))]) = Inr q"
    "j = JObj (exhaustion_body ev did i @ [(''exhaustion_id'', JStr (''sha256:'' @ sha256Hex C p)), (''signature'', JStr (ed25519_sign C q sk))])"
    by (auto simp: issueAuthorityExhaustion_def computeAuthorityExhaustionIdForWrite_def signAuthorityExhaustion_def
        authorityExhaustionSignatureInputForWrite_def Let_def bindE_Inr_iff dest!: tagged_write)
  with fields st show thesis by (auto simp: non_empty_text_iff intro: that)
qed

lemma exhaustion_body_parts:
  fixes ev :: BoundEvaluation and did eid sig :: string
  assumes "ie_boundary i = JStr bd" "ie_verification_method i = JStr meth" "ie_found_at i = JStr t"
  defines "m \<equiv> exhaustion_body ev did i @ [(''exhaustion_id'', JStr eid), (''signature'', JStr sig)]"
  shows "get_str m ''record_type'' = Some AUTHORITY_EXHAUSTION_TYPE" "get_str m ''bound_id'' = Some (ev_bound_id ev)"
    "get_str m ''delegation_id'' = Some did" "get_str m ''boundary'' = Some bd" "get_str m ''verification_method'' = Some meth"
    "get_str m ''found_at'' = Some t" "get_str m ''reason_code'' = Some (bound_code_name (bound_reason ev))"
    "get_str m ''exhaustion_id'' = Some eid" "get_str m ''signature'' = Some sig" "get_str m ''kind'' = Some (kind_name (ev_kind ev))"
    "get_arr m ''evidence'' \<noteq> None" "exhaustion_unsigned_body m = exhaustion_body ev did i"
    "withoutSignature m = exhaustion_body ev did i @ [(''exhaustion_id'', JStr eid)]"
  unfolding m_def
  by (cases "ie_detail i"; simp add: get_str_def get_arr_def get_def exhaustion_body_def detail_entry_def assms(1-3)
      exhaustion_unsigned_body_def withoutSignature_def)+

lemma named_kind [simp]: "named kind_name BOUND_KINDS (kind_name k) = Some k"
  by (cases k) (simp_all add: named_def BOUND_KINDS_def)

lemma bound_code_nonempty: "bound_code_name c \<noteq> []"
  by (cases c) simp_all

lemma issued_exhaustion_valid:
  assumes "issueAuthorityExhaustion C ev did i sk = Inr j" and "keypair C sk pk" and "ev_bound_id ev \<noteq> []" and "did \<noteq> []"
    and "\<And>bd meth t. ie_boundary i = JStr bd \<Longrightarrow> ie_verification_method i = JStr meth \<Longrightarrow> ie_found_at i = JStr t \<Longrightarrow> keys bd meth t = Some pk"
  shows "verifyAuthorityExhaustion C j keys = Inr None"
proof (rule exhaustion_issued [OF assms(1)])
  fix bd meth t p q
  assume i: "ie_boundary i = JStr bd" "ie_verification_method i = JStr meth" "ie_found_at i = JStr t" and ne: "bd \<noteq> []" "meth \<noteq> []" "t \<noteq> []"
    and p: "tagged C AUTHORITY_EXHAUSTION_ID_DOMAIN (exhaustion_body ev did i) = Inr p"
    and q: "tagged C AUTHORITY_EXHAUSTION_SIGNATURE_DOMAIN (exhaustion_body ev did i @ [(''exhaustion_id'', JStr (''sha256:'' @ sha256Hex C p))]) = Inr q"
    and j: "j = JObj (exhaustion_body ev did i @ [(''exhaustion_id'', JStr (''sha256:'' @ sha256Hex C p)), (''signature'', JStr (ed25519_sign C q sk))])"
  note parts = exhaustion_body_parts [OF i, of ev did "''sha256:'' @ sha256Hex C p" "ed25519_sign C q sk"]
  from assms(2) have key: "ed25519_sign C q sk \<noteq> []" "ed25519_verify C q (ed25519_sign C q sk) pk" "pk \<noteq> []"
    by (auto simp: keypair_def KEY_MATERIAL_def lower_hex_def) (metis list.size(3) zero_neq_numeral)
  have fields: "list_all (\<lambda>f. isNonEmptyString (get (exhaustion_body ev did i @
      [(''exhaustion_id'', JStr (''sha256:'' @ sha256Hex C p)), (''signature'', JStr (ed25519_sign C q sk))]) f)) EXHAUSTION_FIELDS"
    using parts ne key(1) assms(3,4) by (simp add: EXHAUSTION_FIELDS_def filled_member bound_code_nonempty)
  show ?thesis unfolding j verifyAuthorityExhaustion_def own_members_def json.case option.case
    using parts fields p q key(2,3) assms(5) [OF i]
    by (simp add: str_at_def computeAuthorityExhaustionId_def authorityExhaustionIdInput_def verifyAuthorityExhaustionSignature_def
        authorityExhaustionSignatureInput_def)
qed

section \<open>The budget kind and the ledger\<close>

lemma decimal_is_decimal: "is_decimal (decimal n)"
proof (induction n rule: decimal.induct)
  case (1 n)
  show ?case
  proof (cases "n < 10")
    case True
    then have "n \<in> {0, 1, 2, 3, 4, 5, 6, 7, 8, 9}" by auto
    then have "is_decimal [char_of (48 + n)]" by (auto simp: is_decimal_def isDigit_def)
    with True show ?thesis by (subst decimal.simps) simp
  next
    case False
    with 1 have d: "is_decimal (decimal (n div 10))" by simp
    have "decimal (n div 10) \<noteq> ''0''"
    proof
      assume "decimal (n div 10) = ''0''"
      then have "num_of (decimal (n div 10)) = num_of ''0''" by simp
      with decimal_digits [of "n div 10"] False show False by (simp add: num_of_def digit_val_def)
    qed
    with d have "decimal (n div 10) \<noteq> []" "list_all isDigit (decimal (n div 10))" "hd (decimal (n div 10)) \<noteq> CHR ''0''"
      by (auto simp: is_decimal_def)
    moreover have "isDigit (char_of (48 + n mod 10))"
    proof -
      have "n mod 10 < 10" by simp
      then show ?thesis by (simp add: isDigit_def)
    qed
    ultimately show ?thesis using False by (subst decimal.simps) (simp add: is_decimal_def)
  qed
qed

lemma bigint_string_roundtrip: "0 \<le> k \<Longrightarrow> is_decimal (bigint_string k) \<and> BigInt (bigint_string k) = k"
  using decimal_digits [of "nat k"] by (simp add: bigint_string_def decimal_is_decimal BigInt_def)

lemma counter_reads:
  assumes "ledger_inv L" and "counter L i = (r, c)"
  shows "is_decimal r" "is_decimal c" "BigInt r = held (reservations L) i" "BigInt c = spent (reservations L) i"
proof -
  have nn: "\<forall>x \<in> set (reservations L). 0 \<le> amount (snd x)" using assms(1) by (auto simp: ledger_inv_def wf_reservation_def)
  have "reserved (counter_at (counters L) i) = held (reservations L) i" "committed (counter_at (counters L) i) = spent (reservations L) i"
    using assms(1) by (simp_all add: ledger_inv_def)
  then have "r = bigint_string (held (reservations L) i)" "c = bigint_string (spent (reservations L) i)"
    using assms(2) by (simp_all add: counter_def)
  with bigint_string_roundtrip [OF held_nonneg [OF nn]] bigint_string_roundtrip [OF spent_nonneg [OF nn]]
  show "is_decimal r" "is_decimal c" "BigInt r = held (reservations L) i" "BigInt c = spent (reservations L) i" by simp_all
qed

text \<open>The state of a purpose bound, over the presented records.\<close>

lemma purpose_state:
  assumes "assertAuthorityBound (eb_bound inp) = Inr b" and "bound_kind b = Purpose_bound"
    and "eb_roles inp = Some roles" and "eb_keys inp = Some keys" and "evaluateBound C inp = Inr ev"
  shows "bound_state ev =
    (if \<exists>j \<in> set (presented_records inp). authentic C b (eb_at inp) roles keys j \<and> says_fulfilled j then Bound_exhausted
     else if \<exists>j \<in> set (presented_records inp). \<not> authentic C b (eb_at inp) roles keys j then Bound_not_established
     else Bound_not_reached)"
proof -
  have inst: "eb_at inp \<noteq> []" using assms(1,5) by (auto simp: evaluateBound_def split: if_splits)
  let ?f = "\<lambda>j. assessFulfilment C (eb_bound inp) j (eb_at inp) roles keys"
  from assms(5) obtain xs where xs: "mapE ?f (presented_records inp) = Inr xs" and ev: "conclude b xs None (purpose_verdict xs) = Inr ev"
    unfolding evaluate_purpose [OF assms(1,2) inst assms(3,4)] by (auto simp: bindE_Inr_iff)
  from xs have all: "list_all2 (\<lambda>j a. ?f j = Inr a) (presented_records inp) xs" by (simp add: mapE_Inr_iff)
  note exact = assess_exact [OF assms(1,2)]
  have "(\<exists>a \<in> set xs. accepted a) \<longleftrightarrow> (\<exists>j \<in> set (presented_records inp). authentic C b (eb_at inp) roles keys j \<and> says_fulfilled j)"
    using all exact(1) by (fastforce simp: list_all2_conv_all_nth in_set_conv_nth)
  moreover have "(\<exists>a \<in> set xs. as_missing a \<noteq> None) \<longleftrightarrow> (\<exists>j \<in> set (presented_records inp). \<not> authentic C b (eb_at inp) roles keys j)"
    using all exact(2) by (fastforce simp: list_all2_conv_all_nth in_set_conv_nth)
  moreover have "bound_state ev = fst (purpose_verdict xs)" using conclude_total [of b xs None "purpose_verdict xs"] ev by auto
  ultimately show ?thesis by (simp add: purpose_verdict_state)
qed

lemma fulfilment_exhausts:
  assumes "issueAuthorityBoundFulfilment C i sk = Inr j" and "keypair C sk pk"
    and "assertAuthorityBound (eb_bound inp) = Inr b" and "bound_kind b = Purpose_bound"
    and "if_bound_id i = JStr (bound_id b)" and "if_delegation_id i = JStr (bound_delegation_id b)"
    and "if_attestor i = JStr att" and "if_verification_method i = JStr meth" and "if_attested_at i = JStr t" and "t \<le> eb_at inp"
    and "if_outcome i = JStr ''fulfilled''" and "eb_at inp \<noteq> []" and "eb_fulfilments inp = Some [j]"
    and "eb_roles inp = Some roles" and "eb_keys inp = Some keys"
    and "roles att (fulfilment_attestor_roles b) (eb_at inp) = ''holds_role''" and "keys att meth t = Some pk"
  shows "\<exists>ev. evaluateBound C inp = Inr ev \<and> bound_state ev = Bound_exhausted"
proof -
  have "is_delegation_id (bound_delegation_id b)"
    using assms(3) by (auto simp: assertAuthorityBound_def str_at_def split: option.splits if_splits)
  note issued = issued_fulfilment_authentic [where roles = roles and keys = keys and pk = pk, OF assms(1,2) this assms(5-9,10,16,17)]
  have recs: "presented_records inp = [j]" using assms(13) by (simp add: presented_records_def)
  have "bound_input_ok inp" using assms(3,4,12,14,15) issued(3) recs by (auto simp: bound_input_ok_def)
  from evaluate_total [OF this] obtain ev where ev: "evaluateBound C inp = Inr ev" by blast
  with purpose_state [OF assms(3,4,14,15) ev] issued(1,2) assms(11) recs show ?thesis by simp
qed

section \<open>A sample bound\<close>

definition sample_bound :: "BoundKind \<Rightarrow> string \<Rightarrow> json" where
  "sample_bound k v = JObj [(''record_type'', JStr AUTHORITY_BOUND_TYPE), (''bound_id'', JStr ''bound-1''),
     (''delegation_id'', JStr (delegation_id sample_root)), (''kind'', JStr (kind_name k)), (''value'', JStr v),
     (''fulfilment_attestor_roles'', JArr [JStr ''inspector''])]"

definition sample_attestation :: IssueFulfilmentInput where
  "sample_attestation = \<lparr>if_bound_id = JStr ''bound-1'', if_delegation_id = JStr (delegation_id sample_root),
     if_attestor = JStr ''did:aps:inspector'', if_verification_method = JStr ''did:aps:inspector#key'',
     if_attested_at = JStr ''2026-02-01T00:00:00.000Z'', if_outcome = JStr ''fulfilled'', if_reason_code = JStr ''INSTALLED'', if_detail = None\<rparr>"

definition sample_fulfilment :: json where
  "sample_fulfilment = projr (issueAuthorityBoundFulfilment sample_crypto sample_attestation sample_key)"

definition sample_bound_input :: "json \<Rightarrow> EvaluateBoundInput" where
  "sample_bound_input bj = \<lparr>eb_bound = bj, eb_fulfilments = Some [sample_fulfilment], eb_at = ''2026-03-01T00:00:00.000Z'',
     eb_roles = Some (\<lambda>_ _ _. ''holds_role''), eb_keys = Some (\<lambda>_ _ _. Some sample_key), eb_consumed = Some ''2'',
     eb_counter = Some \<lparr>counter_committed = snd (counter sample_ledger (delegation_id sample_root)),
       counter_reserved = fst (counter sample_ledger (delegation_id sample_root))\<rparr>\<rparr>"

lemma sample_root_delegation_id: "is_delegation_id (delegation_id sample_root)"
  unfolding sample_root_id by code_simp

lemma sample_bound_ok:
  assumes "v \<noteq> []" and "is_decimal v \<or> k = Purpose_bound"
  shows "assertAuthorityBound (sample_bound k v) = Inr \<lparr>bound_id = ''bound-1'', bound_delegation_id = delegation_id sample_root,
    bound_kind = k, bound_value = v, fulfilment_attestor_roles = [''inspector'']\<rparr>"
  using assms sample_root_delegation_id
    by (auto simp: assertAuthorityBound_def sample_bound_def own_members_def get_defs str_at_def isNonEmptyString_def non_empty_text_def)

lemma sample_fulfilment_issued: "issueAuthorityBoundFulfilment sample_crypto sample_attestation sample_key = Inr sample_fulfilment"
proof -
  have "delegation_id sample_root \<noteq> []" unfolding sample_root_id by simp
  then have "\<exists>j. issueAuthorityBoundFulfilment sample_crypto sample_attestation sample_key = Inr j"
    by (simp add: issueAuthorityBoundFulfilment_def sample_attestation_def non_empty_text_def signAuthorityBoundFulfilment_def
        authorityBoundFulfilmentSignatureInputForWrite_def tagged_for_write_def canonicalizeJCSForWrite_def as_bounding_def
        fulfilment_body_def detail_entry_def)
  then show ?thesis by (auto simp: sample_fulfilment_def)
qed

abbreviation sample_purpose :: EvaluateBoundInput where
  "sample_purpose \<equiv> sample_bound_input (sample_bound Purpose_bound ''repair'')"

lemma sample_purpose_ok:
  "assertAuthorityBound (eb_bound sample_purpose) = Inr \<lparr>bound_id = ''bound-1'', bound_delegation_id = delegation_id sample_root,
    bound_kind = Purpose_bound, bound_value = ''repair'', fulfilment_attestor_roles = [''inspector'']\<rparr>"
  using sample_bound_ok [of "''repair''" Purpose_bound] by (simp add: sample_bound_input_def)

lemma sample_instants [simp]: "''2026-02-01T00:00:00.000Z'' \<le> ''2026-03-01T00:00:00.000Z''"
  by code_simp

lemma sample_bound_resolvers:
  "eb_roles (sample_bound_input bj) = Some (\<lambda>_ _ _. ''holds_role'')" "eb_keys (sample_bound_input bj) = Some (\<lambda>_ _ _. Some sample_key)"
  by (simp_all add: sample_bound_input_def)

lemma sample_purpose_exhausted: "\<exists>ev. evaluateBound sample_crypto sample_purpose = Inr ev \<and> bound_state ev = Bound_exhausted"
proof (rule fulfilment_exhausts [OF sample_fulfilment_issued sample_keypair sample_purpose_ok, where roles = "\<lambda>_ _ _. ''holds_role''"
      and keys = "\<lambda>_ _ _. Some sample_key"])
  show "''2026-02-01T00:00:00.000Z'' \<le> eb_at sample_purpose" by (simp add: sample_bound_input_def)
qed (simp_all add: sample_attestation_def sample_bound_input_def)

section \<open>Properties\<close>



text \<open>An established exhaustion is never downgraded: whatever records are presented beside the
  ones that established it, and in whatever order, the bound stays exhausted.\<close>

theorem exhaustion_is_stable:
  assumes "assertAuthorityBound (eb_bound inp) = Inr b" and "bound_kind b = Purpose_bound"
    and "eb_roles inp = Some roles" and "eb_keys inp = Some keys" and "evaluateBound C inp = Inr ev" and "bound_state ev = Bound_exhausted"
    and "set (presented_records inp) \<subseteq> set recs" and "evaluateBound C (inp\<lparr>eb_fulfilments := Some recs\<rparr>) = Inr ev2"
  shows "bound_state ev2 = Bound_exhausted"
proof -
  have "presented_records (inp\<lparr>eb_fulfilments := Some recs\<rparr>) = recs" by (simp add: presented_records_def)
  moreover have "\<exists>j \<in> set (presented_records inp). authentic C b (eb_at inp) roles keys j \<and> says_fulfilled j"
    using purpose_state [OF assms(1-5)] assms(6) by (auto split: if_splits)
  ultimately show ?thesis
    using purpose_state [of "inp\<lparr>eb_fulfilments := Some recs\<rparr>" b roles keys C ev2] assms(1-4,7,8) by auto
qed

theorem exhaustion_is_stable_witness:
  "\<exists>ev. evaluateBound sample_crypto (sample_purpose\<lparr>eb_fulfilments := Some [JNull, sample_fulfilment]\<rparr>) = Inr ev \<and> bound_state ev = Bound_exhausted"
proof -
  from sample_purpose_exhausted obtain ev where ev: "evaluateBound sample_crypto sample_purpose = Inr ev" "bound_state ev = Bound_exhausted" by blast
  have "plain sample_fulfilment"
    by (rule issued_fulfilment_authentic(3) [OF sample_fulfilment_issued sample_keypair, where inst = "''2026-03-01T00:00:00.000Z''"
        and b = "\<lparr>bound_id = ''bound-1'', bound_delegation_id = delegation_id sample_root,
          bound_kind = Purpose_bound, bound_value = ''repair'', fulfilment_attestor_roles = [''inspector'']\<rparr>"
        and t = "''2026-02-01T00:00:00.000Z''" and roles = "\<lambda>_ _ _. ''holds_role''" and keys = "\<lambda>_ _ _. Some sample_key"])
       (simp_all add: sample_attestation_def sample_root_delegation_id)
  then have "bound_input_ok (sample_purpose\<lparr>eb_fulfilments := Some [JNull, sample_fulfilment]\<rparr>)"
    using sample_purpose_ok by (simp add: bound_input_ok_def sample_bound_input_def presented_records_def)
  from evaluate_total [OF this] obtain ev2 where ev2: "evaluateBound sample_crypto (sample_purpose\<lparr>eb_fulfilments := Some [JNull, sample_fulfilment]\<rparr>) = Inr ev2"
    by blast
  have "set (presented_records sample_purpose) \<subseteq> set [JNull, sample_fulfilment]" by (simp add: sample_bound_input_def presented_records_def)
  with exhaustion_is_stable [OF sample_purpose_ok _ sample_bound_resolvers ev _ ev2] ev2 show ?thesis by simp
qed

text \<open>Issuance and evaluation agree: a fulfilled attestation minted for a bound by the holder of
  one of its roles, under the key its method resolves to, exhausts the bound at every later
  instant.\<close>

theorem issued_fulfilment_exhausts:
  assumes "issueAuthorityBoundFulfilment C i sk = Inr j" and "keypair C sk pk"
    and "assertAuthorityBound (eb_bound inp) = Inr b" and "bound_kind b = Purpose_bound"
    and "if_bound_id i = JStr (bound_id b)" and "if_delegation_id i = JStr (bound_delegation_id b)"
    and "if_attestor i = JStr att" and "if_verification_method i = JStr meth" and "if_attested_at i = JStr t" and "t \<le> eb_at inp"
    and "if_outcome i = JStr ''fulfilled''" and "eb_at inp \<noteq> []" and "eb_fulfilments inp = Some [j]"
    and "eb_roles inp = Some roles" and "eb_keys inp = Some keys"
    and "roles att (fulfilment_attestor_roles b) (eb_at inp) = ''holds_role''" and "keys att meth t = Some pk"
  shows "\<exists>ev. evaluateBound C inp = Inr ev \<and> bound_state ev = Bound_exhausted"
  by (rule fulfilment_exhausts [OF assms])

theorem issued_fulfilment_exhausts_witness:
  "\<exists>ev. evaluateBound sample_crypto sample_purpose = Inr ev \<and> bound_state ev = Bound_exhausted"
proof (rule issued_fulfilment_exhausts [OF sample_fulfilment_issued sample_keypair sample_purpose_ok, where roles = "\<lambda>_ _ _. ''holds_role''"
      and keys = "\<lambda>_ _ _. Some sample_key"])
  show "''2026-02-01T00:00:00.000Z'' \<le> eb_at sample_purpose" by (simp add: sample_bound_input_def)
qed (simp_all add: sample_attestation_def sample_bound_input_def)

text \<open>An exhaustion record is minted only for an exhausted evaluation, and what is minted
  verifies under the signer's key, for every boundary, method and time it carries.\<close>

theorem issued_exhaustion_verifies:
  assumes "issueAuthorityExhaustion C ev did i sk = Inr j" and "keypair C sk pk" and "ev_bound_id ev \<noteq> []" and "did \<noteq> []"
  shows "bound_state ev = Bound_exhausted \<and> verifyAuthorityExhaustion C j (\<lambda>_ _ _. Some pk) = Inr None"
  using assms issued_exhaustion_valid [OF assms] by (auto elim: exhaustion_issued)

definition sample_exhaustion_input :: IssueExhaustionInput where
  "sample_exhaustion_input = \<lparr>ie_boundary = JStr ''did:aps:gate'', ie_verification_method = JStr ''did:aps:gate#key'',
     ie_found_at = JStr ''2026-03-01T00:00:00.000Z'', ie_detail = None\<rparr>"

theorem issued_exhaustion_verifies_witness:
  "\<exists>ev j. evaluateBound sample_crypto sample_purpose = Inr ev
     \<and> issueAuthorityExhaustion sample_crypto ev (delegation_id sample_root) sample_exhaustion_input sample_key = Inr j
     \<and> verifyAuthorityExhaustion sample_crypto j (\<lambda>_ _ _. Some sample_key) = Inr None"
proof -
  from sample_purpose_exhausted obtain ev where ev: "evaluateBound sample_crypto sample_purpose = Inr ev" "bound_state ev = Bound_exhausted" by blast
  from ev(1) have bid: "ev_bound_id ev = ''bound-1''"
    using sample_purpose_ok by (auto simp: evaluateBound_def bindE_Inr_iff dest: conclude_bound_id split: if_splits)
  let ?body = "exhaustion_body ev (delegation_id sample_root) sample_exhaustion_input"
  have wf: "\<forall>kv \<in> set ?body. write_fault (snd kv) = None"
    by (simp add: exhaustion_body_def sample_exhaustion_input_def detail_entry_def first_some_None_iff)
  obtain p where p: "tagged_for_write sample_crypto AUTHORITY_EXHAUSTION_ID_DOMAIN ?body = Inr p" using tagged_write_total [OF wf] by blast
  have "\<forall>kv \<in> set (?body @ [(''exhaustion_id'', JStr (''sha256:'' @ sha256Hex sample_crypto p))]). write_fault (snd kv) = None" using wf by auto
  from tagged_write_total [OF this] obtain q where "tagged_for_write sample_crypto AUTHORITY_EXHAUSTION_SIGNATURE_DOMAIN
      (?body @ [(''exhaustion_id'', JStr (''sha256:'' @ sha256Hex sample_crypto p))]) = Inr q" by blast
  with p ev(2) obtain j where j: "issueAuthorityExhaustion sample_crypto ev (delegation_id sample_root) sample_exhaustion_input sample_key = Inr j"
    by (simp add: issueAuthorityExhaustion_def computeAuthorityExhaustionIdForWrite_def signAuthorityExhaustion_def
        authorityExhaustionSignatureInputForWrite_def Let_def non_empty_text_def sample_exhaustion_input_def)
  have "delegation_id sample_root \<noteq> []" unfolding sample_root_id by simp
  with issued_exhaustion_verifies [OF j sample_keypair] bid ev j show ?thesis by auto
qed

text \<open>C28. The budget kind reads the ledger: in every reachable ledger state, the bound evaluated on
  the ledger's counter is exhausted exactly when what is held and spent against the
  delegation reaches the ceiling; and then a bounded record with that ceiling refuses every
  further positive amount.\<close>

theorem budget_bound_reads_the_ledger:
  assumes "run (ledger_step C) empty_ledger ops L" and "assertAuthorityBound (eb_bound inp) = Inr b" and "bound_kind b = Budget_bound"
    and "eb_at inp \<noteq> []" and "counter L (bound_delegation_id b) = (r, c)"
    and "eb_counter inp = Some \<lparr>counter_committed = c, counter_reserved = r\<rparr>"
  shows "\<exists>ev. evaluateBound C inp = Inr ev
    \<and> (bound_state ev = Bound_exhausted \<longleftrightarrow>
         held (reservations L) (bound_delegation_id b) + spent (reservations L) (bound_delegation_id b) \<ge> BigInt (bound_value b))
    \<and> (\<forall>d u per amt. bound_state ev = Bound_exhausted \<and> delegation_id d = bound_delegation_id b
         \<and> spend (authority d) = Bounded u per (bound_value b) \<and> 0 < amt \<longrightarrow> limit_code (counters L) u amt d \<noteq> None)"
proof -
  have inv: "ledger_inv L" using ledger.reachable [OF assms(1)] by (simp add: list_all_iff)
  note reads = counter_reads [OF inv assms(5)]
  have "evaluateBound C inp = conclude b [] None
    (if spent (reservations L) (bound_delegation_id b) + held (reservations L) (bound_delegation_id b) \<ge> BigInt (bound_value b)
     then (Bound_exhausted, BUDGET_EXHAUSTED, []) else (Bound_not_reached, BOUND_NOT_REACHED, []))"
    using evaluate_budget [OF assms(2-4)] reads assms(6) by (simp add: count_of_def)
  moreover have "reserved (counter_at (counters L) i) = held (reservations L) i" "committed (counter_at (counters L) i) = spent (reservations L) i" for i
    using inv by (simp_all add: ledger_inv_def)
  ultimately show ?thesis by (auto simp: conclude_ok limit_code_def add.commute)
qed

theorem budget_bound_reads_the_ledger_witness:
  "\<exists>ev. evaluateBound sample_crypto (sample_bound_input (sample_bound Budget_bound ''150'')) = Inr ev \<and> bound_state ev = Bound_exhausted"
proof -
  have dec: "is_decimal ''150''" and n: "BigInt ''150'' = 150" by code_simp+
  from sample_bound_ok [of "''150''" Budget_bound] dec
  have b: "assertAuthorityBound (eb_bound (sample_bound_input (sample_bound Budget_bound ''150''))) = Inr \<lparr>bound_id = ''bound-1'',
      bound_delegation_id = delegation_id sample_root, bound_kind = Budget_bound, bound_value = ''150'', fulfilment_attestor_roles = [''inspector'']\<rparr>"
    by (simp add: sample_bound_input_def)
  have "held (reservations sample_ledger) (delegation_id sample_root) + spent (reservations sample_ledger) (delegation_id sample_root) = 150"
    by (simp add: sample_ledger_eq held_def spent_def weight_def live_def sample_chain_def)
  moreover obtain r c where rc: "counter sample_ledger (delegation_id sample_root) = (r, c)" by fastforce
  ultimately show ?thesis
    using budget_bound_reads_the_ledger [OF sample_run b, of r c] n by (auto simp: sample_bound_input_def)
qed

text \<open>A use count never goes negative: the bound is exhausted exactly when the admissions counted
  reach the limit, and the reported remainder is the canonical decimal form of what is left,
  zero when nothing is.\<close>

theorem use_count_exact:
  assumes "assertAuthorityBound (eb_bound inp) = Inr b" and "bound_kind b = Use_count_bound" and "eb_at inp \<noteq> []"
    and "eb_consumed inp = Some s" and "is_decimal s"
  shows "\<exists>ev left. evaluateBound C inp = Inr ev \<and> bound_remaining ev = Some left \<and> is_decimal left
    \<and> BigInt left = max 0 (BigInt (bound_value b) - BigInt s)
    \<and> (bound_state ev = Bound_exhausted \<longleftrightarrow> BigInt s \<ge> BigInt (bound_value b)) \<and> (bound_state ev = Bound_exhausted \<longleftrightarrow> left = ''0'')"
proof -
  let ?k = "if BigInt s \<ge> BigInt (bound_value b) then 0 else BigInt (bound_value b) - BigInt s"
  have k: "is_decimal (bigint_string ?k)" "BigInt (bigint_string ?k) = ?k" using bigint_string_roundtrip [of ?k] by simp_all
  have zero: "bigint_string 0 = ''0''" by code_simp
  have "evaluateBound C inp = conclude b [] (Some (bigint_string ?k))
      (if BigInt s \<ge> BigInt (bound_value b) then (Bound_exhausted, USE_COUNT_EXHAUSTED, []) else (Bound_not_reached, BOUND_NOT_REACHED, []))"
    using evaluate_use_count [OF assms(1-3)] assms(4,5) by (simp add: count_of_def Let_def)
  moreover have "bigint_string ?k = ''0'' \<longleftrightarrow> BigInt s \<ge> BigInt (bound_value b)"
    using k(2) zero by (auto simp: BigInt_def num_of_def digit_val_def)
  ultimately show ?thesis using k by (simp add: conclude_ok split: if_splits)
qed

theorem use_count_exact_witness:
  "\<exists>ev left. evaluateBound sample_crypto (sample_bound_input (sample_bound Use_count_bound ''5'')) = Inr ev
     \<and> bound_remaining ev = Some left \<and> BigInt left = 3 \<and> bound_state ev \<noteq> Bound_exhausted"
proof -
  have dec: "is_decimal ''5''" "is_decimal ''2''" and n: "BigInt ''5'' = 5" "BigInt ''2'' = 2" by code_simp+
  from sample_bound_ok [of "''5''" Use_count_bound] dec(1)
  have b: "assertAuthorityBound (eb_bound (sample_bound_input (sample_bound Use_count_bound ''5''))) = Inr \<lparr>bound_id = ''bound-1'',
      bound_delegation_id = delegation_id sample_root, bound_kind = Use_count_bound, bound_value = ''5'', fulfilment_attestor_roles = [''inspector'']\<rparr>"
    by (simp add: sample_bound_input_def)
  have "eb_at (sample_bound_input bj) \<noteq> []" "eb_consumed (sample_bound_input bj) = Some ''2''" for bj by (simp_all add: sample_bound_input_def)
  from use_count_exact [OF b _ this dec(2), of sample_crypto] n show ?thesis by auto
qed

end
