(* ===== verification/Activation.thy ===== *)
theory Activation
  imports Lifecycle_State Authority_System Rfc3339 "HOL-Library.Multiset"
begin

text \<open>
  \<^verbatim>\<open>src/v2/activation/\<close>: whether the condition a grant waits on, a date or a recorded event, is
  established at the instant of an action.  A recorded event is established by signed
  attestations from parties that hold a required role.

  Conditions and attestations are plain JSON data; a condition is checked and then read
  through its typed view, every member of an attestation is signed.  The role resolver
  answers any string; a key resolver, a caller-supplied preimage and the collation order of
  \<open>localeCompare\<close> are arguments.  A resolver that throws is outside the model.
\<close>

section \<open>Vocabulary\<close>

definition ACTIVATION_CONDITION_TYPE :: string where
  "ACTIVATION_CONDITION_TYPE = ''proposed:aps:activation-condition:v0''"

definition ACTIVATION_ATTESTATION_TYPE :: string where
  "ACTIVATION_ATTESTATION_TYPE = ''proposed:aps:activation-attestation:v0''"

datatype ActivationInstantBasis = Condition_occurrence | Attestation_written

record RecordedEventActivationConditionV0 =
  event_type :: string
  event_id :: string
  required_attestor_roles :: "string list"
  threshold :: int
  instant_basis :: ActivationInstantBasis

datatype ActivationConditionKind = Date_condition int | Recorded_event_condition RecordedEventActivationConditionV0

record ActivationConditionV0 =
  condition_id :: string
  condition_delegation_id :: string
  condition_type :: ActivationConditionKind

datatype ActivationFindingKind = Occurred_by_action | Occurred_after_action | Not_occurred_through_action

datatype ActivationReasonCode =
    ACTIVATION_ESTABLISHED | CONDITION_DATE_NOT_REACHED | CONDITION_ESTABLISHED_NOT_YET_OCCURRED
  | CONDITION_FIRST_OCCURRED_AFTER_ACTION | CONDITION_EVIDENCE_CONFLICT | ACTIVATION_THRESHOLD_NOT_MET
  | NO_ATTESTATION_PRESENTED | CONDITION_DELEGATION_MISMATCH
  | ATTESTATION_RECORD_TYPE_NOT_ACCEPTED | ATTESTATION_SIGNATURE_UNVERIFIED | ATTESTATION_ATTESTOR_BINDING_MISMATCH
  | ATTESTATION_ATTESTOR_ROLE_UNKNOWN | ATTESTATION_ROLE_CLAIM_CONFLICT | ATTESTATION_ATTESTOR_ROLE_MISMATCH
  | ATTESTATION_CONDITION_MISMATCH | ATTESTATION_UNKNOWN_ASSERTION | ATTESTATION_INSTANT_MALFORMED
  | ATTESTATION_DOES_NOT_REACH_ACTION

fun activation_code_name :: "ActivationReasonCode \<Rightarrow> string" where
  "activation_code_name ACTIVATION_ESTABLISHED = ''ACTIVATION_ESTABLISHED''"
| "activation_code_name CONDITION_DATE_NOT_REACHED = ''CONDITION_DATE_NOT_REACHED''"
| "activation_code_name CONDITION_ESTABLISHED_NOT_YET_OCCURRED = ''CONDITION_ESTABLISHED_NOT_YET_OCCURRED''"
| "activation_code_name CONDITION_FIRST_OCCURRED_AFTER_ACTION = ''CONDITION_FIRST_OCCURRED_AFTER_ACTION''"
| "activation_code_name CONDITION_EVIDENCE_CONFLICT = ''CONDITION_EVIDENCE_CONFLICT''"
| "activation_code_name ACTIVATION_THRESHOLD_NOT_MET = ''ACTIVATION_THRESHOLD_NOT_MET''"
| "activation_code_name NO_ATTESTATION_PRESENTED = ''NO_ATTESTATION_PRESENTED''"
| "activation_code_name CONDITION_DELEGATION_MISMATCH = ''CONDITION_DELEGATION_MISMATCH''"
| "activation_code_name ATTESTATION_RECORD_TYPE_NOT_ACCEPTED = ''ATTESTATION_RECORD_TYPE_NOT_ACCEPTED''"
| "activation_code_name ATTESTATION_SIGNATURE_UNVERIFIED = ''ATTESTATION_SIGNATURE_UNVERIFIED''"
| "activation_code_name ATTESTATION_ATTESTOR_BINDING_MISMATCH = ''ATTESTATION_ATTESTOR_BINDING_MISMATCH''"
| "activation_code_name ATTESTATION_ATTESTOR_ROLE_UNKNOWN = ''ATTESTATION_ATTESTOR_ROLE_UNKNOWN''"
| "activation_code_name ATTESTATION_ROLE_CLAIM_CONFLICT = ''ATTESTATION_ROLE_CLAIM_CONFLICT''"
| "activation_code_name ATTESTATION_ATTESTOR_ROLE_MISMATCH = ''ATTESTATION_ATTESTOR_ROLE_MISMATCH''"
| "activation_code_name ATTESTATION_CONDITION_MISMATCH = ''ATTESTATION_CONDITION_MISMATCH''"
| "activation_code_name ATTESTATION_UNKNOWN_ASSERTION = ''ATTESTATION_UNKNOWN_ASSERTION''"
| "activation_code_name ATTESTATION_INSTANT_MALFORMED = ''ATTESTATION_INSTANT_MALFORMED''"
| "activation_code_name ATTESTATION_DOES_NOT_REACH_ACTION = ''ATTESTATION_DOES_NOT_REACH_ACTION''"

record ActivationFinding =
  finding_attestation_id :: string
  finding_attestor :: string
  finding :: ActivationFindingKind

record ActivationRejection =
  rejection_attestation_id :: string
  rejection_attestor :: string
  rejection_code :: ActivationReasonCode

definition ACTIVATION_GAPS_BY_REASON :: "ActivationReasonCode \<Rightarrow> EstablishmentGap list option" where
  "ACTIVATION_GAPS_BY_REASON c =
     (if c = CONDITION_DELEGATION_MISMATCH \<or> c = ATTESTATION_DOES_NOT_REACH_ACTION then Some [G_coverage] else None)"

record ActivationResult =
  activation_state :: LifecycleStateResult
  activation_condition_id :: string
  findings :: "ActivationFinding list"
  rejections :: "ActivationRejection list"

datatype ActivationError =
    ROLE_RESOLVER_REQUIRED | KEY_RESOLVER_REQUIRED | ACCEPTED_RECORD_TYPES_REQUIRED | DELEGATION_ID_REQUIRED
  | INSTANT_MALFORMED | CONDITION_MALFORMED | CONDITION_RECORD_TYPE_UNKNOWN | CONDITION_ROLES_REQUIRED
  | CONDITION_THRESHOLD_INVALID | CONDITION_INSTANT_BASIS_REQUIRED | CONDITION_TYPE_UNKNOWN | ATTESTATION_MALFORMED
  | Activation_canonicalization jcs_error | Activation_lifecycle_error LifecycleStateError

type_synonym 'a activating = "(ActivationError, 'a) APS_Prelude.result"

section \<open>Preimages\<close>

definition ACTIVATION_ATTESTATION_SIGNATURE_DOMAIN :: string where
  "ACTIVATION_ATTESTATION_SIGNATURE_DOMAIN = ''APS-PROPOSED-ACTIVATION-ATTESTATION-SIGNATURE-V0'' @ [CHR 0x00]"

definition ACTIVATION_ATTESTATION_ID_DOMAIN :: string where
  "ACTIVATION_ATTESTATION_ID_DOMAIN = ''APS-PROPOSED-ACTIVATION-ATTESTATION-ID-V0'' @ [CHR 0x00]"

definition ACTIVATION_CONDITION_SIGNATURE_DOMAIN :: string where
  "ACTIVATION_CONDITION_SIGNATURE_DOMAIN = ''APS-PROPOSED-ACTIVATION-CONDITION-SIGNATURE-V0'' @ [CHR 0x00]"

definition activationAttestationBody :: "members \<Rightarrow> members" where
  "activationAttestationBody m = filter (\<lambda>kv. \<not> (fst kv = ''attestation_id'' \<or> fst kv = ''signature'')) m"

definition activation_tagged :: "crypto \<Rightarrow> string \<Rightarrow> json \<Rightarrow> string activating" where
  "activation_tagged C tag j =
     (case canonicalizeJCS (format_number C) j of Inl e \<Rightarrow> Inl (Activation_canonicalization e) | Inr s \<Rightarrow> Inr (tag @ s))"

definition activationAttestationSignatureInput :: "crypto \<Rightarrow> members \<Rightarrow> string activating" where
  "activationAttestationSignatureInput C m =
     activation_tagged C ACTIVATION_ATTESTATION_SIGNATURE_DOMAIN (JObj (activationAttestationBody m))"

definition computeActivationAttestationId :: "crypto \<Rightarrow> members \<Rightarrow> string activating" where
  "computeActivationAttestationId C m =
     bindE (activation_tagged C ACTIVATION_ATTESTATION_ID_DOMAIN (JObj (activationAttestationBody m))) (\<lambda>s.
       Inr (''sha256:'' @ sha256Hex C s))"

definition activationConditionSignatureInput :: "crypto \<Rightarrow> json \<Rightarrow> string activating" where
  "activationConditionSignatureInput C j = activation_tagged C ACTIVATION_CONDITION_SIGNATURE_DOMAIN j"

section \<open>Conditions\<close>

text \<open>A member as the value a property access gives, the marker when it is absent.\<close>

definition member_value :: "members \<Rightarrow> string \<Rightarrow> json" where
  "member_value m k = (case get m k of None \<Rightarrow> JMark | Some v \<Rightarrow> v)"

definition assertInstant :: "json \<Rightarrow> int activating" where
  "assertInstant v = (case parseRfc3339 v of Inl _ \<Rightarrow> Inl INSTANT_MALFORMED | Inr ms \<Rightarrow> Inr ms)"

definition filled_role :: "json \<Rightarrow> bool" where
  "filled_role v = isNonEmptyString (Some v)"

definition read_event :: "members \<Rightarrow> RecordedEventActivationConditionV0 activating" where
  "read_event m =
     (if \<not> isNonEmptyString (get m ''event_type'') \<or> \<not> isNonEmptyString (get m ''event_id'') then Inl CONDITION_MALFORMED
      else case get_arr m ''required_attestor_roles'' of
          None \<Rightarrow> Inl CONDITION_ROLES_REQUIRED
        | Some rs \<Rightarrow>
            if rs = [] \<or> \<not> list_all filled_role rs then Inl CONDITION_ROLES_REQUIRED
            else (case member_value m ''threshold'' of
                JNum r \<Rightarrow>
                  if \<not> isInteger r \<or> r < 1 then Inl CONDITION_THRESHOLD_INVALID
                  else if get_str m ''instant_basis'' \<noteq> Some ''condition_occurrence'' \<and> get_str m ''instant_basis'' \<noteq> Some ''attestation_written''
                  then Inl CONDITION_INSTANT_BASIS_REQUIRED
                  else Inr \<lparr>event_type = str_at m ''event_type'', event_id = str_at m ''event_id'',
                         required_attestor_roles = map (the \<circ> as_str) rs, threshold = \<lfloor>r\<rfloor>,
                         instant_basis = (if get_str m ''instant_basis'' = Some ''attestation_written'' then Attestation_written
                           else Condition_occurrence)\<rparr>
              | _ \<Rightarrow> Inl CONDITION_THRESHOLD_INVALID))"

definition validateActivationCondition :: "json \<Rightarrow> ActivationConditionV0 activating" where
  "validateActivationCondition j =
     (case own_members j of
        None \<Rightarrow> Inl CONDITION_MALFORMED
      | Some m \<Rightarrow>
          if get_str m ''record_type'' \<noteq> Some ACTIVATION_CONDITION_TYPE then Inl CONDITION_RECORD_TYPE_UNKNOWN
          else if \<not> isNonEmptyString (get m ''condition_id'') \<or> \<not> isNonEmptyString (get m ''delegation_id'') then Inl CONDITION_MALFORMED
          else bindE
            (if get_str m ''condition_type'' = Some ''date''
             then bindE (assertInstant (member_value m ''activation_date'')) (\<lambda>ms. Inr (Date_condition ms))
             else if get_str m ''condition_type'' = Some ''recorded_event''
             then bindE (read_event m) (\<lambda>e. Inr (Recorded_event_condition e))
             else Inl CONDITION_TYPE_UNKNOWN)
            (\<lambda>k. Inr \<lparr>condition_id = str_at m ''condition_id'', condition_delegation_id = str_at m ''delegation_id'', condition_type = k\<rparr>))"

section \<open>Classifying an attestation\<close>

record ActivationVerificationInput =
  av_condition :: json
  av_delegationId :: string
  av_actionInstant :: string
  av_attestations :: "json list option"
  av_roles :: "(string \<Rightarrow> string \<Rightarrow> string \<Rightarrow> string) option"
  av_keys :: "(string \<Rightarrow> string \<Rightarrow> string \<Rightarrow> KeyResolution) option"
  attestationPreimage :: "(json \<Rightarrow> string) option"
  acceptedAttestationRecordTypes :: "string list option"

definition type_accepted :: "ActivationVerificationInput \<Rightarrow> members \<Rightarrow> bool" where
  "type_accepted inp m =
     (case attestationPreimage inp of
        None \<Rightarrow> get_str m ''record_type'' = Some ACTIVATION_ATTESTATION_TYPE
      | Some _ \<Rightarrow> (case get_str m ''record_type'' of None \<Rightarrow> False
          | Some t \<Rightarrow> t \<in> set (case acceptedAttestationRecordTypes inp of None \<Rightarrow> [] | Some ts \<Rightarrow> ts)))"

definition attestation_key :: "ActivationVerificationInput \<Rightarrow> members \<Rightarrow> string option" where
  "attestation_key inp m =
     (case (get_str m ''attestor'', get_str m ''verification_method'', get_str m ''signature'') of
        (Some att, Some meth, Some _) \<Rightarrow>
          (case the (av_keys inp) att meth (str_at m ''attested_at'') of Key k \<Rightarrow> if k = [] then None else Some k | _ \<Rightarrow> None)
      | _ \<Rightarrow> None)"

definition attestation_bytes :: "crypto \<Rightarrow> ActivationVerificationInput \<Rightarrow> json \<Rightarrow> members \<Rightarrow> string activating" where
  "attestation_bytes C inp j m = (case attestationPreimage inp of
     None \<Rightarrow> activationAttestationSignatureInput C m | Some f \<Rightarrow> Inr (f j))"

text \<open>The attestor's standing: its own claim first, then the required roles.\<close>

definition role_rejection :: "ActivationVerificationInput \<Rightarrow> RecordedEventActivationConditionV0 \<Rightarrow> members \<Rightarrow> ActivationReasonCode option" where
  "role_rejection inp e m =
     (let att = str_at m ''attestor'';
          stands = (\<lambda>r. the (av_roles inp) att r (str_at m ''attested_at''));
          claim = str_at m ''attestor_role'';
          answers = map stands (required_attestor_roles e) in
      if claim \<noteq> [] \<and> stands claim = ''unknown'' then Some ATTESTATION_ATTESTOR_ROLE_UNKNOWN
      else if claim \<noteq> [] \<and> stands claim \<noteq> ''holds'' then Some ATTESTATION_ROLE_CLAIM_CONFLICT
      else if ''holds'' \<in> set answers then None
      else if ''unknown'' \<in> set answers then Some ATTESTATION_ATTESTOR_ROLE_UNKNOWN
      else Some ATTESTATION_ATTESTOR_ROLE_MISMATCH)"

definition read_assertion :: "RecordedEventActivationConditionV0 \<Rightarrow> int \<Rightarrow> members \<Rightarrow> (ActivationReasonCode, ActivationFindingKind) result" where
  "read_assertion e actionMs m =
     (if get_str m ''assertion'' = Some ''condition_occurred'' then
        (case get_str m (if instant_basis e = Attestation_written then ''attested_at'' else ''occurred_at'') of
           None \<Rightarrow> Inl ATTESTATION_UNKNOWN_ASSERTION
         | Some raw \<Rightarrow> (case parseRfc3339 (JStr raw) of
               Inl _ \<Rightarrow> Inl ATTESTATION_INSTANT_MALFORMED
             | Inr ms \<Rightarrow> Inr (if ms \<le> actionMs then Occurred_by_action else Occurred_after_action)))
      else if get_str m ''assertion'' = Some ''condition_not_occurred_through'' then
        (case get_str m ''not_occurred_through'' of
           None \<Rightarrow> Inl ATTESTATION_UNKNOWN_ASSERTION
         | Some raw \<Rightarrow> (case parseRfc3339 (JStr raw) of
               Inl _ \<Rightarrow> Inl ATTESTATION_INSTANT_MALFORMED
             | Inr ms \<Rightarrow> if ms < actionMs then Inl ATTESTATION_DOES_NOT_REACH_ACTION else Inr Not_occurred_through_action))
      else Inl ATTESTATION_UNKNOWN_ASSERTION)"

definition classify :: "crypto \<Rightarrow> ActivationVerificationInput \<Rightarrow> ActivationConditionV0 \<Rightarrow> RecordedEventActivationConditionV0 \<Rightarrow> int \<Rightarrow> json
    \<Rightarrow> (ActivationReasonCode, ActivationFindingKind) result activating" where
  "classify C inp cond e actionMs j =
     (let m = (case own_members j of None \<Rightarrow> [] | Some m \<Rightarrow> m) in
      if \<not> type_accepted inp m then Inr (Inl ATTESTATION_RECORD_TYPE_NOT_ACCEPTED)
      else (case get_str m ''attested_at'' of
          None \<Rightarrow> Inr (Inl ATTESTATION_INSTANT_MALFORMED)
        | Some t \<Rightarrow> (case parseRfc3339 (JStr t) of
            Inl _ \<Rightarrow> Inr (Inl ATTESTATION_INSTANT_MALFORMED)
          | Inr _ \<Rightarrow> (case attestation_key inp m of
              None \<Rightarrow> Inr (Inl ATTESTATION_SIGNATURE_UNVERIFIED)
            | Some k \<Rightarrow>
                bindE (attestation_bytes C inp j m) (\<lambda>pre.
                  Inr (if \<not> ed25519_verify C pre (str_at m ''signature'') k then Inl ATTESTATION_SIGNATURE_UNVERIFIED
                    else if \<not> startsWith (str_at m ''verification_method'') (str_at m ''attestor'' @ ''#'')
                    then Inl ATTESTATION_ATTESTOR_BINDING_MISMATCH
                    else (case role_rejection inp e m of
                        Some c \<Rightarrow> Inl c
                      | None \<Rightarrow>
                          if get_str m ''condition_id'' \<noteq> Some (condition_id cond) \<or> get_str m ''event_type'' \<noteq> Some (event_type e)
                            \<or> get_str m ''event_id'' \<noteq> Some (event_id e)
                          then Inl ATTESTATION_CONDITION_MISMATCH
                          else read_assertion e actionMs m)))))))"

section \<open>Deciding activation\<close>

fun REJECTION_RANK :: "ActivationReasonCode \<Rightarrow> nat" where
  "REJECTION_RANK ATTESTATION_RECORD_TYPE_NOT_ACCEPTED = 1"
| "REJECTION_RANK ATTESTATION_SIGNATURE_UNVERIFIED = 2"
| "REJECTION_RANK ATTESTATION_ATTESTOR_BINDING_MISMATCH = 3"
| "REJECTION_RANK ATTESTATION_ATTESTOR_ROLE_UNKNOWN = 4"
| "REJECTION_RANK ATTESTATION_ROLE_CLAIM_CONFLICT = 5"
| "REJECTION_RANK ATTESTATION_ATTESTOR_ROLE_MISMATCH = 6"
| "REJECTION_RANK ATTESTATION_CONDITION_MISMATCH = 7"
| "REJECTION_RANK ATTESTATION_UNKNOWN_ASSERTION = 8"
| "REJECTION_RANK ATTESTATION_INSTANT_MALFORMED = 9"
| "REJECTION_RANK ATTESTATION_DOES_NOT_REACH_ACTION = 10"
| "REJECTION_RANK _ = 0"

definition activation_lifecycle :: "LifecycleStateInput \<Rightarrow> LifecycleStateResult activating" where
  "activation_lifecycle i = (case lifecycleState i of Inl e \<Rightarrow> Inl (Activation_lifecycle_error e) | Inr r \<Rightarrow> Inr r)"

definition state_for :: "LifecycleVerdict \<Rightarrow> ActivationReasonCode \<Rightarrow> LifecycleStateResult activating" where
  "state_for v c = activation_lifecycle (plain_state v (activation_code_name c))"

definition notEstablishedFor :: "ActivationReasonCode \<Rightarrow> LifecycleStateResult activating" where
  "notEstablishedFor c = activation_lifecycle ((plain_state V_not_established (activation_code_name c))
     \<lparr>in_missing := Some (map gap_name (case ACTIVATION_GAPS_BY_REASON c of None \<Rightarrow> [G_source] | Some gs \<Rightarrow> gs))\<rparr>)"

text \<open>\<open>sort(\<dots>)[0]\<close> for the comparator of the code: the first of the rejections no other precedes.
  \<open>cmp\<close> is \<open>localeCompare\<close>.\<close>

definition precedes :: "(string \<Rightarrow> string \<Rightarrow> int) \<Rightarrow> ActivationRejection \<Rightarrow> ActivationRejection \<Rightarrow> bool" where
  "precedes cmp a b \<longleftrightarrow> REJECTION_RANK (rejection_code a) > REJECTION_RANK (rejection_code b)
     \<or> REJECTION_RANK (rejection_code a) = REJECTION_RANK (rejection_code b)
         \<and> cmp (rejection_attestation_id a) (rejection_attestation_id b) < 0"

definition furthest :: "(string \<Rightarrow> string \<Rightarrow> int) \<Rightarrow> ActivationRejection list \<Rightarrow> ActivationRejection" where
  "furthest cmp rs = foldl (\<lambda>best r. if precedes cmp r best then r else best) (hd rs) (tl rs)"

text \<open>One pass of the loop: the identifiers as recorded and the outcome of one attestation.\<close>

definition assess_attestation :: "crypto \<Rightarrow> ActivationVerificationInput \<Rightarrow> ActivationConditionV0 \<Rightarrow> RecordedEventActivationConditionV0 \<Rightarrow> int \<Rightarrow> json
    \<Rightarrow> (ActivationRejection, ActivationFinding) result activating" where
  "assess_attestation C inp cond e actionMs j =
     (case own_members j of
        None \<Rightarrow> Inl ATTESTATION_MALFORMED
      | Some m \<Rightarrow>
          bindE (classify C inp cond e actionMs j) (\<lambda>res. Inr (case res of
            Inr f \<Rightarrow> Inr \<lparr>finding_attestation_id = str_at m ''attestation_id'', finding_attestor = str_at m ''attestor'', finding = f\<rparr>
          | Inl c \<Rightarrow> Inl \<lparr>rejection_attestation_id = str_at m ''attestation_id'', rejection_attestor = str_at m ''attestor'', rejection_code = c\<rparr>)))"

definition found :: "(ActivationRejection, ActivationFinding) result list \<Rightarrow> ActivationFinding list" where
  "found xs = List.map_filter (\<lambda>x. case x of Inl _ \<Rightarrow> None | Inr f \<Rightarrow> Some f) xs"

definition refused_ones :: "(ActivationRejection, ActivationFinding) result list \<Rightarrow> ActivationRejection list" where
  "refused_ones xs = List.map_filter (\<lambda>x. case x of Inl r \<Rightarrow> Some r | Inr _ \<Rightarrow> None) xs"

definition tally :: "ActivationFindingKind \<Rightarrow> ActivationFinding list \<Rightarrow> int" where
  "tally k fs = int (length (filter (\<lambda>f. finding f = k) fs))"

definition decide_activation :: "(string \<Rightarrow> string \<Rightarrow> int) \<Rightarrow> RecordedEventActivationConditionV0 \<Rightarrow> ActivationFinding list \<Rightarrow> ActivationRejection list
    \<Rightarrow> LifecycleStateResult activating" where
  "decide_activation cmp e fs rs =
     (if tally Occurred_by_action fs > 0 \<and> tally Not_occurred_through_action fs > 0 then notEstablishedFor CONDITION_EVIDENCE_CONFLICT
      else if tally Occurred_by_action fs \<ge> threshold e then state_for V_valid ACTIVATION_ESTABLISHED
      else if tally Not_occurred_through_action fs \<ge> threshold e then state_for V_not_yet_effective CONDITION_ESTABLISHED_NOT_YET_OCCURRED
      else if tally Occurred_after_action fs \<ge> threshold e then state_for V_not_yet_effective CONDITION_FIRST_OCCURRED_AFTER_ACTION
      else if fs \<noteq> [] then notEstablishedFor ACTIVATION_THRESHOLD_NOT_MET
      else if rs = [] then notEstablishedFor NO_ATTESTATION_PRESENTED
      else notEstablishedFor (rejection_code (furthest cmp rs)))"

definition check_activation_call :: "ActivationVerificationInput \<Rightarrow> unit activating" where
  "check_activation_call inp =
     (if av_roles inp = None then Inl ROLE_RESOLVER_REQUIRED
      else if av_keys inp = None then Inl KEY_RESOLVER_REQUIRED
      else if attestationPreimage inp \<noteq> None \<and> (acceptedAttestationRecordTypes inp = None \<or> acceptedAttestationRecordTypes inp = Some [])
      then Inl ACCEPTED_RECORD_TYPES_REQUIRED
      else if av_delegationId inp = [] then Inl DELEGATION_ID_REQUIRED
      else Inr ())"

definition verifyActivation :: "crypto \<Rightarrow> (string \<Rightarrow> string \<Rightarrow> int) \<Rightarrow> ActivationVerificationInput \<Rightarrow> ActivationResult activating" where
  "verifyActivation C cmp inp =
     bindE (check_activation_call inp) (\<lambda>_.
     bindE (validateActivationCondition (av_condition inp)) (\<lambda>cond.
     bindE (assertInstant (JStr (av_actionInstant inp))) (\<lambda>actionMs.
       let answer = (\<lambda>st fs rs. bindE st (\<lambda>s. Inr \<lparr>activation_state = s, activation_condition_id = condition_id cond, findings = fs, rejections = rs\<rparr>)) in
       if condition_delegation_id cond \<noteq> av_delegationId inp then answer (notEstablishedFor CONDITION_DELEGATION_MISMATCH) [] []
       else (case condition_type cond of
           Date_condition d \<Rightarrow>
             answer (if d \<le> actionMs then state_for V_valid ACTIVATION_ESTABLISHED
                     else state_for V_not_yet_effective CONDITION_DATE_NOT_REACHED) [] []
         | Recorded_event_condition e \<Rightarrow>
             bindE (mapE (assess_attestation C inp cond e actionMs) (case av_attestations inp of None \<Rightarrow> [] | Some xs \<Rightarrow> xs)) (\<lambda>xs.
               answer (decide_activation cmp e (found xs) (refused_ones xs)) (found xs) (refused_ones xs))))))"

definition composeActivation :: "bool \<Rightarrow> AuthorityValidationResult \<Rightarrow> ActivationResult option
    \<Rightarrow> (LifecycleStateError, AuthorityValidationResult \<times> LifecycleStateResult) result" where
  "composeActivation mapping chn act =
     bindE (mapAuthorityValidationToLifecycle mapping chn) (\<lambda>mapped.
       Inr (chn, case act of
           None \<Rightarrow> mapped
         | Some a \<Rightarrow> if state chn \<noteq> State_valid then mapped else activation_state a))"

section \<open>Well-shaped answers\<close>

lemma activation_code_pattern: "REASON_CODE_PATTERN (activation_code_name c)"
  by (cases c) (simp_all add: REASON_CODE_PATTERN_def isUpper_def isDigit_def)

lemma state_for_ok:
  "v = V_valid \<or> v = V_not_yet_effective \<Longrightarrow> state_for v c = Inr \<lparr>verdict = v, reason_code = activation_code_name c,
     missing = None, applied_default = None, outstanding = None\<rparr>"
  by (auto simp: state_for_def activation_lifecycle_def plain_state_ok activation_code_pattern)

lemma notEstablishedFor_ok:
  "notEstablishedFor c = Inr \<lparr>verdict = V_not_established, reason_code = activation_code_name c,
     missing = Some (case ACTIVATION_GAPS_BY_REASON c of None \<Rightarrow> [G_source] | Some gs \<Rightarrow> gs), applied_default = None, outstanding = None\<rparr>"
proof -
  let ?gs = "case ACTIVATION_GAPS_BY_REASON c of None \<Rightarrow> [G_source] | Some gs \<Rightarrow> gs"
  have "?gs \<noteq> []" by (simp add: ACTIVATION_GAPS_BY_REASON_def)
  then have "notEstablished ?gs (activation_code_name c) = Inr \<lparr>verdict = V_not_established, reason_code = activation_code_name c,
     missing = Some ?gs, applied_default = None, outstanding = None\<rparr>"
    by (rule notEstablished_ok [OF activation_code_pattern])
  then show ?thesis by (simp add: notEstablishedFor_def activation_lifecycle_def notEstablished_def)
qed

lemmas activation_states = state_for_ok notEstablishedFor_ok


section \<open>Rejections\<close>

lemma rank_inj: "REJECTION_RANK a = REJECTION_RANK b \<Longrightarrow> 0 < REJECTION_RANK a \<Longrightarrow> a = b"
  by (cases a; cases b) simp_all

lemma furthest_in: "rs \<noteq> [] \<Longrightarrow> furthest cmp rs \<in> set rs"
proof (cases rs)
  case (Cons r rs')
  have "foldl (\<lambda>best r. if precedes cmp r best then r else best) r rs' \<in> insert r (set rs')"
  proof (induction rs' arbitrary: r)
    case (Cons a rs')
    then show ?case by (cases "precedes cmp a r") (simp_all, blast+)
  qed simp
  with Cons show ?thesis by (simp add: furthest_def)
qed simp

lemma furthest_rank:
  "r \<in> set rs \<Longrightarrow> REJECTION_RANK (rejection_code r) \<le> REJECTION_RANK (rejection_code (furthest cmp rs))"
proof (cases rs)
  case (Cons b rs')
  let ?f = "\<lambda>best r. if precedes cmp r best then r else best"
  have "x \<in> insert b (set rs') \<Longrightarrow> REJECTION_RANK (rejection_code x) \<le> REJECTION_RANK (rejection_code (foldl ?f b rs'))" for x b
  proof (induction rs' arbitrary: x b)
    case (Cons c cs)
    have "REJECTION_RANK (rejection_code b) \<le> REJECTION_RANK (rejection_code (?f b c))"
      "REJECTION_RANK (rejection_code c) \<le> REJECTION_RANK (rejection_code (?f b c))" by (auto simp: precedes_def)
    moreover have "REJECTION_RANK (rejection_code (?f b c)) \<le> REJECTION_RANK (rejection_code (foldl ?f (?f b c) cs))" by (rule Cons.IH) simp
    ultimately show ?case using Cons.IH [of x "?f b c"] Cons.prems
      by (auto simp del: if_split intro: order_trans)
  qed simp
  moreover assume "r \<in> set rs"
  ultimately show ?thesis using Cons by (simp add: furthest_def)
qed simp

lemma furthest_code:
  assumes "rejection_code ` set rs = rejection_code ` set rs'" and "\<forall>r \<in> set rs. 0 < REJECTION_RANK (rejection_code r)" and "rs \<noteq> []"
  shows "rejection_code (furthest cmp rs) = rejection_code (furthest cmp' rs')"
proof -
  from assms have "rs' \<noteq> []" by auto
  from furthest_in [OF assms(3), of cmp] obtain a' where a': "a' \<in> set rs'" "rejection_code a' = rejection_code (furthest cmp rs)"
    using assms(1) by (metis (no_types, opaque_lifting) image_iff)
  from furthest_in [OF \<open>rs' \<noteq> []\<close>, of cmp'] obtain b' where b': "b' \<in> set rs" "rejection_code b' = rejection_code (furthest cmp' rs')"
    using assms(1) by (metis (no_types, opaque_lifting) image_iff)
  have "REJECTION_RANK (rejection_code (furthest cmp rs)) = REJECTION_RANK (rejection_code (furthest cmp' rs'))"
    using furthest_rank [OF a'(1), of cmp'] furthest_rank [OF b'(1), of cmp] a'(2) b'(2) by simp
  then show ?thesis using rank_inj furthest_in [OF assms(3)] assms(2) by blast
qed

lemma role_rejection_rank: "role_rejection inp e m = Some c \<Longrightarrow> 0 < REJECTION_RANK c"
  by (auto simp: role_rejection_def Let_def split: if_splits)

lemma read_assertion_rank: "read_assertion e t m = Inl c \<Longrightarrow> 0 < REJECTION_RANK c"
  by (auto simp: read_assertion_def split: if_splits option.splits sum.splits)

section \<open>What an accepted attestation shows\<close>

text \<open>The checks every accepted attestation has passed: a type the model accepts, a readable
  writing instant, a signature under the key resolved at that instant by a method of the
  attestor, a role the condition requires, and the condition's own identifiers.\<close>

definition accepted_source :: "crypto \<Rightarrow> ActivationVerificationInput \<Rightarrow> ActivationConditionV0 \<Rightarrow> RecordedEventActivationConditionV0 \<Rightarrow> json \<Rightarrow> bool" where
  "accepted_source C inp cond e j \<longleftrightarrow>
     (\<exists>m att meth t ms k pre s. own_members j = Some m \<and> type_accepted inp m
        \<and> get_str m ''attestor'' = Some att \<and> get_str m ''verification_method'' = Some meth \<and> get_str m ''attested_at'' = Some t
        \<and> parseRfc3339 (JStr t) = Inr ms \<and> the (av_keys inp) att meth t = Key k \<and> k \<noteq> []
        \<and> get_str m ''signature'' = Some s \<and> attestation_bytes C inp j m = Inr pre \<and> ed25519_verify C pre s k
        \<and> startsWith meth (att @ ''#'')
        \<and> (\<exists>r \<in> set (required_attestor_roles e). the (av_roles inp) att r t = ''holds'')
        \<and> (\<forall>r. get_str m ''attestor_role'' = Some r \<longrightarrow> r \<noteq> [] \<longrightarrow> the (av_roles inp) att r t = ''holds'')
        \<and> get_str m ''condition_id'' = Some (condition_id cond) \<and> get_str m ''event_type'' = Some (event_type e)
        \<and> get_str m ''event_id'' = Some (event_id e))"


text \<open>Which side of the action an accepted attestation speaks for.\<close>

definition occurred_instant :: "RecordedEventActivationConditionV0 \<Rightarrow> json \<Rightarrow> int option" where
  "occurred_instant e j =
     (case own_members j of None \<Rightarrow> None
      | Some m \<Rightarrow>
          if get_str m ''assertion'' \<noteq> Some ''condition_occurred'' then None
          else (case get_str m (if instant_basis e = Attestation_written then ''attested_at'' else ''occurred_at'') of
              None \<Rightarrow> None | Some raw \<Rightarrow> (case parseRfc3339 (JStr raw) of Inl _ \<Rightarrow> None | Inr ms \<Rightarrow> Some ms)))"

definition denied_through :: "json \<Rightarrow> int option" where
  "denied_through j =
     (case own_members j of None \<Rightarrow> None
      | Some m \<Rightarrow>
          if get_str m ''assertion'' \<noteq> Some ''condition_not_occurred_through'' then None
          else (case get_str m ''not_occurred_through'' of
              None \<Rightarrow> None | Some raw \<Rightarrow> (case parseRfc3339 (JStr raw) of Inl _ \<Rightarrow> None | Inr ms \<Rightarrow> Some ms)))"

lemma read_assertion_by:
  "own_members j = Some m \<Longrightarrow> read_assertion e t m = Inr Occurred_by_action \<longleftrightarrow> (\<exists>ms. occurred_instant e j = Some ms \<and> ms \<le> t)"
  by (auto simp: read_assertion_def occurred_instant_def split: if_splits option.splits sum.splits)

lemma read_assertion_after:
  "own_members j = Some m \<Longrightarrow> read_assertion e t m = Inr Occurred_after_action \<longleftrightarrow> (\<exists>ms. occurred_instant e j = Some ms \<and> t < ms)"
  by (auto simp: read_assertion_def occurred_instant_def split: if_splits option.splits sum.splits)

lemma read_assertion_not:
  "own_members j = Some m \<Longrightarrow> read_assertion e t m = Inr Not_occurred_through_action \<longleftrightarrow> (\<exists>ms. denied_through j = Some ms \<and> t \<le> ms)"
  by (auto simp: read_assertion_def denied_through_def split: if_splits option.splits sum.splits)

lemma in_answers: "a \<in> set (map f xs) \<longleftrightarrow> (\<exists>x \<in> set xs. f x = a)"
  by auto

lemma role_rejection_None:
  "role_rejection inp e m = None \<longleftrightarrow>
     (\<exists>r \<in> set (required_attestor_roles e). the (av_roles inp) (str_at m ''attestor'') r (str_at m ''attested_at'') = ''holds'')
     \<and> (\<forall>r. get_str m ''attestor_role'' = Some r \<longrightarrow> r \<noteq> [] \<longrightarrow> the (av_roles inp) (str_at m ''attestor'') r (str_at m ''attested_at'') = ''holds'')"
  unfolding role_rejection_def Let_def in_answers
  by (cases "get_str m ''attestor_role''") (auto simp: str_at_def [of m "''attestor_role''"])

lemma attestation_key_Some:
  "attestation_key inp m = Some k \<longleftrightarrow> (\<exists>att meth s. get_str m ''attestor'' = Some att \<and> get_str m ''verification_method'' = Some meth
     \<and> get_str m ''signature'' = Some s \<and> the (av_keys inp) att meth (str_at m ''attested_at'') = Key k \<and> k \<noteq> [])"
  by (auto simp: attestation_key_def split: option.splits KeyResolution.splits)

lemma classify_finding:
  assumes m: "own_members j = Some m"
  shows "classify C inp cond e t j = Inr (Inr f) \<longleftrightarrow>
    accepted_source C inp cond e j \<and> read_assertion e t m = Inr f"
proof -
  have "classify C inp cond e t j = Inr (Inr f) \<longleftrightarrow>
    type_accepted inp m \<and> (\<exists>w ms k pre. get_str m ''attested_at'' = Some w \<and> parseRfc3339 (JStr w) = Inr ms
      \<and> attestation_key inp m = Some k \<and> attestation_bytes C inp j m = Inr pre
      \<and> ed25519_verify C pre (str_at m ''signature'') k
      \<and> startsWith (str_at m ''verification_method'') (str_at m ''attestor'' @ ''#'') \<and> role_rejection inp e m = None
      \<and> get_str m ''condition_id'' = Some (condition_id cond) \<and> get_str m ''event_type'' = Some (event_type e)
      \<and> get_str m ''event_id'' = Some (event_id e)) \<and> read_assertion e t m = Inr f"
    by (auto simp: classify_def m Let_def bindE_Inr_iff split: option.splits sum.splits if_splits)
  then show ?thesis
    unfolding accepted_source_def m attestation_key_Some role_rejection_None
    by (auto simp: str_at_def)
qed


lemma accepted_source_object: "accepted_source C inp cond e j \<Longrightarrow> \<exists>m. own_members j = Some m"
  by (auto simp: accepted_source_def)

lemma classify_rank: "classify C inp cond e t j = Inr (Inl c) \<Longrightarrow> 0 < REJECTION_RANK c"
  by (auto simp: classify_def Let_def bindE_Inr_iff dest: role_rejection_rank read_assertion_rank
      split: option.splits sum.splits if_splits)

text \<open>Whether an attestation can be classified at all does not depend on the action's instant.\<close>

lemma classify_error_later: "classify C inp cond e t j = Inl x \<longleftrightarrow> classify C inp cond e t' j = Inl x"
  by (auto simp: classify_def Let_def bindE_Inl_iff split: option.splits sum.splits if_splits)

section \<open>The verdict\<close>

definition presented_attestations :: "ActivationVerificationInput \<Rightarrow> json list" where
  "presented_attestations inp = (case av_attestations inp of None \<Rightarrow> [] | Some xs \<Rightarrow> xs)"

definition finding_of :: "(ActivationRejection, ActivationFinding) result \<Rightarrow> (ActivationReasonCode, ActivationFindingKind) result" where
  "finding_of x = (case x of Inl r \<Rightarrow> Inl (rejection_code r) | Inr f \<Rightarrow> Inr (finding f))"

lemma assessed:
  "assess_attestation C inp cond e t j = Inr x \<Longrightarrow> classify C inp cond e t j = Inr (finding_of x)"
  unfolding assess_attestation_def finding_of_def
  by (cases "classify C inp cond e t j"; cases "projr (classify C inp cond e t j)") (auto split: option.splits)

lemma attestation_assessed:
  "own_members j \<noteq> None \<Longrightarrow> classify C inp cond e t j = Inr c \<Longrightarrow> \<exists>x. assess_attestation C inp cond e t j = Inr x"
  by (auto simp: assess_attestation_def)

definition sources_for :: "crypto \<Rightarrow> ActivationVerificationInput \<Rightarrow> ActivationConditionV0 \<Rightarrow> RecordedEventActivationConditionV0 \<Rightarrow> int
    \<Rightarrow> ActivationFindingKind \<Rightarrow> int" where
  "sources_for C inp cond e t k = int (length (filter (\<lambda>j. classify C inp cond e t j = Inr (Inr k)) (presented_attestations inp)))"

lemma found_Cons [simp]: "found (x # xs) = (case x of Inl _ \<Rightarrow> found xs | Inr f \<Rightarrow> f # found xs)" "found [] = []"
  by (simp_all add: found_def map_filter_simps split: sum.split)

lemma refused_Cons [simp]: "refused_ones (x # xs) = (case x of Inl r \<Rightarrow> r # refused_ones xs | Inr _ \<Rightarrow> refused_ones xs)" "refused_ones [] = []"
  by (simp_all add: refused_ones_def map_filter_simps split: sum.split)

lemma tally_sources:
  "mapE (assess_attestation C inp cond e t) js = Inr xs \<Longrightarrow>
     tally k (found xs) = int (length (filter (\<lambda>j. classify C inp cond e t j = Inr (Inr k)) js))"
proof (induction js arbitrary: xs)
  case (Cons j js)
  then obtain y ys where y: "assess_attestation C inp cond e t j = Inr y" "mapE (assess_attestation C inp cond e t) js = Inr ys" "xs = y # ys"
    by (auto simp: bindE_Inr_iff)
  with assessed [OF y(1)] Cons.IH [OF y(2)] show ?case
    by (cases y) (auto simp: tally_def finding_of_def)
qed (simp add: tally_def)

lemma refused_codes:
  "mapE (assess_attestation C inp cond e t) js = Inr xs \<Longrightarrow>
     rejection_code ` set (refused_ones xs) = {c. \<exists>j \<in> set js. classify C inp cond e t j = Inr (Inl c)}"
proof (induction js arbitrary: xs)
  case (Cons j js)
  then obtain y ys where y: "assess_attestation C inp cond e t j = Inr y" "mapE (assess_attestation C inp cond e t) js = Inr ys" "xs = y # ys"
    by (auto simp: bindE_Inr_iff)
  with assessed [OF y(1)] Cons.IH [OF y(2)] show ?case
    by (cases y) (auto simp: finding_of_def)
qed simp

lemma found_empty:
  "mapE (assess_attestation C inp cond e t) js = Inr xs \<Longrightarrow> found xs = [] \<longleftrightarrow> (\<forall>j \<in> set js. \<forall>f. classify C inp cond e t j \<noteq> Inr (Inr f))"
proof (induction js arbitrary: xs)
  case (Cons j js)
  then obtain y ys where y: "assess_attestation C inp cond e t j = Inr y" "mapE (assess_attestation C inp cond e t) js = Inr ys" "xs = y # ys"
    by (auto simp: bindE_Inr_iff)
  with assessed [OF y(1)] Cons.IH [OF y(2)] show ?case
    by (cases y) (auto simp: finding_of_def)
qed simp

lemma refused_empty:
  "mapE (assess_attestation C inp cond e t) js = Inr xs \<Longrightarrow> refused_ones xs = [] \<longleftrightarrow> (\<forall>j \<in> set js. \<forall>c. classify C inp cond e t j \<noteq> Inr (Inl c))"
  using refused_codes [of C inp cond e t js xs] by auto

text \<open>The setting of a call on a recorded event: what its guards and its readers established.\<close>

definition event_call :: "ActivationVerificationInput \<Rightarrow> ActivationConditionV0 \<Rightarrow> RecordedEventActivationConditionV0 \<Rightarrow> int \<Rightarrow> bool" where
  "event_call inp cond e t \<longleftrightarrow> check_activation_call inp = Inr () \<and> validateActivationCondition (av_condition inp) = Inr cond
     \<and> assertInstant (JStr (av_actionInstant inp)) = Inr t \<and> condition_delegation_id cond = av_delegationId inp
     \<and> condition_type cond = Recorded_event_condition e"

lemma verify_event:
  assumes "event_call inp cond e t"
  shows "verifyActivation C cmp inp =
    bindE (mapE (assess_attestation C inp cond e t) (presented_attestations inp)) (\<lambda>xs.
      bindE (decide_activation cmp e (found xs) (refused_ones xs)) (\<lambda>s.
        Inr \<lparr>activation_state = s, activation_condition_id = condition_id cond, findings = found xs, rejections = refused_ones xs\<rparr>))"
  using assms by (simp add: event_call_def verifyActivation_def presented_attestations_def Let_def)


definition three_valued :: "LifecycleStateResult activating \<Rightarrow> bool" where
  "three_valued st \<longleftrightarrow> (\<exists>s. st = Inr s \<and> lifecycle_wf s \<and> verdict s \<in> {V_valid, V_not_yet_effective, V_not_established})"

lemma three_valued_states [simp]:
  "v = V_valid \<or> v = V_not_yet_effective \<Longrightarrow> three_valued (state_for v c)" "three_valued (notEstablishedFor c)"
  using activation_code_pattern [of c]
  by (auto simp: three_valued_def activation_states lifecycle_wf_def ACTIVATION_GAPS_BY_REASON_def)

lemma three_valued_decision: "three_valued (decide_activation cmp e fs rs)"
  by (simp add: decide_activation_def)

lemmas decide_states = three_valued_decision [unfolded three_valued_def]

text \<open>The call ends with a verdict whenever its guards pass and every attestation is an object
  whose bytes can be written.\<close>

definition activation_input_ok :: "crypto \<Rightarrow> ActivationVerificationInput \<Rightarrow> bool" where
  "activation_input_ok C inp \<longleftrightarrow> check_activation_call inp = Inr () \<and> \<not> isl (validateActivationCondition (av_condition inp))
     \<and> \<not> isl (assertInstant (JStr (av_actionInstant inp)))
     \<and> (\<forall>j \<in> set (presented_attestations inp). \<exists>m. own_members j = Some m \<and> \<not> isl (attestation_bytes C inp j m))"

lemma classify_total:
  "own_members j = Some m \<Longrightarrow> \<not> isl (attestation_bytes C inp j m) \<Longrightarrow> \<exists>c. classify C inp cond e t j = Inr c"
  by (cases "attestation_bytes C inp j m") (auto simp: classify_def Let_def split: option.splits sum.splits)

lemma activation_total:
  assumes "activation_input_ok C inp"
  shows "\<exists>r. verifyActivation C cmp inp = Inr r"
proof -
  from assms obtain cond t where c: "validateActivationCondition (av_condition inp) = Inr cond" "assertInstant (JStr (av_actionInstant inp)) = Inr t"
    by (auto simp: activation_input_ok_def isl_def split: sum.splits) (metis sum.exhaust)
  show ?thesis
  proof (cases "\<exists>e. event_call inp cond e t")
    case True
    then obtain e where e: "event_call inp cond e t" by blast
    have "\<exists>xs. mapE (assess_attestation C inp cond e t) (presented_attestations inp) = Inr xs"
    proof (rule mapE_total)
      fix j assume "j \<in> set (presented_attestations inp)"
      then obtain m where "own_members j = Some m" "\<not> isl (attestation_bytes C inp j m)" using assms by (auto simp: activation_input_ok_def)
      with classify_total [OF this] attestation_assessed [of j] show "\<exists>y. assess_attestation C inp cond e t j = Inr y" by blast
    qed
    then show ?thesis using decide_states by (auto simp: verify_event [OF e] bindE_Inr_iff) (metis)
  next
    case False
    with c assms show ?thesis
      by (cases "condition_type cond") (auto simp: event_call_def activation_input_ok_def verifyActivation_def Let_def activation_states)
  qed
qed

lemma activation_shaped:
  assumes "verifyActivation C cmp inp = Inr r"
  shows "three_valued (Inr (activation_state r))"
proof -
  from assms obtain cond t where c: "check_activation_call inp = Inr ()" "validateActivationCondition (av_condition inp) = Inr cond"
      "assertInstant (JStr (av_actionInstant inp)) = Inr t"
    by (auto simp: verifyActivation_def bindE_Inr_iff)
  have "\<exists>st. three_valued st \<and> st = Inr (activation_state r)"
  proof (cases "\<exists>e. event_call inp cond e t")
    case True
    then obtain e where e: "event_call inp cond e t" by blast
    from assms [unfolded verify_event [OF e]] obtain xs where "decide_activation cmp e (found xs) (refused_ones xs) = Inr (activation_state r)"
      by (auto simp: bindE_Inr_iff)
    then show ?thesis using three_valued_decision by blast
  next
    case False
    let ?st = "if condition_delegation_id cond \<noteq> av_delegationId inp then notEstablishedFor CONDITION_DELEGATION_MISMATCH
      else case condition_type cond of Date_condition d \<Rightarrow> (if d \<le> t then state_for V_valid ACTIVATION_ESTABLISHED
                     else state_for V_not_yet_effective CONDITION_DATE_NOT_REACHED) | _ \<Rightarrow> Inl ATTESTATION_MALFORMED"
    from False c have "three_valued ?st" by (cases "condition_type cond") (auto simp: event_call_def)
    moreover from False c assms have "?st = Inr (activation_state r)"
      by (cases "condition_type cond") (auto simp: event_call_def verifyActivation_def Let_def bindE_Inr_iff split: if_splits)
    ultimately show ?thesis by blast
  qed
  then show ?thesis by blast
qed

interpretation activation_reading: lifecycle_module "activation_input_ok C" "\<lambda>inp. bindE (verifyActivation C cmp inp) (\<lambda>r. Inr (activation_state r))" for C cmp
proof
  show "\<exists>r. bindE (verifyActivation C cmp inp) (\<lambda>r. Inr (activation_state r)) = Inr r" if "activation_input_ok C inp" for inp
    using activation_total [OF that, of cmp] by auto
  show "lifecycle_wf r" if "bindE (verifyActivation C cmp inp) (\<lambda>r. Inr (activation_state r)) = Inr r" for inp r
    using that activation_shaped by (auto simp: bindE_Inr_iff three_valued_def)
qed


text \<open>The verdict as a function of the numbers of accepted sources on each side.\<close>

lemma event_verdict:
  assumes "event_call inp cond e t" and "verifyActivation C cmp inp = Inr r"
  shows "verdict (activation_state r) =
    (if sources_for C inp cond e t Occurred_by_action > 0 \<and> sources_for C inp cond e t Not_occurred_through_action > 0 then V_not_established
     else if sources_for C inp cond e t Occurred_by_action \<ge> threshold e then V_valid
     else if sources_for C inp cond e t Not_occurred_through_action \<ge> threshold e
       \<or> sources_for C inp cond e t Occurred_after_action \<ge> threshold e then V_not_yet_effective
     else V_not_established)"
proof -
  from assms(2) [unfolded verify_event [OF assms(1)]] obtain xs where
      xs: "mapE (assess_attestation C inp cond e t) (presented_attestations inp) = Inr xs"
      and d: "decide_activation cmp e (found xs) (refused_ones xs) = Inr (activation_state r)"
    by (auto simp: bindE_Inr_iff)
  have n: "sources_for C inp cond e t k = tally k (found xs)" for k
    by (simp add: sources_for_def tally_sources [OF xs])
  have "activation_state r = projr (decide_activation cmp e (found xs) (refused_ones xs))" by (simp add: d)
  then show ?thesis unfolding n by (simp add: decide_activation_def activation_states)
qed

lemma validated_threshold: "event_call inp cond e t \<Longrightarrow> 1 \<le> threshold e"
  by (auto simp: event_call_def validateActivationCondition_def read_event_def bindE_Inr_iff le_floor_iff split: option.splits if_splits json.splits)

lemma sources_positive:
  "0 < sources_for C inp cond e t k \<longleftrightarrow> (\<exists>j \<in> set (presented_attestations inp). classify C inp cond e t j = Inr (Inr k))"
  by (auto simp: sources_for_def filter_empty_conv)

lemma activated_iff:
  assumes "event_call inp cond e t" and "verifyActivation C cmp inp = Inr r"
  shows "verdict (activation_state r) = V_valid \<longleftrightarrow>
    threshold e \<le> sources_for C inp cond e t Occurred_by_action \<and> sources_for C inp cond e t Not_occurred_through_action = 0"
proof -
  have "0 \<le> sources_for C inp cond e t k" for k by (simp add: sources_for_def)
  with event_verdict [OF assms] validated_threshold [OF assms(1)] show ?thesis by (smt (verit) LifecycleVerdict.distinct)
qed



section \<open>Order of presentation\<close>

lemma attestations_unread [simp]:
  "check_activation_call (inp\<lparr>av_attestations := x\<rparr>) = check_activation_call inp"
  "type_accepted (inp\<lparr>av_attestations := x\<rparr>) = type_accepted inp"
  "attestation_key (inp\<lparr>av_attestations := x\<rparr>) = attestation_key inp"
  "attestation_bytes C (inp\<lparr>av_attestations := x\<rparr>) = attestation_bytes C inp"
  "role_rejection (inp\<lparr>av_attestations := x\<rparr>) = role_rejection inp"
  "event_call (inp\<lparr>av_attestations := x\<rparr>) = event_call inp"
  by (simp_all add: check_activation_call_def type_accepted_def attestation_key_def attestation_bytes_def role_rejection_def
      event_call_def fun_eq_iff split: option.split)

lemma classify_unread [simp]:
  "classify C (inp\<lparr>av_attestations := x\<rparr>) = classify C inp"
  "assess_attestation C (inp\<lparr>av_attestations := x\<rparr>) = assess_attestation C inp"
proof -
  show *: "classify C (inp\<lparr>av_attestations := x\<rparr>) = classify C inp" by (intro ext) (simp only: classify_def attestations_unread)
  show "assess_attestation C (inp\<lparr>av_attestations := x\<rparr>) = assess_attestation C inp" by (intro ext) (simp only: assess_attestation_def *)
qed

lemma decide_same:
  assumes "\<And>k. tally k fs = tally k fs'" and "fs = [] \<longleftrightarrow> fs' = []" and "rejection_code ` set rs = rejection_code ` set rs'"
    and "\<forall>r \<in> set rs. 0 < REJECTION_RANK (rejection_code r)"
  shows "decide_activation cmp e fs rs = decide_activation cmp' e fs' rs'"
proof -
  have "rs = [] \<longleftrightarrow> rs' = []" using assms(3) by auto
  then show ?thesis using assms(1,2) furthest_code [OF assms(3,4), of cmp cmp'] by (simp add: decide_activation_def)
qed

lemma filter_length_mset: "mset xs = mset ys \<Longrightarrow> length (filter P xs) = length (filter P ys)"
  by (metis mset_filter size_mset)

lemma verify_not_event:
  assumes "\<not> (\<exists>e t. event_call inp cond e t)" and "validateActivationCondition (av_condition inp) = Inr cond"
  shows "verifyActivation C cmp inp = verifyActivation C cmp' (inp\<lparr>av_attestations := x\<rparr>)"
  using assms by (cases "check_activation_call inp"; cases "assertInstant (JStr (av_actionInstant inp))"; cases "condition_type cond")
    (auto simp: verifyActivation_def event_call_def Let_def)

text \<open>C30. The order in which attestations are presented carries no weight, and neither does the
  locale the tie-break compares in: any rearrangement gives the same state, reason code
  included.\<close>

theorem attestation_order_irrelevant:
  assumes "mset js = mset (presented_attestations inp)" and "verifyActivation C cmp inp = Inr r"
  shows "\<exists>r'. verifyActivation C cmp' (inp\<lparr>av_attestations := Some js\<rparr>) = Inr r' \<and> activation_state r' = activation_state r"
proof -
  from assms(2) obtain cond where cond: "validateActivationCondition (av_condition inp) = Inr cond"
    by (auto simp: verifyActivation_def bindE_Inr_iff)
  show ?thesis
  proof (cases "\<exists>e t. event_call inp cond e t")
    case True
    then obtain e t where e: "event_call inp cond e t" by blast
    let ?inp = "inp\<lparr>av_attestations := Some js\<rparr>" and ?A = "assess_attestation C inp cond e t"
    have js: "presented_attestations ?inp = js" by (simp add: presented_attestations_def)
    from assms(2) [unfolded verify_event [OF e]] obtain xs where xs: "mapE ?A (presented_attestations inp) = Inr xs"
        and d: "decide_activation cmp e (found xs) (refused_ones xs) = Inr (activation_state r)"
      by (auto simp: bindE_Inr_iff)
    have same: "set js = set (presented_attestations inp)" using assms(1) by (metis set_mset_mset)
    have "\<exists>y. ?A j = Inr y" if "j \<in> set js" for j
      using xs that unfolding same by (auto simp: mapE_Inr_iff list_all2_conv_all_nth in_set_conv_nth)
    then obtain ys where ys: "mapE ?A js = Inr ys" using mapE_total by blast
    have "decide_activation cmp' e (found ys) (refused_ones ys) = decide_activation cmp e (found xs) (refused_ones xs)"
    proof (rule decide_same)
      show "tally k (found ys) = tally k (found xs)" for k
        using filter_length_mset [OF assms(1)] by (simp add: tally_sources [OF xs] tally_sources [OF ys])
      show "found ys = [] \<longleftrightarrow> found xs = []" by (simp add: found_empty [OF xs] found_empty [OF ys] same)
      show "rejection_code ` set (refused_ones ys) = rejection_code ` set (refused_ones xs)"
        by (simp add: refused_codes [OF xs] refused_codes [OF ys] same)
      have "0 < REJECTION_RANK c" if "c \<in> rejection_code ` set (refused_ones ys)" for c
        using that classify_rank unfolding refused_codes [OF ys] by blast
      then show "\<forall>r \<in> set (refused_ones ys). 0 < REJECTION_RANK (rejection_code r)" by blast
    qed
    with ys d e show ?thesis by (simp add: verify_event [where inp = ?inp and cond = cond and e = e and t = t] js)
  next
    case False
    from verify_not_event [OF this cond, of C cmp cmp' "Some js"] assms(2) show ?thesis by metis
  qed
qed


section \<open>Later instants\<close>

lemma instant_unread [simp]:
  "check_activation_call (inp\<lparr>av_actionInstant := x\<rparr>) = check_activation_call inp"
  "presented_attestations (inp\<lparr>av_actionInstant := x\<rparr>) = presented_attestations inp"
  "type_accepted (inp\<lparr>av_actionInstant := x\<rparr>) = type_accepted inp"
  "attestation_key (inp\<lparr>av_actionInstant := x\<rparr>) = attestation_key inp"
  "attestation_bytes C (inp\<lparr>av_actionInstant := x\<rparr>) = attestation_bytes C inp"
  "role_rejection (inp\<lparr>av_actionInstant := x\<rparr>) = role_rejection inp"
  by (simp_all add: check_activation_call_def type_accepted_def attestation_key_def attestation_bytes_def role_rejection_def
      presented_attestations_def fun_eq_iff split: option.split)

lemma classify_instant [simp]: "classify C (inp\<lparr>av_actionInstant := x\<rparr>) = classify C inp"
  by (intro ext) (simp only: classify_def instant_unread)

lemma event_call_later:
  "event_call inp cond e t \<Longrightarrow> assertInstant (JStr later) = Inr t' \<Longrightarrow> event_call (inp\<lparr>av_actionInstant := later\<rparr>) cond e t'"
  by (simp add: event_call_def)

lemma filter_length_le: "(\<And>x. x \<in> set xs \<Longrightarrow> P x \<Longrightarrow> Q x) \<Longrightarrow> length (filter P xs) \<le> length (filter Q xs)"
proof (induction xs)
  case (Cons x xs)
  then have "length (filter P xs) \<le> length (filter Q xs)" and "P x \<Longrightarrow> Q x" by simp_all
  then show ?case by auto
qed simp

lemma no_members [simp]: "get_str [] k = None"
  by (simp add: get_str_def get_def)

lemma classified_object: "classify C inp cond e t j = Inr (Inr f) \<Longrightarrow> \<exists>m. own_members j = Some m"
  by (cases "own_members j") (auto simp: classify_def Let_def split: option.splits if_splits)

lemma sources_later:
  assumes "t \<le> t'"
  shows "sources_for C inp cond e t Occurred_by_action \<le> sources_for C inp cond e t' Occurred_by_action"
    and "sources_for C inp cond e t' Not_occurred_through_action \<le> sources_for C inp cond e t Not_occurred_through_action"
proof -
  have "classify C inp cond e t' j = Inr (Inr Occurred_by_action)" if "classify C inp cond e t j = Inr (Inr Occurred_by_action)" for j
    using that assms classified_object [OF that] by (auto simp: classify_finding read_assertion_by)
  then show "sources_for C inp cond e t Occurred_by_action \<le> sources_for C inp cond e t' Occurred_by_action"
    unfolding sources_for_def by (simp add: filter_length_le)
  have "classify C inp cond e t j = Inr (Inr Not_occurred_through_action)" if "classify C inp cond e t' j = Inr (Inr Not_occurred_through_action)" for j
    using that assms classified_object [OF that] by (auto simp: classify_finding read_assertion_not)
  then show "sources_for C inp cond e t' Not_occurred_through_action \<le> sources_for C inp cond e t Not_occurred_through_action"
    unfolding sources_for_def by (simp add: filter_length_le)
qed

lemma verify_total_later:
  assumes "event_call inp cond e t" and "verifyActivation C cmp inp = Inr r" and "event_call inp' cond e t'"
    and "presented_attestations inp' = presented_attestations inp" and "classify C inp' = classify C inp"
  shows "\<exists>r'. verifyActivation C cmp inp' = Inr r'"
proof -
  have "\<exists>y. assess_attestation C inp' cond e t' j = Inr y" if "j \<in> set (presented_attestations inp)" for j
  proof -
    have "\<exists>y. assess_attestation C inp cond e t j = Inr y"
      using assms(2) [unfolded verify_event [OF assms(1)]] that
      by (auto simp: bindE_Inr_iff mapE_Inr_iff list_all2_conv_all_nth in_set_conv_nth)
    then obtain c where "own_members j \<noteq> None" "classify C inp cond e t j = Inr c" by (auto simp: assess_attestation_def bindE_Inr_iff split: option.splits)
    moreover from this(2) obtain c' where "classify C inp cond e t' j = Inr c'"
      using classify_error_later [of C inp cond e t' j _ t] by (cases "classify C inp cond e t' j") auto
    ultimately show ?thesis using attestation_assessed [of j C inp' cond e t' c'] assms(5) by simp
  qed
  then obtain ys where "mapE (assess_attestation C inp' cond e t') (presented_attestations inp') = Inr ys" using mapE_total assms(4) by metis
  then show ?thesis using decide_states [of cmp e "found ys" "refused_ones ys"] by (auto simp: verify_event [OF assms(3)])
qed

text \<open>Activation is permanent under the same evidence: once the condition is established at
  one instant, the same records establish it at every later instant.\<close>

theorem activation_persists:
  assumes "verifyActivation C cmp inp = Inr r" and "verdict (activation_state r) = V_valid"
    and "assertInstant (JStr (av_actionInstant inp)) = Inr t" and "assertInstant (JStr later) = Inr t'" and "t \<le> t'"
  shows "\<exists>r'. verifyActivation C cmp (inp\<lparr>av_actionInstant := later\<rparr>) = Inr r' \<and> verdict (activation_state r') = V_valid"
proof -
  let ?inp = "inp\<lparr>av_actionInstant := later\<rparr>"
  from assms(1) obtain cond where c: "check_activation_call inp = Inr ()" "validateActivationCondition (av_condition inp) = Inr cond"
    by (auto simp: verifyActivation_def bindE_Inr_iff)
  show ?thesis
  proof (cases "\<exists>e. event_call inp cond e t")
    case True
    then obtain e where e: "event_call inp cond e t" by blast
    have e': "event_call ?inp cond e t'" by (rule event_call_later [OF e assms(4)])
    obtain r' where r': "verifyActivation C cmp ?inp = Inr r'" using verify_total_later [OF e assms(1) e'] by auto
    have same: "sources_for C ?inp cond e t' = sources_for C inp cond e t'" by (simp add: sources_for_def fun_eq_iff)
    have "0 \<le> sources_for C inp cond e t' Not_occurred_through_action" by (simp add: sources_for_def)
    with activated_iff [OF e assms(1)] activated_iff [OF e' r'] same sources_later [OF assms(5), of C inp cond e] assms(2) r'
    show ?thesis by force
  next
    case False
    with assms c show ?thesis
      by (cases "condition_type cond") (auto simp: verifyActivation_def event_call_def Let_def activation_states split: if_splits)
  qed
qed


section \<open>Beside the chain\<close>

text \<open>Activation is reported beside the chain and never over it: the composite is valid exactly
  when the chain verified and, where an activation was evaluated, it was established; the
  chain's own result is returned unchanged.\<close>

theorem activation_never_upgrades_a_chain:
  "\<exists>l. composeActivation mapping chn act = Inr (chn, l)
     \<and> (verdict l = V_valid \<longleftrightarrow> state chn = State_valid \<and> (case act of None \<Rightarrow> True | Some a \<Rightarrow> verdict (activation_state a) = V_valid))"
  using chain_view_valid [of mapping chn] by (auto simp: composeActivation_def split: option.split)

section \<open>Repeated evidence\<close>

lemma replicated_sources:
  assumes "classify C inp cond e t j = Inr (Inr f)"
  shows "sources_for C (inp\<lparr>av_attestations := Some (replicate n j)\<rparr>) cond e t k = (if k = f then int n else 0)"
  using assms by (simp add: sources_for_def presented_attestations_def filter_replicate)

text \<open>The threshold counts presented records, not sources: one accepted attestation, presented as
  many times as the condition asks for attestations, establishes the condition.\<close>

theorem repeated_attestation_meets_threshold:
  assumes "event_call inp cond e t" and "classify C inp cond e t j = Inr (Inr Occurred_by_action)"
  shows "\<exists>r. verifyActivation C cmp (inp\<lparr>av_attestations := Some (replicate (nat (threshold e)) j)\<rparr>) = Inr r
    \<and> verdict (activation_state r) = V_valid"
proof -
  let ?inp = "inp\<lparr>av_attestations := Some (replicate (nat (threshold e)) j)\<rparr>"
  have e': "event_call ?inp cond e t" using assms(1) by simp
  have "\<exists>y. assess_attestation C ?inp cond e t i = Inr y" if "i \<in> set (presented_attestations ?inp)" for i
    using that assms(2) classified_object [OF assms(2)] attestation_assessed [of j C inp cond e t]
    by (auto simp: presented_attestations_def split: if_splits)
  then obtain ys where "mapE (assess_attestation C ?inp cond e t) (presented_attestations ?inp) = Inr ys" using mapE_total by blast
  then obtain r where r: "verifyActivation C cmp ?inp = Inr r"
    using decide_states [of cmp e "found ys" "refused_ones ys"] by (auto simp: verify_event [OF e'])
  with activated_iff [OF e' r] replicated_sources [OF assms(2)] validated_threshold [OF assms(1)] show ?thesis by simp
qed

section \<open>Concrete records\<close>

definition sample_event :: RecordedEventActivationConditionV0 where
  "sample_event = \<lparr>event_type = ''audit'', event_id = ''audit-7'', required_attestor_roles = [''auditor''], threshold = 2,
     instant_basis = Condition_occurrence\<rparr>"

definition sample_condition :: ActivationConditionV0 where
  "sample_condition = \<lparr>condition_id = ''cond-1'', condition_delegation_id = ''grant-1'', condition_type = Recorded_event_condition sample_event\<rparr>"

definition sample_condition_record :: json where
  "sample_condition_record = JObj [(''record_type'', JStr ACTIVATION_CONDITION_TYPE), (''condition_id'', JStr ''cond-1''),
     (''delegation_id'', JStr ''grant-1''), (''condition_type'', JStr ''recorded_event''), (''event_type'', JStr ''audit''),
     (''event_id'', JStr ''audit-7''), (''required_attestor_roles'', JArr [JStr ''auditor'']), (''threshold'', JNum 2),
     (''instant_basis'', JStr ''condition_occurrence'')]"

definition sample_attested :: "string \<Rightarrow> string \<Rightarrow> json" where
  "sample_attested who occurred = JObj [(''record_type'', JStr ACTIVATION_ATTESTATION_TYPE), (''attestation_id'', JStr who),
     (''attestor'', JStr who), (''verification_method'', JStr (who @ ''#key'')), (''attested_at'', JStr ''2026-03-01T00:00:00.000Z''),
     (''condition_id'', JStr ''cond-1''), (''event_type'', JStr ''audit''), (''event_id'', JStr ''audit-7''),
     (''assertion'', JStr ''condition_occurred''), (''occurred_at'', JStr occurred), (''signature'', JStr (sample_sign [] sample_key))]"

definition sample_activation :: "json list \<Rightarrow> ActivationVerificationInput" where
  "sample_activation js = \<lparr>av_condition = sample_condition_record, av_delegationId = ''grant-1'', av_actionInstant = ''2026-03-02T00:00:00.000Z'',
     av_attestations = Some js, av_roles = Some (\<lambda>_ _ _. ''holds''), av_keys = Some (\<lambda>_ _ _. Key sample_key),
     attestationPreimage = None, acceptedAttestationRecordTypes = None\<rparr>"

lemma sample_condition_read: "validateActivationCondition sample_condition_record = Inr sample_condition"
  by code_simp

lemma sample_action: "assertInstant (JStr ''2026-03-02T00:00:00.000Z'') = Inr 1772409600000"
  "assertInstant (JStr ''2026-03-03T00:00:00.000Z'') = Inr 1772496000000"
  by code_simp+

lemma sample_event_call: "event_call (sample_activation js) sample_condition sample_event 1772409600000"
  by (simp add: event_call_def sample_activation_def sample_condition_read sample_action check_activation_call_def)
    (simp add: sample_condition_def)

lemma sample_classified:
  "classify sample_crypto (sample_activation js) sample_condition sample_event 1772409600000 (sample_attested ''did:aps:b'' ''2026-03-01T12:00:00.000Z'')
     = Inr (Inr Occurred_by_action)"
  "classify sample_crypto (sample_activation js) sample_condition sample_event 1772409600000 (sample_attested ''did:aps:a'' ''2026-02-01T12:00:00.000Z'')
     = Inr (Inr Occurred_by_action)"
  by code_simp+


definition sample_pair :: "json list" where
  "sample_pair = [sample_attested ''did:aps:a'' ''2026-02-01T12:00:00.000Z'', sample_attested ''did:aps:b'' ''2026-03-01T12:00:00.000Z'']"

lemma sample_established:
  "\<exists>r. verifyActivation sample_crypto cmp (sample_activation sample_pair) = Inr r \<and> verdict (activation_state r) = V_valid"
proof -
  let ?C = sample_crypto and ?inp = "sample_activation sample_pair" and ?t = "1772409600000 :: int"
  have ps: "presented_attestations ?inp = sample_pair" by (simp add: presented_attestations_def sample_activation_def)
  have ok: "classify ?C ?inp sample_condition sample_event ?t j = Inr (Inr Occurred_by_action)" if "j \<in> set sample_pair" for j
    using that by (auto simp: sample_pair_def sample_classified)
  then have "\<exists>y. assess_attestation ?C ?inp sample_condition sample_event ?t j = Inr y" if "j \<in> set sample_pair" for j
    using that classified_object attestation_assessed by (metis option.distinct(1))
  then obtain ys where "mapE (assess_attestation ?C ?inp sample_condition sample_event ?t) (presented_attestations ?inp) = Inr ys"
    unfolding ps using mapE_total by blast
  then obtain r where r: "verifyActivation ?C cmp ?inp = Inr r"
    using decide_states [of cmp sample_event "found ys" "refused_ones ys"] by (auto simp: verify_event [OF sample_event_call])
  have "sources_for ?C ?inp sample_condition sample_event ?t Occurred_by_action = 2"
    "sources_for ?C ?inp sample_condition sample_event ?t Not_occurred_through_action = 0"
    unfolding sources_for_def ps by (simp_all add: ok cong: filter_cong) (simp add: sample_pair_def)
  with activated_iff [OF sample_event_call r] r show ?thesis by (simp add: sample_event_def)
qed


theorem attestation_order_irrelevant_witness:
  "\<exists>r. verifyActivation sample_crypto (\<lambda>_ _. 1) ((sample_activation sample_pair)\<lparr>av_attestations := Some (rev sample_pair)\<rparr>) = Inr r
     \<and> verdict (activation_state r) = V_valid"
proof -
  obtain r where r: "verifyActivation sample_crypto (\<lambda>_ _. 0) (sample_activation sample_pair) = Inr r" "verdict (activation_state r) = V_valid"
    using sample_established by blast
  have "mset (rev sample_pair) = mset (presented_attestations (sample_activation sample_pair))"
    by (simp add: presented_attestations_def sample_activation_def)
  from attestation_order_irrelevant [OF this r(1), of "\<lambda>_ _. 1"] r(2) show ?thesis by auto
qed

theorem activation_persists_witness:
  "\<exists>r. verifyActivation sample_crypto (\<lambda>_ _. 0) ((sample_activation sample_pair)\<lparr>av_actionInstant := ''2026-03-03T00:00:00.000Z''\<rparr>) = Inr r
     \<and> verdict (activation_state r) = V_valid"
proof -
  obtain r where r: "verifyActivation sample_crypto (\<lambda>_ _. 0) (sample_activation sample_pair) = Inr r" "verdict (activation_state r) = V_valid"
    using sample_established by blast
  have "assertInstant (JStr (av_actionInstant (sample_activation sample_pair))) = Inr 1772409600000"
    by (simp add: sample_activation_def sample_action)
  from activation_persists [OF r this sample_action(2)] show ?thesis by simp
qed

theorem repeated_attestation_meets_threshold_witness:
  "\<exists>r. verifyActivation sample_crypto (\<lambda>_ _. 0) ((sample_activation [])\<lparr>av_attestations :=
       Some [sample_attested ''did:aps:a'' ''2026-02-01T12:00:00.000Z'', sample_attested ''did:aps:a'' ''2026-02-01T12:00:00.000Z'']\<rparr>) = Inr r
     \<and> verdict (activation_state r) = V_valid"
  using repeated_attestation_meets_threshold [OF sample_event_call sample_classified(2), of "\<lambda>_ _. 0" "[]"]
  by (simp add: sample_event_def numeral_2_eq_2)

end
