(* ===== verification/Reversibility_Fold.thy ===== *)
theory Reversibility_Fold
  imports Authority_System "HOL-Library.Multiset"
begin

text \<open>
  \<^verbatim>\<open>src/core/reversibility-fold.ts\<close>: the class of an effect recomputed from raw facts under a
  registered mapping profile, the execution and reconciliation stages of a receipt, and the
  lineage of the states of an effect.

  A string-literal type that the code tests at run time is a \<open>string\<close>.  SHA-256 and the
  signature functions are those of \<open>crypto\<close>; its base64url digest is an argument.
\<close>

section \<open>Classes\<close>

datatype RealizedClass = Tentative | Compensable | Irreversible | Unresolved

fun realized_name :: "RealizedClass \<Rightarrow> string" where
  "realized_name Tentative = ''tentative''"
| "realized_name Compensable = ''compensable''"
| "realized_name Irreversible = ''irreversible''"
| "realized_name Unresolved = ''unresolved''"

datatype EnforcementClass = Enforce_tentative | Enforce_compensable | Enforce_irreversible

fun enforcement_name :: "EnforcementClass \<Rightarrow> string" where
  "enforcement_name Enforce_tentative = ''tentative''"
| "enforcement_name Enforce_compensable = ''compensable''"
| "enforcement_name Enforce_irreversible = ''irreversible''"

fun enforcementFrom :: "RealizedClass \<Rightarrow> EnforcementClass" where
  "enforcementFrom Unresolved = Enforce_irreversible"
| "enforcementFrom Irreversible = Enforce_irreversible"
| "enforcementFrom Compensable = Enforce_compensable"
| "enforcementFrom Tentative = Enforce_tentative"

section \<open>Mapping profiles\<close>

record EffectFacts =
  externality :: "string option"
  actingPrincipal :: "string option"
  recoveryController :: "string option"
  reversalRight :: "string option"
  finalityState :: "string option"
  targetBindingVerified :: "bool option"
  recoveryMechanismRef :: "string option"

datatype ReasonCode =
    RM_V0_UNBOUND | RM_V0_INTERNAL_DEFINITIVE | RM_V0_INTERNAL_UPPER_BOUND
  | RM_V0_EXTERNAL_DEFINITIVE | RM_V0_EXTERNAL_UPPER_BOUND

record ClassificationResult =
  realized :: RealizedClass
  upper_bound :: bool
  reason :: ReasonCode

record ClassificationProfile =
  profile_id :: string
  classify_facts :: "EffectFacts \<Rightarrow> ClassificationResult"

definition REVERSIBILITY_MAPPING_V0_ID :: string where
  "REVERSIBILITY_MAPPING_V0_ID = ''reversibility-mapping-v0''"

definition definitive :: "EffectFacts \<Rightarrow> bool" where
  "definitive f \<longleftrightarrow> finalityState f = Some ''settled'' \<and> targetBindingVerified f = Some True"

definition classifyV0 :: "EffectFacts \<Rightarrow> ClassificationResult" where
  "classifyV0 f =
     (case externality f of
        None \<Rightarrow> \<lparr>realized = Unresolved, upper_bound = False, reason = RM_V0_UNBOUND\<rparr>
      | Some ext \<Rightarrow>
          if ext = ''external-irreversible'' \<or> ext = ''external-reversible'' then
            (if definitive f then \<lparr>realized = Irreversible, upper_bound = False, reason = RM_V0_EXTERNAL_DEFINITIVE\<rparr>
             else \<lparr>realized = Irreversible, upper_bound = True, reason = RM_V0_EXTERNAL_UPPER_BOUND\<rparr>)
          else if ext = ''internal'' then
            (if definitive f then \<lparr>realized = Irreversible, upper_bound = False, reason = RM_V0_INTERNAL_DEFINITIVE\<rparr>
             else \<lparr>realized = Irreversible, upper_bound = True, reason = RM_V0_INTERNAL_UPPER_BOUND\<rparr>)
          else \<lparr>realized = Unresolved, upper_bound = False, reason = RM_V0_UNBOUND\<rparr>)"

definition reversibilityMappingV0 :: ClassificationProfile where
  "reversibilityMappingV0 = \<lparr>profile_id = REVERSIBILITY_MAPPING_V0_ID, classify_facts = classifyV0\<rparr>"

definition profile_rule :: "string \<Rightarrow> string \<Rightarrow> string \<Rightarrow> bool \<Rightarrow> string \<Rightarrow> json" where
  "profile_rule i w r ub c = JObj ([(''id'', JStr i), (''when'', JStr w), (''realized'', JStr r)]
     @ (if ub then [(''label'', JStr ''upper_bound'')] else []) @ [(''reason'', JStr c)])"

definition REVERSIBILITY_PROFILE_V0_CONTENT :: json where
  "REVERSIBILITY_PROFILE_V0_CONTENT = JObj
     [(''profile_id'', JStr REVERSIBILITY_MAPPING_V0_ID),
      (''input_fields'', JArr [JStr ''externality'', JStr ''finality_state'', JStr ''target_binding_verified'']),
      (''externality_values'', JArr [JStr ''internal'', JStr ''external-reversible'', JStr ''external-irreversible'']),
      (''finality_values'', JArr [JStr ''settled'', JStr ''pending'', JStr ''expired'', JStr ''contradicted'']),
      (''external_compensable'', JBool False), (''internal_compensable'', JBool False),
      (''rules'', JArr
        [profile_rule ''unbound'' ''externality_absent'' ''unresolved'' False ''RM_V0_UNBOUND'',
         profile_rule ''external_definitive'' ''externality_external AND finality_settled AND target_binding_verified''
           ''irreversible'' False ''RM_V0_EXTERNAL_DEFINITIVE'',
         profile_rule ''external_upper_bound'' ''externality_external AND NOT(finality_settled AND target_binding_verified)''
           ''irreversible'' True ''RM_V0_EXTERNAL_UPPER_BOUND'',
         profile_rule ''internal_definitive'' ''externality_internal AND finality_settled AND target_binding_verified''
           ''irreversible'' False ''RM_V0_INTERNAL_DEFINITIVE'',
         profile_rule ''internal_upper_bound'' ''externality_internal AND NOT(finality_settled AND target_binding_verified)''
           ''irreversible'' True ''RM_V0_INTERNAL_UPPER_BOUND'']),
      (''reason_codes'', JArr [JStr ''RM_V0_UNBOUND'', JStr ''RM_V0_EXTERNAL_DEFINITIVE'', JStr ''RM_V0_EXTERNAL_UPPER_BOUND'',
         JStr ''RM_V0_INTERNAL_DEFINITIVE'', JStr ''RM_V0_INTERNAL_UPPER_BOUND'']),
      (''time_semantics'', JObj [(''clock_skew_ms'', JNum 0), (''finality_source'', JStr ''bound_input''),
         (''target_binding_source'', JStr ''verifier_supplied'')]),
      (''schema_version'', JStr ''v0'')]"

text \<open>The bytes under a digest: a tag, a zero byte, the canonical form.  None of the digested
  values of this module holds a marker, so canonicalization returns.\<close>

definition domain_bytes :: "crypto \<Rightarrow> string \<Rightarrow> json \<Rightarrow> string" where
  "domain_bytes C tag j = tag @ [CHR 0x00] @ canonicalizeValue (format_number C) j"

definition profileContentDigest :: "crypto \<Rightarrow> json \<Rightarrow> string" where
  "profileContentDigest C content = ''sha256:'' @ sha256Hex C (domain_bytes C ''APS-REVERSIBILITY-PROFILE-V0'' content)"

definition REVERSIBILITY_MAPPING_V0_DIGEST :: "crypto \<Rightarrow> string" where
  "REVERSIBILITY_MAPPING_V0_DIGEST C = profileContentDigest C REVERSIBILITY_PROFILE_V0_CONTENT"

record RegisteredProfile =
  rp_profile :: ClassificationProfile
  rp_content :: json
  rp_digest :: string
  rp_display_name :: string
  rp_description :: string

definition PROFILE_REGISTRY :: "crypto \<Rightarrow> (string \<times> RegisteredProfile) list" where
  "PROFILE_REGISTRY C = [(REVERSIBILITY_MAPPING_V0_ID,
     \<lparr>rp_profile = reversibilityMappingV0, rp_content = REVERSIBILITY_PROFILE_V0_CONTENT, rp_digest = REVERSIBILITY_MAPPING_V0_DIGEST C,
      rp_display_name = ''Reversibility mapping v0'',
      rp_description = ''Fail-closed v0 classifier: internal and external both resolve to irreversible; no compensable outcome, since verified recovery evidence is deferred.''\<rparr>)]"

definition getRegisteredProfile :: "crypto \<Rightarrow> string \<Rightarrow> RegisteredProfile option" where
  "getRegisteredProfile C i = map_of (PROFILE_REGISTRY C) i"

definition getClassificationProfile :: "crypto \<Rightarrow> string \<Rightarrow> ClassificationProfile option" where
  "getClassificationProfile C i = map_option rp_profile (map_of (PROFILE_REGISTRY C) i)"

definition getProfileDigest :: "crypto \<Rightarrow> string \<Rightarrow> string option" where
  "getProfileDigest C i = map_option rp_digest (map_of (PROFILE_REGISTRY C) i)"

definition registeredProfileIds :: "crypto \<Rightarrow> string list" where
  "registeredProfileIds C = map fst (PROFILE_REGISTRY C)"

datatype ProfileBindingCheck =
    Profile_bound string
  | Unknown_profile string
  | Digest_mismatch string string string

definition verifyProfileBinding :: "crypto \<Rightarrow> string \<Rightarrow> string \<Rightarrow> ProfileBindingCheck" where
  "verifyProfileBinding C i declared =
     (case map_of (PROFILE_REGISTRY C) i of
        None \<Rightarrow> Unknown_profile i
      | Some r \<Rightarrow> if declared \<noteq> rp_digest r then Digest_mismatch i declared (rp_digest r) else Profile_bound (rp_digest r))"

section \<open>Effect elements and their recomputed class\<close>

record EffectInstantiationElement =
  effect_scope :: string
  effect_target_ref :: string
  finality_state :: string
  recovery_mechanism_ref :: "string option"
  recovery_controller :: "string option"
  recovery_deadline :: "string option"
  evidence_status :: string
  classification_profile_id :: string
  classification_profile_digest :: string
  action_ref :: string
  action_instance_id :: string
  effect_id :: string
  predecessor_effect_state_hash :: "string option"
  sequence :: rat
  asserted_realized_class :: "string option"

type_synonym EffectInstantiationBlock = "EffectInstantiationElement list"

definition rapvExternalityToEffectFacts :: "string option \<Rightarrow> string option" where
  "rapvExternalityToEffectFacts x =
     (case x of None \<Rightarrow> None
      | Some v \<Rightarrow> if v = ''none'' then None else if v = ''internal'' then Some ''internal'' else Some ''external-irreversible'')"

datatype RecomputeOutcome =
    Recomputed string ClassificationResult
  | Recompute_unknown_profile string
  | Recompute_digest_mismatch string string string

definition deriveExternality :: "EffectInstantiationElement \<Rightarrow> string" where
  "deriveExternality el = (if effect_scope el = ''internal'' then ''internal'' else ''external-irreversible'')"

definition effectFactsFromElement :: "EffectInstantiationElement \<Rightarrow> bool option \<Rightarrow> EffectFacts" where
  "effectFactsFromElement el opts =
     \<lparr>externality = Some (deriveExternality el), actingPrincipal = None, recoveryController = recovery_controller el,
      reversalRight = None, finalityState = Some (finality_state el), targetBindingVerified = Some (opts = Some True),
      recoveryMechanismRef = recovery_mechanism_ref el\<rparr>"

definition recomputeEffect :: "crypto \<Rightarrow> EffectInstantiationElement \<Rightarrow> bool option \<Rightarrow> RecomputeOutcome" where
  "recomputeEffect C el opts =
     (case getRegisteredProfile C (classification_profile_id el) of
        None \<Rightarrow> Recompute_unknown_profile (classification_profile_id el)
      | Some r \<Rightarrow>
          if classification_profile_digest el \<noteq> rp_digest r
          then Recompute_digest_mismatch (classification_profile_id el) (classification_profile_digest el) (rp_digest r)
          else Recomputed (classification_profile_id el) (classify_facts (rp_profile r) (effectFactsFromElement el opts)))"

definition recomputeBlock :: "crypto \<Rightarrow> EffectInstantiationBlock \<Rightarrow> bool option \<Rightarrow> RecomputeOutcome list" where
  "recomputeBlock C b opts = map (\<lambda>e. recomputeEffect C e opts) b"

datatype AssertedClassCheck =
    Asserted_ok ClassificationResult
  | Asserted_mismatch string RealizedClass
  | Asserted_unknown_profile string
  | Asserted_digest_mismatch string string string

definition verifyAssertedClass :: "crypto \<Rightarrow> EffectInstantiationElement \<Rightarrow> bool option \<Rightarrow> AssertedClassCheck" where
  "verifyAssertedClass C el opts =
     (case recomputeEffect C el opts of
        Recompute_unknown_profile i \<Rightarrow> Asserted_unknown_profile i
      | Recompute_digest_mismatch i d x \<Rightarrow> Asserted_digest_mismatch i d x
      | Recomputed i r \<Rightarrow>
          (case asserted_realized_class el of
             None \<Rightarrow> Asserted_ok r
           | Some a \<Rightarrow> if a \<noteq> realized_name (realized r) then Asserted_mismatch a (realized r) else Asserted_ok r))"


section \<open>Execution and reconciliation stages\<close>

record ExecutionStageReceipt =
  ex_stage :: string
  ex_action_ref :: string
  ex_run_id :: string
  ex_effects :: EffectInstantiationBlock
  ex_evidence_status :: string
  admitted_enforcement_class :: EnforcementClass
  ex_created_at :: string

record ReconciliationBody =
  rc_stage :: string
  rc_execution_receipt_hash :: string
  rc_action_ref :: string
  rc_realized_class :: RealizedClass
  rc_evidence_status :: string
  rc_reconciled_at :: string

record ReconciliationStageReceipt = ReconciliationBody +
  rc_public_key :: string
  rc_signature :: string

definition nullable :: "string option \<Rightarrow> json" where
  "nullable v = (case v of None \<Rightarrow> JNull | Some s \<Rightarrow> JStr s)"

definition optional_entry :: "string \<Rightarrow> string option \<Rightarrow> (string \<times> json) list" where
  "optional_entry k v = (case v of None \<Rightarrow> [] | Some s \<Rightarrow> [(k, JStr s)])"

text \<open>The element and the receipts as the objects the emitter walks: a nullable member is
  present with the value null.\<close>

definition json_of_element :: "EffectInstantiationElement \<Rightarrow> json" where
  "json_of_element el = JObj
     ([(''effect_scope'', JStr (effect_scope el)), (''effect_target_ref'', JStr (effect_target_ref el)),
       (''finality_state'', JStr (finality_state el)), (''recovery_mechanism_ref'', nullable (recovery_mechanism_ref el)),
       (''recovery_controller'', nullable (recovery_controller el)), (''recovery_deadline'', nullable (recovery_deadline el)),
       (''evidence_status'', JStr (evidence_status el)), (''classification_profile_id'', JStr (classification_profile_id el)),
       (''classification_profile_digest'', JStr (classification_profile_digest el)), (''action_ref'', JStr (action_ref el)),
       (''action_instance_id'', JStr (action_instance_id el)), (''effect_id'', JStr (effect_id el)),
       (''predecessor_effect_state_hash'', nullable (predecessor_effect_state_hash el)), (''sequence'', JNum (sequence el))]
      @ optional_entry ''asserted_realized_class'' (asserted_realized_class el))"

definition json_of_execution :: "ExecutionStageReceipt \<Rightarrow> json" where
  "json_of_execution x = JObj
     [(''stage'', JStr (ex_stage x)), (''action_ref'', JStr (ex_action_ref x)), (''run_id'', JStr (ex_run_id x)),
      (''effect_instantiation'', JObj [(''instantiated_effects'', JArr (map json_of_element (ex_effects x)))]),
      (''evidence_status'', JStr (ex_evidence_status x)),
      (''admitted_enforcement_class'', JStr (enforcement_name (admitted_enforcement_class x))),
      (''created_at'', JStr (ex_created_at x))]"

definition json_of_reconciliation :: "'a ReconciliationBody_scheme \<Rightarrow> json" where
  "json_of_reconciliation b = JObj
     [(''stage'', JStr (rc_stage b)), (''execution_receipt_hash'', JStr (rc_execution_receipt_hash b)),
      (''action_ref'', JStr (rc_action_ref b)), (''realized_class'', JStr (realized_name (rc_realized_class b))),
      (''evidence_status'', JStr (rc_evidence_status b)), (''reconciled_at'', JStr (rc_reconciled_at b))]"

definition hashExecutionReceipt :: "crypto \<Rightarrow> ExecutionStageReceipt \<Rightarrow> string" where
  "hashExecutionReceipt C x = ''sha256:'' @ sha256Hex C (canonicalizeValue (format_number C) (json_of_execution x))"

definition hashExecutionReceiptForWrite :: "crypto \<Rightarrow> ExecutionStageReceipt \<Rightarrow> (jcs_error, string) result" where
  "hashExecutionReceiptForWrite C x =
     bindE (canonicalizeJCSForWrite (format_number C) (json_of_execution x)) (\<lambda>s. Inr (''sha256:'' @ sha256Hex C s))"

record CreateReconciliationInput =
  cr_realized_class :: RealizedClass
  cr_evidence_status :: string
  cr_reconciled_at :: string
  signerPrivateKey :: string
  signerPublicKey :: string

definition createReconciliationReceipt :: "crypto \<Rightarrow> ExecutionStageReceipt \<Rightarrow> CreateReconciliationInput
    \<Rightarrow> (jcs_error, ReconciliationStageReceipt) result" where
  "createReconciliationReceipt C x i =
     bindE (hashExecutionReceiptForWrite C x) (\<lambda>h.
       let body = \<lparr>rc_stage = ''reconciliation'', rc_execution_receipt_hash = h, rc_action_ref = ex_action_ref x,
             rc_realized_class = cr_realized_class i, rc_evidence_status = cr_evidence_status i, rc_reconciled_at = cr_reconciled_at i\<rparr> in
       bindE (canonicalizeJCSForWrite (format_number C) (json_of_reconciliation body)) (\<lambda>bytes.
         Inr (ReconciliationBody.extend body \<lparr>rc_public_key = signerPublicKey i, rc_signature = ed25519_sign C bytes (signerPrivateKey i)\<rparr>)))"

definition MONOTONIC_RECONCILED_CLASSES :: "RealizedClass list" where
  "MONOTONIC_RECONCILED_CLASSES = [Compensable, Irreversible]"

datatype TransitionError =
    Hash_link_mismatch | Action_ref_mismatch | Reconciliation_signature_invalid | Not_pending | Non_monotonic RealizedClass

definition validateTransition :: "crypto \<Rightarrow> ExecutionStageReceipt \<Rightarrow> ReconciliationStageReceipt \<Rightarrow> TransitionError list" where
  "validateTransition C x r =
     (if rc_execution_receipt_hash r \<noteq> hashExecutionReceipt C x then [Hash_link_mismatch] else [])
     @ (if rc_action_ref r \<noteq> ex_action_ref x then [Action_ref_mismatch] else [])
     @ (if \<not> ed25519_verify C (canonicalizeValue (format_number C) (json_of_reconciliation r)) (rc_signature r) (rc_public_key r)
        then [Reconciliation_signature_invalid] else [])
     @ (if ex_evidence_status x \<noteq> ''pending'' then [Not_pending] else [])
     @ (if rc_realized_class r \<notin> set MONOTONIC_RECONCILED_CLASSES then [Non_monotonic (rc_realized_class r)] else [])"

definition admittedEnforcementClass :: "ExecutionStageReceipt \<Rightarrow> EnforcementClass" where
  "admittedEnforcementClass x = admitted_enforcement_class x"

section \<open>Lineage\<close>

definition effectStatePreimage :: "EffectInstantiationElement \<Rightarrow> json" where
  "effectStatePreimage el = JObj
     ([(''effect_scope'', JStr (effect_scope el)), (''effect_target_ref'', JStr (effect_target_ref el)),
       (''finality_state'', JStr (finality_state el)), (''evidence_status'', JStr (evidence_status el)),
       (''classification_profile_id'', JStr (classification_profile_id el)),
       (''classification_profile_digest'', JStr (classification_profile_digest el)), (''action_ref'', JStr (action_ref el)),
       (''action_instance_id'', JStr (action_instance_id el)), (''effect_id'', JStr (effect_id el)), (''sequence'', JNum (sequence el))]
      @ optional_entry ''recovery_mechanism_ref'' (recovery_mechanism_ref el)
      @ optional_entry ''recovery_controller'' (recovery_controller el)
      @ optional_entry ''recovery_deadline'' (recovery_deadline el)
      @ optional_entry ''predecessor_effect_state_hash'' (predecessor_effect_state_hash el)
      @ optional_entry ''asserted_realized_class'' (asserted_realized_class el))"

definition hashEffectState :: "crypto \<Rightarrow> EffectInstantiationElement \<Rightarrow> string" where
  "hashEffectState C el = ''sha256:'' @ sha256Hex C (domain_bytes C ''APS-REVERSIBILITY-EFFECT-STATE-V0'' (effectStatePreimage el))"

definition deriveEffectId :: "crypto \<Rightarrow> (string \<Rightarrow> string) \<Rightarrow> string \<Rightarrow> string \<Rightarrow> string \<Rightarrow> string" where
  "deriveEffectId C sha256Base64url a i l = sha256Base64url (domain_bytes C ''APS-REVERSIBILITY-EFFECT-ID-V0''
     (JObj [(''action_ref'', JStr a), (''action_instance_id'', JStr i), (''local_effect_id'', JStr l)]))"

datatype LineageStatus = Lineage_ok | Lineage_incomplete | Lineage_conflicted | Equivocation | Invalid_state

text \<open>Insertion into the map of states by hash, the first state of a hash is kept; the second
  component counts the repetitions.\<close>

fun by_hash :: "crypto \<Rightarrow> EffectInstantiationElement list \<Rightarrow> (string \<times> EffectInstantiationElement) list \<Rightarrow> nat
    \<Rightarrow> (string \<times> EffectInstantiationElement) list \<times> nat" where
  "by_hash C [] seen n = (seen, n)"
| "by_hash C (s # ss) seen n =
     (let h = hashEffectState C s in
      if h \<in> fst ` set seen then by_hash C ss seen (Suc n) else by_hash C ss (seen @ [(h, s)]) n)"

text \<open>A map of counters: one entry per key, in the order of first use.\<close>

primrec count_up :: "'k \<Rightarrow> ('k \<times> nat) list \<Rightarrow> ('k \<times> nat) list" where
  "count_up k [] = [(k, 1)]"
| "count_up k (p # ps) = (if fst p = k then (k, Suc (snd p)) # ps else p # count_up k ps)"

definition counts :: "'k list \<Rightarrow> ('k \<times> nat) list" where
  "counts ks = foldl (\<lambda>m k. count_up k m) [] ks"

definition repeated :: "'k list \<Rightarrow> bool" where
  "repeated ks \<longleftrightarrow> list_ex (\<lambda>c. 1 < c) (map snd (counts ks))"

text \<open>The loops over the states in sequence order.\<close>

fun consecutive :: "nat \<Rightarrow> EffectInstantiationElement list \<Rightarrow> bool" where
  "consecutive i [] = True"
| "consecutive i (s # ss) \<longleftrightarrow> sequence s = of_nat i \<and> consecutive (Suc i) ss"

fun linked_states :: "crypto \<Rightarrow> EffectInstantiationElement list \<Rightarrow> bool" where
  "linked_states C (a # b # ss) \<longleftrightarrow> predecessor_effect_state_hash b = Some (hashEffectState C a) \<and> linked_states C (b # ss)"
| "linked_states C _ = True"

definition lineage_status :: "crypto \<Rightarrow> EffectInstantiationElement list \<Rightarrow> LineageStatus" where
  "lineage_status C unique =
     (let roots = filter (\<lambda>s. predecessor_effect_state_hash s = None) unique in
      if length roots > 1 then Equivocation
      else if roots = [] then Lineage_incomplete
      else if sequence (hd roots) \<noteq> 0 then Lineage_incomplete
      else if repeated (List.map_filter predecessor_effect_state_hash unique) then Lineage_conflicted
      else if repeated (map sequence unique) then Equivocation
      else (let ordered = sort_key sequence unique in
            if \<not> consecutive 0 ordered then Lineage_incomplete
            else if \<not> linked_states C ordered then Invalid_state
            else Lineage_ok))"

definition validateOneLineage :: "crypto \<Rightarrow> EffectInstantiationElement list \<Rightarrow> LineageStatus \<times> nat" where
  "validateOneLineage C states = (case by_hash C states [] 0 of (seen, n) \<Rightarrow> (lineage_status C (map snd seen), n))"

text \<open>The states of every effect, in the order of first use.\<close>

primrec push_state :: "EffectInstantiationElement \<Rightarrow> (string \<times> EffectInstantiationElement list) list
    \<Rightarrow> (string \<times> EffectInstantiationElement list) list" where
  "push_state el [] = [(effect_id el, [el])]"
| "push_state el (p # ps) = (if fst p = effect_id el then (fst p, snd p @ [el]) # ps else p # push_state el ps)"

definition by_effect :: "EffectInstantiationBlock \<Rightarrow> (string \<times> EffectInstantiationElement list) list" where
  "by_effect b = foldl (\<lambda>m el. push_state el m) [] b"

definition validateEffectLineage :: "crypto \<Rightarrow> EffectInstantiationBlock \<Rightarrow> LineageStatus \<times> nat" where
  "validateEffectLineage C b =
     (let results = map (\<lambda>i. validateOneLineage C (the (map_of (by_effect b) i))) (sort (map fst (by_effect b)));
          bad = filter (\<lambda>s. s \<noteq> Lineage_ok) (map fst results) in
      (case bad of [] \<Rightarrow> Lineage_ok | s # _ \<Rightarrow> s, sum_list (map snd results)))"

definition latestValidEffectStates :: "crypto \<Rightarrow> EffectInstantiationBlock \<Rightarrow> (string \<rightharpoonup> EffectInstantiationElement) option" where
  "latestValidEffectStates C b =
     (if fst (validateEffectLineage C b) \<noteq> Lineage_ok then None
      else Some (map_of (map (\<lambda>(i, ss). (i, hd (sort_key (\<lambda>s. - sequence s) ss))) (by_effect b))))"


section \<open>Counters and groups\<close>

lemma count_up_keys: "fst ` set (count_up k m) = insert k (fst ` set m)"
  by (induction m) auto

lemma count_up_positive: "(\<forall>c \<in> snd ` set m. 0 < c) \<Longrightarrow> (\<forall>c \<in> snd ` set (count_up k m). 0 < c)"
  by (induction m) auto

lemma count_up_repeats:
  "(\<forall>c \<in> snd ` set m. 0 < c) \<Longrightarrow> (\<exists>c \<in> snd ` set (count_up k m). 1 < c) \<longleftrightarrow> (\<exists>c \<in> snd ` set m. 1 < c) \<or> k \<in> fst ` set m"
  by (induction m) auto

lemma counts_snoc: "counts (ks @ [k]) = count_up k (counts ks)"
  by (simp add: counts_def)

lemma counts_inv: "fst ` set (counts ks) = set ks" "\<forall>c \<in> snd ` set (counts ks). 0 < c"
proof -
  show "fst ` set (counts ks) = set ks"
    by (induction ks rule: rev_induct) (simp_all add: counts_snoc count_up_keys, simp add: counts_def)
  show "\<forall>c \<in> snd ` set (counts ks). 0 < c"
  proof (induction ks rule: rev_induct)
    case (snoc k ks)
    show ?case unfolding counts_snoc by (rule count_up_positive [OF snoc])
  qed (simp add: counts_def)
qed

lemma repeated_iff: "repeated ks \<longleftrightarrow> \<not> distinct ks"
proof -
  have "(\<exists>c \<in> snd ` set (counts ks). 1 < c) \<longleftrightarrow> \<not> distinct ks"
  proof (induction ks rule: rev_induct)
    case (snoc k ks)
    have "(\<exists>c \<in> snd ` set (counts (ks @ [k])). 1 < c) \<longleftrightarrow> (\<exists>c \<in> snd ` set (counts ks). 1 < c) \<or> k \<in> set ks"
      unfolding counts_snoc count_up_repeats [OF counts_inv(2)] counts_inv(1) ..
    with snoc show ?case by auto
  qed (simp add: counts_def)
  then show ?thesis by (simp add: repeated_def list_ex_iff)
qed

lemma by_hash_inv:
  "by_hash C ss (map (\<lambda>s. (hashEffectState C s, s)) us) n = (seen, k) \<Longrightarrow> distinct (map (hashEffectState C) us) \<Longrightarrow>
   \<exists>vs. seen = map (\<lambda>s. (hashEffectState C s, s)) vs \<and> distinct (map (hashEffectState C) vs) \<and> set us \<subseteq> set vs
     \<and> set vs \<subseteq> set us \<union> set ss \<and> hashEffectState C ` set vs = hashEffectState C ` (set us \<union> set ss)
     \<and> k + length vs = n + length us + length ss"
proof (induction ss arbitrary: us n)
  case (Cons s ss)
  show ?case
  proof (cases "hashEffectState C s \<in> hashEffectState C ` set us")
    case True
    with Cons.prems have "by_hash C ss (map (\<lambda>s. (hashEffectState C s, s)) us) (Suc n) = (seen, k)"
      by (simp add: Let_def image_image)
    from Cons.IH [OF this Cons.prems(2)] obtain vs where "seen = map (\<lambda>s. (hashEffectState C s, s)) vs"
        "distinct (map (hashEffectState C) vs)" "set us \<subseteq> set vs" "set vs \<subseteq> set us \<union> set ss"
        "hashEffectState C ` set vs = hashEffectState C ` (set us \<union> set ss)" "k + length vs = Suc n + length us + length ss" by blast
    moreover have "hashEffectState C ` (set us \<union> set (s # ss)) = hashEffectState C ` (set us \<union> set ss)" using True by auto
    ultimately show ?thesis by (intro exI [of _ vs]) auto
  next
    case False
    with Cons.prems have "by_hash C ss (map (\<lambda>s. (hashEffectState C s, s)) (us @ [s])) n = (seen, k)"
      "distinct (map (hashEffectState C) (us @ [s]))" by (auto simp: Let_def image_image)
    from Cons.IH [OF this] show ?thesis by fastforce
  qed
qed auto

text \<open>What the de-duplication leaves.\<close>

lemma by_hash_unique:
  assumes "by_hash C states [] 0 = (seen, k)"
  shows "distinct (map (hashEffectState C) (map snd seen))" and "set (map snd seen) \<subseteq> set states"
    and "hashEffectState C ` set (map snd seen) = hashEffectState C ` set states" and "k + length seen = length states"
proof -
  from by_hash_inv [of C states "[]" 0 seen k] assms obtain vs where
    "seen = map (\<lambda>s. (hashEffectState C s, s)) vs" "distinct (map (hashEffectState C) vs)" "set vs \<subseteq> set states"
    "hashEffectState C ` set vs = hashEffectState C ` set states" "k + length vs = length states" by auto
  then show "distinct (map (hashEffectState C) (map snd seen))" "set (map snd seen) \<subseteq> set states"
    "hashEffectState C ` set (map snd seen) = hashEffectState C ` set states" "k + length seen = length states"
    by (simp_all add: image_image comp_def)
qed

lemma unique_set:
  assumes "by_hash C states [] 0 = (seen, k)" and "inj_on (hashEffectState C) (set states)"
  shows "set (map snd seen) = set states"
  using by_hash_unique(2,3) [OF assms(1)] assms(2) by (metis inj_on_image_eq_iff order_refl)

section \<open>Chains of states\<close>

definition lineage_chain :: "crypto \<Rightarrow> EffectInstantiationElement list \<Rightarrow> bool" where
  "lineage_chain C cs \<longleftrightarrow> cs \<noteq> [] \<and> predecessor_effect_state_hash (hd cs) = None \<and> consecutive 0 cs \<and> linked_states C cs"

lemma consecutive_map: "consecutive i cs \<longleftrightarrow> map sequence cs = map of_nat [i ..< i + length cs]"
  by (induction cs arbitrary: i) (auto simp: upt_rec)

lemma consecutive_keys:
  assumes "consecutive i cs"
  shows "sorted (map sequence cs)" and "distinct (map sequence cs)" and "distinct cs"
proof -
  have m: "map sequence cs = map of_nat [i ..< i + length cs]" using assms by (simp add: consecutive_map)
  show "sorted (map sequence cs)" unfolding m by (simp add: sorted_iff_nth_mono)
  show d: "distinct (map sequence cs)" unfolding m by (simp add: distinct_map inj_on_def)
  then show "distinct cs" by (simp add: distinct_map)
qed

lemma linked_nth: "linked_states C cs \<Longrightarrow> Suc i < length cs \<Longrightarrow> predecessor_effect_state_hash (cs ! Suc i) = Some (hashEffectState C (cs ! i))"
proof (induction C cs arbitrary: i rule: linked_states.induct)
  case (1 C a b ss)
  then show ?case by (cases i) auto
qed auto

lemma linked_predecessors:
  "linked_states C cs \<Longrightarrow> map predecessor_effect_state_hash (tl cs) = map (Some \<circ> hashEffectState C) (butlast cs)"
  by (induction C cs rule: linked_states.induct) auto

lemma chain_roots:
  assumes "lineage_chain C cs"
  shows "filter (\<lambda>s. predecessor_effect_state_hash s = None) cs = [hd cs]"
    and "List.map_filter predecessor_effect_state_hash cs = map (hashEffectState C) (butlast cs)"
proof -
  from assms obtain r ss where cs: "cs = r # ss" and r: "predecessor_effect_state_hash r = None" and l: "linked_states C cs"
    by (cases cs) (auto simp: lineage_chain_def)
  have p: "map predecessor_effect_state_hash ss = map (Some \<circ> hashEffectState C) (butlast cs)" using linked_predecessors [OF l] cs by simp
  then have "\<forall>s \<in> set ss. predecessor_effect_state_hash s \<noteq> None"
    by (metis (no_types, lifting) comp_apply imageE image_eqI list.set_map option.distinct(1))
  then show "filter (\<lambda>s. predecessor_effect_state_hash s = None) cs = [hd cs]" using cs r by (simp add: filter_empty_conv)
  have "List.map_filter predecessor_effect_state_hash ss = List.map_filter id (map predecessor_effect_state_hash ss)"
    by (induction ss) (simp_all add: map_filter_simps split: option.split)
  also have "\<dots> = map (hashEffectState C) (butlast cs)" unfolding p
    by (simp add: List.map_filter_def comp_def filter_True)
  finally show "List.map_filter predecessor_effect_state_hash cs = map (hashEffectState C) (butlast cs)"
    using cs r by (simp add: map_filter_simps)
qed


lemma mset_map_filter: "mset (List.map_filter f xs) = image_mset (the \<circ> f) (filter_mset (\<lambda>x. f x \<noteq> None) (mset xs))"
  by (simp add: List.map_filter_def mset_filter)

text \<open>The status as a function of the unique states in any order.\<close>

lemma at_most_one: "\<not> 1 < length xs \<Longrightarrow> xs \<noteq> [] \<Longrightarrow> \<exists>x. xs = [x]"
  by (cases xs rule: remdups_adj.cases) auto

lemma lineage_status_mset:
  assumes "mset us = mset vs"
  shows "lineage_status C us = lineage_status C vs"
proof -
  let ?R = "filter (\<lambda>s. predecessor_effect_state_hash s = None)"
  have r: "mset (?R us) = mset (?R vs)" using assms by simp
  have l: "length (?R us) = length (?R vs)" using r by (rule mset_eq_length)
  have p: "distinct (List.map_filter predecessor_effect_state_hash us) \<longleftrightarrow> distinct (List.map_filter predecessor_effect_state_hash vs)"
    using assms by (intro mset_eq_imp_distinct_iff) (simp add: mset_map_filter)
  have q: "distinct (map sequence us) \<longleftrightarrow> distinct (map sequence vs)"
    using assms by (intro mset_eq_imp_distinct_iff) simp
  have o: "sort_key sequence us = sort_key sequence vs" if "distinct (map sequence us)"
    using assms that by (intro sort_key_inj_key_eq) (simp_all add: distinct_map)
  show ?thesis
  proof (cases "\<not> 1 < length (?R us) \<and> ?R us \<noteq> []")
    case True
    then obtain x where x: "?R us = [x]" using at_most_one by blast
    have "mset (?R vs) = {#x#}" unfolding r [symmetric] x by simp
    then have y: "?R vs = [x]" by (simp only: mset_single_iff)
    show ?thesis unfolding lineage_status_def Let_def repeated_iff x y using p q o by simp
  next
    case False
    then consider "1 < length (?R us)" "1 < length (?R vs)" | "?R us = []" "?R vs = []" using l by force
    then show ?thesis unfolding lineage_status_def Let_def by cases simp_all
  qed
qed

lemma lineage_status_ok:
  assumes "distinct (map (hashEffectState C) us)"
  shows "lineage_status C us = Lineage_ok \<longleftrightarrow> lineage_chain C (sort_key sequence us)"
proof
  let ?R = "filter (\<lambda>s. predecessor_effect_state_hash s = None)" and ?o = "sort_key sequence us"
  assume ok: "lineage_status C us = Lineage_ok"
  then have one: "\<not> 1 < length (?R us)" "?R us \<noteq> []" and seq0: "sequence (hd (?R us)) = 0" and d: "distinct (map sequence us)" and c: "consecutive 0 ?o" and l: "linked_states C ?o"
    by (auto simp: lineage_status_def Let_def repeated_iff split: if_splits)
  from at_most_one [OF one] obtain r where r: "?R us = [r]" by blast
  then have "r \<in> set us" "predecessor_effect_state_hash r = None" using filter_eq_Cons_iff [of "\<lambda>s. predecessor_effect_state_hash s = None" us r "[]"] by auto
  moreover from this(1) have ne: "?o \<noteq> []" by (metis empty_iff list.set(1) set_sort)
  moreover have "hd ?o = r"
  proof -
    from c ne have "sequence (hd ?o) = 0" by (cases ?o) auto
    moreover have "hd ?o \<in> set us" using ne by (metis hd_in_set set_sort)
    ultimately show ?thesis using seq0 r d \<open>r \<in> set us\<close> by (auto simp: distinct_map inj_on_def)
  qed
  ultimately show "lineage_chain C ?o" using c l by (simp add: lineage_chain_def)
next
  let ?o = "sort_key sequence us"
  assume ch: "lineage_chain C ?o"
  then have c: "consecutive 0 ?o" "linked_states C ?o" "?o \<noteq> []" by (auto simp: lineage_chain_def)
  have "distinct (map (hashEffectState C) ?o)" using assms by (metis mset_eq_imp_distinct_iff mset_map mset_sort)
  then have "distinct (map (hashEffectState C) (butlast ?o))" by (metis distinct_butlast map_butlast)
  moreover have "sequence (hd ?o) = 0" using c by (cases ?o) auto
  moreover have "sort_key sequence ?o = ?o" using consecutive_keys(1,2) [OF c(1)] by (intro sort_key_inj_key_eq) (simp_all add: distinct_map)
  ultimately have "lineage_status C ?o = Lineage_ok"
    using chain_roots [OF ch] c consecutive_keys(2) [OF c(1)] by (simp add: lineage_status_def Let_def repeated_iff)
  then show "lineage_status C us = Lineage_ok" using lineage_status_mset [of us ?o C] by simp
qed

text \<open>One effect: a set of states is accepted exactly when it is one chain from a root.\<close>

lemma one_lineage_ok:
  assumes "inj_on (hashEffectState C) (set states)"
  shows "fst (validateOneLineage C states) = Lineage_ok \<longleftrightarrow> (\<exists>cs. lineage_chain C cs \<and> set cs = set states)"
proof -
  obtain seen n where s: "by_hash C states [] 0 = (seen, n)" by fastforce
  let ?u = "map snd seen"
  have du: "distinct (map (hashEffectState C) ?u)" by (rule by_hash_unique(1) [OF s])
  have su: "set ?u = set states" by (rule unique_set [OF s assms])
  have "lineage_chain C (sort_key sequence ?u) \<longleftrightarrow> (\<exists>cs. lineage_chain C cs \<and> set cs = set states)"
  proof
    assume "lineage_chain C (sort_key sequence ?u)"
    then show "\<exists>cs. lineage_chain C cs \<and> set cs = set states" using su by (metis set_sort)
  next
    assume "\<exists>cs. lineage_chain C cs \<and> set cs = set states"
    then obtain cs where cs: "lineage_chain C cs" "set cs = set states" by blast
    then have k: "consecutive 0 cs" by (simp add: lineage_chain_def)
    have "distinct ?u" using du by (simp only: distinct_map)
    then have "mset ?u = mset cs" using su cs(2) consecutive_keys(3) [OF k] set_eq_iff_mset_eq_distinct [of ?u cs] by simp
    moreover have "inj_on sequence (set ?u)" using consecutive_keys(2) [OF k] cs(2) su by (simp add: distinct_map)
    ultimately have "sort_key sequence ?u = cs" using consecutive_keys(1) [OF k] sort_key_inj_key_eq by blast
    with cs(1) show "lineage_chain C (sort_key sequence ?u)" by simp
  qed
  then show ?thesis using lineage_status_ok [OF du] by (simp add: validateOneLineage_def s)
qed

lemma one_lineage_mset:
  assumes "inj_on (hashEffectState C) (set xs)" and "mset xs = mset ys"
  shows "validateOneLineage C xs = validateOneLineage C ys"
proof -
  obtain u n v m where u: "by_hash C xs [] 0 = (u, n)" and v: "by_hash C ys [] 0 = (v, m)" by fastforce
  have set_eq: "set ys = set xs" using assms(2) by (metis set_mset_mset)
  have "set (map snd u) = set (map snd v)" using unique_set [OF u] unique_set [OF v] assms(1) set_eq by simp
  moreover have "distinct (map snd u)" "distinct (map snd v)"
    using by_hash_unique(1) [OF u] by_hash_unique(1) [OF v] by (simp_all only: distinct_map)
  ultimately have m: "mset (map snd u) = mset (map snd v)" by (simp only: set_eq_iff_mset_eq_distinct)
  then have "length u = length v" by (metis length_map mset_eq_length)
  then have "n = m" using by_hash_unique(4) [OF u] by_hash_unique(4) [OF v] assms(2) mset_eq_length by fastforce
  with lineage_status_mset [OF m] show ?thesis by (simp add: validateOneLineage_def u v)
qed


section \<open>Blocks of several effects\<close>

abbreviation states_of :: "EffectInstantiationBlock \<Rightarrow> string \<Rightarrow> EffectInstantiationElement list" where
  "states_of b i \<equiv> filter (\<lambda>el. effect_id el = i) b"

lemma push_state_lookup:
  "map_of (push_state el m) i = (if i = effect_id el then Some ((case map_of m i of None \<Rightarrow> [] | Some ss \<Rightarrow> ss) @ [el]) else map_of m i)"
  by (induction m) auto

lemma push_state_keys: "map fst (push_state el m) = (if effect_id el \<in> fst ` set m then map fst m else map fst m @ [effect_id el])"
  by (induction m) auto

lemma by_effect_snoc: "by_effect (b @ [el]) = push_state el (by_effect b)"
  by (simp add: by_effect_def)

lemma by_effect_keys: "set (map fst (by_effect b)) = effect_id ` set b" "distinct (map fst (by_effect b))"
proof -
  show k: "set (map fst (by_effect b)) = effect_id ` set b" for b
  proof (induction b rule: rev_induct)
    case (snoc el b)
    then show ?case unfolding by_effect_snoc push_state_keys by auto
  qed (simp add: by_effect_def)
  show "distinct (map fst (by_effect b))"
  proof (induction b rule: rev_induct)
    case (snoc el b)
    then show ?case unfolding by_effect_snoc push_state_keys by auto
  qed (simp add: by_effect_def)
qed

lemma by_effect_lookup: "map_of (by_effect b) i = (if i \<in> effect_id ` set b then Some (states_of b i) else None)"
proof (induction b rule: rev_induct)
  case (snoc el b)
  have "states_of b i = []" if "i \<notin> effect_id ` set b" using that by (auto simp: filter_empty_conv)
  with snoc show ?case unfolding by_effect_snoc push_state_lookup by auto
qed (simp add: by_effect_def)

lemma block_lineage:
  "validateEffectLineage C b =
     (let results = map (\<lambda>i. validateOneLineage C (states_of b i)) (sort (map fst (by_effect b)));
          bad = filter (\<lambda>s. s \<noteq> Lineage_ok) (map fst results) in
      (case bad of [] \<Rightarrow> Lineage_ok | s # _ \<Rightarrow> s, sum_list (map snd results)))"
proof -
  have "map (\<lambda>i. validateOneLineage C (the (map_of (by_effect b) i))) (sort (map fst (by_effect b)))
      = map (\<lambda>i. validateOneLineage C (states_of b i)) (sort (map fst (by_effect b)))"
    using by_effect_keys(1) [of b] by (intro map_cong) (auto simp: by_effect_lookup)
  then show ?thesis unfolding validateEffectLineage_def by (simp only:)
qed

lemma block_lineage_ok:
  "fst (validateEffectLineage C b) = Lineage_ok \<longleftrightarrow> (\<forall>i \<in> effect_id ` set b. fst (validateOneLineage C (states_of b i)) = Lineage_ok)"
proof -
  let ?ss = "map fst (map (\<lambda>i. validateOneLineage C (states_of b i)) (sort (map fst (by_effect b))))"
  have "fst (validateEffectLineage C b) = Lineage_ok \<longleftrightarrow> filter (\<lambda>s. s \<noteq> Lineage_ok) ?ss = []"
    unfolding block_lineage Let_def by (auto simp: filter_eq_Cons_iff split: list.split)
  also have "\<dots> \<longleftrightarrow> (\<forall>i \<in> set (map fst (by_effect b)). fst (validateOneLineage C (states_of b i)) = Lineage_ok)"
    by (auto simp: filter_empty_conv)
  finally show ?thesis unfolding by_effect_keys(1) .
qed

lemma block_keys_mset:
  assumes "mset b = mset b'"
  shows "sort (map fst (by_effect b)) = sort (map fst (by_effect b'))"
proof -
  have "set (map fst (by_effect b)) = set (map fst (by_effect b'))"
    unfolding by_effect_keys(1) using assms by (metis set_mset_mset)
  then have "mset (map fst (by_effect b)) = mset (map fst (by_effect b'))"
    using by_effect_keys(2) [of b] by_effect_keys(2) [of b'] set_eq_iff_mset_eq_distinct by blast
  then show ?thesis by (metis properties_for_sort mset_sort sorted_sort)
qed

lemma block_lineage_mset:
  assumes "inj_on (hashEffectState C) (set b)" and "mset b = mset b'"
  shows "validateEffectLineage C b = validateEffectLineage C b'"
proof -
  have "validateOneLineage C (states_of b i) = validateOneLineage C (states_of b' i)" for i
  proof (rule one_lineage_mset)
    show "inj_on (hashEffectState C) (set (states_of b i))" using assms(1) by (rule inj_on_subset) auto
    show "mset (states_of b i) = mset (states_of b' i)" using assms(2) by simp
  qed
  then show ?thesis unfolding block_lineage block_keys_mset [OF assms(2)] by simp
qed

text \<open>The first state in descending sequence order is the end of the chain.\<close>

lemma sort_key_hd: "xs \<noteq> [] \<Longrightarrow> hd (sort_key f xs) \<in> set xs \<and> (\<forall>x \<in> set xs. f (hd (sort_key f xs)) \<le> f x)"
proof (cases "sort_key f xs")
  case (Cons y ys)
  assume "xs \<noteq> []"
  have s: "sorted (map f (y # ys))" using sorted_sort_key [of f xs] Cons by simp
  have "set xs = set (y # ys)" using Cons by (metis set_sort)
  with s Cons show ?thesis by auto
qed (metis length_0_conv length_sort)

lemma chain_end:
  assumes "lineage_chain C cs" and "set cs = set ss"
  shows "hd (sort_key (\<lambda>s. - sequence s) ss) = last cs"
proof -
  let ?h = "hd (sort_key (\<lambda>s. - sequence s) ss)"
  have ne: "cs \<noteq> []" and k: "consecutive 0 cs" using assms(1) by (auto simp: lineage_chain_def)
  have m: "sequence (cs ! i) \<le> sequence (cs ! j)" if "i \<le> j" "j < length cs" for i j
    using consecutive_keys(1) [OF k] that by (simp add: sorted_iff_nth_mono)
  have top: "sequence c \<le> sequence (last cs)" if c: "c \<in> set cs" for c
  proof -
    from c obtain i where "i < length cs" "c = cs ! i" by (auto simp: in_set_conv_nth)
    then show ?thesis using m [of i "length cs - 1"] ne by (simp add: last_conv_nth)
  qed
  have "ss \<noteq> []" using ne assms(2) by auto
  then have h: "?h \<in> set cs" "\<forall>s \<in> set cs. sequence s \<le> sequence ?h"
    using sort_key_hd [of ss "\<lambda>s. - sequence s"] assms(2) by auto
  moreover have "last cs \<in> set cs" using ne by simp
  ultimately have "sequence ?h = sequence (last cs)" using top by (meson order_antisym)
  then show ?thesis using h(1) \<open>last cs \<in> set cs\<close> consecutive_keys(2) [OF k] by (auto simp: distinct_map inj_on_def)
qed


section \<open>Properties\<close>

text \<open>C31. A block of effect states is accepted exactly when the states of every effect form one chain:
  a single root at sequence zero without predecessor, consecutive sequences, and every later
  state naming the hash of the one before it.  Repetitions and the order of presentation do
  not matter; the states presented are taken to have distinct hashes.\<close>

theorem lineage_accepts_exactly_chains:
  assumes "inj_on (hashEffectState C) (set b)"
  shows "fst (validateEffectLineage C b) = Lineage_ok \<longleftrightarrow>
    (\<forall>i \<in> effect_id ` set b. \<exists>cs. lineage_chain C cs \<and> set cs = {el \<in> set b. effect_id el = i})"
proof -
  have "inj_on (hashEffectState C) (set (states_of b i))" for i using assms by (rule inj_on_subset) auto
  then show ?thesis unfolding block_lineage_ok by (simp add: one_lineage_ok)
qed

text \<open>The latest states are the ends of the chains: they are given for exactly the effects of an
  accepted block, and each is the last state of its effect's chain.\<close>

theorem latest_state_ends_its_chain:
  assumes "inj_on (hashEffectState C) (set b)" and "latestValidEffectStates C b = Some m"
  shows "dom m = effect_id ` set b
    \<and> (\<forall>i el. m i = Some el \<longrightarrow> (\<exists>cs. lineage_chain C cs \<and> set cs = {x \<in> set b. effect_id x = i} \<and> el = last cs))"
proof -
  from assms(2) have ok: "fst (validateEffectLineage C b) = Lineage_ok" and
    m: "m = map_of (map (\<lambda>(i, ss). (i, hd (sort_key (\<lambda>s. - sequence s) ss))) (by_effect b))"
    by (auto simp: latestValidEffectStates_def split: if_splits)
  have lookup: "m i = (if i \<in> effect_id ` set b then Some (hd (sort_key (\<lambda>s. - sequence s) (states_of b i))) else None)" for i
    unfolding m map_of_map by (simp add: by_effect_lookup)
  have "\<exists>cs. lineage_chain C cs \<and> set cs = {x \<in> set b. effect_id x = i} \<and> el = last cs" if "m i = Some el" for i el
  proof -
    have i: "i \<in> effect_id ` set b" and el: "el = hd (sort_key (\<lambda>s. - sequence s) (states_of b i))"
      using that lookup [of i] by (auto split: if_splits)
    have inj: "inj_on (hashEffectState C) (set (states_of b i))" using assms(1) by (rule inj_on_subset) auto
    from ok i obtain cs where cs: "lineage_chain C cs" "set cs = set (states_of b i)"
      unfolding block_lineage_ok using one_lineage_ok [OF inj] by blast
    with chain_end [OF cs] el show ?thesis by auto
  qed
  moreover have "dom m = effect_id ` set b" using lookup by (auto simp: dom_def)
  ultimately show ?thesis by blast
qed

text \<open>Every rearrangement of a block gets the same status, the same duplicate count and the same
  latest states.\<close>

theorem lineage_order_irrelevant:
  assumes "inj_on (hashEffectState C) (set b)" and "mset b = mset b'"
  shows "validateEffectLineage C b = validateEffectLineage C b' \<and> latestValidEffectStates C b = latestValidEffectStates C b'"
proof -
  have same: "validateEffectLineage C b = validateEffectLineage C b'" by (rule block_lineage_mset [OF assms])
  have set_eq: "set b = set b'" using assms(2) by (metis set_mset_mset)
  have "m = m'" if m: "latestValidEffectStates C b = Some m" and m': "latestValidEffectStates C b' = Some m'" for m m'
  proof
    fix i
    have m_i: "m i = (if i \<in> effect_id ` set b then Some (hd (sort_key (\<lambda>s. - sequence s) (states_of b i))) else None)"
      and m'_i: "m' i = (if i \<in> effect_id ` set b' then Some (hd (sort_key (\<lambda>s. - sequence s) (states_of b' i))) else None)"
      using m m' by (auto simp: latestValidEffectStates_def map_of_map by_effect_lookup split: if_splits)
    show "m i = m' i"
    proof (cases "i \<in> effect_id ` set b")
      case True
      have inj: "inj_on (hashEffectState C) (set (states_of b i))" using assms(1) by (rule inj_on_subset) auto
      from m have "fst (validateEffectLineage C b) = Lineage_ok" by (auto simp: latestValidEffectStates_def split: if_splits)
      with True obtain cs where cs: "lineage_chain C cs" "set cs = set (states_of b i)"
        unfolding block_lineage_ok using one_lineage_ok [OF inj] by blast
      moreover from this(2) have "set cs = set (states_of b' i)" by (simp add: set_eq)
      ultimately show ?thesis using True m_i m'_i chain_end set_eq by simp
    qed (use m_i m'_i set_eq in simp)
  qed
  with same show ?thesis unfolding latestValidEffectStates_def by (auto split: if_splits)
qed

text \<open>The profile never grants compensability: a recomputed effect is irreversible whatever the
  element declares, it is an upper bound unless finality is settled and the verifier itself
  checked the binding, and only the registered profile with the registered content is
  recomputed at all.\<close>

theorem recompute_is_irreversible:
  assumes "recomputeEffect C el opts = Recomputed i r"
  shows "verifyProfileBinding C (classification_profile_id el) (classification_profile_digest el) = Profile_bound (REVERSIBILITY_MAPPING_V0_DIGEST C)
    \<and> realized r = Irreversible \<and> enforcementFrom (realized r) = Enforce_irreversible
    \<and> (upper_bound r \<longleftrightarrow> \<not> (finality_state el = ''settled'' \<and> opts = Some True))"
proof -
  from assms have i: "classification_profile_id el = REVERSIBILITY_MAPPING_V0_ID" "classification_profile_digest el = REVERSIBILITY_MAPPING_V0_DIGEST C"
    and r: "r = classifyV0 (effectFactsFromElement el opts)"
    by (auto simp: recomputeEffect_def getRegisteredProfile_def PROFILE_REGISTRY_def reversibilityMappingV0_def split: if_splits)
  show ?thesis unfolding r using i
    by (simp add: verifyProfileBinding_def PROFILE_REGISTRY_def classifyV0_def effectFactsFromElement_def deriveExternality_def definitive_def)
qed

text \<open>A cached class is never trusted: it passes only when it names the recomputed class.\<close>

theorem asserted_class_is_recomputed:
  "verifyAssertedClass C el opts = Asserted_ok r \<longleftrightarrow>
     (\<exists>i. recomputeEffect C el opts = Recomputed i r \<and> asserted_realized_class el \<in> {None, Some ''irreversible''})"
proof -
  have "realized r = Irreversible" if "recomputeEffect C el opts = Recomputed i r" for i r
    using that by (auto simp: recomputeEffect_def getRegisteredProfile_def PROFILE_REGISTRY_def reversibilityMappingV0_def
        classifyV0_def effectFactsFromElement_def deriveExternality_def split: if_splits)
  then show ?thesis
    by (auto simp: verifyAssertedClass_def split: RecomputeOutcome.splits option.splits if_splits)
qed

text \<open>C32. Stages agree: a reconciliation written for a pending execution receipt by the holder of the
  key is accepted exactly when it refines to compensable or irreversible, and a refused class is
  the only error reported.\<close>

theorem reconciliation_accepted_iff_monotonic:
  assumes "createReconciliationReceipt C x i = Inr r" and "keypair C (signerPrivateKey i) (signerPublicKey i)" and "ex_evidence_status x = ''pending''"
  shows "validateTransition C x r =
    (if cr_realized_class i \<in> {Compensable, Irreversible} then [] else [Non_monotonic (cr_realized_class i)])"
proof -
  from assms(1) obtain hb bb where hb: "canonicalizeJCSForWrite (format_number C) (json_of_execution x) = Inr hb"
    and r: "r = ReconciliationBody.extend \<lparr>rc_stage = ''reconciliation'', rc_execution_receipt_hash = ''sha256:'' @ sha256Hex C hb,
        rc_action_ref = ex_action_ref x, rc_realized_class = cr_realized_class i, rc_evidence_status = cr_evidence_status i,
        rc_reconciled_at = cr_reconciled_at i\<rparr> \<lparr>rc_public_key = signerPublicKey i, rc_signature = ed25519_sign C bb (signerPrivateKey i)\<rparr>"
    and bb: "canonicalizeJCSForWrite (format_number C) (json_of_reconciliation r) = Inr bb"
    by (auto simp: createReconciliationReceipt_def hashExecutionReceiptForWrite_def bindE_Inr_iff Let_def json_of_reconciliation_def
        ReconciliationBody.defs)
  have same: "canonicalizeJCSForWrite f j = Inr s \<Longrightarrow> s = canonicalizeValue f j" for f j s
    by (auto simp: canonicalizeJCSForWrite_def split: option.splits)
  have "ed25519_verify C (canonicalizeValue (format_number C) (json_of_reconciliation r)) (rc_signature r) (rc_public_key r)"
    using assms(2) same [OF bb] by (simp add: r ReconciliationBody.defs keypair_def)
  then show ?thesis using same [OF hb] assms(3)
    by (auto simp: validateTransition_def hashExecutionReceipt_def MONOTONIC_RECONCILED_CLASSES_def r ReconciliationBody.defs)
qed

text \<open>The strict emitter keeps members whose value is null.\<close>

theorem jcs_keeps_null_members:
  "canonicalizeJCS fmt (JObj [(k, JNull)]) = Inr (''{'' @ stringify_string k @ '':null}'')"
  by (simp add: canonicalizeJCS_def)


section \<open>Concrete records\<close>

definition sample_state :: "string \<Rightarrow> string \<Rightarrow> string option \<Rightarrow> rat \<Rightarrow> EffectInstantiationElement" where
  "sample_state dg fin pre n = \<lparr>effect_scope = ''external'', effect_target_ref = ''acct'', finality_state = fin, recovery_mechanism_ref = Some ''refund'',
     recovery_controller = None, recovery_deadline = None, evidence_status = ''pending'', classification_profile_id = REVERSIBILITY_MAPPING_V0_ID,
     classification_profile_digest = dg, action_ref = ''a1'', action_instance_id = ''run-1'',
     effect_id = ''e1'', predecessor_effect_state_hash = pre, sequence = n, asserted_realized_class = None\<rparr>"

definition sample_first :: EffectInstantiationElement where
  "sample_first = sample_state ''sha256:profile'' ''pending'' None 0"

definition sample_second :: EffectInstantiationElement where
  "sample_second = sample_state ''sha256:profile'' ''contradicted'' (Some (hashEffectState sample_crypto sample_first)) 1"

lemma sample_hashes_differ: "hashEffectState sample_crypto sample_first \<noteq> hashEffectState sample_crypto sample_second"
  by code_simp

lemma sample_lineage_inj: "inj_on (hashEffectState sample_crypto) (set [sample_second, sample_first, sample_second])"
  using sample_hashes_differ by (auto simp: inj_on_def)

lemma sample_lineage_chain: "lineage_chain sample_crypto [sample_first, sample_second]"
  by (simp add: lineage_chain_def sample_first_def sample_second_def sample_state_def)

lemma sample_effect_id: "effect_id sample_first = ''e1''" "effect_id sample_second = ''e1''"
  by (simp_all add: sample_first_def sample_second_def sample_state_def)

lemma sample_lineage_ok: "fst (validateEffectLineage sample_crypto [sample_second, sample_first, sample_second]) = Lineage_ok"
proof -
  have "states_of [sample_second, sample_first, sample_second] ''e1'' = [sample_second, sample_first, sample_second]"
    by (simp add: sample_effect_id)
  then show ?thesis
    unfolding block_lineage_ok using one_lineage_ok [OF sample_lineage_inj] sample_lineage_chain sample_effect_id
    by (auto simp: insert_commute)
qed

theorem lineage_accepts_exactly_chains_witness:
  "fst (validateEffectLineage sample_crypto [sample_second, sample_first, sample_second]) = Lineage_ok"
  unfolding lineage_accepts_exactly_chains [OF sample_lineage_inj]
proof
  fix i assume "i \<in> effect_id ` set [sample_second, sample_first, sample_second]"
  then have "{el \<in> set [sample_second, sample_first, sample_second]. effect_id el = i} = set [sample_first, sample_second]"
    using sample_effect_id by auto
  then show "\<exists>cs. lineage_chain sample_crypto cs \<and> set cs = {el \<in> set [sample_second, sample_first, sample_second]. effect_id el = i}"
    using sample_lineage_chain by metis
qed

theorem latest_state_ends_its_chain_witness:
  "\<exists>m. latestValidEffectStates sample_crypto [sample_second, sample_first, sample_second] = Some m \<and> m ''e1'' \<noteq> None"
proof -
  from sample_lineage_ok obtain m where m: "latestValidEffectStates sample_crypto [sample_second, sample_first, sample_second] = Some m"
    by (simp add: latestValidEffectStates_def)
  with latest_state_ends_its_chain [OF sample_lineage_inj m] sample_effect_id show ?thesis by (auto simp: dom_def)
qed

theorem lineage_order_irrelevant_witness:
  "validateEffectLineage sample_crypto [sample_second, sample_first, sample_second]
     = validateEffectLineage sample_crypto [sample_first, sample_second, sample_second]"
  using lineage_order_irrelevant [OF sample_lineage_inj, of "[sample_first, sample_second, sample_second]"] by simp

theorem recompute_is_irreversible_witness:
  "\<exists>i r. recomputeEffect sample_crypto (sample_state (REVERSIBILITY_MAPPING_V0_DIGEST sample_crypto) ''settled'' None 0) None = Recomputed i r
     \<and> realized r = Irreversible \<and> upper_bound r"
proof -
  obtain i r where r: "recomputeEffect sample_crypto (sample_state (REVERSIBILITY_MAPPING_V0_DIGEST sample_crypto) ''settled'' None 0) None = Recomputed i r"
    by (simp add: recomputeEffect_def getRegisteredProfile_def PROFILE_REGISTRY_def sample_state_def)
  with recompute_is_irreversible [OF r] show ?thesis by simp
qed

definition sample_execution :: ExecutionStageReceipt where
  "sample_execution = \<lparr>ex_stage = ''execution'', ex_action_ref = ''a1'', ex_run_id = ''run-1'', ex_effects = [sample_first],
     ex_evidence_status = ''pending'', admitted_enforcement_class = Enforce_irreversible, ex_created_at = ''2026-03-01T00:00:00.000Z''\<rparr>"

definition sample_reconciling :: CreateReconciliationInput where
  "sample_reconciling = \<lparr>cr_realized_class = Irreversible, cr_evidence_status = ''resolved'', cr_reconciled_at = ''2026-03-02T00:00:00.000Z'',
     signerPrivateKey = sample_key, signerPublicKey = sample_key\<rparr>"

theorem reconciliation_accepted_iff_monotonic_witness:
  "\<exists>r. createReconciliationReceipt sample_crypto sample_execution sample_reconciling = Inr r
     \<and> validateTransition sample_crypto sample_execution r = []"
proof -
  have "write_fault (json_of_execution sample_execution) = None"
    by (simp add: json_of_execution_def json_of_element_def sample_execution_def sample_first_def sample_state_def nullable_def optional_entry_def
        first_some_None_iff isUnsafeWriteInteger_def)
  moreover have "write_fault (json_of_reconciliation b) = None" for b :: ReconciliationBody
    by (simp add: json_of_reconciliation_def first_some_None_iff)
  ultimately obtain r where r: "createReconciliationReceipt sample_crypto sample_execution sample_reconciling = Inr r"
    by (simp add: createReconciliationReceipt_def hashExecutionReceiptForWrite_def canonicalizeJCSForWrite_def Let_def)
  have "keypair sample_crypto (signerPrivateKey sample_reconciling) (signerPublicKey sample_reconciling)"
    using sample_keypair by (simp add: sample_reconciling_def)
  from reconciliation_accepted_iff_monotonic [OF r this] r show ?thesis
    by (simp add: sample_execution_def sample_reconciling_def)
qed

end
