(* ===== verification/Ed25519.thy ===== *)
theory Ed25519
  imports APS_Prelude "HOL-Library.Word" "HOL-Library.Signed_Division" "HOL-Library.While_Combinator"
begin

text \<open>
  \<^verbatim>\<open>src/crypto/ed25519-admissibility.ts\<close> and \<^verbatim>\<open>src/crypto/keys.ts\<close>: the arithmetic that decides
  whether a public key or the point of a signature may be believed at all, and the
  verification entry point that every record of the system goes through.

  Bytes are \<open>8 word\<close>, the unbounded integers of the source are \<open>int\<close> with its truncating
  remainder and its bitwise operators.  The verification equation itself belongs to the
  platform and is an argument; \<open>None\<close> stands for a call that throws.
\<close>

unbundle bit_operations_syntax

type_synonym byte = "8 word"

section \<open>Field arithmetic\<close>

definition FIELD_P :: int where
  "FIELD_P = push_bit 255 1 - 19"

definition CURVE_D :: int where
  "CURVE_D = 37095705934669439343138083508754565189542113879843219016388785533085940283555"

definition SQRT_M1 :: int where
  "SQRT_M1 = 19681161376707505956807079304988542015446066515923890162744021073123829784752"

definition LOW_255 :: int where
  "LOW_255 = push_bit 255 1 - 1"

definition SQRT_EXP :: int where
  "SQRT_EXP = (FIELD_P - 5) sdiv 8"

definition modP :: "int \<Rightarrow> int" where
  "modP a = (let r = a smod FIELD_P in if r < 0 then r + FIELD_P else r)"

definition powMod_step :: "int \<times> int \<times> int \<Rightarrow> int \<times> int \<times> int" where
  "powMod_step s = (case s of (r, b, e) \<Rightarrow> (if e AND 1 \<noteq> 0 then modP (r * b) else r, modP (b * b), drop_bit 1 e))"

definition powMod_run :: "int \<Rightarrow> int \<Rightarrow> (int \<times> int \<times> int) option" where
  "powMod_run base e = while_option (\<lambda>(r, b, e). e > 0) powMod_step (1, modP base, e)"

definition powMod :: "int \<Rightarrow> int \<Rightarrow> int" where
  "powMod base e = fst (the (powMod_run base e))"

section \<open>Points\<close>

record Point =
  point_x :: int
  point_y :: int

definition bytesToLittleEndian :: "byte list \<Rightarrow> int" where
  "bytesToLittleEndian bs = foldr (\<lambda>b n. push_bit 8 n OR uint b) bs 0"

definition decodePoint :: "byte list \<Rightarrow> Point option" where
  "decodePoint bs =
     (let n = bytesToLittleEndian bs;
          sg = drop_bit 255 n AND 1;
          y = modP (n AND LOW_255);
          yy = modP (y * y);
          u = modP (yy - 1);
          v = modP (CURVE_D * yy + 1) in
      if v = 0 then None
      else
       (let v2 = modP (v * v);
            v3 = modP (v2 * v);
            v7 = modP (modP (v3 * v3) * v);
            x = modP (modP (u * v3) * powMod (modP (u * v7)) SQRT_EXP);
            check = modP (v * modP (x * x));
            fix_sign = (\<lambda>x. Some \<lparr>point_x = (if x smod 2 \<noteq> sg then modP (FIELD_P - x) else x), point_y = y\<rparr>) in
        if check = u then fix_sign x
        else if check = modP (- u) then fix_sign (modP (x * SQRT_M1))
        else None))"

definition isCanonicalEncoding :: "byte list \<Rightarrow> Point \<Rightarrow> bool" where
  "isCanonicalEncoding bs p =
     (let n = bytesToLittleEndian bs in
      if (n AND LOW_255) \<ge> FIELD_P then False
      else if point_x p = 0 \<and> drop_bit 255 n = 1 then False
      else True)"

definition double_point :: "int \<times> int \<times> int \<Rightarrow> int \<times> int \<times> int" where
  "double_point q =
     (case q of (X, Y, Z) \<Rightarrow>
       let B = modP ((X + Y) * (X + Y));
           A = modP (X * X);
           Dd = modP (Y * Y);
           Ee = modP (- A);
           F = modP (Ee + Dd);
           H = modP (Z * Z);
           J = modP (F - 2 * H) in
       (modP (modP (B - A - Dd) * J), modP (F * modP (Ee - Dd)), modP (F * J)))"

definition hasSmallOrder :: "Point \<Rightarrow> bool" where
  "hasSmallOrder p =
     (case (double_point ^^ 3) (point_x p, point_y p, 1) of (X, Y, Z) \<Rightarrow> if Z = 0 then True else X = 0 \<and> Y = Z)"

definition isAdmissiblePoint :: "byte list \<Rightarrow> bool" where
  "isAdmissiblePoint bs =
     (if length bs \<noteq> 32 then False
      else case decodePoint bs of
          None \<Rightarrow> False
        | Some p \<Rightarrow> if \<not> isCanonicalEncoding bs p then False else \<not> hasSmallOrder p)"

definition isAdmissibleKeyMaterial :: "byte list \<Rightarrow> byte list \<Rightarrow> bool" where
  "isAdmissibleKeyMaterial pk sig =
     (if length pk \<noteq> 32 \<or> length sig \<noteq> 64 then False else isAdmissiblePoint pk \<and> isAdmissiblePoint (take 32 sig))"

section \<open>Hexadecimal and the entry points\<close>

definition hex_value :: "char \<Rightarrow> int option" where
  "hex_value c =
     (let n = of_char c :: int in
      if 48 \<le> n \<and> n \<le> 57 then Some (n - 48) else if 97 \<le> n \<and> n \<le> 102 then Some (n - 87)
      else if 65 \<le> n \<and> n \<le> 70 then Some (n - 55) else None)"

fun hex_pairs :: "string \<Rightarrow> byte list" where
  "hex_pairs (a # b # cs) = word_of_int (16 * the (hex_value a) + the (hex_value b)) # hex_pairs cs"
| "hex_pairs _ = []"

definition hexToBytes :: "string \<Rightarrow> byte list option" where
  "hexToBytes h = (if h = [] \<or> length h mod 2 \<noteq> 0 \<or> \<not> list_all (\<lambda>c. hex_value c \<noteq> None) h then None else Some (hex_pairs h))"

definition hex_nibble :: "int \<Rightarrow> char" where
  "hex_nibble n = (if n < 10 then char_of (48 + n) else char_of (87 + n))"

definition bytesToHex :: "byte list \<Rightarrow> string" where
  "bytesToHex bs = concat (map (\<lambda>b. [hex_nibble (uint b div 16), hex_nibble (uint b mod 16)]) bs)"

text \<open>\<open>node_sign\<close> and \<open>node_verify\<close> are the platform's functions on raw keys.\<close>

definition sign_message :: "(string \<Rightarrow> byte list \<Rightarrow> byte list option) \<Rightarrow> string \<Rightarrow> string \<Rightarrow> string option" where
  "sign_message node_sign m sk =
     (case hexToBytes sk of None \<Rightarrow> None | Some k \<Rightarrow> map_option bytesToHex (node_sign m k))"

definition verify_message :: "(string \<Rightarrow> byte list \<Rightarrow> byte list \<Rightarrow> bool option) \<Rightarrow> string \<Rightarrow> string \<Rightarrow> string \<Rightarrow> bool" where
  "verify_message node_verify m sig pk =
     (if length pk \<noteq> 64 then False
      else if length sig \<noteq> 128 then False
      else case (hexToBytes pk, hexToBytes sig) of
          (Some k, Some s) \<Rightarrow>
            if \<not> isAdmissibleKeyMaterial k s then False
            else (case node_verify m k s of Some b \<Rightarrow> b | None \<Rightarrow> False)
        | _ \<Rightarrow> False)"

section \<open>Field facts\<close>

lemma FIELD_P_num: "FIELD_P = 57896044618658097711785492504343953926634992332820282019728792003956564819949"
  by (simp add: FIELD_P_def push_bit_eq_mult)


lemma FIELD_P_pos [simp]: "0 < FIELD_P" "FIELD_P \<noteq> 0" "\<not> FIELD_P \<le> 0" "\<not> FIELD_P < 0" "1 mod FIELD_P = 1"
  by (simp_all add: FIELD_P_num)

lemma FIELD_P_odd: "FIELD_P mod 2 = 1"
  by (simp add: FIELD_P_num)

lemma LOW_255_and: "n AND LOW_255 = n mod 2 ^ 255"
proof -
  have "LOW_255 = mask 255" by (simp only: LOW_255_def mask_eq_exp_minus_1 push_bit_of_1)
  then show ?thesis by (metis take_bit_eq_mask take_bit_eq_mod)
qed

lemma modP_mod: "modP a = a mod FIELD_P"
proof -
  have s: "a smod FIELD_P = (if 0 \<le> a then a mod FIELD_P else - ((- a) mod FIELD_P))"
    by (auto simp: smod_int_alt_def sgn_if abs_if)
  have "0 \<le> a mod FIELD_P" "a mod FIELD_P < FIELD_P" by simp_all
  moreover have "(- a) mod FIELD_P = (if a mod FIELD_P = 0 then 0 else FIELD_P - a mod FIELD_P)" by (rule zmod_zminus1_eq_if)
  ultimately show ?thesis unfolding modP_def Let_def s by (smt (verit))
qed

lemma modP_range: "0 \<le> modP a" "modP a < FIELD_P"
  by (simp_all add: modP_mod)

section \<open>Exponentiation\<close>

lemma half_power:
  assumes "0 < (e :: int)"
  shows "(b :: int) ^ nat e = (if odd e then b else 1) * (b * b) ^ nat (e div 2)"
proof -
  have n: "nat (e div 2) = nat e div 2" using assms by (simp add: nat_div_distrib)
  have o: "odd e \<longleftrightarrow> odd (nat e)" using assms by (simp add: even_nat_iff)
  show ?thesis
  proof (cases "odd (nat e)")
    case True
    then have "nat e = Suc (2 * (nat e div 2))" by (simp add: odd_Suc_div_two)
    then have "b ^ nat e = b * (b * b) ^ (nat e div 2)" by (metis power_Suc power_mult power2_eq_square)
    with True o n show ?thesis by simp
  next
    case False
    then have "b ^ nat e = (b * b) ^ (nat e div 2)" by (metis dvd_mult_div_cancel power_mult power2_eq_square)
    with False o n show ?thesis by simp
  qed
qed

lemma step_parts:
  "powMod_step (r, b, e) = (if odd e then (r * b) mod FIELD_P else r, (b * b) mod FIELD_P, e div 2)"
  by (simp add: powMod_step_def modP_mod and_one_eq drop_bit_eq_div odd_iff_mod_2_eq_one)

text \<open>What every pass of the loop keeps: the value still to be reached, and a reduced result.\<close>

definition power_inv :: "int \<Rightarrow> int \<times> int \<times> int \<Rightarrow> bool" where
  "power_inv w s \<longleftrightarrow> (case s of (r, b, e) \<Rightarrow> 0 \<le> e \<and> 0 \<le> r \<and> r < FIELD_P \<and> (r * b ^ nat e) mod FIELD_P = w)"

lemma power_inv_step:
  assumes "power_inv w (r, b, e)" and "0 < e"
  shows "power_inv w (powMod_step (r, b, e))"
proof -
  have "(((if odd e then (r * b) mod FIELD_P else r)) * ((b * b) mod FIELD_P) ^ nat (e div 2)) mod FIELD_P
      = ((if odd e then r * b else r) * (b * b) ^ nat (e div 2)) mod FIELD_P"
    by (simp add: mod_mult_left_eq mod_mult_right_eq power_mod [symmetric] del: power_mod) (metis mod_mult_cong mod_mod_trivial power_mod)
  also have "\<dots> = (r * b ^ nat e) mod FIELD_P" by (simp add: half_power [OF assms(2)] mult.assoc)
  finally show ?thesis using assms by (auto simp: power_inv_def step_parts)
qed


lemma powMod_run_result:
  "\<exists>b. powMod_run base e = Some (if 0 < e then base ^ nat e mod FIELD_P else 1, b, min e 0)"
proof (cases "0 < e")
  case False
  then show ?thesis unfolding powMod_run_def by (subst while_option_unfold) (simp add: min_def)
next
  case True
  let ?w = "base ^ nat e mod FIELD_P"
  have init: "power_inv ?w (1, modP base, e)" using True by (simp add: power_inv_def modP_mod power_mod FIELD_P_num)
  have body: "power_inv ?w (powMod_step s) \<and> (\<lambda>(r, b, e). nat e) (powMod_step s) < (\<lambda>(r, b, e). nat e) s"
    if "power_inv ?w s" "(\<lambda>(r, b, e). 0 < e) s" for s
    using that power_inv_step by (cases s) (auto simp: step_parts)
  obtain t where t: "powMod_run base e = Some t"
    using measure_while_option_Some [where P = "power_inv ?w" and f = "\<lambda>(r, b, e). nat e", OF body init] unfolding powMod_run_def by blast
  have "power_inv ?w t" using while_option_rule [where P = "power_inv ?w"] body init t unfolding powMod_run_def by blast
  moreover have "\<not> (\<lambda>(r, b, e). 0 < e) t" using while_option_stop [OF t [unfolded powMod_run_def]] .
  ultimately obtain b where "t = (?w, b, 0)" by (cases t) (auto simp: power_inv_def)
  with t True show ?thesis by simp
qed

lemma powMod_eq: "0 \<le> e \<Longrightarrow> powMod base e = base ^ nat e mod FIELD_P"
  using powMod_run_result [of base e] by (auto simp: powMod_def)

section \<open>Bytes\<close>

lemma little_endian_Nil [simp]: "bytesToLittleEndian [] = 0"
  by (simp add: bytesToLittleEndian_def)

lemma little_endian_Cons [simp]: "bytesToLittleEndian (b # bs) = 256 * bytesToLittleEndian bs + uint b"
proof -
  let ?n = "bytesToLittleEndian bs"
  have "push_bit 8 ?n AND uint b = 0" by (rule bit_eqI) (auto simp: bit_simps dest: bit_imp_le_length)
  then have "push_bit 8 ?n + uint b = push_bit 8 ?n OR uint b" by (rule disjunctive_add_eq_or)
  moreover have "push_bit 8 ?n = 256 * ?n" by (simp add: push_bit_eq_mult)
  ultimately show ?thesis by (simp add: bytesToLittleEndian_def)
qed

lemma uint_byte: "0 \<le> uint (b :: byte)" "uint (b :: byte) < 256"
  using uint_lt2p [of b] by simp_all

lemma little_endian_range: "0 \<le> bytesToLittleEndian bs \<and> bytesToLittleEndian bs < 256 ^ length bs"
proof (induction bs)
  case (Cons b bs)
  then show ?case using uint_byte [of b] by simp
qed simp

lemma little_endian_inj: "bytesToLittleEndian xs = bytesToLittleEndian ys \<Longrightarrow> length xs = length ys \<Longrightarrow> xs = ys"
proof (induction xs ys rule: list_induct2')
  case (4 x xs y ys)
  have digits: "u = v \<and> a = c" if "256 * a + u = 256 * c + v" "0 \<le> u" "u < 256" "0 \<le> v" "v < 256" for a c u v :: int
  proof -
    have "(256 * a + u) mod 256 = u" "(256 * c + v) mod 256 = v" using that(2-5) by simp_all
    with that(1) have "u = v" by simp
    with that(1) show ?thesis by simp
  qed
  have "uint x = uint y \<and> bytesToLittleEndian xs = bytesToLittleEndian ys"
    using 4(2) by (intro digits) (simp_all add: uint_byte)
  with 4 show ?case by (simp add: word_uint_eq_iff)
qed auto

section \<open>Decoded points lie on the curve\<close>

definition on_curve :: "int \<Rightarrow> int \<Rightarrow> bool" where
  "on_curve x y \<longleftrightarrow> (y * y - x * x) mod FIELD_P = (1 + CURVE_D * (x * x) * (y * y)) mod FIELD_P"

lemma cong_P: "a mod FIELD_P = b mod FIELD_P \<longleftrightarrow> FIELD_P dvd a - b"
  by (rule mod_eq_dvd_iff)

lemma sqrt_minus_one: "(SQRT_M1 * SQRT_M1) mod FIELD_P = (- 1) mod FIELD_P"
proof -
  have "SQRT_M1 * SQRT_M1 - - 1 = FIELD_P * 6690407189080634018507799843845558368979872843924222843531373839242004886245"
    by (simp add: SQRT_M1_def FIELD_P_num)
  then show ?thesis unfolding cong_P by (metis dvd_triv_left)
qed




lemma reduced_operands:
  "((CURVE_D * (y * y mod FIELD_P) + 1) mod FIELD_P * w) mod FIELD_P = ((CURVE_D * (y * y) + 1) * w) mod FIELD_P"
  "(y * y mod FIELD_P - 1) mod FIELD_P = (y * y - 1) mod FIELD_P"
proof -
  have "((CURVE_D * (y * y mod FIELD_P) + 1) mod FIELD_P) mod FIELD_P = (CURVE_D * (y * y) + 1) mod FIELD_P"
    unfolding mod_mod_trivial by (rule mod_add_cong [OF mod_mult_right_eq refl])
  then show "((CURVE_D * (y * y mod FIELD_P) + 1) mod FIELD_P * w) mod FIELD_P = ((CURVE_D * (y * y) + 1) * w) mod FIELD_P"
    by (rule mod_mult_cong) (rule refl)
  show "(y * y mod FIELD_P - 1) mod FIELD_P = (y * y - 1) mod FIELD_P" by (rule mod_diff_left_eq)
qed

lemma guarded_choice:
  "(if z then None else if a then Some p1 else if b then Some p2 else None) = Some p \<longleftrightarrow> \<not> z \<and> (a \<and> p = p1 \<or> \<not> a \<and> b \<and> p = p2)"
  by auto

lemma nested_square: "modP (v * modP (x * x)) = (v * (x * x)) mod FIELD_P"
  by (simp add: modP_mod mod_mult_right_eq)

lemma corrected_square:
  assumes "modP (v * modP (x * x)) = modP (- u)" and "0 \<le> u" and "u < FIELD_P"
  shows "(v * (modP (x * SQRT_M1) * modP (x * SQRT_M1))) mod FIELD_P = u"
proof -
  have "(v * (modP (x * SQRT_M1) * modP (x * SQRT_M1))) mod FIELD_P = (v * (x * SQRT_M1 * (x * SQRT_M1))) mod FIELD_P"
    unfolding modP_mod by (rule mod_mult_cong [OF refl mod_mult_eq])
  also have "v * (x * SQRT_M1 * (x * SQRT_M1)) = (v * (x * x)) * (SQRT_M1 * SQRT_M1)" by (simp add: ac_simps)
  also have "\<dots> mod FIELD_P = ((- u) * (- 1)) mod FIELD_P"
    by (rule mod_mult_cong) (use assms(1) [unfolded nested_square] sqrt_minus_one in \<open>simp_all only: modP_mod\<close>)
  finally show ?thesis using assms(2,3) by simp
qed

text \<open>The result of decompression, before the sign is chosen.\<close>

lemma decode_parts:
  assumes "decodePoint bs = Some p"
  obtains x where "0 \<le> x" "x < FIELD_P"
    "point_x p = (if x mod 2 \<noteq> bytesToLittleEndian bs div 2 ^ 255 mod 2 then (FIELD_P - x) mod FIELD_P else x)"
    "point_y p = bytesToLittleEndian bs mod 2 ^ 255 mod FIELD_P"
    "((CURVE_D * (point_y p * point_y p) + 1) * (x * x)) mod FIELD_P = (point_y p * point_y p - 1) mod FIELD_P"
proof -
  note finish = that
  let ?n = "bytesToLittleEndian bs"
  define y where "y = modP (?n AND LOW_255)"
  define yy where "yy = modP (y * y)"
  define u where "u = modP (yy - 1)"
  define v where "v = modP (CURVE_D * yy + 1)"
  define v3 where "v3 = modP (modP (v * v) * v)"
  define x0 where "x0 = modP (modP (u * v3) * powMod (modP (u * modP (modP (v3 * v3) * v))) SQRT_EXP)"
  let ?fix = "\<lambda>x. \<lparr>point_x = (if x smod 2 \<noteq> drop_bit 255 ?n AND 1 then modP (FIELD_P - x) else x), point_y = y\<rparr>"
  have d: "decodePoint bs = (if v = 0 then None else if modP (v * modP (x0 * x0)) = u then Some (?fix x0)
      else if modP (v * modP (x0 * x0)) = modP (- u) then Some (?fix (modP (x0 * SQRT_M1))) else None)"
    unfolding decodePoint_def Let_def x0_def v3_def v_def u_def yy_def y_def ..
  have x0: "0 \<le> x0" "x0 < FIELD_P" unfolding x0_def by (rule modP_range)+
  have u: "0 \<le> u" "u < FIELD_P" unfolding u_def by (rule modP_range)+
  have sg: "drop_bit 255 ?n AND 1 = ?n div 2 ^ 255 mod 2" by (simp only: drop_bit_eq_div and_one_eq)
  have two: "x smod 2 = x mod 2" if "0 \<le> x" for x :: int using that by (simp add: smod_int_alt_def sgn_if)
  have goal: thesis if x: "0 \<le> x" "x < FIELD_P" and p: "p = ?fix x" and sq: "(v * (x * x)) mod FIELD_P = u" for x
  proof (rule finish [OF x])
    show "point_x p = (if x mod 2 \<noteq> ?n div 2 ^ 255 mod 2 then (FIELD_P - x) mod FIELD_P else x)"
      by (simp only: p Point.simps sg two [OF x(1)] modP_mod)
    show "point_y p = ?n mod 2 ^ 255 mod FIELD_P" by (simp only: p Point.simps y_def modP_mod LOW_255_and)
    show "((CURVE_D * (point_y p * point_y p) + 1) * (x * x)) mod FIELD_P = (point_y p * point_y p - 1) mod FIELD_P"
      using sq unfolding u_def v_def yy_def modP_mod reduced_operands by (simp only: p Point.simps)
  qed
  from assms [unfolded d guarded_choice] consider "modP (v * modP (x0 * x0)) = u" "p = ?fix x0"
    | "modP (v * modP (x0 * x0)) = modP (- u)" "p = ?fix (modP (x0 * SQRT_M1))" by blast
  then show thesis
  proof cases
    case 1
    then show ?thesis unfolding nested_square by (intro goal [OF x0])
  next
    case 2
    then show ?thesis by (intro goal [OF modP_range(1) modP_range(2) 2(2)] corrected_square u)
  qed
qed



lemma negated_parity:
  assumes "0 < x" "x < FIELD_P"
  shows "((FIELD_P - x) mod FIELD_P) mod 2 = (1 + x) mod 2"
proof -
  have "(FIELD_P - x) mod FIELD_P = FIELD_P - x" using assms by (intro mod_pos_pos_trivial) simp_all
  moreover have "(q - x) mod 2 = (1 + x) mod 2" if "q mod 2 = 1" for q :: int using that by (auto simp: mod2_eq_if split: if_splits)
  ultimately show ?thesis using FIELD_P_odd by simp
qed

text \<open>The parity of a decoded coordinate is the sign bit, except at zero.\<close>

lemma decoded_parity:
  assumes "decodePoint bs = Some p"
  shows "point_x p = 0 \<or> point_x p mod 2 = bytesToLittleEndian bs div 2 ^ 255 mod 2"
proof -
  obtain x where x: "0 \<le> x" "x < FIELD_P"
    "point_x p = (if x mod 2 \<noteq> bytesToLittleEndian bs div 2 ^ 255 mod 2 then (FIELD_P - x) mod FIELD_P else x)"
    using assms by (elim decode_parts)
  show ?thesis
  proof (cases "x = 0")
    case True
    with x(3) show ?thesis by simp
  next
    case False
    have flip: "(1 + x) mod 2 = k mod 2" if "x mod 2 \<noteq> k mod 2" for k :: int using that by (auto simp: mod2_eq_if split: if_splits)
    have "0 < x" using False x(1) by simp
    show ?thesis
    proof (cases "x mod 2 = bytesToLittleEndian bs div 2 ^ 255 mod 2")
      case True
      then show ?thesis unfolding x(3) by simp
    next
      case diff: False
      then have "point_x p mod 2 = (1 + x) mod 2" unfolding x(3) using negated_parity [OF \<open>0 < x\<close> x(2)] by simp
      then show ?thesis using flip [OF diff] by simp
    qed
  qed
qed


section \<open>Doubling\<close>

definition on_projective_curve :: "int \<Rightarrow> int \<Rightarrow> int \<Rightarrow> bool" where
  "on_projective_curve X Y Z \<longleftrightarrow> FIELD_P dvd (Z * Z) * (Y * Y - X * X) - ((Z * Z) * (Z * Z) + CURVE_D * ((X * Y) * (X * Y)))"

lemma on_curve_projective: "on_curve x y \<Longrightarrow> on_projective_curve x y 1"
  by (simp add: on_curve_def on_projective_curve_def cong_P ac_simps)

text \<open>The formulas of the loop body without the reductions.\<close>

lemma double_point_mod:
  "double_point (X, Y, Z) =
     ((2 * (X * Y) * ((Y * Y - X * X) - 2 * (Z * Z))) mod FIELD_P,
      ((Y * Y - X * X) * (- (X * X + Y * Y))) mod FIELD_P,
      ((Y * Y - X * X) * ((Y * Y - X * X) - 2 * (Z * Z))) mod FIELD_P)"
proof -
  define A where "A = modP (X * X)"
  define Dd where "Dd = modP (Y * Y)"
  define F where "F = modP (modP (- A) + Dd)"
  define J where "J = modP (F - 2 * modP (Z * Z))"
  have F: "F mod FIELD_P = (Y * Y - X * X) mod FIELD_P"
    unfolding F_def A_def Dd_def modP_mod by (metis (no_types, lifting) add.commute mod_add_eq mod_minus_eq mod_mod_trivial uminus_add_conv_diff)
  have J: "J mod FIELD_P = ((Y * Y - X * X) - 2 * (Z * Z)) mod FIELD_P"
    unfolding J_def modP_mod using F by (metis mod_diff_eq mod_mod_trivial mod_mult_right_eq)
  have B: "modP (modP ((X + Y) * (X + Y)) - A - Dd) mod FIELD_P = (2 * (X * Y)) mod FIELD_P"
  proof -
    have "(X + Y) * (X + Y) - X * X - Y * Y = 2 * (X * Y)" by (simp add: algebra_simps)
    then show ?thesis unfolding A_def Dd_def modP_mod by (metis mod_diff_eq mod_diff_left_eq mod_mod_trivial)
  qed
  have E: "modP (modP (- A) - Dd) mod FIELD_P = (- (X * X + Y * Y)) mod FIELD_P"
    unfolding A_def Dd_def modP_mod by (metis (no_types, lifting) diff_conv_add_uminus minus_add_distrib mod_diff_eq mod_minus_eq mod_mod_trivial)
  have "double_point (X, Y, Z) = (modP (modP (modP ((X + Y) * (X + Y)) - A - Dd) * J), modP (F * modP (modP (- A) - Dd)), modP (F * J))"
    unfolding double_point_def Let_def A_def Dd_def F_def J_def by simp
  moreover have "modP (modP (modP ((X + Y) * (X + Y)) - A - Dd) * J) = (2 * (X * Y) * ((Y * Y - X * X) - 2 * (Z * Z))) mod FIELD_P"
    unfolding modP_mod [of "_ * J"] by (rule mod_mult_cong [OF B J])
  moreover have "modP (F * modP (modP (- A) - Dd)) = ((Y * Y - X * X) * (- (X * X + Y * Y))) mod FIELD_P"
    unfolding modP_mod [of "F * _"] by (rule mod_mult_cong [OF F E])
  moreover have "modP (F * J) = ((Y * Y - X * X) * ((Y * Y - X * X) - 2 * (Z * Z))) mod FIELD_P"
    unfolding modP_mod by (rule mod_mult_cong [OF F J])
  ultimately show ?thesis by (simp only:)
qed

lemma doubling_identity:
  fixes D F S M z e :: int
  assumes "S * S = F * F + 4 * (M * M)" and "D * (M * M) = z * F - z * z - e"
  shows "((F * (F - 2 * z)) * (F * (F - 2 * z))) * ((F * (- S)) * (F * (- S)) - (2 * M * (F - 2 * z)) * (2 * M * (F - 2 * z)))
     - (((F * (F - 2 * z)) * (F * (F - 2 * z))) * ((F * (F - 2 * z)) * (F * (F - 2 * z)))
        + D * (((2 * M * (F - 2 * z)) * (F * (- S))) * ((2 * M * (F - 2 * z)) * (F * (- S)))))
     = e * (4 * (S * S) * (F * F) * ((F - 2 * z) * (F - 2 * z)))"
  using assms by algebra


lemma double_stays_on_curve:
  assumes "on_projective_curve X Y Z" and "double_point (X, Y, Z) = (X', Y', Z')"
  shows "on_projective_curve X' Y' Z'"
proof -
  define F where "F = Y * Y - X * X"
  define S where "S = X * X + Y * Y"
  define M where "M = X * Y"
  define z where "z = Z * Z"
  define e where "e = z * F - (z * z + CURVE_D * (M * M))"
  have e: "FIELD_P dvd e" using assms(1) by (simp add: on_projective_curve_def e_def F_def M_def z_def)
  let ?a = "2 * M * (F - 2 * z)" and ?b = "F * (- S)" and ?c = "F * (F - 2 * z)"
  have d: "X' = ?a mod FIELD_P" "Y' = ?b mod FIELD_P" "Z' = ?c mod FIELD_P"
    using assms(2) unfolding double_point_mod by (simp_all add: F_def S_def M_def z_def)
  have "S * S = F * F + 4 * (M * M)" by (simp add: S_def F_def M_def algebra_simps)
  moreover have "CURVE_D * (M * M) = z * F - z * z - e" by (simp add: e_def)
  ultimately have "(?c * ?c) * (?b * ?b - ?a * ?a) - ((?c * ?c) * (?c * ?c) + CURVE_D * ((?a * ?b) * (?a * ?b)))
      = e * (4 * (S * S) * (F * F) * ((F - 2 * z) * (F - 2 * z)))" by (rule doubling_identity)
  then have *: "FIELD_P dvd (?c * ?c) * (?b * ?b - ?a * ?a) - ((?c * ?c) * (?c * ?c) + CURVE_D * ((?a * ?b) * (?a * ?b)))"
    using e by (metis dvd_mult2)
  have m: "(a' * b') mod FIELD_P = (a * b) mod FIELD_P" if "a' mod FIELD_P = a mod FIELD_P" "b' mod FIELD_P = b mod FIELD_P" for a a' b b'
    using that by (rule mod_mult_cong)
  have r: "X' mod FIELD_P = ?a mod FIELD_P" "Y' mod FIELD_P = ?b mod FIELD_P" "Z' mod FIELD_P = ?c mod FIELD_P" by (simp_all add: d)
  have "((Z' * Z') * (Y' * Y' - X' * X')) mod FIELD_P = ((?c * ?c) * (?b * ?b - ?a * ?a)) mod FIELD_P"
    by (rule m [OF m [OF r(3) r(3)] mod_diff_cong [OF m [OF r(2) r(2)] m [OF r(1) r(1)]]])
  moreover have "((Z' * Z') * (Z' * Z') + CURVE_D * ((X' * Y') * (X' * Y'))) mod FIELD_P
      = ((?c * ?c) * (?c * ?c) + CURVE_D * ((?a * ?b) * (?a * ?b))) mod FIELD_P"
    by (rule mod_add_cong [OF m [OF m [OF r(3) r(3)] m [OF r(3) r(3)]] m [OF refl m [OF m [OF r(1) r(2)] m [OF r(1) r(2)]]]])
  ultimately show ?thesis using * unfolding on_projective_curve_def cong_P [symmetric] by simp
qed






section \<open>Canonical encodings\<close>

lemma canonical_value:
  assumes "length bs = 32" and "decodePoint bs = Some p" and "isCanonicalEncoding bs p"
  shows "bytesToLittleEndian bs = point_y p + (point_x p mod 2) * 2 ^ 255"
proof -
  let ?n = "bytesToLittleEndian bs"
  have y: "point_y p = ?n mod 2 ^ 255 mod FIELD_P" using assms(2) by (elim decode_parts)
  have c: "?n mod 2 ^ 255 < FIELD_P" "\<not> (point_x p = 0 \<and> ?n div 2 ^ 255 = 1)"
    using assms(3) unfolding isCanonicalEncoding_def Let_def LOW_255_and drop_bit_eq_div by (auto simp: not_le split: if_splits)
  have "?n mod 2 ^ 255 mod FIELD_P = ?n mod 2 ^ 255" using c(1) by (intro mod_pos_pos_trivial) simp_all
  with y have y': "point_y p = ?n mod 2 ^ 255" by simp
  have n: "0 \<le> ?n" "?n < 2 * 2 ^ 255" using little_endian_range [of bs] assms(1) by simp_all
  have q: "0 \<le> ?n div 2 ^ 255" "?n div 2 ^ 255 < 2"
    using n by (simp_all add: pos_imp_zdiv_nonneg_iff div_less_iff_less_mult)
  then consider "?n div 2 ^ 255 = 0" | "?n div 2 ^ 255 = 1" by linarith
  then have "?n div 2 ^ 255 = point_x p mod 2"
    using c(2) decoded_parity [OF assms(2)] by cases auto
  then show ?thesis using div_mult_mod_eq [of ?n "2 ^ 255"] y' by (metis add.commute)
qed

section \<open>Properties\<close>

text \<open>C33. The exponentiation loop ends for every exponent, with the power reduced modulo the field
  prime (and one for a negative exponent).\<close>

theorem powMod_terminates:
  "powMod_run base e \<noteq> None \<and> powMod base e = (if 0 \<le> e then base ^ nat e mod FIELD_P else 1)"
proof -
  obtain b where "powMod_run base e = Some (if 0 < e then base ^ nat e mod FIELD_P else 1, b, min e 0)"
    using powMod_run_result by blast
  then show ?thesis by (auto simp: powMod_def)
qed


text \<open>A key has one encoding: two canonical encodings that decode to the same point are the same
  bytes.\<close>

theorem canonical_encoding_unique:
  assumes "length xs = 32" and "length ys = 32" and "decodePoint xs = Some p" and "decodePoint ys = Some p"
    and "isCanonicalEncoding xs p" and "isCanonicalEncoding ys p"
  shows "xs = ys"
  using canonical_value [OF assms(1,3,5)] canonical_value [OF assms(2,4,6)] little_endian_inj assms(1,2) by simp

text \<open>A doubling step is the addition law of the curve: on a projective curve point it stays on the
  curve and satisfies the affine doubling equations, cleared of denominators.\<close>

theorem doubling_step_is_the_addition_law:
  assumes "on_projective_curve X Y Z" and "double_point (X, Y, Z) = (X', Y', Z')"
  shows "on_projective_curve X' Y' Z'
    \<and> (X' * ((Z * Z) * (Z * Z) + CURVE_D * ((X * Y) * (X * Y)))) mod FIELD_P = (2 * (X * Y) * (Z * Z) * Z') mod FIELD_P
    \<and> (Y' * ((Z * Z) * (Z * Z) - CURVE_D * ((X * Y) * (X * Y)))) mod FIELD_P = ((Y * Y + X * X) * (Z * Z) * Z') mod FIELD_P"
proof (intro conjI)
  define F where "F = Y * Y - X * X"
  define z where "z = Z * Z"
  define W where "W = CURVE_D * ((X * Y) * (X * Y))"
  have h: "(z * z + W) mod FIELD_P = (z * F) mod FIELD_P"
    using assms(1) unfolding cong_P on_projective_curve_def F_def z_def W_def by (subst dvd_minus_iff [symmetric]) (simp add: algebra_simps)
  have h': "(z * z - W) mod FIELD_P = (- (z * (F - 2 * z))) mod FIELD_P"
  proof -
    have "(z * z - W) - (- (z * (F - 2 * z))) = - (z * z + W - z * F)" by (simp add: algebra_simps)
    with h show ?thesis unfolding cong_P by (metis dvd_minus_iff)
  qed
  have d: "X' = (2 * (X * Y) * (F - 2 * z)) mod FIELD_P" "Y' = (F * (- (X * X + Y * Y))) mod FIELD_P" "Z' = (F * (F - 2 * z)) mod FIELD_P"
    using assms(2) unfolding double_point_mod by (simp_all add: F_def z_def)
  show "on_projective_curve X' Y' Z'" by (rule double_stays_on_curve [OF assms])
  have "(X' * (z * z + W)) mod FIELD_P = ((2 * (X * Y) * (F - 2 * z)) * (z * F)) mod FIELD_P"
    unfolding d by (rule mod_mult_cong [OF mod_mod_trivial h])
  also have "\<dots> = (2 * (X * Y) * z * (F * (F - 2 * z))) mod FIELD_P" by (simp add: ac_simps)
  also have "\<dots> = (2 * (X * Y) * z * Z') mod FIELD_P" unfolding d by (rule mod_mult_cong [OF refl mod_mod_trivial [symmetric]])
  finally show "(X' * ((Z * Z) * (Z * Z) + CURVE_D * ((X * Y) * (X * Y)))) mod FIELD_P = (2 * (X * Y) * (Z * Z) * Z') mod FIELD_P"
    by (simp only: z_def W_def)
  have "(Y' * (z * z - W)) mod FIELD_P = ((F * (- (X * X + Y * Y))) * (- (z * (F - 2 * z)))) mod FIELD_P"
    unfolding d by (rule mod_mult_cong [OF mod_mod_trivial h'])
  also have "(F * (- (X * X + Y * Y))) * (- (z * (F - 2 * z))) = (Y * Y + X * X) * z * (F * (F - 2 * z))" by algebra
  also have "\<dots> mod FIELD_P = ((Y * Y + X * X) * z * Z') mod FIELD_P" unfolding d by (rule mod_mult_cong [OF refl mod_mod_trivial [symmetric]])
  finally show "(Y' * ((Z * Z) * (Z * Z) - CURVE_D * ((X * Y) * (X * Y)))) mod FIELD_P = ((Y * Y + X * X) * (Z * Z) * Z') mod FIELD_P"
    by (simp only: z_def W_def)
qed


theorem doubling_step_is_the_addition_law_witness:
  "on_projective_curve 0 1 1 \<and> double_point (0, 1, 1) = (0, FIELD_P - 1, FIELD_P - 1) \<and> on_projective_curve 0 (FIELD_P - 1) (FIELD_P - 1)"
proof -
  have c: "on_projective_curve 0 1 1" by (simp add: on_projective_curve_def)
  have d: "double_point (0, 1, 1) = (0, FIELD_P - 1, FIELD_P - 1)" unfolding double_point_mod by (simp add: FIELD_P_num)
  from doubling_step_is_the_addition_law [OF c d] c d show ?thesis by blast
qed

text \<open>The encoding of the identity decodes and is canonical; it is the first point that
  admissibility refuses.\<close>

definition identity_bytes :: "byte list" where
  "identity_bytes = 1 # replicate 31 0"

lemma identity_value: "bytesToLittleEndian identity_bytes = 1"
  by (simp add: identity_bytes_def numeral_eq_Suc)

lemma identity_decodes: "decodePoint identity_bytes = Some \<lparr>point_x = 0, point_y = 1\<rparr>"
proof -
  have "modP (CURVE_D + 1) \<noteq> 0" by (simp add: modP_mod CURVE_D_def FIELD_P_num)
  moreover have "modP 1 = 1" "modP 0 = 0" by (simp_all add: modP_mod)
  moreover have "powMod 0 SQRT_EXP = 0" by (simp add: powMod_eq SQRT_EXP_def FIELD_P_num)
  ultimately show ?thesis
    by (simp add: decodePoint_def identity_value LOW_255_and Let_def drop_bit_eq_div)
qed

lemma identity_canonical: "isCanonicalEncoding identity_bytes \<lparr>point_x = 0, point_y = 1\<rparr>"
  by (simp add: isCanonicalEncoding_def identity_value LOW_255_and FIELD_P_num drop_bit_eq_div)

theorem canonical_encoding_unique_witness:
  "decodePoint identity_bytes = Some \<lparr>point_x = 0, point_y = 1\<rparr> \<and> (1 # replicate 31 0 = identity_bytes)"
proof -
  have l: "length identity_bytes = 32" by (simp add: identity_bytes_def)
  from canonical_encoding_unique [OF l l identity_decodes identity_decodes identity_canonical identity_canonical] identity_decodes
  show ?thesis by (simp add: identity_bytes_def)
qed

lemma hex_nibble_value: "0 \<le> n \<Longrightarrow> n < 16 \<Longrightarrow> hex_value (hex_nibble n) = Some n"
  by (auto simp: hex_value_def hex_nibble_def Let_def of_char_of)

lemma bytes_hex_pairs: "hex_pairs (bytesToHex bs) = bs"
proof (induction bs)
  case (Cons b bs)
  have "0 \<le> uint b div 16" "uint b div 16 < 16" "0 \<le> uint b mod 16" "uint b mod 16 < 16"
    using uint_byte [of b] by (simp_all add: div_less_iff_less_mult pos_imp_zdiv_nonneg_iff)
  moreover have "16 * (uint b div 16) + uint b mod 16 = uint b" by (rule mult_div_mod_eq)
  ultimately show ?case using Cons by (simp add: bytesToHex_def hex_nibble_value)
qed (simp add: bytesToHex_def)


lemma bytes_hex_digits: "list_all (\<lambda>c. hex_value c \<noteq> None) (bytesToHex bs) \<and> length (bytesToHex bs) = 2 * length bs"
proof (induction bs)
  case (Cons b bs)
  have "hex_value (hex_nibble (uint b div 16)) \<noteq> None" "hex_value (hex_nibble (uint b mod 16)) \<noteq> None"
    using hex_nibble_value [of "uint b div 16"] hex_nibble_value [of "uint b mod 16"] uint_byte [of b]
    by (simp_all add: div_less_iff_less_mult pos_imp_zdiv_nonneg_iff)
  with Cons show ?case by (simp add: bytesToHex_def)
qed (simp add: bytesToHex_def)

text \<open>Bytes written as hexadecimal read back as the same bytes; the empty string is refused.\<close>

theorem hex_round_trip: "hexToBytes (bytesToHex bs) = (if bs = [] then None else Some bs)"
proof -
  have "bytesToHex bs = [] \<longleftrightarrow> bs = []" using bytes_hex_digits [of bs] by (metis length_0_conv mult_is_0 zero_neq_numeral)
  then show ?thesis using bytes_hex_digits [of bs] by (simp add: hexToBytes_def bytes_hex_pairs)
qed

lemma hex_pairs_length: "even (length h) \<Longrightarrow> length h = 2 * length (hex_pairs h)"
  by (induction h rule: hex_pairs.induct) auto

text \<open>Every signature of the system passes the gate: an accepted one has a 32-byte key and a
  64-byte signature in hexadecimal, both points admissible, and satisfies the platform's
  equation; nothing else is accepted, and no input makes the verifier throw.\<close>

theorem verified_signature_is_admissible:
  "verify_message node_verify m sig pk \<longleftrightarrow>
     (\<exists>k s. hexToBytes pk = Some k \<and> hexToBytes sig = Some s \<and> length k = 32 \<and> length s = 64
        \<and> isAdmissiblePoint k \<and> isAdmissiblePoint (take 32 s) \<and> node_verify m k s = Some True)"
proof -
  have len: "length h = 2 * length b" if "hexToBytes h = Some b" for h b
    using that hex_pairs_length [of h] by (auto simp: hexToBytes_def even_iff_mod_2_eq_zero split: if_splits)
  show ?thesis
    by (auto simp: verify_message_def isAdmissibleKeyMaterial_def dest: len split: option.splits if_splits)
qed

end
