(* ===== verification/Legacy_Delegation.thy ===== *)
theory Legacy_Delegation
  imports Authority_System Rfc3339
begin

text \<open>
  \<^verbatim>\<open>src/core/delegation.ts\<close> over \<^verbatim>\<open>src/core/canonical.ts\<close>: the first-generation delegation
  record, kept for deployments that still sign and verify it.  Creation, narrowing into a
  child, verification under a revocation policy, action receipts, and the scope rule of this
  surface.

  Numbers are rationals.  Every reading of the clock is a value of \<open>clk\<close>, in the order the code
  reads it, within the years the formatter covers; a fresh identifier is an argument.  The
  marker of the JSON type stands for \<open>undefined\<close>.
\<close>

section \<open>Legacy canonical form\<close>

fun canonicalize :: "(rat \<Rightarrow> string) \<Rightarrow> json \<Rightarrow> string" where
  "canonicalize fmt JNull = ''null''"
| "canonicalize fmt JMark = ''null''"
| "canonicalize fmt (JBool b) = (if b then ''true'' else ''false'')"
| "canonicalize fmt (JNum r) = stringify_number fmt r"
| "canonicalize fmt (JStr s) = stringify_string s"
| "canonicalize fmt (JArr xs) = CHR ''['' # join_with CHR '','' (map (canonicalize fmt) xs) @ '']''"
| "canonicalize fmt (JObj kvs) =
     CHR ''{'' # join_with CHR '',''
       (map (\<lambda>(k, v). stringify_string k @ CHR '':'' # v)
         (sort_key fst (map (\<lambda>(k, v). (k, canonicalize fmt v)) (filter (\<lambda>(k, v). v \<noteq> JNull \<and> v \<noteq> JMark) kvs)))) @ ''}''"

text \<open>The write twin refuses an unsafe integer that it would emit.\<close>

fun legacy_unsafe :: "json \<Rightarrow> bool" where
  "legacy_unsafe (JNum r) = isUnsafeWriteInteger r"
| "legacy_unsafe (JArr xs) = list_ex legacy_unsafe xs"
| "legacy_unsafe (JObj kvs) = list_ex (\<lambda>(k, v). legacy_unsafe v) kvs"
| "legacy_unsafe _ = False"

definition canonicalizeForWrite :: "(rat \<Rightarrow> string) \<Rightarrow> json \<Rightarrow> (jcs_error, string) result" where
  "canonicalizeForWrite fmt j = (if legacy_unsafe j then Inl UnsafeIntegerError else Inr (canonicalize fmt j))"

section \<open>Scope rule\<close>

definition scopeCovers :: "string \<Rightarrow> string \<Rightarrow> bool" where
  "scopeCovers granted need =
     (if granted = need then True
      else if granted = ''*'' then True
      else if startsWith need (granted @ '':'') then True
      else if endsWith granted '':*'' then
        (let pfx = drop_last2 granted in need = pfx \<or> startsWith need (pfx @ '':''))
      else False)"

definition scopeAuthorizes :: "string list \<Rightarrow> string \<Rightarrow> bool" where
  "scopeAuthorizes delegationScope need = list_ex (\<lambda>s. scopeCovers s need) delegationScope"

section \<open>Records\<close>

record DerivationRights =
  retention_permitted :: bool
  retention_ttl :: "rat option"
  derivation_classes :: "string list option"
  export_permitted :: bool

record DelegationFields =
  delegationId :: string
  delegatedTo :: string
  delegatedBy :: string
  dg_scope :: "string list"
  scopeInterpretation :: "string option"
  expiresAt :: string
  notBefore :: "string option"
  spendLimit :: "rat option"
  spentAmount :: "rat option"
  spendLimitUnit :: "string option"
  maxDepth :: rat
  currentDepth :: rat
  createdAt :: string
  obligationBundleHash :: "string option"
  revocationCheckUrl :: "string option"
  derivation_rights :: "DerivationRights option"
  observation_policy :: "json option"
  credentialCheckPolicy :: "json option"

record Delegation = DelegationFields +
  dg_signature :: string

definition text_entry :: "string \<Rightarrow> string option \<Rightarrow> (string \<times> json) list" where
  "text_entry k v = (case v of None \<Rightarrow> [] | Some s \<Rightarrow> [(k, JStr s)])"

definition number_entry :: "string \<Rightarrow> rat option \<Rightarrow> (string \<times> json) list" where
  "number_entry k v = (case v of None \<Rightarrow> [] | Some r \<Rightarrow> [(k, JNum r)])"

definition value_entry :: "string \<Rightarrow> json option \<Rightarrow> (string \<times> json) list" where
  "value_entry k v = (case v of None \<Rightarrow> [] | Some j \<Rightarrow> [(k, j)])"

definition rights_json :: "DerivationRights \<Rightarrow> json" where
  "rights_json r = JObj ([(''retention_permitted'', JBool (retention_permitted r))] @ number_entry ''retention_ttl'' (retention_ttl r)
     @ value_entry ''derivation_classes'' (map_option (\<lambda>cs. JArr (map JStr cs)) (derivation_classes r))
     @ [(''export_permitted'', JBool (export_permitted r))])"

definition delegation_json :: "'a DelegationFields_scheme \<Rightarrow> json" where
  "delegation_json d = JObj
     ([(''delegationId'', JStr (delegationId d)), (''delegatedTo'', JStr (delegatedTo d)), (''delegatedBy'', JStr (delegatedBy d)),
       (''scope'', JArr (map JStr (dg_scope d)))] @ text_entry ''scopeInterpretation'' (scopeInterpretation d)
      @ [(''expiresAt'', JStr (expiresAt d))] @ number_entry ''spendLimit'' (spendLimit d) @ number_entry ''spentAmount'' (spentAmount d)
      @ text_entry ''spendLimitUnit'' (spendLimitUnit d)
      @ [(''maxDepth'', JNum (maxDepth d)), (''currentDepth'', JNum (currentDepth d)), (''createdAt'', JStr (createdAt d))]
      @ text_entry ''obligationBundleHash'' (obligationBundleHash d) @ text_entry ''revocationCheckUrl'' (revocationCheckUrl d)
      @ text_entry ''notBefore'' (notBefore d) @ value_entry ''derivation_rights'' (map_option rights_json (derivation_rights d))
      @ value_entry ''observation_policy'' (observation_policy d) @ value_entry ''credentialCheckPolicy'' (credentialCheckPolicy d))"

datatype DelegationIssue =
    Not_an_object | Invalid_delegation_signature | Invalid_expiresAt | Delegation_expired | Invalid_notBefore | Delegation_not_yet_valid
  | Cache_unreadable_as_revoked | Cache_expired_as_revoked | Revoked_cached | No_revocation_evidence | Evidence_unreadable | Evidence_stale
  | Depth_exceeded

datatype DelegationError =
    DelegatedTo_required | DelegatedBy_required | PrivateKey_required | SpendLimit_invalid | Telemetry_needs_derivation_rights
  | Instant_not_representable | Unsafe_integer | Depth_limit_exceeded | Scope_violation "string list" | Retention_not_permitted
  | Retention_ttl_exceeded | Export_not_permitted | Classes_not_permitted "string list" | Derivation_rights_introduced | Spend_unit_changed
  | Spend_limit_exceeded | Parent_expiry_invalid | Parent_expired | Parent_invalid "DelegationIssue list" | Unknown_policy
  | Receipt_under_invalid_delegation "DelegationIssue list" | Receipt_scope_not_granted | Receipt_spend_exceeds

section \<open>Creation\<close>

record CreateDelegationOptions =
  cd_delegatedTo :: string
  cd_delegatedBy :: string
  cd_scope :: "string list"
  cd_scopeInterpretation :: "string option"
  cd_spendLimit :: "rat option"
  cd_spendLimitUnit :: "string option"
  cd_maxDepth :: "rat option"
  cd_currentDepth :: "rat option"
  cd_expiresInHours :: "rat option"
  cd_expiresAt :: "string option"
  cd_notBefore :: "string option"
  cd_derivation_rights :: "DerivationRights option"
  cd_observation_policy :: "json option"
  cd_credentialCheckPolicy :: "json option"
  cd_privateKey :: string

definition truncated :: "rat \<Rightarrow> int" where
  "truncated r = (if 0 \<le> r then \<lfloor>r\<rfloor> else \<lceil>r\<rceil>)"

definition iso_instant :: "int \<Rightarrow> (DelegationError, string) result" where
  "iso_instant ms = (case formatRfc3339 ms of None \<Rightarrow> Inl Instant_not_representable | Some s \<Rightarrow> Inr s)"

text \<open>A text option the code tests for truth: the empty string counts as absent.\<close>

definition truthy :: "string option \<Rightarrow> string option" where
  "truthy v = (if v = Some [] then None else v)"

definition delegation_fields :: "string \<Rightarrow> string \<Rightarrow> string \<Rightarrow> CreateDelegationOptions \<Rightarrow> DelegationFields" where
  "delegation_fields uuid expiry created o' =
     \<lparr>delegationId = ''del_'' @ take 12 uuid, delegatedTo = cd_delegatedTo o', delegatedBy = cd_delegatedBy o', dg_scope = cd_scope o',
     scopeInterpretation = truthy (cd_scopeInterpretation o'), expiresAt = expiry,
     notBefore = Some (case cd_notBefore o' of None \<Rightarrow> created | Some n \<Rightarrow> n), spendLimit = cd_spendLimit o', spentAmount = Some 0,
     spendLimitUnit = truthy (cd_spendLimitUnit o'), maxDepth = (case cd_maxDepth o' of None \<Rightarrow> 1 | Some n \<Rightarrow> n),
     currentDepth = (case cd_currentDepth o' of None \<Rightarrow> 0 | Some n \<Rightarrow> n), createdAt = created,
     obligationBundleHash = None, revocationCheckUrl = None, derivation_rights = cd_derivation_rights o', observation_policy = cd_observation_policy o',
     credentialCheckPolicy = cd_credentialCheckPolicy o'\<rparr>"

definition createDelegation :: "crypto \<Rightarrow> string \<Rightarrow> int \<Rightarrow> CreateDelegationOptions \<Rightarrow> (DelegationError, Delegation) result" where
  "createDelegation C uuid t o' =
     (if cd_delegatedTo o' = [] then Inl DelegatedTo_required
      else if cd_delegatedBy o' = [] then Inl DelegatedBy_required
      else if cd_privateKey o' = [] then Inl PrivateKey_required
      else if (case cd_spendLimit o' of None \<Rightarrow> False | Some s \<Rightarrow> s < 0) then Inl SpendLimit_invalid
      else if list_ex (\<lambda>s. startsWith s ''telemetry:'') (cd_scope o') \<and> cd_derivation_rights o' = None then Inl Telemetry_needs_derivation_rights
      else bindE (case cd_expiresAt o' of Some e \<Rightarrow> Inr e
             | None \<Rightarrow> iso_instant (truncated (of_int t + (case cd_expiresInHours o' of None \<Rightarrow> 24 | Some h \<Rightarrow> h) * 3600000))) (\<lambda>expiry.
           bindE (iso_instant t) (\<lambda>created.
           let d = delegation_fields uuid expiry created o' in
           case canonicalizeForWrite (format_number C) (delegation_json d) of
             Inl _ \<Rightarrow> Inl Unsafe_integer
           | Inr bytes \<Rightarrow> Inr (DelegationFields.extend d \<lparr>dg_signature = ed25519_sign C bytes (cd_privateKey o')\<rparr>))))"


section \<open>Verification\<close>

definition REVOCATION_CHECK_POLICIES :: "string list" where
  "REVOCATION_CHECK_POLICIES = [''fail_open'', ''fail_closed'', ''cache_grace'']"

definition DEFAULT_REVOCATION_FRESHNESS_MS :: rat where
  "DEFAULT_REVOCATION_FRESHNESS_MS = 300000"

text \<open>A number of milliseconds a caller configures; \<open>Endless\<close> is \<open>Infinity\<close>.\<close>

datatype millis = Millis rat | Endless

definition within_window :: "int \<Rightarrow> millis \<Rightarrow> bool" where
  "within_window age w = (case w of Endless \<Rightarrow> True | Millis m \<Rightarrow> of_int age \<le> m)"

record CachedRevocationState =
  cached_revoked :: bool
  checkedAt :: string

record RevocationCheckOptions =
  revocationCheckPolicy :: "string option"
  cachedRevocationState :: "CachedRevocationState option"
  cacheGraceMs :: "millis option"

definition no_revocation_options :: RevocationCheckOptions where
  "no_revocation_options = \<lparr>revocationCheckPolicy = None, cachedRevocationState = None, cacheGraceMs = None\<rparr>"

datatype EvidenceGrade = Evidence_absent | Evidence_graded_stale | Evidence_fresh

record DelegationStatus =
  ds_revoked :: bool
  ds_expired :: bool
  ds_notYetValid :: bool
  ds_depthExceeded :: bool
  ds_revokedAt :: "string option"
  ds_errors :: "DelegationIssue list"
  ds_evidence :: EvidenceGrade

definition ds_valid :: "DelegationStatus \<Rightarrow> bool" where
  "ds_valid s \<longleftrightarrow> ds_errors s = []"

definition expiry_check :: "int \<Rightarrow> string \<Rightarrow> DelegationIssue list \<times> bool" where
  "expiry_check t e = (case parseRfc3339 (JStr e) of
     Inl _ \<Rightarrow> ([Invalid_expiresAt], True) | Inr ms \<Rightarrow> if ms < t then ([Delegation_expired], True) else ([], False))"

definition start_check :: "int \<Rightarrow> string option \<Rightarrow> DelegationIssue list \<times> bool" where
  "start_check t n = (case truthy n of None \<Rightarrow> ([], False) | Some s \<Rightarrow> (case parseRfc3339 (JStr s) of
     Inl _ \<Rightarrow> ([Invalid_notBefore], False) | Inr ms \<Rightarrow> if ms > t then ([Delegation_not_yet_valid], True) else ([], False)))"

definition grade_evidence :: "int \<Rightarrow> RevocationCheckOptions \<Rightarrow> EvidenceGrade \<times> bool" where
  "grade_evidence t o' =
     (case cachedRevocationState o' of
        None \<Rightarrow> (Evidence_absent, False)
      | Some c \<Rightarrow>
          (case parseRfc3339 (JStr (checkedAt c)) of
             Inl _ \<Rightarrow> (Evidence_graded_stale, True)
           | Inr ms \<Rightarrow>
               let age = t - ms in
               (if 0 \<le> age \<and> within_window age (case cacheGraceMs o' of None \<Rightarrow> Millis DEFAULT_REVOCATION_FRESHNESS_MS | Some w \<Rightarrow> w)
                then Evidence_fresh else Evidence_graded_stale, False)))"

definition revocation_check :: "string \<Rightarrow> RevocationCheckOptions \<Rightarrow> EvidenceGrade \<Rightarrow> bool \<Rightarrow> DelegationIssue list \<times> bool \<times> string option" where
  "revocation_check policy o' grade unreadable =
     (case cachedRevocationState o' of
        None \<Rightarrow> ([], False, None)
      | Some c \<Rightarrow>
          let as_revoked = policy = ''cache_grace'' \<and> grade = Evidence_graded_stale;
              revoked = (as_revoked \<or> cached_revoked c) in
          ((if as_revoked then [if unreadable then Cache_unreadable_as_revoked else Cache_expired_as_revoked] else [])
             @ (if revoked then [Revoked_cached] else []),
           revoked, if revoked then Some (checkedAt c) else None))"

definition closed_check :: "string \<Rightarrow> EvidenceGrade \<Rightarrow> bool \<Rightarrow> DelegationIssue list" where
  "closed_check policy grade unreadable =
     (if policy = ''fail_closed'' \<and> grade \<noteq> Evidence_fresh
      then [if grade = Evidence_absent then No_revocation_evidence else if unreadable then Evidence_unreadable else Evidence_stale] else [])"

text \<open>\<open>None\<close> is an argument that is not an object.  The clock is read for the expiry, the start and
  the age of the evidence.\<close>

definition verifyDelegation :: "crypto \<Rightarrow> (nat \<Rightarrow> int) \<Rightarrow> Delegation option \<Rightarrow> RevocationCheckOptions \<Rightarrow> (DelegationError, DelegationStatus) result" where
  "verifyDelegation C clk arg o' =
     (case arg of
        None \<Rightarrow> Inr \<lparr>ds_revoked = False, ds_expired = False, ds_notYetValid = False, ds_depthExceeded = False, ds_revokedAt = None,
                   ds_errors = [Not_an_object], ds_evidence = Evidence_absent\<rparr>
      | Some d \<Rightarrow>
          if (case revocationCheckPolicy o' of None \<Rightarrow> False | Some p \<Rightarrow> p \<notin> set REVOCATION_CHECK_POLICIES) then Inl Unknown_policy
          else
            let policy = (case revocationCheckPolicy o' of None \<Rightarrow> ''fail_open'' | Some p \<Rightarrow> p);
                sig_errors = (if ed25519_verify C (canonicalize (format_number C) (delegation_json d)) (dg_signature d) (delegatedBy d)
                  then [] else [Invalid_delegation_signature]);
                (exp_errors, expired) = expiry_check (clk 0) (expiresAt d);
                (start_errors, early) = start_check (clk 1) (notBefore d);
                (grade, unreadable) = grade_evidence (clk 2) o';
                (rev_errors, revoked, revokedAt) = revocation_check policy o' grade unreadable;
                depth = currentDepth d > maxDepth d in
            Inr \<lparr>ds_revoked = revoked, ds_expired = expired, ds_notYetValid = early, ds_depthExceeded = depth, ds_revokedAt = revokedAt,
               ds_errors = sig_errors @ exp_errors @ start_errors @ rev_errors @ closed_check policy grade unreadable
                 @ (if depth then [Depth_exceeded] else []),
               ds_evidence = grade\<rparr>)"

section \<open>Narrowing\<close>

record SubDelegateOptions =
  parentDelegation :: Delegation
  sd_delegatedTo :: string
  sd_scope :: "string list"
  sd_spendLimit :: "rat option"
  sd_spendLimitUnit :: "string option"
  sd_derivation_rights :: "DerivationRights option"
  sd_privateKey :: string
  sd_revocation :: RevocationCheckOptions

definition derivation_error :: "DerivationRights option \<Rightarrow> DerivationRights option \<Rightarrow> DelegationError option" where
  "derivation_error parent child =
     (case child of
        None \<Rightarrow> None
      | Some cr \<Rightarrow>
          (case parent of
             None \<Rightarrow> Some Derivation_rights_introduced
           | Some pr \<Rightarrow>
               if \<not> retention_permitted pr \<and> retention_permitted cr then Some Retention_not_permitted
               else if (case (retention_ttl pr, retention_ttl cr) of (Some a, Some b) \<Rightarrow> b > a | _ \<Rightarrow> False) then Some Retention_ttl_exceeded
               else if \<not> export_permitted pr \<and> export_permitted cr then Some Export_not_permitted
               else (case (derivation_classes pr, derivation_classes cr) of
                   (Some ps, Some cs) \<Rightarrow>
                     let invalid = filter (\<lambda>c. c \<notin> set ps) cs in if invalid \<noteq> [] then Some (Classes_not_permitted invalid) else None
                 | _ \<Rightarrow> None)))"

definition spend_unit_of :: "'a DelegationFields_scheme \<Rightarrow> string option" where
  "spend_unit_of p = (case spendLimitUnit p of Some u \<Rightarrow> Some u | None \<Rightarrow> (if spendLimit p \<noteq> None then Some ''currency'' else None))"

text \<open>What is left of a limit; \<open>None\<close> is \<open>Infinity\<close>.\<close>

definition parent_remaining :: "'a DelegationFields_scheme \<Rightarrow> rat option" where
  "parent_remaining p = (case spendLimit p of None \<Rightarrow> None | Some l \<Rightarrow> Some (l - (case spentAmount p of None \<Rightarrow> 0 | Some s \<Rightarrow> s)))"

definition exceeds :: "rat option \<Rightarrow> rat option \<Rightarrow> bool" where
  "exceeds v limit = (case (v, limit) of (Some a, Some l) \<Rightarrow> a > l | _ \<Rightarrow> False)"

definition subDelegate :: "crypto \<Rightarrow> string \<Rightarrow> (nat \<Rightarrow> int) \<Rightarrow> SubDelegateOptions \<Rightarrow> (DelegationError, Delegation) result" where
  "subDelegate C uuid clk o' =
     (let parent = parentDelegation o';
          invalidScopes = filter (\<lambda>s. \<not> list_ex (\<lambda>ps. scopeCovers ps s) (dg_scope parent)) (sd_scope o');
          parentUnit = spend_unit_of parent;
          childUnit = (case sd_spendLimitUnit o' of Some u \<Rightarrow> Some u | None \<Rightarrow> parentUnit);
          hasSpend = (spendLimit parent \<noteq> None \<or> spendLimitUnit parent \<noteq> None);
          sharesBudget = (parentUnit \<noteq> None \<and> childUnit = parentUnit \<and> spendLimit parent \<noteq> None) in
      if currentDepth parent + 1 > maxDepth parent then Inl Depth_limit_exceeded
      else if invalidScopes \<noteq> [] then Inl (Scope_violation invalidScopes)
      else case derivation_error (derivation_rights parent) (sd_derivation_rights o') of
        Some e \<Rightarrow> Inl e
      | None \<Rightarrow>
        if hasSpend \<and> childUnit \<noteq> parentUnit then Inl Spend_unit_changed
        else if sharesBudget \<and> exceeds (sd_spendLimit o') (parent_remaining parent) then Inl Spend_limit_exceeded
        else case parseRfc3339 (JStr (expiresAt parent)) of
          Inl _ \<Rightarrow> Inl Parent_expiry_invalid
        | Inr parentMs \<Rightarrow>
          if parentMs - clk 0 \<le> 0 then Inl Parent_expired
          else bindE (verifyDelegation C (\<lambda>i. clk (Suc i)) (Some parent) (sd_revocation o')) (\<lambda>st.
            if \<not> ds_valid st then Inl (Parent_invalid (ds_errors st))
            else bindE (iso_instant (min (clk 0 + 24 * 3600000) parentMs)) (\<lambda>childExpiresAt.
              createDelegation C uuid (clk 4)
                \<lparr>cd_delegatedTo = sd_delegatedTo o', cd_delegatedBy = delegatedTo parent, cd_scope = sd_scope o',
                 cd_scopeInterpretation = scopeInterpretation parent,
                 cd_spendLimit = (case sd_spendLimit o' of Some s \<Rightarrow> Some s | None \<Rightarrow> (if sharesBudget then parent_remaining parent else None)),
                 cd_spendLimitUnit = childUnit, cd_maxDepth = Some (maxDepth parent), cd_currentDepth = Some (currentDepth parent + 1),
                 cd_expiresInHours = None, cd_expiresAt = Some childExpiresAt, cd_notBefore = notBefore parent,
                 cd_derivation_rights = (case sd_derivation_rights o' of Some r \<Rightarrow> Some r | None \<Rightarrow> derivation_rights parent),
                 cd_observation_policy = observation_policy parent, cd_credentialCheckPolicy = None, cd_privateKey = sd_privateKey o'\<rparr>)))"


section \<open>Revocations and receipts\<close>

definition isRecord :: "json \<Rightarrow> members option" where
  "isRecord j = (case j of JObj m \<Rightarrow> Some m | _ \<Rightarrow> None)"

definition unsigned_members :: "members \<Rightarrow> members" where
  "unsigned_members m = filter (\<lambda>kv. fst kv \<noteq> ''signature'') m"

definition legacy_signed :: "crypto \<Rightarrow> members \<Rightarrow> string option \<Rightarrow> bool" where
  "legacy_signed C m pk =
     (case (get_str m ''signature'', pk) of
        (Some s, Some k) \<Rightarrow> ed25519_verify C (canonicalize (format_number C) (JObj (unsigned_members m))) s k
      | _ \<Rightarrow> False)"

definition verifyRevocation :: "crypto \<Rightarrow> json \<Rightarrow> bool" where
  "verifyRevocation C j = (case isRecord j of None \<Rightarrow> False | Some m \<Rightarrow> legacy_signed C m (get_str m ''revokedBy''))"

record ReceiptSpend =
  spend_amount :: rat
  spend_currency :: string

record CreateReceiptOptions =
  cr_agentId :: string
  cr_delegationId :: string
  cr_delegation :: Delegation
  action_kind :: string
  action_target :: string
  action_method :: "string option"
  scopeUsed :: string
  action_spend :: "ReceiptSpend option"
  result_status :: string
  result_summary :: string
  delegationChain :: "string list"
  cr_privateKey :: string
  cr_revocation :: RevocationCheckOptions

definition receipt_members :: "CreateReceiptOptions \<Rightarrow> string \<Rightarrow> string \<Rightarrow> members" where
  "receipt_members o' uuid ts =
     [(''receiptId'', JStr (''rcpt_'' @ take 12 uuid)), (''version'', JStr ''1.1''), (''timestamp'', JStr ts), (''agentId'', JStr (cr_agentId o')),
      (''delegationId'', JStr (cr_delegationId o')),
      (''action'', JObj ([(''type'', JStr (action_kind o')), (''target'', JStr (action_target o'))] @ text_entry ''method'' (action_method o')
         @ [(''scopeUsed'', JStr (scopeUsed o'))]
         @ (case action_spend o' of None \<Rightarrow> []
            | Some s \<Rightarrow> [(''spend'', JObj [(''amount'', JNum (spend_amount s)), (''currency'', JStr (spend_currency s))])]))),
      (''result'', JObj [(''status'', JStr (result_status o')), (''summary'', JStr (result_summary o'))]),
      (''delegationChain'', JArr (map JStr (delegationChain o')))]"

definition createReceipt :: "crypto \<Rightarrow> string \<Rightarrow> (nat \<Rightarrow> int) \<Rightarrow> CreateReceiptOptions \<Rightarrow> (DelegationError, members) result" where
  "createReceipt C uuid clk o' =
     bindE (verifyDelegation C clk (Some (cr_delegation o')) (cr_revocation o')) (\<lambda>st.
       if \<not> ds_valid st then Inl (Receipt_under_invalid_delegation (ds_errors st))
       else if \<not> scopeAuthorizes (dg_scope (cr_delegation o')) (scopeUsed o') then Inl Receipt_scope_not_granted
       else if exceeds (map_option spend_amount (action_spend o')) (parent_remaining (cr_delegation o')) then Inl Receipt_spend_exceeds
       else bindE (iso_instant (clk 3)) (\<lambda>ts.
         case canonicalizeForWrite (format_number C) (JObj (receipt_members o' uuid ts)) of
           Inl _ \<Rightarrow> Inl Unsafe_integer
         | Inr bytes \<Rightarrow> Inr (receipt_members o' uuid ts @ [(''signature'', JStr (ed25519_sign C bytes (cr_privateKey o')))])))"

datatype ReceiptIssue = Invalid_receipt_signature | Unsupported_receipt_version

definition verifyReceipt :: "crypto \<Rightarrow> members \<Rightarrow> string \<Rightarrow> ReceiptIssue list" where
  "verifyReceipt C m pk =
     (if legacy_signed C m (Some pk) then [] else [Invalid_receipt_signature])
     @ (if get_str m ''version'' \<noteq> Some ''1.1'' then [Unsupported_receipt_version] else [])"

section \<open>Canonical form\<close>

text \<open>The legacy form is the strict form of the value without its null members.\<close>

fun strip_nulls :: "json \<Rightarrow> json" where
  "strip_nulls (JArr xs) = JArr (map strip_nulls xs)"
| "strip_nulls (JObj kvs) = JObj (map (\<lambda>(k, v). (k, strip_nulls v)) (filter (\<lambda>(k, v). v \<noteq> JNull \<and> v \<noteq> JMark) kvs))"
| "strip_nulls JMark = JNull"
| "strip_nulls j = j"

lemma canonicalize_strips: "canonicalize fmt j = canonicalizeValue fmt (strip_nulls j)"
proof (induction j rule: strip_nulls.induct)
  case (1 xs)
  then show ?case by (simp cong: map_cong)
next
  case (2 kvs)
  have "map (\<lambda>(k, v). (k, canonicalize fmt v)) (filter (\<lambda>(k, v). v \<noteq> JNull \<and> v \<noteq> JMark) kvs)
      = map (\<lambda>(k, v). (k, canonicalizeValue fmt v)) (map (\<lambda>(k, v). (k, strip_nulls v)) (filter (\<lambda>(k, v). v \<noteq> JNull \<and> v \<noteq> JMark) kvs))"
    using 2 by (auto intro!: map_cong)
  then show ?case unfolding canonicalize.simps strip_nulls.simps canonicalizeValue.simps by (rule arg_cong)
qed simp_all

section \<open>Scope rule against the grammar of the draft\<close>

lemma scopeCovers_iff:
  "scopeCovers g r \<longleftrightarrow> g = ''*'' \<or> seg_prefix g r \<or> (\<exists>q. g = q @ '':*'' \<and> seg_prefix q r)"
  by (auto simp: scopeCovers_def seg_prefix_def Let_def js_string)

lemma seg_prefix_grantPrefix:
  assumes "seg_prefix q r" and "\<not> endsWith q '':*''"
  shows "seg_prefix q (grantPrefix r)"
proof (cases "endsWith r '':*''")
  case True
  then obtain s where r: "r = s @ '':*''" by (elim endsWith_wildE)
  with assms obtain t where "q @ '':'' @ t = s @ '':*''" by (auto simp: seg_prefix_def)
  then consider us where "q = s @ us" "us @ '':'' @ t = '':*''" | us where "q @ us = s" "'':'' @ t = us @ '':*''"
    by (auto simp: append_eq_append_conv2)
  then have "seg_prefix q s"
    by cases (auto simp: seg_prefix_def append_eq_Cons_conv Cons_eq_append_conv)
  then show ?thesis by (simp add: r)
next
  case False
  with assms show ?thesis by (simp add: grantPrefix_plain)
qed

lemma grantPrefix_seg_prefix: "seg_prefix q (grantPrefix r) \<Longrightarrow> seg_prefix q r"
  by (cases "endsWith r '':*''") (auto elim!: endsWith_wildE simp: grantPrefix_plain seg_prefix_def)


lemma wild_not_nested: "isValidScopeGrant (q @ '':*'') \<Longrightarrow> q \<noteq> ''*'' \<and> \<not> endsWith q '':*''"
  using valid_wild_prefix_no_star [of q] by (auto elim!: endsWith_wildE)

lemma seg_prefix_star: "seg_prefix q ''*'' \<Longrightarrow> q = ''*''"
  by (auto simp: seg_prefix_def Cons_eq_append_conv)

lemma legacy_covers_trans:
  assumes "isValidScopeGrant p" and "scopeCovers p q" and "scopeCovers q r"
  shows "scopeCovers p r"
proof -
  have through: "seg_prefix a r" if a: "seg_prefix a q" "a \<noteq> ''*''" "\<not> endsWith a '':*''" for a
  proof -
    have "q \<noteq> ''*''" using a(1,2) seg_prefix_star by blast
    with assms(3) consider "seg_prefix q r" | s where "q = s @ '':*''" "seg_prefix s r" by (auto simp: scopeCovers_iff)
    then show ?thesis
    proof cases
      case 1
      with a(1) show ?thesis by (rule seg_prefix_trans)
    next
      case 2
      then have "seg_prefix a s" using seg_prefix_grantPrefix [OF a(1,3)] by simp
      then show ?thesis using 2(2) by (rule seg_prefix_trans)
    qed
  qed
  from assms(2) consider "p = ''*''" | "seg_prefix p q" "p \<noteq> ''*''" | a where "p = a @ '':*''" "seg_prefix a q" by (auto simp: scopeCovers_iff)
  then show ?thesis
  proof cases
    case 2
    show ?thesis
    proof (cases "endsWith p '':*''")
      case True
      then obtain a where a: "p = a @ '':*''" by (elim endsWith_wildE)
      have "seg_prefix a q" using 2(1) unfolding a seg_prefix_def by auto
      with through [of a] wild_not_nested assms(1) a show ?thesis by (auto simp: scopeCovers_iff)
    next
      case False
      with through [OF 2] show ?thesis by (simp add: scopeCovers_iff)
    qed
  next
    case 3
    with through [of a] wild_not_nested assms(1) show ?thesis by (auto simp: scopeCovers_iff)
  qed (simp add: scopeCovers_iff)
qed

interpretation legacy_scope: covering scopeCovers isValidScopeGrant
  by unfold_locales (simp add: scopeCovers_iff, rule legacy_covers_trans)

lemma authorizes_iff: "scopeAuthorizes gs a \<longleftrightarrow> (\<exists>g \<in> set gs. scopeCovers g a)"
  by (simp add: scopeAuthorizes_def list_ex_iff)


section \<open>Creation, verification and narrowing\<close>

text \<open>Guards in front of a result.\<close>

lemma guard_iffs:
  "(if b then Inl x else m) = Inr y \<longleftrightarrow> \<not> b \<and> m = Inr y"
  "(case f of None \<Rightarrow> m | Some x \<Rightarrow> Inl x) = Inr y \<longleftrightarrow> f = None \<and> m = Inr y"
  "(case q of Inl _ \<Rightarrow> Inl x | Inr v \<Rightarrow> g v) = Inr y \<longleftrightarrow> (\<exists>v. q = Inr v \<and> g v = Inr y)"
  "(case h of None \<Rightarrow> Inl x | Some w \<Rightarrow> Inr w) = Inr y \<longleftrightarrow> h = Some y"
  by (auto split: option.split sum.split)

lemma signed_fields:
  "delegation_json (DelegationFields.extend d x) = delegation_json d" "dg_signature (DelegationFields.extend d \<lparr>dg_signature = sg\<rparr>) = sg"
  by (simp_all add: delegation_json_def DelegationFields.defs)

lemma extend_fields:
  "delegatedBy (DelegationFields.extend d x) = delegatedBy d" "delegatedTo (DelegationFields.extend d x) = delegatedTo d"
  "dg_scope (DelegationFields.extend d x) = dg_scope d" "spendLimit (DelegationFields.extend d x) = spendLimit d"
  "maxDepth (DelegationFields.extend d x) = maxDepth d" "currentDepth (DelegationFields.extend d x) = currentDepth d"
  "expiresAt (DelegationFields.extend d x) = expiresAt d" "derivation_rights (DelegationFields.extend d x) = derivation_rights d"
  "spentAmount (DelegationFields.extend d x) = spentAmount d" "notBefore (DelegationFields.extend d x) = notBefore d"
  by (simp_all add: DelegationFields.defs)

lemma created_record:
  assumes "createDelegation C uuid t o' = Inr d"
  obtains expiry created where
    "(case cd_expiresAt o' of None \<Rightarrow> iso_instant (truncated (of_int t + (case cd_expiresInHours o' of None \<Rightarrow> 24 | Some h \<Rightarrow> h) * 3600000)) | Some e \<Rightarrow> Inr e) = Inr expiry"
    "iso_instant t = Inr created"
    "d = DelegationFields.extend (delegation_fields uuid expiry created o')
       \<lparr>dg_signature = ed25519_sign C (canonicalize (format_number C) (delegation_json (delegation_fields uuid expiry created o'))) (cd_privateKey o')\<rparr>"
    "(case cd_spendLimit o' of None \<Rightarrow> True | Some s \<Rightarrow> 0 \<le> s)"
proof -
  from assms [unfolded createDelegation_def Let_def guard_iffs bindE_Inr_iff canonicalizeForWrite_def] that show thesis
    by (auto simp: not_less split: option.splits)
qed

lemma created_fields:
  assumes "createDelegation C uuid t o' = Inr d"
  shows "delegatedBy d = cd_delegatedBy o'" "delegatedTo d = cd_delegatedTo o'" "dg_scope d = cd_scope o'" "spendLimit d = cd_spendLimit o'"
    "maxDepth d = (case cd_maxDepth o' of None \<Rightarrow> 1 | Some n \<Rightarrow> n)" "currentDepth d = (case cd_currentDepth o' of None \<Rightarrow> 0 | Some n \<Rightarrow> n)"
    "\<forall>e. cd_expiresAt o' = Some e \<longrightarrow> expiresAt d = e" "derivation_rights d = cd_derivation_rights o'" "spentAmount d = Some 0"
    "\<forall>n. cd_notBefore o' = Some n \<longrightarrow> notBefore d = Some n"
    "dg_signature d = ed25519_sign C (canonicalize (format_number C) (delegation_json d)) (cd_privateKey o')"
  by (rule created_record [OF assms], simp add: extend_fields signed_fields delegation_fields_def split: option.splits; fail)+

lemma verified_iff:
  assumes "verifyDelegation C clk (Some d) o' = Inr st"
  shows "ds_valid st \<longleftrightarrow>
    ed25519_verify C (canonicalize (format_number C) (delegation_json d)) (dg_signature d) (delegatedBy d)
    \<and> (\<exists>e. parseRfc3339 (JStr (expiresAt d)) = Inr e \<and> clk 0 \<le> e)
    \<and> (\<forall>n. truthy (notBefore d) = Some n \<longrightarrow> (\<exists>s. parseRfc3339 (JStr n) = Inr s \<and> s \<le> clk 1))
    \<and> \<not> ds_revoked st \<and> (revocationCheckPolicy o' = Some ''fail_closed'' \<longrightarrow> ds_evidence st = Evidence_fresh)
    \<and> currentDepth d \<le> maxDepth d"
proof -
  let ?policy = "case revocationCheckPolicy o' of None \<Rightarrow> ''fail_open'' | Some p \<Rightarrow> p"
  obtain g u where g: "grade_evidence (clk 2) o' = (g, u)" by fastforce
  obtain re rv ra where r: "revocation_check ?policy o' g u = (re, rv, ra)" by (metis prod_cases3)
  obtain ee ex where e: "expiry_check (clk 0) (expiresAt d) = (ee, ex)" by fastforce
  obtain se sx where s: "start_check (clk 1) (notBefore d) = (se, sx)" by fastforce
  have st: "ds_revoked st = rv" "ds_evidence st = g" "ds_errors st = (if ed25519_verify C (canonicalize (format_number C) (delegation_json d)) (dg_signature d) (delegatedBy d)
      then [] else [Invalid_delegation_signature]) @ ee @ se @ re @ closed_check ?policy g u @ (if currentDepth d > maxDepth d then [Depth_exceeded] else [])"
    using assms by (auto simp: verifyDelegation_def Let_def g r e s [unfolded One_nat_def] split: if_splits)
  have ee: "ee = [] \<longleftrightarrow> (\<exists>e. parseRfc3339 (JStr (expiresAt d)) = Inr e \<and> clk 0 \<le> e)"
    using e by (auto simp: expiry_check_def split: sum.splits if_splits)
  have se: "se = [] \<longleftrightarrow> (\<forall>n. truthy (notBefore d) = Some n \<longrightarrow> (\<exists>s. parseRfc3339 (JStr n) = Inr s \<and> s \<le> clk 1))"
    using s by (auto simp: start_check_def split: option.splits sum.splits if_splits)
  have re: "re = [] \<longleftrightarrow> \<not> rv"
    using r by (auto simp: revocation_check_def Let_def split: option.splits if_splits)
  have cl: "closed_check ?policy g u = [] \<longleftrightarrow> (revocationCheckPolicy o' = Some ''fail_closed'' \<longrightarrow> g = Evidence_fresh)"
    by (auto simp: closed_check_def split: option.splits)
  show ?thesis unfolding ds_valid_def st append_is_Nil_conv ee se re cl by (auto simp: not_less)
qed

lemma default_policy_returns:
  "\<exists>st. verifyDelegation C clk (Some d) no_revocation_options = Inr st \<and> \<not> ds_revoked st"
proof -
  obtain ee ex where e: "expiry_check (clk 0) (expiresAt d) = (ee, ex)" by fastforce
  obtain se sx where s: "start_check (clk (Suc 0)) (notBefore d) = (se, sx)" by fastforce
  show ?thesis
    by (simp add: verifyDelegation_def no_revocation_options_def grade_evidence_def revocation_check_def Let_def e s)
qed

lemma sub_delegated:
  assumes "subDelegate C uuid clk o' = Inr c"
  obtains pe st e k where
    "currentDepth (parentDelegation o') + 1 \<le> maxDepth (parentDelegation o')"
    "\<forall>s \<in> set (sd_scope o'). scopeAuthorizes (dg_scope (parentDelegation o')) s"
    "derivation_error (derivation_rights (parentDelegation o')) (sd_derivation_rights o') = None"
    "spendLimit (parentDelegation o') \<noteq> None \<longrightarrow> \<not> exceeds (sd_spendLimit o') (parent_remaining (parentDelegation o'))"
    "parseRfc3339 (JStr (expiresAt (parentDelegation o'))) = Inr pe" "clk 0 < pe"
    "verifyDelegation C (\<lambda>i. clk (Suc i)) (Some (parentDelegation o')) (sd_revocation o') = Inr st" "ds_valid st"
    "formatRfc3339 (min (clk 0 + 24 * 3600000) pe) = Some e" "createDelegation C uuid (clk 4) k = Inr c"
    "cd_delegatedBy k = delegatedTo (parentDelegation o')" "cd_scope k = sd_scope o'" "cd_expiresAt k = Some e"
    "cd_maxDepth k = Some (maxDepth (parentDelegation o'))" "cd_currentDepth k = Some (currentDepth (parentDelegation o') + 1)"
    "cd_spendLimit k = (case sd_spendLimit o' of Some s \<Rightarrow> Some s | None \<Rightarrow>
       (if spendLimit (parentDelegation o') \<noteq> None then parent_remaining (parentDelegation o') else None))"
    "cd_derivation_rights k = (case sd_derivation_rights o' of Some r \<Rightarrow> Some r | None \<Rightarrow> derivation_rights (parentDelegation o'))"
proof -
  let ?p = "parentDelegation o'"
  have unit: "spendLimit ?p \<noteq> None \<Longrightarrow> spend_unit_of ?p \<noteq> None" by (simp add: spend_unit_of_def split: option.split)
  let ?u = "case sd_spendLimitUnit o' of None \<Rightarrow> spend_unit_of ?p | Some u \<Rightarrow> Some u"
  let ?b = "spend_unit_of ?p \<noteq> None \<and> ?u = spend_unit_of ?p \<and> spendLimit ?p \<noteq> None"
  from assms [unfolded subDelegate_def Let_def guard_iffs bindE_Inr_iff iso_instant_def]
  obtain pe st e where g: "\<not> currentDepth ?p + 1 > maxDepth ?p"
      "filter (\<lambda>s. \<not> list_ex (\<lambda>ps. scopeCovers ps s) (dg_scope ?p)) (sd_scope o') = []"
      "derivation_error (derivation_rights ?p) (sd_derivation_rights o') = None"
      "\<not> ((spendLimit ?p \<noteq> None \<or> spendLimitUnit ?p \<noteq> None) \<and> ?u \<noteq> spend_unit_of ?p)"
      "\<not> (?b \<and> exceeds (sd_spendLimit o') (parent_remaining ?p))"
      "parseRfc3339 (JStr (expiresAt ?p)) = Inr pe" "\<not> pe - clk 0 \<le> 0"
      "verifyDelegation C (\<lambda>i. clk (Suc i)) (Some ?p) (sd_revocation o') = Inr st" "ds_valid st"
      "formatRfc3339 (min (clk 0 + 24 * 3600000) pe) = Some e"
      "createDelegation C uuid (clk 4)
                \<lparr>cd_delegatedTo = sd_delegatedTo o', cd_delegatedBy = delegatedTo ?p, cd_scope = sd_scope o',
                 cd_scopeInterpretation = scopeInterpretation ?p,
                 cd_spendLimit = (case sd_spendLimit o' of Some s \<Rightarrow> Some s | None \<Rightarrow> (if ?b then parent_remaining ?p else None)),
                 cd_spendLimitUnit = ?u, cd_maxDepth = Some (maxDepth ?p), cd_currentDepth = Some (currentDepth ?p + 1),
                 cd_expiresInHours = None, cd_expiresAt = Some e, cd_notBefore = notBefore ?p,
                 cd_derivation_rights = (case sd_derivation_rights o' of Some r \<Rightarrow> Some r | None \<Rightarrow> derivation_rights ?p),
                 cd_observation_policy = observation_policy ?p, cd_credentialCheckPolicy = None, cd_privateKey = sd_privateKey o'\<rparr> = Inr c"
    by (elim conjE exE) blast
  have b: "?b \<longleftrightarrow> spendLimit ?p \<noteq> None" using g(4) unit by blast
  have scopes: "\<forall>s \<in> set (sd_scope o'). scopeAuthorizes (dg_scope ?p) s" using g(2) by (simp add: filter_empty_conv scopeAuthorizes_def)
  have depth: "currentDepth ?p + 1 \<le> maxDepth ?p" and later: "clk 0 < pe" using g(1,7) by simp_all
  have spend: "spendLimit ?p \<noteq> None \<longrightarrow> \<not> exceeds (sd_spendLimit o') (parent_remaining ?p)" using g(5) unfolding b by blast
  show thesis by (rule that [OF depth scopes g(3) spend g(6) later g(8-10) g(11) [unfolded b]]) simp_all
qed


lemma created_verifies:
  assumes "createDelegation C uuid t o' = Inr d" and "keypair C (cd_privateKey o') (cd_delegatedBy o')"
    and "cd_expiresAt o' = None" and "cd_notBefore o' = None"
    and "clk 0 \<le> truncated (of_int t + (case cd_expiresInHours o' of None \<Rightarrow> 24 | Some h \<Rightarrow> h) * 3600000)" and "t \<le> clk 1"
    and "(case cd_currentDepth o' of None \<Rightarrow> 0 | Some n \<Rightarrow> n) \<le> (case cd_maxDepth o' of None \<Rightarrow> 1 | Some n \<Rightarrow> n)"
  shows "\<exists>st. verifyDelegation C clk (Some d) no_revocation_options = Inr st \<and> ds_valid st"
proof -
  let ?e = "truncated (of_int t + (case cd_expiresInHours o' of None \<Rightarrow> 24 | Some h \<Rightarrow> h) * 3600000)"
  note f = created_fields [OF assms(1)]
  have inst: "formatRfc3339 ?e = Some (expiresAt d) \<and> (\<exists>n. formatRfc3339 t = Some n \<and> notBefore d = Some n)"
    by (rule created_record [OF assms(1)]) (use assms(3,4) in \<open>auto simp: iso_instant_def extend_fields delegation_fields_def split: option.splits\<close>)
  then obtain n where n: "parseRfc3339 (JStr n) = Inr t" "notBefore d = Some n" and e: "parseRfc3339 (JStr (expiresAt d)) = Inr ?e"
    using formatted_reads_back by blast
  obtain st where st: "verifyDelegation C clk (Some d) no_revocation_options = Inr st" and "\<not> ds_revoked st" using default_policy_returns by blast
  moreover have "ed25519_verify C (canonicalize (format_number C) (delegation_json d)) (dg_signature d) (delegatedBy d)"
    using assms(2) f(1,11) by (simp add: keypair_def)
  ultimately have "ds_valid st"
    using verified_iff [OF st] e n assms(5-7) f(5,6) by (auto simp: no_revocation_options_def truthy_def split: if_splits)
  with st show ?thesis by blast
qed

section \<open>Properties\<close>


text \<open>With well-formed grants at the parent, whatever a legacy child may do its parent may do.\<close>

theorem legacy_authority_shrinks:
  assumes "subDelegate C uuid clk o' = Inr c" and "list_all isValidScopeGrant (dg_scope (parentDelegation o'))" and "scopeAuthorizes (dg_scope c) a"
  shows "scopeAuthorizes (dg_scope (parentDelegation o')) a"
proof -
  obtain k where "\<forall>s \<in> set (sd_scope o'). scopeAuthorizes (dg_scope (parentDelegation o')) s" "createDelegation C uuid (clk 4) k = Inr c" "cd_scope k = sd_scope o'"
    using assms(1) by (elim sub_delegated)
  then have "\<forall>s \<in> set (dg_scope c). \<exists>g \<in> set (dg_scope (parentDelegation o')). scopeCovers g s" using created_fields(3) by (auto simp: authorizes_iff)
  then show ?thesis using legacy_scope.lists_shrink [OF assms(2)] assms(3) unfolding authorizes_iff by blast
qed

text \<open>The legacy scope rule is wider than the rule of the draft on exactly one form: for a well-formed
  grant it covers what the draft covers, and a bare grant also everything below it.\<close>

theorem legacy_scope_rule_exact:
  assumes "isValidScopeGrant g"
  shows "scopeCovers g r \<longleftrightarrow> scopeGrantCovers g r \<or> startsWith r (g @ '':'')"
proof (cases "endsWith g '':*''")
  case True
  then obtain q where q: "g = q @ '':*''" by (elim endsWith_wildE)
  have "\<not> endsWith q '':*''" using wild_not_nested assms q by blast
  then have "seg_prefix q r \<longleftrightarrow> seg_prefix q (grantPrefix r)" using seg_prefix_grantPrefix grantPrefix_seg_prefix by blast
  moreover have "seg_prefix g r \<Longrightarrow> seg_prefix q r" unfolding q seg_prefix_def by auto
  ultimately show ?thesis unfolding scopeCovers_iff q covers_wild by (auto simp: seg_prefix_def js_string)
next
  case False
  then show ?thesis unfolding scopeCovers_iff
    by (cases "g = ''*''") (auto simp: covers_plain seg_prefix_def js_string)
qed

text \<open>A wildcard under a wildcard escapes the rule: the grant \<^verbatim>\<open>*:*\<close> covers the universal grant, which covers
  scopes that \<^verbatim>\<open>*:*\<close> does not.\<close>

theorem legacy_nested_wildcard_widens:
  "scopeCovers ''*:*'' ''*'' \<and> scopeCovers ''*'' ''admin'' \<and> \<not> scopeCovers ''*:*'' ''admin''"
  by code_simp


text \<open>A parent's retention limit is not inherited: a child that restates derivation rights without a
  limit is accepted.\<close>

theorem dropped_retention_limit_is_accepted:
  "derivation_error (Some \<lparr>retention_permitted = True, retention_ttl = Some 60, derivation_classes = Some [''timing''], export_permitted = False\<rparr>)
     (Some \<lparr>retention_permitted = True, retention_ttl = None, derivation_classes = None, export_permitted = False\<rparr>) = None"
  by code_simp

text \<open>C36. Under the closed policy silence is refusal: a delegation is valid only with cached evidence that
  it is not revoked, read at an instant the verifier can parse, not after its own reading and
  within the configured age.\<close>

theorem closed_policy_needs_fresh_evidence:
  assumes "verifyDelegation C clk (Some d) o' = Inr st" and "revocationCheckPolicy o' = Some ''fail_closed''" and "ds_valid st"
  shows "\<exists>c ms. cachedRevocationState o' = Some c \<and> \<not> cached_revoked c \<and> parseRfc3339 (JStr (checkedAt c)) = Inr ms
    \<and> ms \<le> clk 2 \<and> within_window (clk 2 - ms) (case cacheGraceMs o' of None \<Rightarrow> Millis 300000 | Some w \<Rightarrow> w)"
proof -
  have v: "\<not> ds_revoked st" "ds_evidence st = Evidence_fresh" using verified_iff [OF assms(1)] assms(2,3) by auto
  obtain g u where g: "grade_evidence (clk 2) o' = (g, u)" by fastforce
  have e: "g = Evidence_fresh" and r: "fst (snd (revocation_check ''fail_closed'' o' g u)) = ds_revoked st"
    using assms(1,2) v(2) by (auto simp: verifyDelegation_def Let_def g split: if_splits prod.splits)
  from g [unfolded e] obtain c ms where c: "cachedRevocationState o' = Some c" "parseRfc3339 (JStr (checkedAt c)) = Inr ms" "0 \<le> clk 2 - ms"
    "within_window (clk 2 - ms) (case cacheGraceMs o' of None \<Rightarrow> Millis DEFAULT_REVOCATION_FRESHNESS_MS | Some w \<Rightarrow> w)"
    by (auto simp: grade_evidence_def Let_def split: option.splits sum.splits if_splits)
  from r v(1) c(1) have "\<not> cached_revoked c" by (simp add: revocation_check_def Let_def)
  with c(1-3) c(4) [unfolded DEFAULT_REVOCATION_FRESHNESS_MS_def] show ?thesis by auto
qed

text \<open>Creation and verification agree: a delegation created with a duration verifies at every instant
  from its creation to its end.\<close>

theorem created_delegation_verifies:
  assumes "createDelegation C uuid t o' = Inr d" and "keypair C (cd_privateKey o') (cd_delegatedBy o')"
    and "cd_expiresAt o' = None" and "cd_notBefore o' = None"
    and "clk 0 \<le> truncated (of_int t + (case cd_expiresInHours o' of None \<Rightarrow> 24 | Some h \<Rightarrow> h) * 3600000)" and "t \<le> clk 1"
    and "(case cd_currentDepth o' of None \<Rightarrow> 0 | Some n \<Rightarrow> n) \<le> (case cd_maxDepth o' of None \<Rightarrow> 1 | Some n \<Rightarrow> n)"
  shows "\<exists>st. verifyDelegation C clk (Some d) no_revocation_options = Inr st \<and> ds_valid st"
  using assms by (rule created_verifies)

text \<open>A receipt is minted only for an action the delegation allowed: the delegation verified, the scope is
  authorized and the amount is within what is left; and the receipt verifies under the signer's
  key.\<close>

theorem receipt_needs_authority:
  assumes "createReceipt C uuid clk o' = Inr m" and "keypair C (cr_privateKey o') pk"
  shows "(\<exists>st. verifyDelegation C clk (Some (cr_delegation o')) (cr_revocation o') = Inr st \<and> ds_valid st)
    \<and> scopeAuthorizes (dg_scope (cr_delegation o')) (scopeUsed o')
    \<and> (\<forall>s r. action_spend o' = Some s \<longrightarrow> parent_remaining (cr_delegation o') = Some r \<longrightarrow> spend_amount s \<le> r)
    \<and> verifyReceipt C m pk = []"
proof -
  from assms(1) [unfolded createReceipt_def bindE_Inr_iff guard_iffs]
  obtain st ts where v: "verifyDelegation C clk (Some (cr_delegation o')) (cr_revocation o') = Inr st" "ds_valid st"
      "scopeAuthorizes (dg_scope (cr_delegation o')) (scopeUsed o')"
      "\<not> exceeds (map_option spend_amount (action_spend o')) (parent_remaining (cr_delegation o'))"
    and m: "m = receipt_members o' uuid ts @ [(''signature'', JStr (ed25519_sign C (canonicalize (format_number C) (JObj (receipt_members o' uuid ts))) (cr_privateKey o')))]"
    by (auto simp: canonicalizeForWrite_def split: if_splits)
  have "unsigned_members m = receipt_members o' uuid ts" "get_str m ''version'' = Some ''1.1''"
    "get_str m ''signature'' = Some (ed25519_sign C (canonicalize (format_number C) (JObj (receipt_members o' uuid ts))) (cr_privateKey o'))"
    unfolding m by (simp_all add: unsigned_members_def receipt_members_def get_str_def get_def)
  then have "verifyReceipt C m pk = []" using assms(2) by (simp add: verifyReceipt_def legacy_signed_def keypair_def)
  moreover have "spend_amount s \<le> r" if "action_spend o' = Some s" "parent_remaining (cr_delegation o') = Some r" for s r
    using v(4) that by (simp add: exceeds_def)
  ultimately show ?thesis using v(1-3) by blast
qed

section \<open>A concrete delegation\<close>

definition legacy_clock :: int where
  "legacy_clock = 1767225600000"

definition legacy_options :: CreateDelegationOptions where
  "legacy_options = \<lparr>cd_delegatedTo = sample_key, cd_delegatedBy = sample_key, cd_scope = [''data:*'', ''code''], cd_scopeInterpretation = None,
     cd_spendLimit = Some 500, cd_spendLimitUnit = None, cd_maxDepth = Some 2, cd_currentDepth = None, cd_expiresInHours = Some 48,
     cd_expiresAt = None, cd_notBefore = None, cd_derivation_rights = None, cd_observation_policy = None, cd_credentialCheckPolicy = None,
     cd_privateKey = sample_key\<rparr>"

definition legacy_parent :: Delegation where
  "legacy_parent = projr (createDelegation sample_crypto ''0123456789abcdef'' legacy_clock legacy_options)"

definition legacy_narrowing :: SubDelegateOptions where
  "legacy_narrowing = \<lparr>parentDelegation = legacy_parent, sd_delegatedTo = ''helper'', sd_scope = [''data:read''], sd_spendLimit = Some 200,
     sd_spendLimitUnit = None, sd_derivation_rights = None, sd_privateKey = sample_key, sd_revocation = no_revocation_options\<rparr>"

definition legacy_closed :: RevocationCheckOptions where
  "legacy_closed = \<lparr>revocationCheckPolicy = Some ''fail_closed'',
     cachedRevocationState = Some \<lparr>cached_revoked = False, checkedAt = ''2026-01-01T00:00:00.000Z''\<rparr>, cacheGraceMs = None\<rparr>"

lemma legacy_instants:
  "formatRfc3339 1767225600000 = Some ''2026-01-01T00:00:00.000Z''" "formatRfc3339 1767398400000 = Some ''2026-01-03T00:00:00.000Z''"
  "formatRfc3339 1767312000000 = Some ''2026-01-02T00:00:00.000Z''"
  by code_simp+

lemma legacy_integers: "\<not> isUnsafeWriteInteger 0" "\<not> isUnsafeWriteInteger 1" "\<not> isUnsafeWriteInteger 2" "\<not> isUnsafeWriteInteger 500" "\<not> isUnsafeWriteInteger 200"
  by code_simp+

lemma legacy_parent_created: "createDelegation sample_crypto ''0123456789abcdef'' legacy_clock legacy_options = Inr legacy_parent"
proof -
  have "\<exists>d. createDelegation sample_crypto ''0123456789abcdef'' legacy_clock legacy_options = Inr d"
    by (simp add: createDelegation_def legacy_options_def legacy_clock_def Let_def delegation_fields_def iso_instant_def truncated_def legacy_instants bindE_def
        canonicalizeForWrite_def delegation_json_def text_entry_def number_entry_def value_entry_def truthy_def legacy_integers startsWith_def sample_key_def)
  then show ?thesis by (auto simp: legacy_parent_def)
qed

lemma legacy_parent_fields:
  "delegatedTo legacy_parent = sample_key" "delegatedBy legacy_parent = sample_key" "dg_scope legacy_parent = [''data:*'', ''code'']" "spendLimit legacy_parent = Some 500"
  "maxDepth legacy_parent = 2" "currentDepth legacy_parent = 0" "derivation_rights legacy_parent = None" "spentAmount legacy_parent = Some 0"
  using created_fields [OF legacy_parent_created] by (simp_all add: legacy_options_def)

lemma legacy_parent_record:
  "legacy_parent = DelegationFields.extend (delegation_fields ''0123456789abcdef'' ''2026-01-03T00:00:00.000Z'' ''2026-01-01T00:00:00.000Z'' legacy_options)
     \<lparr>dg_signature = dg_signature legacy_parent\<rparr>"
proof (rule created_record [OF legacy_parent_created])
  fix expiry created
  assume "(case cd_expiresAt legacy_options of
            None \<Rightarrow> iso_instant (truncated (of_int legacy_clock + (case cd_expiresInHours legacy_options of None \<Rightarrow> 24 | Some h \<Rightarrow> h) * 3600000))
          | Some e \<Rightarrow> Inr e) = Inr expiry" and "iso_instant legacy_clock = Inr created"
    and d: "legacy_parent = DelegationFields.extend (delegation_fields ''0123456789abcdef'' expiry created legacy_options)
       \<lparr>dg_signature = ed25519_sign sample_crypto (canonicalize (format_number sample_crypto) (delegation_json (delegation_fields ''0123456789abcdef'' expiry created legacy_options)))
          (cd_privateKey legacy_options)\<rparr>"
  then have "expiry = ''2026-01-03T00:00:00.000Z''" "created = ''2026-01-01T00:00:00.000Z''"
    by (simp_all add: legacy_options_def legacy_clock_def iso_instant_def truncated_def legacy_instants)
  with d show ?thesis by (metis signed_fields(2))
qed

lemma legacy_parent_window:
  "expiresAt legacy_parent = ''2026-01-03T00:00:00.000Z''" "notBefore legacy_parent = Some ''2026-01-01T00:00:00.000Z''"
  "spendLimitUnit legacy_parent = None" "scopeInterpretation legacy_parent = None" "observation_policy legacy_parent = None"
  by (subst legacy_parent_record, simp add: extend_fields delegation_fields_def legacy_options_def truthy_def DelegationFields.defs)+

lemma legacy_parent_verifies:
  "\<exists>st. verifyDelegation sample_crypto (\<lambda>_. legacy_clock) (Some legacy_parent) no_revocation_options = Inr st \<and> ds_valid st"
  by (rule created_verifies [OF legacy_parent_created]) (simp_all add: legacy_options_def legacy_clock_def truncated_def sample_keypair)

lemma legacy_child_created: "\<exists>c. subDelegate sample_crypto ''fedcba9876543210'' (\<lambda>_. legacy_clock) legacy_narrowing = Inr c"
proof -
  obtain st where st: "verifyDelegation sample_crypto (\<lambda>_. legacy_clock) (Some legacy_parent) no_revocation_options = Inr st" "ds_valid st"
    using legacy_parent_verifies by blast
  have "parseRfc3339 (JStr ''2026-01-03T00:00:00.000Z'') = Inr 1767398400000" using formatted_reads_back legacy_instants(2) by blast
  moreover have "scopeCovers ''data:*'' ''data:read''" by code_simp
  ultimately show ?thesis using st [unfolded legacy_clock_def]
    by (simp add: subDelegate_def legacy_narrowing_def Let_def legacy_parent_fields legacy_parent_window derivation_error_def spend_unit_of_def parent_remaining_def exceeds_def
        legacy_clock_def iso_instant_def legacy_instants bindE_def createDelegation_def delegation_fields_def canonicalizeForWrite_def delegation_json_def
        text_entry_def number_entry_def value_entry_def truthy_def legacy_integers startsWith_def sample_key_def)
qed

lemma legacy_closed_verifies:
  "\<exists>st. verifyDelegation sample_crypto (\<lambda>_. legacy_clock) (Some legacy_parent) legacy_closed = Inr st \<and> ds_valid st"
proof -
  have p: "parseRfc3339 (JStr ''2026-01-03T00:00:00.000Z'') = Inr 1767398400000" "parseRfc3339 (JStr ''2026-01-01T00:00:00.000Z'') = Inr 1767225600000"
    using formatted_reads_back legacy_instants by blast+
  then have g: "grade_evidence 1767225600000 legacy_closed = (Evidence_fresh, False)"
    by (simp add: grade_evidence_def legacy_closed_def within_window_def DEFAULT_REVOCATION_FRESHNESS_MS_def Let_def)
  obtain st where "verifyDelegation sample_crypto (\<lambda>_. legacy_clock) (Some legacy_parent) no_revocation_options = Inr st" "ds_valid st"
    using legacy_parent_verifies by blast
  then have "ed25519_verify sample_crypto (canonicalize (format_number sample_crypto) (delegation_json legacy_parent)) (dg_signature legacy_parent) (delegatedBy legacy_parent)"
    using verified_iff by blast
  with p g show ?thesis
    by (simp add: verifyDelegation_def legacy_clock_def ds_valid_def Let_def expiry_check_def start_check_def revocation_check_def closed_check_def legacy_parent_window
        legacy_parent_fields truthy_def legacy_closed_def REVOCATION_CHECK_POLICIES_def)
qed

definition legacy_action :: CreateReceiptOptions where
  "legacy_action = \<lparr>cr_agentId = ''helper'', cr_delegationId = delegationId legacy_parent, cr_delegation = legacy_parent, action_kind = ''purchase'', action_target = ''shop'',
     action_method = None, scopeUsed = ''code:deploy'', action_spend = Some \<lparr>spend_amount = 200, spend_currency = ''USD''\<rparr>, result_status = ''success'',
     result_summary = ''done'', delegationChain = [''root''], cr_privateKey = sample_key, cr_revocation = no_revocation_options\<rparr>"

lemma legacy_receipt_created: "\<exists>m. createReceipt sample_crypto ''fedcba9876543210'' (\<lambda>_. legacy_clock) legacy_action = Inr m"
proof -
  obtain st where st: "verifyDelegation sample_crypto (\<lambda>_. legacy_clock) (Some legacy_parent) no_revocation_options = Inr st" "ds_valid st"
    using legacy_parent_verifies by blast
  moreover have "scopeCovers ''code'' ''code:deploy''" by code_simp
  ultimately show ?thesis
    by (simp add: createReceipt_def legacy_action_def bindE_def scopeAuthorizes_def legacy_parent_fields exceeds_def parent_remaining_def iso_instant_def legacy_clock_def
        legacy_instants canonicalizeForWrite_def receipt_members_def text_entry_def legacy_integers del: canonicalize.simps)
qed


theorem legacy_authority_shrinks_witness:
  "\<exists>c. subDelegate sample_crypto ''fedcba9876543210'' (\<lambda>_. legacy_clock) legacy_narrowing = Inr c \<and> dg_scope c = [''data:read'']
     \<and> scopeAuthorizes (dg_scope legacy_parent) ''data:read:one''"
proof -
  obtain c where c: "subDelegate sample_crypto ''fedcba9876543210'' (\<lambda>_. legacy_clock) legacy_narrowing = Inr c" using legacy_child_created by blast
  obtain k where "createDelegation sample_crypto ''fedcba9876543210'' legacy_clock k = Inr c" "cd_scope k = sd_scope legacy_narrowing" using c by (elim sub_delegated)
  then have s: "dg_scope c = [''data:read'']" using created_fields(3) by (simp add: legacy_narrowing_def)
  have g: "list_all isValidScopeGrant [''data:*'', ''code'']" "scopeAuthorizes [''data:read''] ''data:read:one''" by code_simp+
  have p: "parentDelegation legacy_narrowing = legacy_parent" by (simp add: legacy_narrowing_def)
  show ?thesis using legacy_authority_shrinks [OF c, unfolded p legacy_parent_fields s, OF g] c s by (simp add: legacy_parent_fields)
qed

theorem legacy_scope_rule_exact_witness:
  "isValidScopeGrant ''data'' \<and> \<not> scopeGrantCovers ''data'' ''data:read'' \<and> scopeCovers ''data'' ''data:read''"
proof -
  have "isValidScopeGrant ''data''" "startsWith ''data:read'' (''data'' @ '':'')" "\<not> scopeGrantCovers ''data'' ''data:read''" by code_simp+
  then show ?thesis using legacy_scope_rule_exact [of "''data''" "''data:read''"] by blast
qed

theorem closed_policy_needs_fresh_evidence_witness:
  "\<exists>st ms. verifyDelegation sample_crypto (\<lambda>_. legacy_clock) (Some legacy_parent) legacy_closed = Inr st \<and> ds_valid st
     \<and> parseRfc3339 (JStr ''2026-01-01T00:00:00.000Z'') = Inr ms \<and> ms \<le> legacy_clock"
proof -
  obtain st where st: "verifyDelegation sample_crypto (\<lambda>_. legacy_clock) (Some legacy_parent) legacy_closed = Inr st" "ds_valid st" using legacy_closed_verifies by blast
  have "revocationCheckPolicy legacy_closed = Some ''fail_closed''" by (simp add: legacy_closed_def)
  from closed_policy_needs_fresh_evidence [OF st(1) this st(2)] st show ?thesis by (auto simp: legacy_closed_def)
qed

theorem created_delegation_verifies_witness:
  "\<exists>st. verifyDelegation sample_crypto (\<lambda>_. legacy_clock) (Some legacy_parent) no_revocation_options = Inr st \<and> ds_valid st"
  by (rule created_delegation_verifies [OF legacy_parent_created]) (simp_all add: legacy_options_def legacy_clock_def truncated_def sample_keypair)

theorem receipt_needs_authority_witness:
  "\<exists>m. createReceipt sample_crypto ''fedcba9876543210'' (\<lambda>_. legacy_clock) legacy_action = Inr m \<and> verifyReceipt sample_crypto m sample_key = []"
proof -
  obtain m where m: "createReceipt sample_crypto ''fedcba9876543210'' (\<lambda>_. legacy_clock) legacy_action = Inr m" using legacy_receipt_created by blast
  have "keypair sample_crypto (cr_privateKey legacy_action) sample_key" by (simp add: legacy_action_def sample_keypair)
  from receipt_needs_authority [OF m this] m show ?thesis by blast
qed

end
