(* ===== verification/Did_Keys.thy ===== *)
theory Did_Keys
  imports Ed25519
begin

text \<open>
  \<^verbatim>\<open>src/core/did.ts\<close>: decentralized identifiers over Ed25519 keys and the base58 multibase form
  in which key documents carry them.

  Big integers are natural numbers.  The byte reader of this file is lenient: it applies
  \<open>parseInt\<close> to two characters at a time and stores the outcome in a byte array, so characters
  that are not hexadecimal digits read as zero or as a shorter number.
\<close>

section \<open>Bytes and digits\<close>

definition js_white :: "char \<Rightarrow> bool" where
  "js_white c \<longleftrightarrow> (of_char c :: int) \<in> {9, 10, 11, 12, 13, 32, 160}"

text \<open>\<open>parseInt(s, 16)\<close>; \<open>None\<close> is not a number.\<close>

definition parseInt16 :: "string \<Rightarrow> int option" where
  "parseInt16 s =
     (let t = dropWhile js_white s;
          neg = (t \<noteq> [] \<and> hd t = CHR ''-'');
          u = (if t \<noteq> [] \<and> hd t \<in> {CHR ''-'', CHR ''+''} then tl t else t);
          w = (if take 2 u \<in> {''0x'', ''0X''} then drop 2 u else u);
          ds = takeWhile (\<lambda>c. hex_value c \<noteq> None) w;
          n = foldl (\<lambda>a c. 16 * a + the (hex_value c)) 0 ds in
      if ds = [] then None else Some (if neg then - n else n))"

definition stored_byte :: "int option \<Rightarrow> byte" where
  "stored_byte v = (case v of None \<Rightarrow> 0 | Some n \<Rightarrow> word_of_int n)"

fun lenient_bytes :: "string \<Rightarrow> byte list" where
  "lenient_bytes (a # b # cs) = stored_byte (parseInt16 [a, b]) # lenient_bytes cs"
| "lenient_bytes _ = []"

definition BASE58_ALPHABET :: string where
  "BASE58_ALPHABET = ''123456789ABCDEFGHJKLMNPQRSTUVWXYZabcdefghijkmnopqrstuvwxyz''"

definition index_of :: "string \<Rightarrow> char \<Rightarrow> nat option" where
  "index_of xs c = (let k = length (takeWhile (\<lambda>x. x \<noteq> c) xs) in if k < length xs then Some k else None)"

text \<open>The digits of a number in front of what is already emitted.\<close>

function radix_loop :: "string \<Rightarrow> nat \<Rightarrow> string \<Rightarrow> string" where
  "radix_loop ds n acc = (if n = 0 \<or> length ds < 2 then acc else radix_loop ds (n div length ds) (ds ! (n mod length ds) # acc))"
  by auto
termination by (relation "measure (\<lambda>(ds, n, acc). n)") auto

declare radix_loop.simps [simp del]

definition base58btcEncode :: "byte list \<Rightarrow> string" where
  "base58btcEncode bytes =
     (let num = foldl (\<lambda>n b. n * 256 + unat b) 0 bytes;
          encoded = replicate (length (takeWhile (\<lambda>b. b = 0) bytes)) CHR ''1'' @ radix_loop BASE58_ALPHABET num [] in
      if encoded = [] then ''1'' else encoded)"

definition HEX_DIGITS :: string where
  "HEX_DIGITS = ''0123456789abcdef''"

text \<open>\<open>toString(16)\<close> on a big integer.\<close>

definition to_hex :: "nat \<Rightarrow> string" where
  "to_hex n = (if n = 0 then ''0'' else radix_loop HEX_DIGITS n [])"

definition pad_start :: "nat \<Rightarrow> char \<Rightarrow> string \<Rightarrow> string" where
  "pad_start n c s = replicate (n - length s) c @ s"

datatype DidError = Invalid_public_key | Invalid_did | Unsupported_multibase | Invalid_multicodec | Invalid_base58_character char

fun base58_value :: "nat \<Rightarrow> string \<Rightarrow> (DidError, nat) result" where
  "base58_value num [] = Inr num"
| "base58_value num (c # cs) =
     (case index_of BASE58_ALPHABET c of None \<Rightarrow> Inl (Invalid_base58_character c) | Some i \<Rightarrow> base58_value (num * 58 + i) cs)"

definition base58btcDecode :: "string \<Rightarrow> (DidError, byte list) result" where
  "base58btcDecode str = bindE (base58_value 0 str) (\<lambda>num.
     let h = pad_start 2 CHR ''0'' (to_hex num);
         padded = (if length h mod 2 \<noteq> 0 then CHR ''0'' # h else h);
         leadingZeros = length (takeWhile (\<lambda>c. c = CHR ''1'') str) in
     Inr (replicate leadingZeros 0 @ lenient_bytes padded))"

section \<open>Identifiers\<close>

definition hexToMultibase :: "string \<Rightarrow> string" where
  "hexToMultibase hexKey = CHR ''z'' # base58btcEncode (0xed # 0x01 # lenient_bytes hexKey)"

definition multibaseToHex :: "string \<Rightarrow> (DidError, string) result" where
  "multibaseToHex mb =
     (if \<not> startsWith mb ''z'' then Inl Unsupported_multibase
      else bindE (base58btcDecode (drop 1 mb)) (\<lambda>bytes.
        if take 2 bytes \<noteq> [0xed, 0x01] then Inl Invalid_multicodec else Inr (bytesToHex (drop 2 bytes))))"

definition DID_METHOD :: string where
  "DID_METHOD = ''aps''"

definition createDID :: "string \<Rightarrow> (DidError, string) result" where
  "createDID publicKey =
     (if length publicKey \<noteq> 64 then Inl Invalid_public_key else Inr (''did:'' @ DID_METHOD @ '':'' @ hexToMultibase publicKey))"

definition createDIDHex :: "string \<Rightarrow> (DidError, string) result" where
  "createDIDHex publicKey =
     (if length publicKey \<noteq> 64 then Inl Invalid_public_key else Inr (''did:'' @ DID_METHOD @ '':'' @ publicKey))"

definition publicKeyFromDID :: "string \<Rightarrow> (DidError, string) result" where
  "publicKeyFromDID did =
     (let parts = split_on CHR '':'' did in
      if length parts \<noteq> 3 \<or> parts ! 0 \<noteq> ''did'' \<or> parts ! 1 \<noteq> DID_METHOD then Inl Invalid_did
      else let identifier = parts ! 2 in
        if startsWith identifier ''z'' then multibaseToHex identifier else Inr identifier)"

definition isValidDID :: "string \<Rightarrow> bool" where
  "isValidDID did = (case publicKeyFromDID did of Inl _ \<Rightarrow> False | Inr key \<Rightarrow> length key = 64 \<and> list_all isHex key)"

section \<open>Positional numbers\<close>

abbreviation digits_value :: "nat \<Rightarrow> nat list \<Rightarrow> nat" where
  "digits_value B ks \<equiv> foldl (\<lambda>n k. n * B + k) 0 ks"

lemma radix_zero [simp]: "radix_loop ds 0 acc = acc"
  by (simp add: radix_loop.simps)

lemma radix_snoc:
  assumes "2 \<le> length ds" and "n * length ds + k \<noteq> 0" and "k < length ds"
  shows "radix_loop ds (n * length ds + k) acc = radix_loop ds n (ds ! k # acc)"
proof -
  have "(n * length ds + k) div length ds = n" "(n * length ds + k) mod length ds = k" using assms(3) div_mult_self3 [of "length ds" n k] by (cases "ds = []"; simp)+
  then show ?thesis using assms(1,2) by (subst radix_loop.simps) auto
qed

lemma radix_append: "radix_loop ds n acc = radix_loop ds n [] @ acc"
proof (induction n arbitrary: acc rule: less_induct)
  case (less n)
  show ?case
  proof (cases "n = 0 \<or> length ds < 2")
    case True
    then show ?thesis by (subst (1 2) radix_loop.simps) auto
  next
    case False
    then have "n div length ds < n" by simp
    from less [OF this, of "ds ! (n mod length ds) # acc"] less [OF this, of "[ds ! (n mod length ds)]"] False
    show ?thesis by (subst (1 2) radix_loop.simps) simp
  qed
qed

lemma radix_head:
  assumes "n \<noteq> 0" and "2 \<le> length ds"
  shows "\<exists>k rest. radix_loop ds n acc = ds ! k # rest \<and> 0 < k \<and> k < length ds"
  using assms(1)
proof (induction n arbitrary: acc rule: less_induct)
  case (less n)
  have step: "radix_loop ds n acc = radix_loop ds (n div length ds) (ds ! (n mod length ds) # acc)"
    using less.prems assms(2) by (subst radix_loop.simps) simp
  show ?case
  proof (cases "n div length ds = 0")
    case True
    then have "n < length ds" using assms(2) by (auto simp: div_eq_0_iff)
    then show ?thesis unfolding step True using less.prems by auto
  next
    case False
    have "n div length ds < n" using less.prems assms(2) by simp
    from less.IH [OF this False] show ?thesis unfolding step .
  qed
qed

lemma digits_value_zero: "digits_value B ks = 0 \<Longrightarrow> 0 < B \<Longrightarrow> list_all (\<lambda>k. k = 0) ks"
  by (induction ks rule: rev_induct) auto

text \<open>Emitting the value of a digit string gives the digits without leading zeros.\<close>

lemma radix_digits:
  assumes "2 \<le> length ds" and "list_all (\<lambda>k. k < length ds) ks"
  shows "radix_loop ds (digits_value (length ds) ks) acc = map ((!) ds) (dropWhile (\<lambda>k. k = 0) ks) @ acc"
  using assms(2)
proof (induction ks arbitrary: acc rule: rev_induct)
  case (snoc k ks)
  let ?v = "digits_value (length ds) ks"
  show ?case
  proof (cases "?v * length ds + k = 0")
    case True
    then have "list_all (\<lambda>k. k = 0) ks" "k = 0" using digits_value_zero [of "length ds" ks] assms(1) by fastforce+
    moreover have z: "digits_value (length ds) (ks @ [k]) = 0" using True by simp
    ultimately show ?thesis unfolding z by (simp add: dropWhile_append list_all_iff)
  next
    case False
    have k: "k < length ds" using snoc.prems by simp
    have "dropWhile (\<lambda>k. k = 0) (ks @ [k]) = dropWhile (\<lambda>k. k = 0) ks @ [k]"
    proof (cases "list_all (\<lambda>k. k = 0) ks")
      case True
      then have "dropWhile (\<lambda>k. k = 0) ks = []" "?v = 0" by (simp add: list_all_iff) (use True in \<open>induction ks rule: rev_induct; auto\<close>)
      then show ?thesis using True False by (simp add: dropWhile_append list_all_iff)
    next
      case False
      then show ?thesis by (auto simp: dropWhile_append list_all_iff)
    qed
    then show ?thesis using radix_snoc [OF assms(1) False k] snoc by simp
  qed
qed simp

lemma index_of_nth:
  assumes "distinct ds" and "k < length ds"
  shows "index_of ds (ds ! k) = Some k"
proof -
  have "takeWhile (\<lambda>x. x \<noteq> ds ! k) ds = take k ds"
    by (rule takeWhile_eq_take_P_nth) (use assms in \<open>auto simp: nth_eq_iff_index_eq\<close>)
  then show ?thesis using assms(2) by (simp add: index_of_def Let_def)
qed

lemma alphabet_58: "length BASE58_ALPHABET = 58" "distinct BASE58_ALPHABET" "BASE58_ALPHABET ! 0 = CHR ''1''" "CHR '':'' \<notin> set BASE58_ALPHABET"
  by (simp_all add: BASE58_ALPHABET_def)

lemma hex_alphabet: "length HEX_DIGITS = 16" "HEX_DIGITS ! 0 = CHR ''0''"
  by (simp_all add: HEX_DIGITS_def)

lemma hex_nibble_digit: "k < 16 \<Longrightarrow> hex_nibble (int k) = HEX_DIGITS ! k"
proof -
  have "list_all (\<lambda>k. hex_nibble (int k) = HEX_DIGITS ! k) [0..<16]" by code_simp
  then show "k < 16 \<Longrightarrow> hex_nibble (int k) = HEX_DIGITS ! k" by (simp add: list_all_iff)
qed

text \<open>Reading the emitted digits back gives the number.\<close>

lemma base58_value_radix: "base58_value m (radix_loop BASE58_ALPHABET n acc) = base58_value (m * 58 ^ (length (radix_loop BASE58_ALPHABET n []))  + n) acc"
proof (induction BASE58_ALPHABET n acc arbitrary: m rule: radix_loop.induct)
  case (1 n acc)
  show ?case
  proof (cases "n = 0")
    case False
    let ?d = "BASE58_ALPHABET ! (n mod 58)"
    have step: "radix_loop BASE58_ALPHABET n xs = radix_loop BASE58_ALPHABET (n div 58) (?d # xs)" for xs
      using False by (subst radix_loop.simps) (simp add: alphabet_58)
    have ih: "base58_value m (radix_loop BASE58_ALPHABET (n div 58) (?d # acc))
        = base58_value (m * 58 ^ length (radix_loop BASE58_ALPHABET (n div 58) []) + n div 58) (?d # acc)"
      using "1.hyps" [of m] False by (simp add: alphabet_58)
    have "base58_value m (radix_loop BASE58_ALPHABET n acc) = base58_value ((m * 58 ^ length (radix_loop BASE58_ALPHABET (n div 58) []) + n div 58) * 58 + n mod 58) acc"
      unfolding step ih by (simp add: index_of_nth alphabet_58)
    then show ?thesis unfolding step [of "[]"] radix_append [of BASE58_ALPHABET "n div 58" "[?d]"] by (simp add: algebra_simps)
  qed simp
qed

section \<open>Keys through base58\<close>

definition nibbles :: "byte list \<Rightarrow> nat list" where
  "nibbles bs = concat (map (\<lambda>b. [unat b div 16, unat b mod 16]) bs)"

lemma nibbles_snoc [simp]: "nibbles (bs @ [b]) = nibbles bs @ [unat b div 16, unat b mod 16]" "nibbles [] = []"
  by (simp_all add: nibbles_def)

lemma byte_less: "unat (b :: byte) < 256"
  using unsigned_less [of b, where ?'a = nat] by simp

lemma nibbles_bound: "list_all (\<lambda>k. k < 16) (nibbles bs)"
proof (induction bs)
  case (Cons b bs)
  have "unat b div 16 < 16" using byte_less [of b] by linarith
  with Cons show ?case by (simp add: nibbles_def)
qed (simp add: nibbles_def)

lemma nibbles_value: "digits_value 16 (nibbles bs) = foldl (\<lambda>n b. n * 256 + unat b) 0 bs"
proof (induction bs rule: rev_induct)
  case (snoc b bs)
  have "(v * 16 + unat b div 16) * 16 + unat b mod 16 = v * 256 + unat b" for v :: nat
    using div_mult_mod_eq [of "unat b" 16] by (simp add: algebra_simps)
  with snoc show ?case by simp
qed simp

lemma nibbles_hex: "map ((!) HEX_DIGITS) (nibbles bs) = bytesToHex bs"
proof (induction bs)
  case (Cons b bs)
  have "unat b div 16 < 16" using byte_less [of b] by linarith
  then have "HEX_DIGITS ! (unat b div 16) = hex_nibble (uint b div 16)" "HEX_DIGITS ! (unat b mod 16) = hex_nibble (uint b mod 16)"
    using hex_nibble_digit [of "unat b div 16"] hex_nibble_digit [of "unat b mod 16"] by (simp_all add: zdiv_int zmod_int)
  with Cons show ?case by (simp add: nibbles_def bytesToHex_def)
qed (simp add: nibbles_def bytesToHex_def)

text \<open>The padded hexadecimal form of the value of bytes that start with a non-zero byte.\<close>

lemma padded_hex:
  fixes bs :: "byte list"
  assumes "b \<noteq> 0"
  defines "n \<equiv> foldl (\<lambda>n b. n * 256 + unat b) 0 (b # bs)"
  defines "h \<equiv> pad_start 2 CHR ''0'' (to_hex n)"
  shows "(if length h mod 2 \<noteq> 0 then CHR ''0'' # h else h) = bytesToHex (b # bs)"
proof -
  have v: "n = digits_value 16 (nibbles (b # bs))" by (simp only: n_def nibbles_value)
  have ns: "nibbles (b # bs) = unat b div 16 # unat b mod 16 # nibbles bs" by (simp add: nibbles_def)
  have len: "length (nibbles bs) = 2 * length bs" by (induction bs) (simp_all add: nibbles_def)
  have b0: "unat b \<noteq> 0" using assms(1) by (simp add: unat_eq_0)
  have hex: "radix_loop HEX_DIGITS n [] = map ((!) HEX_DIGITS) (dropWhile (\<lambda>k. k = 0) (nibbles (b # bs)))"
    using radix_digits [of HEX_DIGITS "nibbles (b # bs)" "[]"] nibbles_bound [of "b # bs"] v by (simp add: hex_alphabet)
  have "\<not> list_all (\<lambda>k. k = 0) (nibbles (b # bs))" unfolding ns using b0 div_mult_mod_eq [of "unat b" 16] by auto
  then have "n \<noteq> 0" unfolding v using digits_value_zero [of 16 "nibbles (b # bs)"] by auto
  then have t: "to_hex n = map ((!) HEX_DIGITS) (dropWhile (\<lambda>k. k = 0) (nibbles (b # bs)))" by (simp add: to_hex_def hex)
  show ?thesis
  proof (cases "unat b div 16 = 0")
    case True
    then have "unat b mod 16 \<noteq> 0" using b0 by (metis add_0 div_mult_mod_eq mult_0)
    with True have d: "dropWhile (\<lambda>k. k = 0) (nibbles (b # bs)) = unat b mod 16 # nibbles bs" by (simp add: ns)
    then have t': "to_hex n = map ((!) HEX_DIGITS) (unat b mod 16 # nibbles bs)" using t by simp
    have "h = (if bs = [] then CHR ''0'' # to_hex n else to_hex n)" unfolding h_def pad_start_def t' using len
      by (cases bs) (simp_all add: Suc_diff_Suc numeral_2_eq_2 nibbles_def)
    then show ?thesis using True nibbles_hex [of "b # bs"] len unfolding t' ns by (auto simp: hex_alphabet nibbles_def)
  next
    case False
    then have d: "dropWhile (\<lambda>k. k = 0) (nibbles (b # bs)) = nibbles (b # bs)" by (simp add: ns)
    then have "length (to_hex n) = 2 + 2 * length bs" using t len by (simp add: ns)
    then have "h = to_hex n" by (simp add: h_def pad_start_def)
    then show ?thesis using nibbles_hex [of "b # bs"] bytes_hex_digits [of "b # bs"] unfolding t d by (simp add: ns)
  qed
qed

lemma lenient_hex:
  assumes "hex_value a = Some m" and "hex_value b = Some n"
  shows "stored_byte (parseInt16 [a, b]) = word_of_int (16 * m + n)"
proof -
  have nd: "\<not> js_white c \<and> c \<noteq> CHR ''-'' \<and> c \<noteq> CHR ''+'' \<and> c \<noteq> CHR ''x'' \<and> c \<noteq> CHR ''X''" if "hex_value c = Some k" for c k
    using that by (auto simp: hex_value_def js_white_def Let_def split: if_splits)
  from nd [OF assms(1)] nd [OF assms(2)] assms show ?thesis
    by (simp add: parseInt16_def stored_byte_def Let_def)
qed

lemma lenient_bytes_hex: "lenient_bytes (bytesToHex bs) = bs"
proof (induction bs)
  case (Cons b bs)
  have "hex_value (hex_nibble (uint b div 16)) = Some (uint b div 16)" "hex_value (hex_nibble (uint b mod 16)) = Some (uint b mod 16)"
    using unsigned_less [of b, where ?'a = int] unsigned_greater_eq [of b] by (auto intro!: hex_nibble_value simp: pos_imp_zdiv_nonneg_iff)
  from lenient_hex [OF this] Cons show ?case by (simp add: bytesToHex_def)
qed (simp add: bytesToHex_def)

lemma lower_hex_digit:
  assumes "isLowerHex c"
  obtains m where "hex_value c = Some m" "0 \<le> m" "m < 16" "hex_nibble m = c"
proof -
  have n: "int (of_char c) = of_char c" by (rule of_nat_of_char)
  have c: "char_of (of_char c :: int) = c" by simp
  from assms consider "48 \<le> (of_char c :: int)" "of_char c \<le> (57 :: int)" | "97 \<le> (of_char c :: int)" "of_char c \<le> (102 :: int)"
    unfolding isLowerHex_def isDigit_def n [symmetric] by linarith
  then show thesis
    by cases (use that c in \<open>auto simp: hex_value_def hex_nibble_def Let_def\<close>)
qed

lemma hex_lenient_bytes: "even (length k) \<Longrightarrow> list_all isLowerHex k \<Longrightarrow> bytesToHex (lenient_bytes k) = k"
proof (induction k rule: lenient_bytes.induct)
  case (1 a b cs)
  then obtain m n where h: "hex_value a = Some m" "hex_value b = Some n" "0 \<le> m" "m < 16" "0 \<le> n" "n < 16" "hex_nibble m = a" "hex_nibble n = b"
    using lower_hex_digit [of a] lower_hex_digit [of b] by (metis list.pred_inject(2))
  have "uint (word_of_int (16 * m + n) :: byte) = 16 * m + n" by (subst uint_word_of_int) (use h in simp)
  then show ?case using 1 h lenient_hex [OF h(1,2)] by (simp add: bytesToHex_def)
qed (simp_all add: bytesToHex_def)

lemma base58_round_trip:
  assumes "b \<noteq> 0"
  shows "base58btcDecode (base58btcEncode (b # bs)) = Inr (b # bs)"
proof -
  let ?n = "foldl (\<lambda>n b. n * 256 + unat b) 0 (b # bs)"
  have "digits_value 16 (nibbles (b # bs)) = ?n" by (rule nibbles_value)
  have le: "unat b * 256 ^ length bs \<le> ?n"
    by (induction bs rule: rev_induct) (simp_all add: algebra_simps)
  have "0 < unat b * 256 ^ length bs" using assms by (simp add: unat_gt_0)
  then have "?n \<noteq> 0" using le by (metis leD)
  then obtain k rest where r: "radix_loop BASE58_ALPHABET ?n [] = BASE58_ALPHABET ! k # rest" "0 < k" "k < 58"
    using radix_head [of ?n BASE58_ALPHABET "[]"] by (auto simp: alphabet_58)
  then have e: "base58btcEncode (b # bs) = radix_loop BASE58_ALPHABET ?n []" using assms r(1) by (simp add: base58btcEncode_def Let_def)
  have v: "base58_value 0 (radix_loop BASE58_ALPHABET ?n []) = Inr ?n" using base58_value_radix [of 0 ?n "[]"] by simp
  have "BASE58_ALPHABET ! k \<noteq> CHR ''1''" using r(2,3) alphabet_58 nth_eq_iff_index_eq [of BASE58_ALPHABET k 0] by simp
  then have "takeWhile (\<lambda>c. c = CHR ''1'') (radix_loop BASE58_ALPHABET ?n []) = []" unfolding r(1) by simp
  then show ?thesis unfolding e base58btcDecode_def v using padded_hex [OF assms, of bs] by (simp add: Let_def lenient_bytes_hex del: foldl_Cons)
qed

lemma radix_symbols: "set (radix_loop ds n acc) \<subseteq> set ds \<union> set acc"
proof (induction ds n acc rule: radix_loop.induct)
  case (1 ds n acc)
  show ?case
  proof (cases "n = 0 \<or> length ds < 2")
    case False
    then have "n mod length ds < length ds" by (intro mod_less_divisor) linarith
    then have "ds ! (n mod length ds) \<in> set ds" by (rule nth_mem)
    with 1 False show ?thesis by (subst radix_loop.simps) auto
  qed (subst radix_loop.simps, auto)
qed

lemma multibase_no_colon: "CHR '':'' \<notin> set (hexToMultibase k)"
  using radix_symbols [of BASE58_ALPHABET _ "[]"] alphabet_58(4)
  by (fastforce simp: hexToMultibase_def base58btcEncode_def Let_def split: if_splits)

lemma multibase_back:
  assumes "even (length k)" and "list_all isLowerHex k"
  shows "multibaseToHex (hexToMultibase k) = Inr k"
  using base58_round_trip [of "0xed" "0x01 # lenient_bytes k"] hex_lenient_bytes [OF assms]
  by (simp add: multibaseToHex_def hexToMultibase_def startsWith_def)

section \<open>Properties\<close>

text \<open>A key survives its identifier: for a lowercase hexadecimal key the identifier is accepted, names
  the key in exactly its spelling, and the base58 form alone gives it back.\<close>

theorem did_names_its_key:
  assumes "lower_hex 64 k"
  shows "\<exists>did. createDID k = Inr did \<and> publicKeyFromDID did = Inr k \<and> isValidDID did \<and> multibaseToHex (hexToMultibase k) = Inr k"
proof -
  have k: "length k = 64" "list_all isLowerHex k" using assms by (simp_all add: lower_hex_def)
  let ?did = "''did:'' @ DID_METHOD @ '':'' @ hexToMultibase k"
  have bk: "multibaseToHex (hexToMultibase k) = Inr k" using multibase_back k by simp
  have "split_on CHR '':'' ?did = [''did'', ''aps'', hexToMultibase k]"
    using split_append_sep [of "CHR '':''" "''did''" "''aps'' @ CHR '':'' # hexToMultibase k"] split_append_sep [of "CHR '':''" "''aps''" "hexToMultibase k"]
      split_no_sep [OF multibase_no_colon, of k] by (simp add: DID_METHOD_def)
  then have p: "publicKeyFromDID ?did = Inr k" using bk by (simp add: publicKeyFromDID_def DID_METHOD_def Let_def hexToMultibase_def startsWith_def)
  moreover have "list_all isHex k" using k(2) by (auto simp: list_all_iff isHex_def)
  ultimately show ?thesis using k bk by (simp add: createDID_def isValidDID_def)
qed

theorem did_names_its_key_witness:
  "\<exists>did. createDID (replicate 64 CHR ''7'') = Inr did \<and> publicKeyFromDID did = Inr (replicate 64 CHR ''7'')"
proof -
  have "lower_hex 64 (replicate 64 CHR ''7'')" by code_simp
  from did_names_its_key [OF this] show ?thesis by blast
qed

text \<open>The base58 reader is not a left inverse on zero bytes: a single zero byte comes back as two.\<close>

theorem base58_zero_grows: "base58btcDecode (base58btcEncode [0]) = Inr [0, 0]"
  by code_simp

end
