(* ===== verification/Key_Rotation.thy ===== *)
theory Key_Rotation
  imports Did_Keys Legacy_Delegation Machine
begin

text \<open>
  \<^verbatim>\<open>src/core/key-rotation.ts\<close>: key documents whose authority moves from key to key.  A planned
  rotation is announced, overlaps and is activated; an emergency rotation takes effect at
  once; both leave a signed entry in the log.

  \<open>pub\<close> derives the public key of a private key; the clock is an argument, within the years the
  formatter covers.  Members of the document that no operation reads are left out.  The
  callback that revokes delegations answers per call: an error, or the number revoked.
\<close>

section \<open>Documents\<close>

datatype RotationMode = Planned | Emergency

fun mode_name :: "RotationMode \<Rightarrow> string" where
  "mode_name Planned = ''planned''"
| "mode_name Emergency = ''emergency''"

datatype RotationState = Announced | Revocation_in_progress | Revocation_complete | Activated

record RotatableVerificationMethod =
  vm_id :: string
  vm_controller :: string
  publicKeyMultibase :: string
  retiredAt :: "string option"

record DIDRotationEntry =
  previousKey :: string
  newKey :: string
  entry_mode :: RotationMode
  announcedAt :: string
  activationTime :: string
  entry_state :: RotationState
  rotationSignature :: string
  revokedDelegations :: "string list option"
  completedAt :: "string option"

record PendingRotation =
  newKeyId :: string
  pending_mode :: RotationMode
  pending_activation :: string
  pending_state :: RotationState
  pending_signature :: string

record RotatableDIDDocument =
  did_id :: string
  did_controller :: string
  verificationMethod :: "RotatableVerificationMethod list"
  authentication :: "string list"
  assertionMethod :: "string list"
  capabilityDelegation :: "string list"
  pendingRotation :: "PendingRotation option"
  rotationLog :: "DIDRotationEntry list"
  did_created :: string
  did_updated :: string

datatype RotationError =
    Rotation_pending | No_active_method | Key_mismatch | Instant_out_of_range | Payload_refused | No_pending_rotation
  | Activation_unreadable | Activation_not_reached | Rotation_did DidError

definition DEFAULT_PLANNED_OVERLAP_MS :: rat where
  "DEFAULT_PLANNED_OVERLAP_MS = 24 * 60 * 60 * 1000"

definition keyIdForPublicKey :: "string \<Rightarrow> nat \<Rightarrow> string" where
  "keyIdForPublicKey did index = did @ ''#key-'' @ decimal index"

definition createDIDDocument :: "string \<Rightarrow> string \<Rightarrow> (RotationError, RotatableDIDDocument) result" where
  "createDIDDocument publicKey createdAt' =
     (case createDID publicKey of
        Inl e \<Rightarrow> Inl (Rotation_did e)
      | Inr did \<Rightarrow>
          let keyId = did @ ''#key-1'';
              vm = \<lparr>vm_id = keyId, vm_controller = did, publicKeyMultibase = hexToMultibase publicKey, retiredAt = None\<rparr> in
          Inr \<lparr>did_id = did, did_controller = did, verificationMethod = [vm], authentication = [keyId], assertionMethod = [keyId],
             capabilityDelegation = [keyId], pendingRotation = None, rotationLog = [], did_created = createdAt', did_updated = createdAt'\<rparr>)"

definition nextKeyIndex :: "RotatableDIDDocument \<Rightarrow> nat" where
  "nextKeyIndex doc = length (verificationMethod doc) + 1"

definition rotation_payload :: "string \<Rightarrow> string \<Rightarrow> RotationMode \<Rightarrow> string \<Rightarrow> json" where
  "rotation_payload prev new mode activation =
     JObj [(''previousKey'', JStr prev), (''newKey'', JStr new), (''mode'', JStr (mode_name mode)), (''activationTime'', JStr activation)]"

definition canonicalRotationPayload :: "crypto \<Rightarrow> string \<Rightarrow> string \<Rightarrow> RotationMode \<Rightarrow> string \<Rightarrow> string" where
  "canonicalRotationPayload C prev new mode activation = canonicalize (format_number C) (rotation_payload prev new mode activation)"

definition canonicalRotationPayloadForWrite :: "crypto \<Rightarrow> string \<Rightarrow> string \<Rightarrow> RotationMode \<Rightarrow> string \<Rightarrow> (RotationError, string) result" where
  "canonicalRotationPayloadForWrite C prev new mode activation =
     (case canonicalizeForWrite (format_number C) (rotation_payload prev new mode activation) of Inl _ \<Rightarrow> Inl Payload_refused | Inr s \<Rightarrow> Inr s)"

definition multibaseToHexSafe :: "string \<Rightarrow> string" where
  "multibaseToHexSafe mb = (case multibaseToHex mb of Inl _ \<Rightarrow> mb | Inr h \<Rightarrow> h)"

text \<open>The first method with the identifier is marked retired.\<close>

fun retire_first :: "string \<Rightarrow> string \<Rightarrow> RotatableVerificationMethod list \<Rightarrow> RotatableVerificationMethod list" where
  "retire_first kid ts [] = []"
| "retire_first kid ts (vm # vms) = (if vm_id vm = kid then vm\<lparr>retiredAt := Some ts\<rparr> # vms else vm # retire_first kid ts vms)"

definition iso_stamp :: "int \<Rightarrow> (RotationError, string) result" where
  "iso_stamp ms = (case formatRfc3339 ms of None \<Rightarrow> Inl Instant_out_of_range | Some s \<Rightarrow> Inr s)"

section \<open>Operations\<close>

definition announceKeyRotation ::
  "crypto \<Rightarrow> (string \<Rightarrow> string) \<Rightarrow> int \<Rightarrow> RotatableDIDDocument \<Rightarrow> string \<Rightarrow> string \<Rightarrow> RotationMode \<Rightarrow> rat option \<Rightarrow> (RotationError, RotatableDIDDocument) result" where
  "announceKeyRotation C pub t doc oldPrivateKey newPublicKey mode activationDelayMs =
     (if pendingRotation doc \<noteq> None then Inl Rotation_pending
      else let delayMs = (if mode = Emergency then 0 else case activationDelayMs of None \<Rightarrow> DEFAULT_PLANNED_OVERLAP_MS | Some d \<Rightarrow> d) in
        bindE (iso_stamp (truncated (of_int t + delayMs))) (\<lambda>activation.
        bindE (iso_stamp t) (\<lambda>announced.
        case (case authentication doc of [] \<Rightarrow> None | a # _ \<Rightarrow> find (\<lambda>vm. vm_id vm = a) (verificationMethod doc)) of
          None \<Rightarrow> Inl No_active_method
        | Some activeVm \<Rightarrow>
            let activeKeyId = hd (authentication doc); oldPublicKey = pub oldPrivateKey in
            if oldPublicKey \<noteq> multibaseToHexSafe (publicKeyMultibase activeVm) then Inl Key_mismatch
            else bindE (canonicalRotationPayloadForWrite C oldPublicKey newPublicKey mode activation) (\<lambda>payload.
              let sig = ed25519_sign C payload oldPrivateKey;
                  newKeyId' = keyIdForPublicKey (did_id doc) (nextKeyIndex doc);
                  newVm = \<lparr>vm_id = newKeyId', vm_controller = did_id doc, publicKeyMultibase = hexToMultibase newPublicKey, retiredAt = None\<rparr>;
                  methods = verificationMethod doc @ [newVm] in
              Inr (if mode = Emergency then
                doc\<lparr>did_updated := announced, verificationMethod := retire_first activeKeyId announced methods,
                  authentication := [newKeyId'], assertionMethod := [newKeyId'], capabilityDelegation := [newKeyId'],
                  rotationLog := rotationLog doc @ [\<lparr>previousKey = oldPublicKey, newKey = newPublicKey, entry_mode = mode, announcedAt = announced,
                    activationTime = activation, entry_state = Activated, rotationSignature = sig, revokedDelegations = None, completedAt = Some announced\<rparr>]\<rparr>
              else
                doc\<lparr>did_updated := announced, verificationMethod := methods, authentication := authentication doc @ [newKeyId'],
                  assertionMethod := assertionMethod doc @ [newKeyId'], capabilityDelegation := capabilityDelegation doc @ [newKeyId'],
                  pendingRotation := Some \<lparr>newKeyId = newKeyId', pending_mode = mode, pending_activation = activation, pending_state = Announced,
                    pending_signature = sig\<rparr>\<rparr>)))))"

definition activateKeyRotation :: "int \<Rightarrow> RotatableDIDDocument \<Rightarrow> (RotationError, RotatableDIDDocument) result" where
  "activateKeyRotation t doc =
     (case pendingRotation doc of
        None \<Rightarrow> Inl No_pending_rotation
      | Some pending \<Rightarrow>
          (case parseRfc3339 (JStr (pending_activation pending)) of
             Inl _ \<Rightarrow> Inl Activation_unreadable
           | Inr ms \<Rightarrow>
               if t < ms then Inl Activation_not_reached
               else bindE (iso_stamp t) (\<lambda>current.
                 let new = newKeyId pending;
                     oldKeyIds = filter (\<lambda>k. k \<noteq> new) (authentication doc);
                     methods = fold (\<lambda>k vms. retire_first k current vms) oldKeyIds (verificationMethod doc);
                     oldPublicKey = (case find (\<lambda>vm. vm_id vm \<in> set oldKeyIds) (verificationMethod doc) of
                       None \<Rightarrow> [] | Some vm \<Rightarrow> multibaseToHexSafe (publicKeyMultibase vm));
                     newPublicKey = (case find (\<lambda>vm. vm_id vm = new) methods of
                       None \<Rightarrow> [] | Some vm \<Rightarrow> multibaseToHexSafe (publicKeyMultibase vm)) in
                 Inr (doc\<lparr>verificationMethod := methods, authentication := [new], assertionMethod := [new], capabilityDelegation := [new],
                   rotationLog := rotationLog doc @ [\<lparr>previousKey = oldPublicKey, newKey = newPublicKey, entry_mode = pending_mode pending,
                     announcedAt = did_updated doc, activationTime = pending_activation pending, entry_state = Activated,
                     rotationSignature = pending_signature pending, revokedDelegations = None, completedAt = Some current\<rparr>],
                   pendingRotation := None, did_updated := current\<rparr>))))"

definition verifyRotationChain :: "crypto \<Rightarrow> RotatableDIDDocument \<Rightarrow> bool" where
  "verifyRotationChain C doc = list_all (\<lambda>e.
     ed25519_verify C (canonicalRotationPayload C (previousKey e) (newKey e) (entry_mode e) (activationTime e)) (rotationSignature e) (previousKey e))
     (rotationLog doc)"

definition isKeyActive :: "int \<Rightarrow> RotatableDIDDocument \<Rightarrow> string \<Rightarrow> bool" where
  "isKeyActive t doc publicKey =
     (case find (\<lambda>v. publicKeyMultibase v = hexToMultibase publicKey) (verificationMethod doc) of
        None \<Rightarrow> False
      | Some vm \<Rightarrow>
          if truthy (retiredAt vm) \<noteq> None then False
          else if vm_id vm \<notin> set (authentication doc) then False
          else (case pendingRotation doc of
              None \<Rightarrow> True
            | Some p \<Rightarrow>
                if newKeyId p = vm_id vm then True
                else (case parseRfc3339 (JStr (pending_activation p)) of Inl _ \<Rightarrow> False | Inr ms \<Rightarrow> \<not> ms \<le> t)))"

record RevocationOutcome =
  ro_delegationId :: string
  cascadeCount :: int
  ro_error :: "string option"

record RotationResult =
  didDocument :: RotatableDIDDocument
  rotationState :: RotationState
  revocationResults :: "RevocationOutcome list"

definition revocation_outcome :: "(nat \<Rightarrow> string \<Rightarrow> (string, int) result) option \<Rightarrow> nat \<Rightarrow> string \<Rightarrow> RevocationOutcome" where
  "revocation_outcome cascade i d =
     (case cascade of
        None \<Rightarrow> \<lparr>ro_delegationId = d, cascadeCount = 0, ro_error = Some ''cascadeRevoke callback not provided''\<rparr>
      | Some f \<Rightarrow> (case f i d of
            Inr n \<Rightarrow> \<lparr>ro_delegationId = d, cascadeCount = n, ro_error = None\<rparr>
          | Inl e \<Rightarrow> \<lparr>ro_delegationId = d, cascadeCount = 0, ro_error = Some e\<rparr>))"

definition failed_outcome :: "(nat \<Rightarrow> string \<Rightarrow> (string, int) result) option \<Rightarrow> nat \<Rightarrow> string \<Rightarrow> bool" where
  "failed_outcome cascade i d = (case cascade of None \<Rightarrow> True | Some f \<Rightarrow> (case f i d of Inr _ \<Rightarrow> False | Inl _ \<Rightarrow> True))"

definition rotateAndInvalidate ::
  "crypto \<Rightarrow> (string \<Rightarrow> string) \<Rightarrow> int \<Rightarrow> RotatableDIDDocument \<Rightarrow> string \<Rightarrow> string \<Rightarrow> string list \<Rightarrow> RotationMode \<Rightarrow> rat option
     \<Rightarrow> (nat \<Rightarrow> string \<Rightarrow> (string, int) result) option \<Rightarrow> (RotationError, RotationResult) result" where
  "rotateAndInvalidate C pub t doc oldPrivateKey newPublicKey ids mode delay cascade =
     bindE (announceKeyRotation C pub t doc oldPrivateKey newPublicKey mode delay) (\<lambda>updated.
       let calls = enumerate 0 ids;
           results = map (\<lambda>(i, d). revocation_outcome cascade i d) calls;
           allRevoked = (\<not> list_ex (\<lambda>(i, d). failed_outcome cascade i d) calls);
           revokedIds = map ro_delegationId (filter (\<lambda>r. truthy (ro_error r) = None) results) in
       Inr (if mode = Emergency then
           (if rotationLog updated = [] then \<lparr>didDocument = updated, rotationState = Activated, revocationResults = results\<rparr>
            else let st = (if allRevoked then Activated else Revocation_in_progress);
                     entry = (last (rotationLog updated))\<lparr>revokedDelegations := Some revokedIds, entry_state := (if allRevoked then entry_state (last (rotationLog updated)) else Revocation_in_progress)\<rparr> in
              \<lparr>didDocument = updated\<lparr>rotationLog := butlast (rotationLog updated) @ [entry]\<rparr>, rotationState = st, revocationResults = results\<rparr>)
         else if ids = [] then \<lparr>didDocument = updated, rotationState = Announced, revocationResults = results\<rparr>
         else let st = (if allRevoked then Revocation_complete else Revocation_in_progress) in
           \<lparr>didDocument = updated\<lparr>pendingRotation := map_option (\<lambda>p. p\<lparr>pending_state := st\<rparr>) (pendingRotation updated)\<rparr>,
            rotationState = st, revocationResults = results\<rparr>))"

section \<open>Methods found by identifier\<close>

lemma key_id_inj: "keyIdForPublicKey d i = keyIdForPublicKey d j \<longleftrightarrow> i = j"
proof -
  have "i = j" if "decimal i = decimal j" using that decimal_digits [of i] decimal_digits [of j] by (metis of_nat_eq_iff)
  then show ?thesis by (auto simp: keyIdForPublicKey_def)
qed

lemma find_nth:
  assumes "distinct (map f xs)" and "i < length xs"
  shows "find (\<lambda>x. f x = f (xs ! i)) xs = Some (xs ! i)"
proof -
  have "\<forall>j < i. f (xs ! j) \<noteq> f (xs ! i)" using assms by (auto simp: distinct_conv_nth)
  then show ?thesis using assms(2) by (auto simp: find_Some_iff intro!: exI [of _ i])
qed

lemma retire_first_nth:
  assumes "distinct (map vm_id vms)" and "i < length vms"
  shows "retire_first (vm_id (vms ! i)) ts vms = vms[i := (vms ! i)\<lparr>retiredAt := Some ts\<rparr>]"
  using assms
proof (induction vms arbitrary: i)
  case (Cons vm vms)
  show ?case
  proof (cases i)
    case (Suc j)
    have "vm_id vm \<noteq> vm_id (vms ! j)" using Cons.prems Suc by auto
    then show ?thesis using Cons Suc by simp
  qed simp
qed simp

lemma stamped: "iso_stamp ms = Inr s \<Longrightarrow> s \<noteq> [] \<and> parseRfc3339 (JStr s) = Inr ms"
proof -
  assume "iso_stamp ms = Inr s"
  then have "formatRfc3339 ms = Some s" by (simp add: iso_stamp_def split: option.splits)
  from formatted_reads_back [OF this] show ?thesis by (cases s) (auto simp: parseRfc3339_def RFC3339_def)
qed

lemma safe_multibase: "lower_hex 64 k \<Longrightarrow> multibaseToHexSafe (hexToMultibase k) = k"
  using multibase_back [of k] by (simp add: multibaseToHexSafe_def lower_hex_def)

lemma multibase_inj: "lower_hex 64 k \<Longrightarrow> lower_hex 64 k' \<Longrightarrow> hexToMultibase k = hexToMultibase k' \<longleftrightarrow> k = k'"
  using safe_multibase by metis

lemma payload_writes: "canonicalRotationPayloadForWrite C p n m a = Inr (canonicalRotationPayload C p n m a)"
  by (simp add: canonicalRotationPayloadForWrite_def canonicalRotationPayload_def canonicalizeForWrite_def rotation_payload_def)

section \<open>Key histories\<close>

text \<open>
  A document carries the history of its keys: the methods are the keys in order of adoption,
  the log links each key to the next with a signature of the earlier one, everything before
  the current key is retired, and the current key, with the announced one during an overlap,
  is all that may act.
\<close>

definition signed_link :: "crypto \<Rightarrow> string \<Rightarrow> string \<Rightarrow> RotationMode \<Rightarrow> string \<Rightarrow> string \<Rightarrow> bool" where
  "signed_link C prev new mode activation sig \<longleftrightarrow> ed25519_verify C (canonicalRotationPayload C prev new mode activation) sig prev"

definition key_history :: "crypto \<Rightarrow> string list \<Rightarrow> RotatableDIDDocument \<Rightarrow> bool" where
  "key_history C ks doc \<longleftrightarrow>
     (let n = length (rotationLog doc); vms = verificationMethod doc in
      length ks = (if pendingRotation doc = None then n + 1 else n + 2) \<and> list_all (lower_hex 64) ks
      \<and> map vm_id vms = map (keyIdForPublicKey (did_id doc)) [1..<Suc (length ks)] \<and> map publicKeyMultibase vms = map hexToMultibase ks
      \<and> (\<forall>i < length ks. truthy (retiredAt (vms ! i)) = None \<longleftrightarrow> n \<le> i)
      \<and> authentication doc = drop n (map vm_id vms) \<and> assertionMethod doc = authentication doc \<and> capabilityDelegation doc = authentication doc
      \<and> map previousKey (rotationLog doc) = take n ks \<and> map newKey (rotationLog doc) = take n (tl ks) \<and> verifyRotationChain C doc
      \<and> (\<forall>p. pendingRotation doc = Some p \<longrightarrow> newKeyId p = vm_id (vms ! (n + 1))
           \<and> signed_link C (ks ! n) (ks ! (n + 1)) (pending_mode p) (pending_activation p) (pending_signature p)
           \<and> (\<exists>ms. parseRfc3339 (JStr (pending_activation p)) = Inr ms)))"

lemma history_ids:
  assumes "key_history C ks doc"
  shows "distinct (map vm_id (verificationMethod doc))" "length (verificationMethod doc) = length ks" "length (rotationLog doc) < length ks"
    "\<And>i. i < length ks \<Longrightarrow> vm_id (verificationMethod doc ! i) = keyIdForPublicKey (did_id doc) (Suc i)"
    "\<And>i. i < length ks \<Longrightarrow> publicKeyMultibase (verificationMethod doc ! i) = hexToMultibase (ks ! i)"
    "\<And>i. i < length ks \<Longrightarrow> lower_hex 64 (ks ! i)"
proof -
  let ?v = "verificationMethod doc"
  have ids: "map vm_id ?v = map (keyIdForPublicKey (did_id doc)) [1..<Suc (length ks)]" and mb: "map publicKeyMultibase ?v = map hexToMultibase ks"
    and hx: "list_all (lower_hex 64) ks" and ln: "length ks = (if pendingRotation doc = None then length (rotationLog doc) + 1 else length (rotationLog doc) + 2)"
    using assms by (simp_all add: key_history_def Let_def)
  show "distinct (map vm_id ?v)" unfolding ids by (simp add: distinct_map inj_on_def key_id_inj)
  show len: "length ?v = length ks" using mb by (metis length_map)
  show "length (rotationLog doc) < length ks" using ln by simp
  show "vm_id (?v ! i) = keyIdForPublicKey (did_id doc) (Suc i)" if "i < length ks" for i
    using arg_cong [OF ids, of "\<lambda>l. l ! i"] that len by (simp del: upt_Suc)
  show "publicKeyMultibase (?v ! i) = hexToMultibase (ks ! i)" if "i < length ks" for i
    using arg_cong [OF mb, of "\<lambda>l. l ! i"] that len by simp
  show "lower_hex 64 (ks ! i)" if "i < length ks" for i using hx that by (simp add: list_all_length)
qed

lemma created_history:
  assumes "createDIDDocument k c = Inr doc" and "lower_hex 64 k"
  shows "key_history C [k] doc"
proof -
  from assms(1) obtain did where "doc = \<lparr>did_id = did, did_controller = did,
      verificationMethod = [\<lparr>vm_id = did @ ''#key-1'', vm_controller = did, publicKeyMultibase = hexToMultibase k, retiredAt = None\<rparr>],
      authentication = [did @ ''#key-1''], assertionMethod = [did @ ''#key-1''], capabilityDelegation = [did @ ''#key-1''], pendingRotation = None, rotationLog = [],
      did_created = c, did_updated = c\<rparr>"
    by (auto simp: createDIDDocument_def Let_def split: sum.splits)
  moreover have "decimal (Suc 0) = ''1''" by code_simp
  ultimately show ?thesis using assms(2)
    by (simp add: key_history_def keyIdForPublicKey_def verifyRotationChain_def truthy_def upt_rec)
qed

lemma announced:
  assumes h: "key_history C ks doc" and a: "announceKeyRotation C pub t doc sk k mode delay = Inr doc'"
  defines "n \<equiv> length (rotationLog doc)" and "kid \<equiv> keyIdForPublicKey (did_id doc) (length ks + 1)"
  obtains activation ts sig where "pendingRotation doc = None" "iso_stamp t = Inr ts" "pub sk = ks ! n" "iso_stamp (truncated (of_int t + (if mode = Emergency then 0 else case delay of None \<Rightarrow> DEFAULT_PLANNED_OVERLAP_MS | Some d \<Rightarrow> d))) = Inr activation"
    "sig = ed25519_sign C (canonicalRotationPayload C (ks ! n) k mode activation) sk"
    "mode = Emergency \<Longrightarrow> doc' = doc\<lparr>did_updated := ts,
       verificationMethod := (verificationMethod doc)[n := (verificationMethod doc ! n)\<lparr>retiredAt := Some ts\<rparr>]
         @ [\<lparr>vm_id = kid, vm_controller = did_id doc, publicKeyMultibase = hexToMultibase k, retiredAt = None\<rparr>],
       authentication := [kid], assertionMethod := [kid], capabilityDelegation := [kid],
       rotationLog := rotationLog doc @ [\<lparr>previousKey = ks ! n, newKey = k, entry_mode = mode, announcedAt = ts, activationTime = activation,
         entry_state = Activated, rotationSignature = sig, revokedDelegations = None, completedAt = Some ts\<rparr>]\<rparr>"
    "mode = Planned \<Longrightarrow> doc' = doc\<lparr>did_updated := ts,
       verificationMethod := verificationMethod doc @ [\<lparr>vm_id = kid, vm_controller = did_id doc, publicKeyMultibase = hexToMultibase k, retiredAt = None\<rparr>],
       authentication := authentication doc @ [kid], assertionMethod := assertionMethod doc @ [kid], capabilityDelegation := capabilityDelegation doc @ [kid],
       pendingRotation := Some \<lparr>newKeyId = kid, pending_mode = mode, pending_activation = activation, pending_state = Announced, pending_signature = sig\<rparr>\<rparr>"
proof -
  let ?v = "verificationMethod doc"
  note ids = history_ids [OF h]
  have none: "pendingRotation doc = None" using a by (auto simp: announceKeyRotation_def split: if_splits)
  have auth: "authentication doc = [vm_id (?v ! n)]" and nk: "length ks = Suc n"
    using h none ids(2) by (simp_all add: key_history_def Let_def n_def drop_map Cons_nth_drop_Suc [symmetric])
  have n: "n < length ?v" using ids(2) nk by simp
  have f: "find (\<lambda>vm. vm_id vm = vm_id (?v ! n)) ?v = Some (?v ! n)" by (rule find_nth [OF ids(1) n])
  have r: "retire_first (vm_id (?v ! n)) ts (?v @ [vm]) = ?v[n := (?v ! n)\<lparr>retiredAt := Some ts\<rparr>] @ [vm]" for ts vm
  proof -
    have "retire_first kid' ts (xs @ [vm]) = retire_first kid' ts xs @ [vm]" if "kid' \<in> set (map vm_id xs)" for kid' xs
      using that by (induction xs) auto
    then show ?thesis using n retire_first_nth [OF ids(1) n] by (simp add: nth_mem)
  qed
  have key: "multibaseToHexSafe (publicKeyMultibase (?v ! n)) = ks ! n" using ids(5,6) nk safe_multibase by simp
  have kid: "keyIdForPublicKey (did_id doc) (nextKeyIndex doc) = kid" by (simp add: nextKeyIndex_def ids(2) kid_def)
  from a obtain activation ts where g: "iso_stamp (truncated (of_int t + (if mode = Emergency then 0 else case delay of None \<Rightarrow> DEFAULT_PLANNED_OVERLAP_MS | Some d \<Rightarrow> d))) = Inr activation"
      "iso_stamp t = Inr ts" "pub sk = ks ! n"
    by (auto simp: announceKeyRotation_def none bindE_Inr_iff auth f key Let_def split: if_splits)
  from a [unfolded announceKeyRotation_def none Let_def] have d: "doc' = (if mode = Emergency then
       doc\<lparr>did_updated := ts, verificationMethod := ?v[n := (?v ! n)\<lparr>retiredAt := Some ts\<rparr>]
         @ [\<lparr>vm_id = kid, vm_controller = did_id doc, publicKeyMultibase = hexToMultibase k, retiredAt = None\<rparr>],
       authentication := [kid], assertionMethod := [kid], capabilityDelegation := [kid],
       rotationLog := rotationLog doc @ [\<lparr>previousKey = ks ! n, newKey = k, entry_mode = mode, announcedAt = ts, activationTime = activation,
         entry_state = Activated, rotationSignature = ed25519_sign C (canonicalRotationPayload C (ks ! n) k mode activation) sk, revokedDelegations = None, completedAt = Some ts\<rparr>]\<rparr>
     else doc\<lparr>did_updated := ts,
       verificationMethod := ?v @ [\<lparr>vm_id = kid, vm_controller = did_id doc, publicKeyMultibase = hexToMultibase k, retiredAt = None\<rparr>],
       authentication := authentication doc @ [kid], assertionMethod := assertionMethod doc @ [kid], capabilityDelegation := capabilityDelegation doc @ [kid],
       pendingRotation := Some \<lparr>newKeyId = kid, pending_mode = mode, pending_activation = activation, pending_state = Announced,
         pending_signature = ed25519_sign C (canonicalRotationPayload C (ks ! n) k mode activation) sk\<rparr>\<rparr>)"
    using g by (simp add: auth f key kid r payload_writes cong: if_cong)
  show thesis
    by (rule that [OF none g(2,3,1) refl]) (use d in auto)
qed

lemma key_historyD:
  assumes "key_history C ks doc"
  defines "n \<equiv> length (rotationLog doc)"
  shows "length ks = (if pendingRotation doc = None then n + 1 else n + 2)" "list_all (lower_hex 64) ks"
    "map vm_id (verificationMethod doc) = map (keyIdForPublicKey (did_id doc)) [1..<Suc (length ks)]"
    "map publicKeyMultibase (verificationMethod doc) = map hexToMultibase ks"
    "\<And>i. i < length ks \<Longrightarrow> truthy (retiredAt (verificationMethod doc ! i)) = None \<longleftrightarrow> n \<le> i"
    "authentication doc = drop n (map vm_id (verificationMethod doc))" "assertionMethod doc = authentication doc" "capabilityDelegation doc = authentication doc"
    "map previousKey (rotationLog doc) = take n ks" "map newKey (rotationLog doc) = take n (tl ks)" "verifyRotationChain C doc"
    "\<And>p. pendingRotation doc = Some p \<Longrightarrow> newKeyId p = vm_id (verificationMethod doc ! (n + 1))
       \<and> signed_link C (ks ! n) (ks ! (n + 1)) (pending_mode p) (pending_activation p) (pending_signature p)
       \<and> (\<exists>ms. parseRfc3339 (JStr (pending_activation p)) = Inr ms)"
  using assms by (simp_all add: key_history_def Let_def)

lemma announce_history:
  assumes h: "key_history C ks doc" and a: "announceKeyRotation C pub t doc sk k mode delay = Inr doc'"
    and kp: "keypair C sk (pub sk)" and k: "lower_hex 64 k"
  shows "key_history C (ks @ [k]) doc'"
proof -
  let ?n = "length (rotationLog doc)" and ?v = "verificationMethod doc" and ?kid = "keyIdForPublicKey (did_id doc) (length ks + 1)"
  note d = key_historyD [OF h] and ids = history_ids [OF h]
  obtain activation ts sig where none: "pendingRotation doc = None" and ts: "iso_stamp t = Inr ts" and old: "pub sk = ks ! ?n"
    and act: "iso_stamp (truncated (of_int t + (if mode = Emergency then 0 else case delay of None \<Rightarrow> DEFAULT_PLANNED_OVERLAP_MS | Some d \<Rightarrow> d))) = Inr activation" and sig: "sig = ed25519_sign C (canonicalRotationPayload C (ks ! ?n) k mode activation) sk"
    and em: "mode = Emergency \<Longrightarrow> doc' = doc\<lparr>did_updated := ts,
       verificationMethod := ?v[?n := (?v ! ?n)\<lparr>retiredAt := Some ts\<rparr>]
         @ [\<lparr>vm_id = ?kid, vm_controller = did_id doc, publicKeyMultibase = hexToMultibase k, retiredAt = None\<rparr>],
       authentication := [?kid], assertionMethod := [?kid], capabilityDelegation := [?kid],
       rotationLog := rotationLog doc @ [\<lparr>previousKey = ks ! ?n, newKey = k, entry_mode = mode, announcedAt = ts, activationTime = activation,
         entry_state = Activated, rotationSignature = sig, revokedDelegations = None, completedAt = Some ts\<rparr>]\<rparr>"
    and pl: "mode = Planned \<Longrightarrow> doc' = doc\<lparr>did_updated := ts,
       verificationMethod := ?v @ [\<lparr>vm_id = ?kid, vm_controller = did_id doc, publicKeyMultibase = hexToMultibase k, retiredAt = None\<rparr>],
       authentication := authentication doc @ [?kid], assertionMethod := assertionMethod doc @ [?kid], capabilityDelegation := capabilityDelegation doc @ [?kid],
       pendingRotation := Some \<lparr>newKeyId = ?kid, pending_mode = mode, pending_activation = activation, pending_state = Announced, pending_signature = sig\<rparr>\<rparr>"
    by (rule announced [OF h a]) blast
  have len: "length ks = Suc ?n" "length ?v = Suc ?n" using d(1) none ids(2) by simp_all
  have link: "signed_link C (ks ! ?n) k mode activation sig" using kp unfolding signed_link_def sig old keypair_def by blast
  have up: "map (keyIdForPublicKey (did_id doc)) [1..<Suc (length (ks @ [k]))] = map vm_id ?v @ [?kid]" unfolding d(3) by simp
  have pk: "take ?n ks @ [ks ! ?n] = ks" using len by (metis lessI take_Suc_conv_app_nth take_all_iff order_refl)
  have nk: "take ?n (tl ks) = tl ks" "tl (ks @ [k]) = tl ks @ [k]" using len by (simp, cases ks) simp_all
  have same: "map vm_id (?v[?n := (?v ! ?n)\<lparr>retiredAt := Some ts\<rparr>]) = map vm_id ?v" "map publicKeyMultibase (?v[?n := (?v ! ?n)\<lparr>retiredAt := Some ts\<rparr>]) = map publicKeyMultibase ?v"
    using len by (simp_all add: map_update list_update_same_conv)
  show ?thesis
  proof (cases mode)
    case Emergency
    have ret: "truthy (retiredAt ((?v[?n := (?v ! ?n)\<lparr>retiredAt := Some ts\<rparr>] @ [\<lparr>vm_id = ?kid, vm_controller = did_id doc, publicKeyMultibase = hexToMultibase k, retiredAt = None\<rparr>]) ! i)) = None
        \<longleftrightarrow> Suc ?n \<le> i" if "i < Suc (length ks)" for i
      using that d(5) [of i] stamped [OF ts] len by (auto simp: nth_append nth_list_update truthy_def split: if_splits)
    show ?thesis unfolding key_history_def Let_def em [OF Emergency]
      using none d(2,9,10,11) k up ret link pk nk same d(4) len
      by (simp add: verifyRotationChain_def signed_link_def del: upt_Suc)
  next
    case Planned
    have ret: "truthy (retiredAt ((?v @ [\<lparr>vm_id = ?kid, vm_controller = did_id doc, publicKeyMultibase = hexToMultibase k, retiredAt = None\<rparr>]) ! i)) = None
        \<longleftrightarrow> ?n \<le> i" if "i < Suc (length ks)" for i
      using that d(5) [of i] len by (auto simp: nth_append truthy_def split: if_splits)
    show ?thesis unfolding key_history_def Let_def pl [OF Planned]
      using none d(2,4,6,7,8,9,10,11) k up ret link stamped [OF act] len Planned nk
      by (simp add: verifyRotationChain_def nth_append del: upt_Suc)
  qed
qed

lemma activated:
  assumes h: "key_history C ks doc" and a: "activateKeyRotation t doc = Inr doc'"
  defines "n \<equiv> length (rotationLog doc)" and "kid \<equiv> keyIdForPublicKey (did_id doc) (length ks)"
  obtains p ms ts where "pendingRotation doc = Some p" "parseRfc3339 (JStr (pending_activation p)) = Inr ms" "ms \<le> t" "iso_stamp t = Inr ts"
    "doc' = doc\<lparr>verificationMethod := (verificationMethod doc)[n := (verificationMethod doc ! n)\<lparr>retiredAt := Some ts\<rparr>],
       authentication := [kid], assertionMethod := [kid], capabilityDelegation := [kid],
       rotationLog := rotationLog doc @ [\<lparr>previousKey = ks ! n, newKey = ks ! (n + 1), entry_mode = pending_mode p, announcedAt = did_updated doc,
         activationTime = pending_activation p, entry_state = Activated, rotationSignature = pending_signature p, revokedDelegations = None, completedAt = Some ts\<rparr>],
       pendingRotation := None, did_updated := ts\<rparr>"
proof -
  let ?v = "verificationMethod doc"
  note d = key_historyD [OF h] and ids = history_ids [OF h]
  from a obtain p ms ts where g: "pendingRotation doc = Some p" "parseRfc3339 (JStr (pending_activation p)) = Inr ms" "\<not> t < ms" "iso_stamp t = Inr ts"
    by (auto simp: activateKeyRotation_def bindE_Inr_iff split: option.splits sum.splits if_splits)
  have len: "length ks = n + 2" "length ?v = n + 2" using d(1) g(1) ids(2) by (simp_all add: n_def)
  have kid: "newKeyId p = kid" "vm_id (?v ! (n + 1)) = kid" using d(12) [OF g(1)] ids(4) [of "n + 1"] len by (simp_all add: n_def kid_def)
  have other: "vm_id (?v ! n) \<noteq> kid" using ids(4) [of n] len by (simp add: kid_def key_id_inj)
  have "drop n (map vm_id ?v) = [vm_id (?v ! n), kid]"
    using len kid(2) by (simp add: drop_map Cons_nth_drop_Suc [symmetric])
  then have auth: "filter (\<lambda>k. k \<noteq> kid) (authentication doc) = [vm_id (?v ! n)]" using d(6) other by (simp add: n_def)
  have n: "n < length ?v" "n + 1 < length ?v" using len by simp_all
  have r: "retire_first (vm_id (?v ! n)) ts ?v = ?v[n := (?v ! n)\<lparr>retiredAt := Some ts\<rparr>]" by (rule retire_first_nth [OF ids(1) n(1)])
  have f: "find (\<lambda>vm. vm_id vm = vm_id (?v ! n)) ?v = Some (?v ! n)" by (rule find_nth [OF ids(1) n(1)])
  let ?w = "?v[n := (?v ! n)\<lparr>retiredAt := Some ts\<rparr>]"
  have "map vm_id ?w = map vm_id ?v" using n by (simp add: map_update list_update_same_conv)
  then have "find (\<lambda>vm. vm_id vm = vm_id (?w ! (n + 1))) ?w = Some (?w ! (n + 1))" using ids(1) n by (intro find_nth) simp_all
  then have f2: "find (\<lambda>vm. vm_id vm = kid) ?w = Some (?v ! (n + 1))" using kid(2) by simp
  have key: "multibaseToHexSafe (publicKeyMultibase (?v ! n)) = ks ! n" "multibaseToHexSafe (publicKeyMultibase (?v ! (n + 1))) = ks ! (n + 1)"
    using ids(5,6) len safe_multibase by simp_all
  show thesis
    by (rule that [OF g(1,2) _ g(4)]) (use a g in \<open>simp_all add: activateKeyRotation_def Let_def kid(1) auth r f f2 key [simplified] del: set_filter\<close>)
qed

lemma activate_history:
  assumes h: "key_history C ks doc" and a: "activateKeyRotation t doc = Inr doc'"
  shows "key_history C ks doc'"
proof -
  let ?n = "length (rotationLog doc)" and ?v = "verificationMethod doc" and ?kid = "keyIdForPublicKey (did_id doc) (length ks)"
  note d = key_historyD [OF h] and ids = history_ids [OF h]
  obtain p ms ts where g: "pendingRotation doc = Some p" "iso_stamp t = Inr ts" and e:
    "doc' = doc\<lparr>verificationMethod := ?v[?n := (?v ! ?n)\<lparr>retiredAt := Some ts\<rparr>],
       authentication := [?kid], assertionMethod := [?kid], capabilityDelegation := [?kid],
       rotationLog := rotationLog doc @ [\<lparr>previousKey = ks ! ?n, newKey = ks ! (?n + 1), entry_mode = pending_mode p, announcedAt = did_updated doc,
         activationTime = pending_activation p, entry_state = Activated, rotationSignature = pending_signature p, revokedDelegations = None, completedAt = Some ts\<rparr>],
       pendingRotation := None, did_updated := ts\<rparr>"
    by (rule activated [OF h a]) blast
  have len: "length ks = ?n + 2" "length ?v = ?n + 2" using d(1) g(1) ids(2) by simp_all
  have same: "map vm_id (?v[?n := (?v ! ?n)\<lparr>retiredAt := Some ts\<rparr>]) = map vm_id ?v" "map publicKeyMultibase (?v[?n := (?v ! ?n)\<lparr>retiredAt := Some ts\<rparr>]) = map publicKeyMultibase ?v"
    using len by (simp_all add: map_update list_update_same_conv)
  have au: "drop (Suc ?n) (map vm_id ?v) = [?kid]" using len ids(4) [of "Suc ?n"] by (simp add: drop_map Cons_nth_drop_Suc [symmetric])
  have pk: "take (Suc ?n) ks = take ?n ks @ [ks ! ?n]" "take (Suc ?n) (tl ks) = take ?n (tl ks) @ [ks ! (?n + 1)]"
    using len take_Suc_conv_app_nth [of ?n ks] take_Suc_conv_app_nth [of ?n "tl ks"] by (simp_all add: nth_tl)
  have ret: "truthy (retiredAt (?v[?n := (?v ! ?n)\<lparr>retiredAt := Some ts\<rparr>] ! i)) = None \<longleftrightarrow> Suc ?n \<le> i" if "i < length ks" for i
    using that d(5) [of i] stamped [OF g(2)] len by (auto simp: nth_list_update truthy_def)
  show ?thesis unfolding key_history_def Let_def e
    using d(2,3,4,9,10,11) d(12) [OF g(1)] ret same au pk len
    by (simp add: verifyRotationChain_def signed_link_def del: upt_Suc)
qed

lemma invalidate_history:
  assumes h: "key_history C ks doc" and a: "rotateAndInvalidate C pub t doc sk k ds mode delay cascade = Inr r"
    and kp: "keypair C sk (pub sk)" and k: "lower_hex 64 k"
  shows "key_history C (ks @ [k]) (didDocument r)"
proof -
  from a obtain doc' where u: "announceKeyRotation C pub t doc sk k mode delay = Inr doc'" by (auto simp: rotateAndInvalidate_def bindE_Inr_iff)
  note h' = announce_history [OF h u kp k]
  have log: "key_history C (ks @ [k]) (doc'\<lparr>rotationLog := butlast (rotationLog doc') @ [(last (rotationLog doc'))\<lparr>revokedDelegations := ids, entry_state := st\<rparr>]\<rparr>)"
    if "rotationLog doc' \<noteq> []" for ids st
  proof -
    obtain xs e where x: "rotationLog doc' = xs @ [e]" using \<open>rotationLog doc' \<noteq> []\<close> by (metis append_butlast_last_id)
    show ?thesis using h' unfolding key_history_def Let_def x verifyRotationChain_def by (simp del: upt_Suc)
  qed
  have log': "key_history C (ks @ [k]) (doc'\<lparr>rotationLog := butlast (rotationLog doc') @ [(last (rotationLog doc'))\<lparr>revokedDelegations := ids\<rparr>]\<rparr>)"
    if "rotationLog doc' \<noteq> []" for ids
    using log [OF that, of "entry_state (last (rotationLog doc'))" ids] by simp
  have pend: "key_history C (ks @ [k]) (doc'\<lparr>pendingRotation := map_option (\<lambda>p. p\<lparr>pending_state := st\<rparr>) (pendingRotation doc')\<rparr>)" for st
    using h' by (cases "pendingRotation doc'") (simp_all add: key_history_def Let_def verifyRotationChain_def)
  show ?thesis using a u h' log log' pend by (auto simp: rotateAndInvalidate_def Let_def split: if_splits)
qed

section \<open>The machine of a document\<close>

datatype rotation_op =
    Announce int string string RotationMode "rat option"
  | Activate int
  | Rotate_invalidate int string string "string list" RotationMode "rat option" "(nat \<Rightarrow> string \<Rightarrow> (string, int) result) option"

text \<open>Callers present the private key of a pair the platform made, and new keys in lowercase hexadecimal.\<close>

fun rotation_step :: "crypto \<Rightarrow> (string \<Rightarrow> string) \<Rightarrow> RotatableDIDDocument \<Rightarrow> rotation_op \<Rightarrow> RotatableDIDDocument \<Rightarrow> bool" where
  "rotation_step C pub doc (Announce t sk k mode delay) doc' \<longleftrightarrow>
     announceKeyRotation C pub t doc sk k mode delay = Inr doc' \<and> keypair C sk (pub sk) \<and> lower_hex 64 k"
| "rotation_step C pub doc (Activate t) doc' \<longleftrightarrow> activateKeyRotation t doc = Inr doc'"
| "rotation_step C pub doc (Rotate_invalidate t sk k ids mode delay cascade) doc' \<longleftrightarrow>
     (\<exists>r. rotateAndInvalidate C pub t doc sk k ids mode delay cascade = Inr r \<and> doc' = didDocument r) \<and> keypair C sk (pub sk) \<and> lower_hex 64 k"

definition has_history :: "crypto \<Rightarrow> RotatableDIDDocument \<Rightarrow> bool" where
  "has_history C doc \<longleftrightarrow> (\<exists>ks. key_history C ks doc)"

definition history_extends :: "crypto \<Rightarrow> RotatableDIDDocument \<Rightarrow> RotatableDIDDocument \<Rightarrow> bool" where
  "history_extends C s t \<longleftrightarrow>
     length (rotationLog s) \<le> length (rotationLog t) \<and> (\<forall>ks. key_history C ks s \<longrightarrow> (\<exists>more. key_history C (ks @ more) t))"

lemma log_grows:
  assumes "key_history C ks doc" and "rotation_step C pub doc l doc'"
  shows "length (rotationLog doc) \<le> length (rotationLog doc')"
proof (cases l)
  case (Announce t sk k mode delay)
  then have a: "announceKeyRotation C pub t doc sk k mode delay = Inr doc'" using assms(2) by simp
  show ?thesis by (rule announced [OF assms(1) a], cases mode) simp_all
next
  case (Activate t)
  then have a: "activateKeyRotation t doc = Inr doc'" using assms(2) by simp
  show ?thesis by (rule activated [OF assms(1) a]) simp
next
  case (Rotate_invalidate t sk k ids mode delay cascade)
  then obtain r where r: "rotateAndInvalidate C pub t doc sk k ids mode delay cascade = Inr r" "doc' = didDocument r" using assms(2) by auto
  then obtain u where u: "announceKeyRotation C pub t doc sk k mode delay = Inr u" by (auto simp: rotateAndInvalidate_def bindE_Inr_iff)
  have "length (rotationLog doc) \<le> length (rotationLog u)" by (rule announced [OF assms(1) u], cases mode) simp_all
  moreover have "length (rotationLog (didDocument r)) = length (rotationLog u)" using r(1) u
    by (auto simp: rotateAndInvalidate_def Let_def split: if_splits)
  ultimately show ?thesis using r(2) by simp
qed

lemma step_extends:
  assumes "key_history C ks doc" and "rotation_step C pub doc l doc'"
  shows "\<exists>more. key_history C (ks @ more) doc'"
proof (cases l)
  case (Announce t sk k mode delay)
  then have a: "announceKeyRotation C pub t doc sk k mode delay = Inr doc'" "keypair C sk (pub sk)" "lower_hex 64 k" using assms(2) by simp_all
  show ?thesis using announce_history [OF assms(1) a] by blast
next
  case (Activate t)
  then have "activateKeyRotation t doc = Inr doc'" using assms(2) by simp
  from activate_history [OF assms(1) this] show ?thesis by (metis append_Nil2)
next
  case (Rotate_invalidate t sk k ids mode delay cascade)
  then obtain r where "rotateAndInvalidate C pub t doc sk k ids mode delay cascade = Inr r" "keypair C sk (pub sk)" "lower_hex 64 k" "doc' = didDocument r"
    using assms(2) by auto
  then show ?thesis using invalidate_history [OF assms(1)] by blast
qed

interpretation rotating: machine_progress "rotation_step C pub" "has_history C" "history_extends C" for C pub
proof unfold_locales
  show "history_extends C s s" for s unfolding history_extends_def by (metis append_Nil2 order_refl)
  show "history_extends C s u" if "history_extends C s t" "history_extends C t u" for s t u
    using that unfolding history_extends_def by (metis append_assoc le_trans)
  show "has_history C t" if "has_history C s" "rotation_step C pub s l t" for s l t
    using that step_extends unfolding has_history_def by blast
  show "history_extends C s t" if "has_history C s" "rotation_step C pub s l t" for s l t
    using that step_extends log_grows unfolding has_history_def history_extends_def by blast
qed

lemma announce_returns:
  assumes h: "key_history C ks doc" and none: "pendingRotation doc = None" and "pub sk = ks ! (length (rotationLog doc))"
    and ts: "iso_stamp (truncated (of_int t + (if mode = Emergency then 0 else case delay of None \<Rightarrow> DEFAULT_PLANNED_OVERLAP_MS | Some d \<Rightarrow> d))) = Inr activation"
      "iso_stamp t = Inr now'"
  shows "\<exists>doc'. announceKeyRotation C pub t doc sk k mode delay = Inr doc'"
proof -
  let ?n = "length (rotationLog doc)" and ?v = "verificationMethod doc"
  note ids = history_ids [OF h]
  have auth: "authentication doc = [vm_id (?v ! ?n)]"
    using key_historyD(1,6) [OF h] none ids(2) by (simp add: drop_map Cons_nth_drop_Suc [symmetric])
  have "find (\<lambda>vm. vm_id vm = vm_id (?v ! ?n)) ?v = Some (?v ! ?n)" by (rule find_nth [OF ids(1)]) (simp add: ids(2,3))
  moreover have "multibaseToHexSafe (publicKeyMultibase (?v ! ?n)) = ks ! ?n" using ids(3,5,6) safe_multibase by simp
  ultimately show ?thesis using assms(3) ts by (simp add: announceKeyRotation_def none auth Let_def payload_writes)
qed

section \<open>Which keys may act\<close>

lemma active_lookup:
  assumes h: "key_history C ks doc" and i: "i < length ks" "\<forall>j < i. ks ! j \<noteq> ks ! i"
  shows "find (\<lambda>v. publicKeyMultibase v = hexToMultibase (ks ! i)) (verificationMethod doc) = Some (verificationMethod doc ! i)"
proof -
  note ids = history_ids [OF h]
  have "publicKeyMultibase (verificationMethod doc ! j) \<noteq> hexToMultibase (ks ! i)" if "j < i" for j
  proof -
    have j: "j < length ks" using that i(1) by simp
    then show ?thesis using that i(2) ids(5) [OF j] multibase_inj [OF ids(6) [OF j] ids(6) [OF i(1)]] by simp
  qed
  then show ?thesis using i(1) ids(2,5) by (auto simp: find_Some_iff intro!: exI [of _ i])
qed

lemma first_index:
  assumes "i < length ks"
  obtains j where "j \<le> i" "ks ! j = ks ! i" "\<forall>m < j. ks ! m \<noteq> ks ! j"
proof -
  let ?j = "LEAST j. ks ! j = ks ! i"
  have "ks ! ?j = ks ! i" by (rule LeastI) simp
  moreover have "?j \<le> i" by (rule Least_le) simp
  moreover have "\<forall>m < ?j. ks ! m \<noteq> ks ! ?j" using not_less_Least calculation(1) by metis
  ultimately show thesis using that by blast
qed

lemma retired_inactive:
  assumes h: "key_history C ks doc" and "i < length (rotationLog doc)"
  shows "\<not> isKeyActive t doc (ks ! i)"
proof -
  note ids = history_ids [OF h]
  have i: "i < length ks" using ids(3) assms(2) by simp
  obtain j where j: "j \<le> i" "ks ! j = ks ! i" "\<forall>m < j. ks ! m \<noteq> ks ! j" using first_index [OF i] by blast
  have jn: "j < length (rotationLog doc)" "j < length ks" using j(1) assms(2) i by simp_all
  then have "truthy (retiredAt (verificationMethod doc ! j)) \<noteq> None" using key_historyD(5) [OF h jn(2)] by simp
  then show ?thesis using active_lookup [OF h jn(2) j(3)] j(2) by (simp add: isKeyActive_def)
qed

lemma active_exact:
  assumes h: "key_history C ks doc" and "distinct ks" and "i < length ks"
  shows "isKeyActive t doc (ks ! i) \<longleftrightarrow>
    i = length ks - 1 \<or> (\<exists>p ms. pendingRotation doc = Some p \<and> i = length (rotationLog doc) \<and> parseRfc3339 (JStr (pending_activation p)) = Inr ms \<and> t < ms)"
proof (cases "i < length (rotationLog doc)")
  case True
  then show ?thesis using retired_inactive [OF h True] key_historyD(1) [OF h] by (auto split: if_splits)
next
  case False
  let ?n = "length (rotationLog doc)" and ?v = "verificationMethod doc"
  note d = key_historyD [OF h] and ids = history_ids [OF h]
  have "\<forall>j < i. ks ! j \<noteq> ks ! i" using assms(2,3) by (auto simp: distinct_conv_nth)
  note f = active_lookup [OF h assms(3) this]
  have live: "truthy (retiredAt (?v ! i)) = None" using d(5) [OF assms(3)] False by simp
  have auth: "vm_id (?v ! i) \<in> set (authentication doc)"
    using d(6) False assms(3) ids(2) by (auto simp: in_set_conv_nth intro!: exI [of _ "i - ?n"])
  show ?thesis
  proof (cases "pendingRotation doc")
    case None
    then show ?thesis using f live auth d(1) assms(3) False by (simp add: isKeyActive_def)
  next
    case (Some p)
    have len: "length ks = ?n + 2" using d(1) Some by simp
    obtain ms where ms: "parseRfc3339 (JStr (pending_activation p)) = Inr ms" using d(12) [OF Some] by blast
    have "newKeyId p = keyIdForPublicKey (did_id doc) (Suc (?n + 1))" using d(12) [OF Some] ids(4) [of "?n + 1"] len by simp
    then have "newKeyId p = vm_id (?v ! i) \<longleftrightarrow> i = ?n + 1" using ids(4) [OF assms(3)] by (auto simp: key_id_inj)
    then show ?thesis using f live auth Some ms len assms(3) False by (auto simp: isKeyActive_def not_le)
  qed
qed

section \<open>Properties\<close>

text \<open>C37. Every document reached from a fresh one by announcements, activations and rotations with
  invalidation carries the history of its keys: the log is a chain of signed links from the
  first key to the current one, exactly the keys behind the current one are retired, and
  exactly the current key and an announced successor are authorized, in all three roles.\<close>

theorem rotation_keeps_the_history:
  assumes "createDIDDocument k0 c = Inr doc" and "lower_hex 64 k0" and "run (rotation_step C pub) doc ops doc'"
  shows "\<exists>ks. key_history C (k0 # ks) doc'"
proof -
  have h: "key_history C [k0] doc" using assms(1,2) by (rule created_history)
  then have "has_history C doc" by (auto simp: has_history_def)
  from rotating.run_forward [OF assms(3) this] h obtain more where "key_history C ([k0] @ more) doc'" unfolding history_extends_def by blast
  then show ?thesis by auto
qed

text \<open>A key that has been rotated out never acts again: whatever rotations follow, the document
  reports it inactive at every time.\<close>

theorem retired_key_stays_inactive:
  assumes "key_history C ks s" and "i < length (rotationLog s)" and "run (rotation_step C pub) s ops t"
  shows "\<not> isKeyActive at_ms t (ks ! i)"
proof -
  have "has_history C s" using assms(1) by (auto simp: has_history_def)
  from rotating.run_forward [OF assms(3) this] assms(1) obtain more where h: "key_history C (ks @ more) t" and n: "length (rotationLog s) \<le> length (rotationLog t)"
    by (auto simp: history_extends_def)
  have "i < length ks" using history_ids(3) [OF assms(1)] assms(2) by simp
  then show ?thesis using retired_inactive [OF h, of i at_ms] assms(2) n by (simp add: nth_append)
qed

text \<open>With pairwise different keys the keys that may act at a time are exactly known: the newest key,
  and during an overlap its predecessor until the announced activation time.\<close>

theorem active_keys_exact:
  assumes "key_history C ks doc" and "distinct ks" and "i < length ks"
  shows "isKeyActive t doc (ks ! i) \<longleftrightarrow>
    i = length ks - 1 \<or> (\<exists>p ms. pendingRotation doc = Some p \<and> i = length (rotationLog doc) \<and> parseRfc3339 (JStr (pending_activation p)) = Inr ms \<and> t < ms)"
  using assms by (rule active_exact)

text \<open>A pending rotation can be completed exactly from its activation time on, and completing it leaves
  the history unchanged and the successor as the only authorized key.\<close>

theorem activation_completes:
  assumes "key_history C ks doc" and "pendingRotation doc = Some p" and "parseRfc3339 (JStr (pending_activation p)) = Inr ms" and "iso_stamp t = Inr ts"
  shows "((\<exists>doc'. activateKeyRotation t doc = Inr doc') \<longleftrightarrow> ms \<le> t)
    \<and> (\<forall>doc'. activateKeyRotation t doc = Inr doc' \<longrightarrow> key_history C ks doc' \<and> pendingRotation doc' = None \<and> authentication doc' = [newKeyId p])"
proof (intro conjI allI impI)
  show "(\<exists>doc'. activateKeyRotation t doc = Inr doc') \<longleftrightarrow> ms \<le> t" using assms(2-4) by (auto simp: activateKeyRotation_def Let_def)
next
  fix doc' assume a: "activateKeyRotation t doc = Inr doc'"
  show "key_history C ks doc'" by (rule activate_history [OF assms(1) a])
  show "pendingRotation doc' = None" "authentication doc' = [newKeyId p]" using a assms(2-4) by (auto simp: activateKeyRotation_def Let_def split: if_splits)
qed

text \<open>Rotating back to a key that was used before leaves no key that may act: the current key is looked up
  by its value, the first method with that value is the retired one.\<close>

theorem returning_key_is_inactive:
  assumes "key_history C ks doc" and "pendingRotation doc = None" and "i < length (rotationLog doc)" and "ks ! i = ks ! (length (rotationLog doc))"
  shows "\<not> (\<exists>k \<in> set ks. isKeyActive t doc k)"
proof -
  have len: "length ks = Suc (length (rotationLog doc))" using key_historyD(1) [OF assms(1)] assms(2) by simp
  have "\<not> isKeyActive t doc (ks ! j)" if "j < length ks" for j
    using retired_inactive [OF assms(1), of j t] retired_inactive [OF assms(1,3), of t] assms(4) that len by (cases "j = length (rotationLog doc)") auto
  then show ?thesis by (metis in_set_conv_nth)
qed

text \<open>Activation does not look at how far revocation got.\<close>

theorem activation_ignores_revocation_state:
  assumes "pendingRotation doc = Some p"
  shows "activateKeyRotation t (doc\<lparr>pendingRotation := Some (p\<lparr>pending_state := st\<rparr>)\<rparr>) = activateKeyRotation t doc"
  using assms by (simp add: activateKeyRotation_def Let_def split: sum.split cong: if_cong)

section \<open>A concrete document\<close>

definition second_key :: string where
  "second_key = replicate 64 CHR ''8''"

definition sample_document :: RotatableDIDDocument where
  "sample_document = projr (createDIDDocument sample_key ''2026-01-01T00:00:00.000Z'')"

definition sample_rotated :: "RotationMode \<Rightarrow> RotatableDIDDocument" where
  "sample_rotated mode = projr (announceKeyRotation sample_crypto id legacy_clock sample_document sample_key second_key mode None)"

lemma sample_keys: "lower_hex 64 sample_key" "lower_hex 64 second_key" "sample_key \<noteq> second_key"
  by code_simp+

lemma sample_document_created: "createDIDDocument sample_key ''2026-01-01T00:00:00.000Z'' = Inr sample_document"
proof -
  have "length sample_key = 64" using sample_keys(1) by (simp add: lower_hex_def)
  then have "\<exists>d. createDIDDocument sample_key ''2026-01-01T00:00:00.000Z'' = Inr d" by (simp add: createDIDDocument_def createDID_def Let_def)
  then show ?thesis by (auto simp: sample_document_def)
qed

lemma sample_history: "key_history sample_crypto [sample_key] sample_document"
  by (rule created_history [OF sample_document_created sample_keys(1)])

lemma sample_stamps: "iso_stamp 1767225600000 = Inr ''2026-01-01T00:00:00.000Z''" "iso_stamp 1767312000000 = Inr ''2026-01-02T00:00:00.000Z''"
  by (simp_all add: iso_stamp_def legacy_instants)

lemma sample_fresh: "pendingRotation sample_document = None" "rotationLog sample_document = []"
  using sample_document_created
  by (auto simp: createDIDDocument_def Let_def split: sum.splits dest: arg_cong [of _ _ pendingRotation] arg_cong [of _ _ rotationLog])

lemma sample_announced: "announceKeyRotation sample_crypto id legacy_clock sample_document sample_key second_key mode None = Inr (sample_rotated mode)"
proof -
  have "\<exists>d. announceKeyRotation sample_crypto id legacy_clock sample_document sample_key second_key mode None = Inr d"
    by (rule announce_returns [OF sample_history sample_fresh(1), where now' = "''2026-01-01T00:00:00.000Z''"
          and activation = "if mode = Emergency then ''2026-01-01T00:00:00.000Z'' else ''2026-01-02T00:00:00.000Z''"])
      (simp_all add: sample_fresh(2) legacy_clock_def truncated_def DEFAULT_PLANNED_OVERLAP_MS_def sample_stamps)
  then show ?thesis by (auto simp: sample_rotated_def)
qed

lemma sample_rotation_run: "run (rotation_step sample_crypto id) sample_document [Announce legacy_clock sample_key second_key mode None] (sample_rotated mode)"
  using run_snoc [OF run_Nil, of "rotation_step sample_crypto id" sample_document "Announce legacy_clock sample_key second_key mode None" "sample_rotated mode"]
    sample_announced sample_keypair sample_keys(2) by simp

lemma sample_rotated_history: "key_history sample_crypto [sample_key, second_key] (sample_rotated mode)"
  using announce_history [OF sample_history sample_announced] sample_keypair sample_keys(2) by simp

lemma sample_emergency_log: "length (rotationLog (sample_rotated Emergency)) = 1"
  by (rule announced [OF sample_history sample_announced [of Emergency]]) (simp add: sample_fresh(2))

lemma sample_planned:
  "\<exists>p. pendingRotation (sample_rotated Planned) = Some p \<and> pending_activation p = ''2026-01-02T00:00:00.000Z''" "rotationLog (sample_rotated Planned) = []"
proof -
  have a: "announceKeyRotation sample_crypto id legacy_clock sample_document sample_key second_key Planned None = Inr (sample_rotated Planned)" by (rule sample_announced)
  have st: "iso_stamp (truncated (of_int legacy_clock + DEFAULT_PLANNED_OVERLAP_MS)) = Inr ''2026-01-02T00:00:00.000Z''"
    by (simp add: legacy_clock_def truncated_def DEFAULT_PLANNED_OVERLAP_MS_def sample_stamps)
  show "\<exists>p. pendingRotation (sample_rotated Planned) = Some p \<and> pending_activation p = ''2026-01-02T00:00:00.000Z''"
    by (rule announced [OF sample_history a]) (use st in simp)
  show "rotationLog (sample_rotated Planned) = []" by (rule announced [OF sample_history a]) (simp add: sample_fresh(2))
qed

theorem rotation_keeps_the_history_witness:
  "createDIDDocument sample_key ''2026-01-01T00:00:00.000Z'' = Inr sample_document \<and> (\<exists>ks. key_history sample_crypto (sample_key # ks) (sample_rotated Emergency))"
  using rotation_keeps_the_history [OF sample_document_created sample_keys(1) sample_rotation_run [of Emergency]] sample_document_created by simp

theorem retired_key_stays_inactive_witness: "\<not> isKeyActive legacy_clock (sample_rotated Emergency) sample_key"
  using retired_key_stays_inactive [OF sample_rotated_history [of Emergency] _ run_Nil, of 0 legacy_clock] sample_emergency_log by simp

theorem active_keys_exact_witness:
  "isKeyActive legacy_clock (sample_rotated Planned) sample_key \<and> isKeyActive legacy_clock (sample_rotated Planned) second_key
     \<and> \<not> isKeyActive 1767312000000 (sample_rotated Planned) sample_key"
proof -
  obtain p where p: "pendingRotation (sample_rotated Planned) = Some p" "pending_activation p = ''2026-01-02T00:00:00.000Z''" using sample_planned(1) by blast
  have t: "parseRfc3339 (JStr ''2026-01-02T00:00:00.000Z'') = Inr 1767312000000" using stamped [OF sample_stamps(2)] by blast
  have "distinct [sample_key, second_key]" using sample_keys(3) by simp
  note x = active_keys_exact [OF sample_rotated_history [of Planned] this]
  show ?thesis using x [of 0 legacy_clock] x [of 1 legacy_clock] x [of 0 1767312000000] p t sample_planned(2) by (simp add: legacy_clock_def)
qed

theorem activation_completes_witness:
  "\<exists>doc'. activateKeyRotation 1767312000000 (sample_rotated Planned) = Inr doc' \<and> pendingRotation doc' = None"
proof -
  obtain p where p: "pendingRotation (sample_rotated Planned) = Some p" "pending_activation p = ''2026-01-02T00:00:00.000Z''" using sample_planned(1) by blast
  have "parseRfc3339 (JStr (pending_activation p)) = Inr 1767312000000" using stamped [OF sample_stamps(2)] p(2) by simp
  from activation_completes [OF sample_rotated_history p(1) this sample_stamps(2)] show ?thesis by auto
qed

text \<open>A revocation callback that throws with an empty message is reported as incomplete, yet its delegation
  is listed as revoked.\<close>

theorem silent_failure_is_listed_as_revoked:
  "\<exists>r. rotateAndInvalidate sample_crypto id legacy_clock sample_document sample_key second_key [''del_1''] Emergency None (Some (\<lambda>_ _. Inl [])) = Inr r
     \<and> rotationState r = Revocation_in_progress \<and> revokedDelegations (last (rotationLog (didDocument r))) = Some [''del_1'']"
proof -
  have "rotationLog (sample_rotated Emergency) \<noteq> []" using sample_emergency_log by auto
  then show ?thesis
    by (simp add: rotateAndInvalidate_def sample_announced Let_def revocation_outcome_def failed_outcome_def truthy_def enumerate_simps)
qed

end
