(* ===== verification/Context_Merkle.thy ===== *)
theory Context_Merkle
  imports Did_Keys Canonical_JCS Rfc3339 "HOL-Library.Multiset"
begin

text \<open>
  \<^verbatim>\<open>src/v2/context-provenance/merkle.ts\<close>: the partitioned Merkle tree over context items, with
  audit paths from a leaf to its partition root.

  \<open>sha\<close> is SHA-256 on bytes, an argument; what is needed of it is that digests have 32 bytes
  and, for the soundness of audit paths, that it has no collision among the inputs hashed.
\<close>

section \<open>Hashing\<close>

text \<open>UTF-8 of the code points below 256.\<close>

definition utf8_char :: "char \<Rightarrow> byte list" where
  "utf8_char c = (let n = of_char c :: int in if n < 128 then [word_of_int n] else [word_of_int (192 + n div 64), word_of_int (128 + n mod 64)])"

definition utf8 :: "string \<Rightarrow> byte list" where
  "utf8 s = concat (map utf8_char s)"

definition LEAF_TAG :: string where
  "LEAF_TAG = ''CPA:v0.1:leaf'' @ [CHR 0x0A]"

definition NODE_TAG :: string where
  "NODE_TAG = ''CPA:v0.1:node'' @ [CHR 0x0A]"

definition SIGN_TAG :: string where
  "SIGN_TAG = ''CPA:v0.1:sign'' @ [CHR 0x0A]"

definition EMPTY_SENTINEL :: string where
  "EMPTY_SENTINEL = ''EMPTY''"

record ContextItem =
  ctx_id :: string
  channel :: string
  content_ref :: string
  byte_len :: rat
  trust_tier :: "string option"
  content :: "string option"

definition leafPreimage :: "ContextItem \<Rightarrow> json" where
  "leafPreimage leaf = JObj [(''byte_len'', JNum (byte_len leaf)), (''channel'', JStr (channel leaf)),
     (''content_ref'', JStr (content_ref leaf)), (''ctx_id'', JStr (ctx_id leaf))]"

datatype MerkleError = Empty_level | Empty_partition | Duplicate_ctx_id string | Ctx_id_not_found string | Leaf_refused jcs_error

definition leaf_of :: "(byte list \<Rightarrow> byte list) \<Rightarrow> (jcs_error, string) result \<Rightarrow> (MerkleError, byte list) result" where
  "leaf_of sha r = (case r of Inl e \<Rightarrow> Inl (Leaf_refused e) | Inr s \<Rightarrow> Inr (sha (utf8 LEAF_TAG @ utf8 s)))"

definition leafHash :: "(byte list \<Rightarrow> byte list) \<Rightarrow> (rat \<Rightarrow> string) \<Rightarrow> ContextItem \<Rightarrow> (MerkleError, byte list) result" where
  "leafHash sha fmt leaf = leaf_of sha (canonicalizeJCS fmt (leafPreimage leaf))"

definition leafHashForWrite :: "(byte list \<Rightarrow> byte list) \<Rightarrow> (rat \<Rightarrow> string) \<Rightarrow> ContextItem \<Rightarrow> (MerkleError, byte list) result" where
  "leafHashForWrite sha fmt leaf = leaf_of sha (canonicalizeJCSForWrite fmt (leafPreimage leaf))"

definition nodeHash :: "(byte list \<Rightarrow> byte list) \<Rightarrow> byte list \<Rightarrow> byte list \<Rightarrow> byte list" where
  "nodeHash sha left right = sha (utf8 NODE_TAG @ left @ right)"

section \<open>Reduction\<close>

text \<open>One level: neighbours are joined, an odd last node is promoted unchanged.\<close>

fun pair_level :: "('a \<Rightarrow> 'a \<Rightarrow> 'a) \<Rightarrow> 'a list \<Rightarrow> 'a list" where
  "pair_level f (a # b # xs) = f a b # pair_level f xs"
| "pair_level f xs = xs"

lemma length_pair_level: "length (pair_level f xs) = (length xs + 1) div 2"
  by (induction f xs rule: pair_level.induct) auto

function reduce_loop :: "('a \<Rightarrow> 'a \<Rightarrow> 'a) \<Rightarrow> 'a list \<Rightarrow> 'a list" where
  "reduce_loop f current = (if length current > 1 then reduce_loop f (pair_level f current) else current)"
  by auto
termination by (relation "measure (\<lambda>(f, xs). length xs)") (auto simp: length_pair_level)

declare reduce_loop.simps [simp del]

definition reduce :: "(byte list \<Rightarrow> byte list) \<Rightarrow> byte list list \<Rightarrow> (MerkleError, byte list) result" where
  "reduce sha level = (if level = [] then Inl Empty_level else Inr (hd (reduce_loop (nodeHash sha) level)))"

fun adjacent_duplicate :: "string list \<Rightarrow> string option" where
  "adjacent_duplicate (a # b # xs) = (if b = a then Some b else adjacent_duplicate (b # xs))"
| "adjacent_duplicate _ = None"

definition buildPartitionRootBytesImpl ::
  "(byte list \<Rightarrow> byte list) \<Rightarrow> ContextItem list \<Rightarrow> (ContextItem \<Rightarrow> (MerkleError, byte list) result) \<Rightarrow> (MerkleError, byte list) result" where
  "buildPartitionRootBytesImpl sha leaves leaf =
     (if leaves = [] then Inl Empty_partition
      else let sorted' = sort_key ctx_id leaves in
        case adjacent_duplicate (map ctx_id sorted') of
          Some d \<Rightarrow> Inl (Duplicate_ctx_id d)
        | None \<Rightarrow> bindE (mapE leaf sorted') (reduce sha))"

definition buildPartitionRootBytes :: "(byte list \<Rightarrow> byte list) \<Rightarrow> (rat \<Rightarrow> string) \<Rightarrow> ContextItem list \<Rightarrow> (MerkleError, byte list) result" where
  "buildPartitionRootBytes sha fmt leaves = buildPartitionRootBytesImpl sha leaves (leafHash sha fmt)"

definition buildPartitionRootBytesForWrite :: "(byte list \<Rightarrow> byte list) \<Rightarrow> (rat \<Rightarrow> string) \<Rightarrow> ContextItem list \<Rightarrow> (MerkleError, byte list) result" where
  "buildPartitionRootBytesForWrite sha fmt leaves = buildPartitionRootBytesImpl sha leaves (leafHashForWrite sha fmt)"

definition buildPartitionRoot :: "(byte list \<Rightarrow> byte list) \<Rightarrow> (rat \<Rightarrow> string) \<Rightarrow> ContextItem list \<Rightarrow> (MerkleError, string) result" where
  "buildPartitionRoot sha fmt leaves = bindE (buildPartitionRootBytes sha fmt leaves) (\<lambda>r. Inr (bytesToHex r))"

definition buildTopRootBytes :: "(byte list \<Rightarrow> byte list) \<Rightarrow> byte list list \<Rightarrow> byte list" where
  "buildTopRootBytes sha roots =
     (if roots = [] then sha (utf8 NODE_TAG @ utf8 EMPTY_SENTINEL) else hd (reduce_loop (nodeHash sha) roots))"

definition buildTopRoot :: "(byte list \<Rightarrow> byte list) \<Rightarrow> string list \<Rightarrow> string" where
  "buildTopRoot sha roots = bytesToHex (buildTopRootBytes sha (map lenient_bytes roots))"

definition emptyTreeRoot :: "(byte list \<Rightarrow> byte list) \<Rightarrow> string" where
  "emptyTreeRoot sha = bytesToHex (buildTopRootBytes sha [])"

section \<open>Audit paths\<close>

datatype side = Left_side | Right_side

record InclusionStep =
  sibling :: string
  step_side :: side

record InclusionProof =
  proof_ctx_id :: string
  path :: "InclusionStep list"

definition audit_step :: "byte list list \<Rightarrow> nat \<Rightarrow> InclusionStep list" where
  "audit_step current index =
     (if index mod 2 = 1 then [\<lparr>sibling = bytesToHex (current ! (index - 1)), step_side = Left_side\<rparr>]
      else if index + 1 < length current then [\<lparr>sibling = bytesToHex (current ! (index + 1)), step_side = Right_side\<rparr>]
      else [])"

function audit_path :: "(byte list \<Rightarrow> byte list) \<Rightarrow> byte list list \<Rightarrow> nat \<Rightarrow> InclusionStep list" where
  "audit_path sha current index =
     (if length current > 1 then audit_step current index @ audit_path sha (pair_level (nodeHash sha) current) (index div 2) else [])"
  by auto
termination by (relation "measure (\<lambda>(sha, xs, i). length xs)") (auto simp: length_pair_level)

declare audit_path.simps [simp del]

definition position_of :: "string \<Rightarrow> ContextItem list \<Rightarrow> nat option" where
  "position_of cid leaves = (let k = length (takeWhile (\<lambda>l. ctx_id l \<noteq> cid) leaves) in if k < length leaves then Some k else None)"

definition buildInclusionProofImpl ::
  "(byte list \<Rightarrow> byte list) \<Rightarrow> ContextItem list \<Rightarrow> string \<Rightarrow> (ContextItem \<Rightarrow> (MerkleError, byte list) result) \<Rightarrow> (MerkleError, InclusionProof) result" where
  "buildInclusionProofImpl sha leaves cid leaf =
     (if leaves = [] then Inl Empty_partition
      else let sorted' = sort_key ctx_id leaves in
        case adjacent_duplicate (map ctx_id sorted') of
          Some d \<Rightarrow> Inl (Duplicate_ctx_id d)
        | None \<Rightarrow> (case position_of cid sorted' of
            None \<Rightarrow> Inl (Ctx_id_not_found cid)
          | Some index \<Rightarrow> bindE (mapE leaf sorted') (\<lambda>ds. Inr \<lparr>proof_ctx_id = cid, path = audit_path sha ds index\<rparr>)))"

definition buildInclusionProof :: "(byte list \<Rightarrow> byte list) \<Rightarrow> (rat \<Rightarrow> string) \<Rightarrow> ContextItem list \<Rightarrow> string \<Rightarrow> (MerkleError, InclusionProof) result" where
  "buildInclusionProof sha fmt leaves cid = buildInclusionProofImpl sha leaves cid (leafHash sha fmt)"

definition buildInclusionProofForWrite :: "(byte list \<Rightarrow> byte list) \<Rightarrow> (rat \<Rightarrow> string) \<Rightarrow> ContextItem list \<Rightarrow> string \<Rightarrow> (MerkleError, InclusionProof) result" where
  "buildInclusionProofForWrite sha fmt leaves cid = buildInclusionProofImpl sha leaves cid (leafHashForWrite sha fmt)"

fun fold_path :: "(byte list \<Rightarrow> byte list) \<Rightarrow> byte list \<Rightarrow> InclusionStep list \<Rightarrow> byte list option" where
  "fold_path sha acc [] = Some acc"
| "fold_path sha acc (s # ss) =
     (if \<not> lower_hex 64 (sibling s) then None
      else let sib = lenient_bytes (sibling s) in
        fold_path sha (case step_side s of Left_side \<Rightarrow> nodeHash sha sib acc | Right_side \<Rightarrow> nodeHash sha acc sib) ss)"

definition verifyInclusionProof :: "(byte list \<Rightarrow> byte list) \<Rightarrow> (rat \<Rightarrow> string) \<Rightarrow> ContextItem \<Rightarrow> InclusionProof \<Rightarrow> string \<Rightarrow> bool" where
  "verifyInclusionProof sha fmt leaf prf partition_root =
     (if \<not> lower_hex 64 partition_root then False
      else if proof_ctx_id prf \<noteq> ctx_id leaf then False
      else case leafHash sha fmt leaf of
        Inl _ \<Rightarrow> False
      | Inr d \<Rightarrow> (case fold_path sha d (path prf) of None \<Rightarrow> False | Some acc \<Rightarrow> bytesToHex acc = partition_root))"

section \<open>The shape of the tree\<close>

abbreviation root_of :: "('a \<Rightarrow> 'a \<Rightarrow> 'a) \<Rightarrow> 'a list \<Rightarrow> 'a" where
  "root_of f xs \<equiv> hd (reduce_loop f xs)"

lemma reduce_single [simp]: "reduce_loop f [x] = [x]"
  by (simp add: reduce_loop.simps)

lemma reduce_step: "1 < length xs \<Longrightarrow> reduce_loop f xs = reduce_loop f (pair_level f xs)"
  by (simp add: reduce_loop.simps)

lemma pair_level_Nil [simp]: "pair_level f xs = [] \<longleftrightarrow> xs = []"
  using length_pair_level [of f xs] by (cases xs) auto

lemma length_induct_step:
  assumes "xs \<noteq> []" and "\<And>x. P [x]" and "\<And>xs. 1 < length xs \<Longrightarrow> P (pair_level f xs) \<Longrightarrow> P xs"
  shows "P xs"
  using assms(1)
proof (induction "length xs" arbitrary: xs rule: less_induct)
  case less
  show ?case
  proof (cases "1 < length xs")
    case True
    then have "length (pair_level f xs) < length xs" by (simp add: length_pair_level)
    with less True show ?thesis using assms(3) by simp
  next
    case False
    then obtain x where "xs = [x]" using less.prems by (cases xs) auto
    then show ?thesis using assms(2) by simp
  qed
qed

lemma length_reduce: "xs \<noteq> [] \<Longrightarrow> length (reduce_loop f xs) = 1"
  by (erule length_induct_step [where f = f]) (simp_all add: reduce_step)

text \<open>The reference tree of RFC 6962: split at the largest power of two below the number of leaves.\<close>

fun split_point :: "nat \<Rightarrow> nat" where
  "split_point n = (if n \<le> 2 then 1 else 2 * split_point ((n + 1) div 2))"

declare split_point.simps [simp del]

lemma split_point_power: "2 \<le> n \<Longrightarrow> \<exists>e. split_point n = 2 ^ e \<and> 2 ^ e < n \<and> n \<le> 2 * 2 ^ e"
proof (induction n rule: split_point.induct)
  case (1 n)
  show ?case
  proof (cases "n \<le> 2")
    case True
    then show ?thesis using 1 by (intro exI [of _ 0]) (simp add: split_point.simps)
  next
    case False
    then have "2 \<le> (n + 1) div 2" using 1(2) by linarith
    then obtain e where "split_point ((n + 1) div 2) = 2 ^ e" "2 ^ e < (n + 1) div 2" "(n + 1) div 2 \<le> 2 * 2 ^ e" using 1(1) [OF False] by blast
    then show ?thesis using False by (intro exI [of _ "Suc e"]) (auto simp: split_point.simps [of n])
  qed
qed

lemma split_point_bounds: "2 \<le> n \<Longrightarrow> 0 < split_point n \<and> split_point n < n"
  using split_point_power [of n] by auto

function tree_hash_6962 :: "('a \<Rightarrow> 'a \<Rightarrow> 'a) \<Rightarrow> 'a list \<Rightarrow> 'a" where
  "tree_hash_6962 f xs =
     (if length xs < 2 then hd xs
      else f (tree_hash_6962 f (take (split_point (length xs)) xs)) (tree_hash_6962 f (drop (split_point (length xs)) xs)))"
  by auto
termination
  by (relation "measure (\<lambda>(f, xs). length xs)") (auto simp: not_less dest: split_point_bounds)

declare tree_hash_6962.simps [simp del]

lemma pair_level_append: "even (length xs) \<Longrightarrow> pair_level f (xs @ ys) = pair_level f xs @ pair_level f ys"
  by (induction f xs rule: pair_level.induct) auto

lemma split_point_half:
  assumes "3 \<le> n"
  shows "even (split_point n)" "2 \<le> split_point n" "split_point ((n + 1) div 2) = split_point n div 2"
proof -
  have "split_point n = 2 * split_point ((n + 1) div 2)" using assms by (simp add: split_point.simps [of n])
  moreover have "0 < split_point ((n + 1) div 2)" using split_point_bounds [of "(n + 1) div 2"] assms by auto
  ultimately show "even (split_point n)" "2 \<le> split_point n" "split_point ((n + 1) div 2) = split_point n div 2" by simp_all
qed

lemma tree_hash_single [simp]: "tree_hash_6962 f [x] = x"
  by (simp add: tree_hash_6962.simps)

lemma tree_hash_level: "2 \<le> length xs \<Longrightarrow> tree_hash_6962 f (pair_level f xs) = tree_hash_6962 f xs"
proof (induction "length xs" arbitrary: xs rule: less_induct)
  case less
  let ?n = "length xs"
  show ?case
  proof (cases "?n = 2")
    case True
    then obtain a b where "xs = [a, b]" by (metis One_nat_def Suc_1 length_0_conv length_Suc_conv)
    then show ?thesis by (simp add: tree_hash_6962.simps [of f "[a, b]"] split_point.simps)
  next
    case False
    let ?k = "split_point ?n"
    have n: "3 \<le> ?n" using less.prems False by simp
    note h = split_point_half [OF n] and k = split_point_bounds [OF less.prems]
    have ev: "even (length (take ?k xs))" using k h(1) by simp
    have lev: "pair_level f xs = pair_level f (take ?k xs) @ pair_level f (drop ?k xs)" using pair_level_append [OF ev, of f "drop ?k xs"] by simp
    have len: "length (pair_level f (take ?k xs)) = ?k div 2" using k h(1) by (simp add: length_pair_level)
    have sp: "split_point (length (pair_level f xs)) = ?k div 2" using h(3) by (simp add: length_pair_level)
    have "2 \<le> length (pair_level f xs)" using n by (simp add: length_pair_level)
    then have "tree_hash_6962 f (pair_level f xs) = f (tree_hash_6962 f (pair_level f (take ?k xs))) (tree_hash_6962 f (pair_level f (drop ?k xs)))"
      unfolding tree_hash_6962.simps [of f "pair_level f xs"] sp using len by (simp add: lev)
    moreover have "tree_hash_6962 f (pair_level f (take ?k xs)) = tree_hash_6962 f (take ?k xs)" using less.hyps [of "take ?k xs"] k h(2) by simp
    moreover have "tree_hash_6962 f (pair_level f (drop ?k xs)) = tree_hash_6962 f (drop ?k xs)"
    proof (cases "length (drop ?k xs) = 1")
      case True
      then obtain x where "drop ?k xs = [x]" by (metis One_nat_def length_0_conv length_Suc_conv)
      then show ?thesis by simp
    next
      case False
      then have "2 \<le> length (drop ?k xs)" "length (drop ?k xs) < length xs" using k by auto
      then show ?thesis using less.hyps by blast
    qed
    ultimately show ?thesis using n by (simp add: tree_hash_6962.simps [of f xs])
  qed
qed

lemma root_is_6962: "xs \<noteq> [] \<Longrightarrow> root_of f xs = tree_hash_6962 f xs"
  by (erule length_induct_step [where f = f]) (simp_all add: reduce_step tree_hash_level)

section \<open>Audit paths are complete\<close>

lemma pair_level_nth:
  "i < length xs \<Longrightarrow> pair_level f xs ! (i div 2) =
    (if i mod 2 = 1 then f (xs ! (i - 1)) (xs ! i) else if i + 1 < length xs then f (xs ! i) (xs ! (i + 1)) else xs ! i)"
proof (induction f xs arbitrary: i rule: pair_level.induct)
  case (1 f a b xs)
  consider "i = 0" | "i = 1" | j where "i = Suc (Suc j)" by (metis One_nat_def not0_implies_Suc)
  then show ?case
  proof cases
    case 3
    then have "j < length xs" using "1.prems" by simp
    from "1.IH" [OF this] 3 show ?thesis by (cases j) (auto simp: nth_Cons')
  qed simp_all
qed auto

lemma lower_hex_bytes: "lower_hex (2 * length bs) (bytesToHex bs)"
proof (induction bs)
  case (Cons b bs)
  have "isLowerHex (hex_nibble n)" if "0 \<le> n" "n < 16" for n
  proof -
    have h: "list_all (\<lambda>n. isLowerHex (hex_nibble (int n))) [0..<16]" by code_simp
    obtain k where "n = int k" using \<open>0 \<le> n\<close> by (rule nonneg_int_cases)
    with h that show ?thesis by (simp add: list_all_iff)
  qed
  moreover have "uint b div 16 < 16" using unsigned_less [of b, where ?'a = int] by simp
  ultimately show ?case using Cons by (simp add: lower_hex_def bytesToHex_def pos_imp_zdiv_nonneg_iff)
qed (simp add: lower_hex_def bytesToHex_def)

lemma length_lenient: "length (lenient_bytes k) = length k div 2"
  by (induction k rule: lenient_bytes.induct) auto

lemma pair_level_digests:
  "list_all (\<lambda>d. length d = 32) ds \<Longrightarrow> \<forall>m. length (sha m) = 32 \<Longrightarrow> list_all (\<lambda>d. length d = 32) (pair_level (nodeHash sha) ds)"
  by (induction "nodeHash sha" ds rule: pair_level.induct) (auto simp: nodeHash_def)

lemma audit_path_folds:
  "\<forall>m. length (sha m) = 32 \<Longrightarrow> i < length ds \<Longrightarrow> list_all (\<lambda>d. length d = 32) ds \<Longrightarrow> fold_path sha (ds ! i) (audit_path sha ds i) = Some (root_of (nodeHash sha) ds)"
proof (induction sha ds i rule: audit_path.induct)
  case (1 sha ds i)
  let ?f = "nodeHash sha"
  show ?case
  proof (cases "1 < length ds")
    case False
    then obtain d where "ds = [d]" using "1.prems"(2) by (cases ds) auto
    then show ?thesis using "1.prems"(2) by (simp add: audit_path.simps)
  next
    case True
    have len: "\<And>j. j < length ds \<Longrightarrow> length (ds ! j) = 32" using "1.prems"(3) by (simp add: list_all_length)
    have hex: "lower_hex 64 (bytesToHex d)" "lenient_bytes (bytesToHex d) = d" if "length d = 32" for d :: "byte list"
      using lower_hex_bytes [of d] that by (simp_all add: lenient_bytes_hex)
    have "i div 2 < length (pair_level ?f ds)" using "1.prems"(2) by (simp add: length_pair_level)
    from "1.IH" [OF True "1.prems"(1) this pair_level_digests [OF "1.prems"(3,1)]] reduce_step [OF True, of ?f] have ih: "fold_path sha (pair_level ?f ds ! (i div 2)) (audit_path sha (pair_level ?f ds) (i div 2)) = Some (root_of ?f ds)"
      by simp
    have "fold_path sha (ds ! i) (audit_step ds i @ rest) = fold_path sha (pair_level ?f ds ! (i div 2)) rest" for rest
      using pair_level_nth [OF "1.prems"(2), of ?f] "1.prems"(2) len hex by (auto simp: audit_step_def Let_def)
    with ih True show ?thesis by (simp add: audit_path.simps [of sha ds])
  qed
qed

section \<open>Audit paths are sound\<close>

text \<open>The tree behind a reduction, the inputs hashed for it, and the inputs hashed when a path is folded.\<close>

datatype mtree = Tip "byte list" | Join mtree mtree

fun tree_hash :: "(byte list \<Rightarrow> byte list) \<Rightarrow> mtree \<Rightarrow> byte list" where
  "tree_hash sha (Tip d) = d"
| "tree_hash sha (Join l r) = nodeHash sha (tree_hash sha l) (tree_hash sha r)"

fun tips :: "mtree \<Rightarrow> byte list list" where
  "tips (Tip d) = [d]"
| "tips (Join l r) = tips l @ tips r"

fun tree_inputs :: "(byte list \<Rightarrow> byte list) \<Rightarrow> mtree \<Rightarrow> byte list list" where
  "tree_inputs sha (Tip d) = []"
| "tree_inputs sha (Join l r) = (utf8 NODE_TAG @ tree_hash sha l @ tree_hash sha r) # tree_inputs sha l @ tree_inputs sha r"

fun path_inputs :: "(byte list \<Rightarrow> byte list) \<Rightarrow> byte list \<Rightarrow> InclusionStep list \<Rightarrow> byte list list" where
  "path_inputs sha acc [] = []"
| "path_inputs sha acc (s # ss) =
     (let sib = lenient_bytes (sibling s);
          x = utf8 NODE_TAG @ (case step_side s of Left_side \<Rightarrow> sib @ acc | Right_side \<Rightarrow> acc @ sib) in
      x # path_inputs sha (sha x) ss)"

lemma map_pair_level: "(\<And>a b. g (f a b) = h (g a) (g b)) \<Longrightarrow> map g (pair_level f xs) = pair_level h (map g xs)"
  by (induction f xs rule: pair_level.induct) auto

lemma map_reduce:
  assumes "\<And>a b. g (f a b) = h (g a) (g b)" and "xs \<noteq> []"
  shows "g (root_of f xs) = root_of h (map g xs)"
  using assms(2) by (rule length_induct_step [where f = f]) (simp_all add: reduce_step map_pair_level [of g f h, OF assms(1)])

lemma tips_level: "concat (map tips (pair_level Join ts)) = concat (map tips ts)"
  by (induction "Join" ts rule: pair_level.induct) auto

lemma tips_root: "ts \<noteq> [] \<Longrightarrow> tips (root_of Join ts) = concat (map tips ts)"
  by (erule length_induct_step [where f = Join]) (simp_all add: reduce_step tips_level)

definition partition_tree :: "byte list list \<Rightarrow> mtree" where
  "partition_tree ds = root_of Join (map Tip ds)"

lemma partition_tree_facts:
  assumes "ds \<noteq> []"
  shows "tree_hash sha (partition_tree ds) = root_of (nodeHash sha) ds" "tips (partition_tree ds) = ds"
proof -
  show "tree_hash sha (partition_tree ds) = root_of (nodeHash sha) ds"
    using map_reduce [of "tree_hash sha" Join "nodeHash sha" "map Tip ds"] assms by (simp add: partition_tree_def comp_def)
  show "tips (partition_tree ds) = ds" using tips_root [of "map Tip ds"] assms by (simp add: partition_tree_def comp_def concat_map_singleton)
qed

lemma fold_path_append:
  "fold_path sha acc (xs @ ys) = (case fold_path sha acc xs of None \<Rightarrow> None | Some a \<Rightarrow> fold_path sha a ys)"
  by (induction sha acc xs rule: fold_path.induct) (auto simp: Let_def)

lemma path_inputs_snoc:
  "fold_path sha acc ss = Some a \<Longrightarrow> path_inputs sha acc (ss @ [s]) = path_inputs sha acc ss
     @ [utf8 NODE_TAG @ (case step_side s of Left_side \<Rightarrow> lenient_bytes (sibling s) @ a | Right_side \<Rightarrow> a @ lenient_bytes (sibling s))]"
  by (induction ss arbitrary: acc) (auto simp: Let_def nodeHash_def split: if_splits side.splits)

lemma tags_differ: "utf8 LEAF_TAG @ x \<noteq> utf8 NODE_TAG @ y"
proof -
  have "length (utf8 LEAF_TAG) = length (utf8 NODE_TAG)" "utf8 LEAF_TAG \<noteq> utf8 NODE_TAG" by code_simp+
  then show ?thesis by simp
qed

lemma path_reaches_tip:
  assumes "\<forall>m. length (sha m) = 32" and "d = sha (utf8 LEAF_TAG @ m)"
  shows "fold_path sha d ss = Some (tree_hash sha t) \<Longrightarrow> \<forall>e \<in> set (tips t). \<exists>k \<in> M. e = sha (utf8 LEAF_TAG @ k) \<Longrightarrow>
    inj_on sha (set (tree_inputs sha t) \<union> set (path_inputs sha d ss) \<union> {utf8 LEAF_TAG @ k |k. k = m \<or> k \<in> M}) \<Longrightarrow> m \<in> M"
proof (induction ss arbitrary: t rule: rev_induct)
  case Nil
  show ?case
  proof (cases t)
    case (Tip e)
    then obtain k where k: "k \<in> M" "d = sha (utf8 LEAF_TAG @ k)" using Nil by auto
    have "utf8 LEAF_TAG @ m = utf8 LEAF_TAG @ k" by (rule inj_onD [OF Nil(3)]) (use k assms(2) in auto)
    with k show ?thesis by simp
  next
    case (Join l r)
    have "utf8 LEAF_TAG @ m = utf8 NODE_TAG @ tree_hash sha l @ tree_hash sha r"
      by (rule inj_onD [OF Nil(3)]) (use Nil(1) Join assms(2) in \<open>auto simp: nodeHash_def\<close>)
    then show ?thesis using tags_differ by blast
  qed
next
  case (snoc s ss)
  let ?sib = "lenient_bytes (sibling s)"
  obtain a where a: "fold_path sha d ss = Some a" and hx: "lower_hex 64 (sibling s)"
    and root: "tree_hash sha t = sha (utf8 NODE_TAG @ (case step_side s of Left_side \<Rightarrow> ?sib @ a | Right_side \<Rightarrow> a @ ?sib))"
    using snoc.prems(1) by (auto simp: fold_path_append nodeHash_def Let_def split: option.splits if_splits side.splits)
  note pin = path_inputs_snoc [OF a, of s]
  have sib: "length ?sib = 32" using hx by (simp add: length_lenient lower_hex_def)
  have la: "length a = 32" using a assms by (cases ss rule: rev_cases) (auto simp: fold_path_append nodeHash_def Let_def split: option.splits if_splits side.splits)
  show ?case
  proof (cases t)
    case (Tip e)
    then obtain k where k: "k \<in> M" "e = sha (utf8 LEAF_TAG @ k)" using snoc.prems(2) by auto
    have "utf8 LEAF_TAG @ k = utf8 NODE_TAG @ (case step_side s of Left_side \<Rightarrow> ?sib @ a | Right_side \<Rightarrow> a @ ?sib)"
      by (rule inj_onD [OF snoc.prems(3)]) (use k Tip root pin in auto)
    then show ?thesis using tags_differ by blast
  next
    case (Join l r)
    have eq: "utf8 NODE_TAG @ tree_hash sha l @ tree_hash sha r = utf8 NODE_TAG @ (case step_side s of Left_side \<Rightarrow> ?sib @ a | Right_side \<Rightarrow> a @ ?sib)"
      by (rule inj_onD [OF snoc.prems(3)]) (use Join root pin in \<open>auto simp: nodeHash_def\<close>)
    have len: "length (tree_hash sha u) = 32" if "u = l \<or> u = r" for u
      using that snoc.prems(2) assms(1) Join by (cases u) (auto simp: nodeHash_def)
    have sub: "fold_path sha d ss = Some (tree_hash sha (case step_side s of Left_side \<Rightarrow> r | Right_side \<Rightarrow> l))"
      using a eq len sib la by (cases "step_side s") auto
    show ?thesis
    proof (rule snoc.IH [OF sub])
      show "\<forall>e \<in> set (tips (case step_side s of Left_side \<Rightarrow> r | Right_side \<Rightarrow> l)). \<exists>k \<in> M. e = sha (utf8 LEAF_TAG @ k)"
        using snoc.prems(2) Join by (auto split: side.split)
      show "inj_on sha (set (tree_inputs sha (case step_side s of Left_side \<Rightarrow> r | Right_side \<Rightarrow> l)) \<union> set (path_inputs sha d ss)
          \<union> {utf8 LEAF_TAG @ k |k. k = m \<or> k \<in> M})"
        by (rule inj_on_subset [OF snoc.prems(3)]) (use Join pin in \<open>auto split: side.split\<close>)
    qed
  qed
qed

section \<open>A leaf is determined by what is hashed\<close>

lemma of_char_less: "(of_char c :: int) < 256" "0 \<le> (of_char c :: int)"
proof -
  have n: "(of_char c :: int) = int (of_char c)" by (rule of_nat_of_char [symmetric])
  show "(of_char c :: int) < 256" "0 \<le> (of_char c :: int)" unfolding n using nat_of_char_less_256 [of c] by simp_all
qed

lemma small_word_eq: "0 \<le> m \<Longrightarrow> m < 256 \<Longrightarrow> 0 \<le> n \<Longrightarrow> n < 256 \<Longrightarrow> (word_of_int m :: byte) = word_of_int n \<longleftrightarrow> m = n"
  by (auto dest!: arg_cong [of _ _ uint] simp: uint_word_of_int)

lemma utf8_char_prefix:
  assumes "utf8_char c @ u = utf8_char c' @ u'"
  shows "c = c' \<and> u = u'"
proof -
  let ?m = "of_char c :: int" and ?n = "of_char c' :: int"
  note b = of_char_less [of c] of_char_less [of c']
  have hi: "192 + k div 64 < 256" "128 + k mod 64 < 256" if "k < 256" for k :: int using that by auto
  have *: "k = l" if "k div 64 = l div 64" "k mod 64 = l mod 64" for k l :: int using that by (metis div_mult_mod_eq)
  have "?m = ?n \<and> u = u'"
  proof (cases "?m < 128")
    case m: True
    show ?thesis
    proof (cases "?n < 128")
      case True
      with m assms b show ?thesis by (simp add: utf8_char_def small_word_eq)
    next
      case False
      then have "word_of_int ?m = (word_of_int (192 + ?n div 64) :: byte)" using m assms by (simp add: utf8_char_def Let_def)
      then have "?m = 192 + ?n div 64" using small_word_eq [of ?m "192 + ?n div 64"] b hi(1) [of ?n] False by simp
      then show ?thesis using m False by simp
    qed
  next
    case m: False
    show ?thesis
    proof (cases "?n < 128")
      case True
      then have "word_of_int (192 + ?m div 64) = (word_of_int ?n :: byte)" using m assms by (simp add: utf8_char_def Let_def)
      then have "192 + ?m div 64 = ?n" using small_word_eq [of "192 + ?m div 64" ?n] b hi(1) [of ?m] m by simp
      then show ?thesis using m True by simp
    next
      case False
      then have w: "word_of_int (192 + ?m div 64) = (word_of_int (192 + ?n div 64) :: byte)" "word_of_int (128 + ?m mod 64) = (word_of_int (128 + ?n mod 64) :: byte)" "u = u'"
        using m assms unfolding utf8_char_def Let_def by simp_all
      have "0 \<le> 192 + ?m div 64" "0 \<le> 192 + ?n div 64" "0 \<le> 128 + ?m mod 64" "0 \<le> 128 + ?n mod 64" using b by (simp_all add: pos_imp_zdiv_nonneg_iff add_nonneg_nonneg)
      then have "192 + ?m div 64 = 192 + ?n div 64" "128 + ?m mod 64 = 128 + ?n mod 64" using w small_word_eq hi b by metis+
      then have "?m = ?n" using * [of ?m ?n] by simp
      then show ?thesis using w(3) by blast
    qed
  qed
  then show ?thesis by simp
qed

lemma utf8_char_Nil [simp]: "utf8_char c \<noteq> []"
  by (simp add: utf8_char_def Let_def)

lemma utf8_inj: "utf8 s = utf8 t \<Longrightarrow> s = t"
proof (induction s arbitrary: t)
  case Nil
  then show ?case by (cases t) (simp_all add: utf8_def)
next
  case (Cons c s)
  then obtain c' t' where "t = c' # t'" by (cases t) (auto simp: utf8_def)
  with Cons show ?case using utf8_char_prefix [of c "utf8 s" c' "utf8 t'"] by (simp add: utf8_def)
qed

text \<open>Escaped strings are self-delimiting.\<close>

definition nibble_value :: "char \<Rightarrow> nat" where
  "nibble_value c = nat (the (hex_value c))"

text \<open>The character in front of an escaped text and the length of its escape.\<close>

definition unescape_head :: "string \<Rightarrow> char \<times> nat" where
  "unescape_head xs =
     (if hd xs \<noteq> CHR 0x5C then (hd xs, 1)
      else let y = xs ! 1 in
        if y = CHR ''u'' then (char_of (16 * nibble_value (xs ! 4) + nibble_value (xs ! 5)), 6)
        else if y = CHR ''b'' then (CHR 0x08, 2) else if y = CHR ''t'' then (CHR 0x09, 2) else if y = CHR ''n'' then (CHR 0x0A, 2)
        else if y = CHR ''f'' then (CHR 0x0C, 2) else if y = CHR ''r'' then (CHR 0x0D, 2) else (y, 2))"

lemma nibble_value_digit:
  assumes "k < 16"
  shows "nibble_value (hex_digit k) = k"
proof -
  have "char_of (48 + int k) = char_of (48 + k)" "char_of (87 + int k) = char_of (87 + k)"
    using char_of_nat [of "48 + k"] char_of_nat [of "87 + k"] by simp_all
  then have "hex_digit k = hex_nibble (int k)" by (simp add: hex_digit_def hex_nibble_def)
  then show ?thesis using hex_nibble_value [of "int k"] assms by (simp add: nibble_value_def)
qed

lemma unescape_escape: "unescape_head (escape_char c @ u) = (c, length (escape_char c))"
proof -
  let ?n = "of_char c :: nat"
  have c: "c = char_of ?n" by simp
  show ?thesis
  proof (cases "?n \<in> {34, 92, 8, 9, 10, 12, 13}")
    case True
    moreover have "map char_of [34 :: nat, 92, 8, 9, 10, 12, 13] = [CHR 0x22, CHR 0x5C, CHR 0x08, CHR 0x09, CHR 0x0A, CHR 0x0C, CHR 0x0D]" by code_simp
    ultimately have "c \<in> {CHR 0x22, CHR 0x5C, CHR 0x08, CHR 0x09, CHR 0x0A, CHR 0x0C, CHR 0x0D}" by (subst c) (auto simp del: char_of_char)
    then show ?thesis by (auto simp: escape_char_def unescape_head_def)
  next
    case False
    show ?thesis
    proof (cases "?n < 32")
      case True
      then have "?n div 16 < 16" by simp
      with True False show ?thesis by (simp add: escape_char_def unescape_head_def Let_def nibble_value_digit)
    next
      case high: False
      have "c \<noteq> CHR 0x5C" using False by auto
      then show ?thesis using False high by (simp add: escape_char_def unescape_head_def Let_def)
    qed
  qed
qed

lemma escape_prefix:
  assumes "escape_char c @ u = escape_char c' @ u'"
  shows "c = c' \<and> u = u'"
  using unescape_escape [of c u] unescape_escape [of c' u'] assms by (metis append_eq_append_conv prod.inject)

lemma escape_head: "escape_char c \<noteq> [] \<and> hd (escape_char c) \<noteq> CHR 0x22"
  by (auto simp: escape_char_def Let_def)

lemma stringify_prefix:
  assumes "stringify_string s @ t = stringify_string s' @ t'"
  shows "s = s' \<and> t = t'"
proof -
  have "concat (map escape_char s) @ CHR 0x22 # t = concat (map escape_char s') @ CHR 0x22 # t' \<Longrightarrow> s = s' \<and> t = t'"
  proof (induction s arbitrary: s')
    case Nil
    then show ?case
    proof (cases s')
      case (Cons c' s'')
      then have "hd (escape_char c' @ concat (map escape_char s'') @ CHR 0x22 # t') = CHR 0x22" using Nil by (metis append_Nil append_assoc concat.simps list.sel(1) list.simps(8,9))
      then show ?thesis using escape_head [of c'] by simp
    qed simp
  next
    case (Cons c s)
    show ?case
    proof (cases s')
      case Nil
      then show ?thesis using Cons.prems escape_head [of c] by (auto simp: append_eq_Cons_conv)
    next
      case (Cons c' s'')
      then show ?thesis using Cons.prems Cons.IH [of s''] escape_prefix [of c "concat (map escape_char s) @ CHR 0x22 # t" c' "concat (map escape_char s'') @ CHR 0x22 # t'"]
        by auto
    qed
  qed
  with assms show ?thesis by (simp add: stringify_string_def)
qed

lemma leaf_canonical:
  "canonicalizeValue fmt (leafPreimage l) = CHR ''{'' # stringify_string ''byte_len'' @ CHR '':'' # stringify_number fmt (byte_len l) @ CHR '',''
     # stringify_string ''channel'' @ CHR '':'' # stringify_string (channel l) @ CHR '',''
     # stringify_string ''content_ref'' @ CHR '':'' # stringify_string (content_ref l) @ CHR '',''
     # stringify_string ''ctx_id'' @ CHR '':'' # stringify_string (ctx_id l) @ ''}''"
  by (simp add: leafPreimage_def)

definition natural_length :: "ContextItem \<Rightarrow> bool" where
  "natural_length l \<longleftrightarrow> isInteger (byte_len l) \<and> 0 \<le> byte_len l \<and> byte_len l < 10 ^ 21"

lemma decimal_prefix:
  assumes "decimal m @ CHR '','' # u = decimal n @ CHR '','' # v"
  shows "m = n \<and> u = v"
proof -
  have t: "takeWhile isDigit (decimal k @ CHR '','' # w) = decimal k" for k w
    using decimal_digits [of k] by (subst takeWhile_append2) (auto simp: list_all_iff isDigit_def)
  have "decimal m = decimal n" using t [of m u] t [of n v] assms by simp
  then have "m = n" using decimal_digits [of m] decimal_digits [of n] by (metis of_nat_eq_iff)
  with assms show ?thesis by simp
qed

lemma leaf_determined:
  assumes "canonicalizeValue fmt (leafPreimage l) = canonicalizeValue fmt (leafPreimage l')" and "natural_length l" and "natural_length l'"
  shows "leafPreimage l = leafPreimage l'"
proof -
  have num: "stringify_number fmt (byte_len x) = decimal (nat \<lfloor>byte_len x\<rfloor>)" if "natural_length x" for x
    using that by (auto simp: stringify_number_def natural_length_def)
  note eq = assms(1) [unfolded leaf_canonical list.inject, THEN conjunct2, unfolded same_append_eq list.inject, THEN conjunct2, unfolded num [OF assms(2)] num [OF assms(3)]]
  from decimal_prefix [OF eq] have n: "nat \<lfloor>byte_len l\<rfloor> = nat \<lfloor>byte_len l'\<rfloor>" and r: "stringify_string ''channel'' @ CHR '':'' # stringify_string (channel l) @ CHR '',''
     # stringify_string ''content_ref'' @ CHR '':'' # stringify_string (content_ref l) @ CHR '','' # stringify_string ''ctx_id'' @ CHR '':'' # stringify_string (ctx_id l) @ ''}''
   = stringify_string ''channel'' @ CHR '':'' # stringify_string (channel l') @ CHR '',''
     # stringify_string ''content_ref'' @ CHR '':'' # stringify_string (content_ref l') @ CHR '','' # stringify_string ''ctx_id'' @ CHR '':'' # stringify_string (ctx_id l') @ ''}''"
    by blast+
  have "0 \<le> \<lfloor>byte_len l\<rfloor>" "0 \<le> \<lfloor>byte_len l'\<rfloor>" using assms(2,3) by (simp_all add: natural_length_def)
  with n have "\<lfloor>byte_len l\<rfloor> = \<lfloor>byte_len l'\<rfloor>" by (simp add: eq_nat_nat_iff)
  then have "byte_len l = byte_len l'" using assms(2,3) by (metis isInteger_def natural_length_def)
  moreover from r have "stringify_string (channel l) @ CHR '','' # stringify_string ''content_ref'' @ CHR '':'' # stringify_string (content_ref l) @ CHR '','' # stringify_string ''ctx_id'' @ CHR '':'' # stringify_string (ctx_id l) @ ''}''
     = stringify_string (channel l') @ CHR '','' # stringify_string ''content_ref'' @ CHR '':'' # stringify_string (content_ref l') @ CHR '','' # stringify_string ''ctx_id'' @ CHR '':'' # stringify_string (ctx_id l') @ ''}''"
    by simp
  from stringify_prefix [OF this] have c: "channel l = channel l'" and r2: "stringify_string (content_ref l) @ CHR '','' # stringify_string ''ctx_id'' @ CHR '':'' # stringify_string (ctx_id l) @ ''}''
     = stringify_string (content_ref l') @ CHR '','' # stringify_string ''ctx_id'' @ CHR '':'' # stringify_string (ctx_id l') @ ''}''" by simp_all
  from stringify_prefix [OF r2] have "content_ref l = content_ref l'" and r3: "stringify_string (ctx_id l) @ ''}'' = stringify_string (ctx_id l') @ ''}''" by simp_all
  moreover from stringify_prefix [OF r3] have "ctx_id l = ctx_id l'" by simp
  ultimately show ?thesis using c by (simp add: leafPreimage_def)
qed

section \<open>Partition roots\<close>

definition leaf_input :: "(rat \<Rightarrow> string) \<Rightarrow> ContextItem \<Rightarrow> byte list" where
  "leaf_input fmt l = utf8 LEAF_TAG @ utf8 (canonicalizeValue fmt (leafPreimage l))"

definition leaf_digests :: "(byte list \<Rightarrow> byte list) \<Rightarrow> (rat \<Rightarrow> string) \<Rightarrow> ContextItem list \<Rightarrow> byte list list" where
  "leaf_digests sha fmt leaves = map (\<lambda>l. sha (leaf_input fmt l)) (sort_key ctx_id leaves)"

lemma leafHash_eq: "leafHash sha fmt l = Inr (sha (leaf_input fmt l))"
  by (simp add: leafHash_def leaf_of_def canonicalizeJCS_def leafPreimage_def leaf_input_def)

lemma mapE_leaves: "mapE (leafHash sha fmt) ls = Inr (map (\<lambda>l. sha (leaf_input fmt l)) ls)"
  by (induction ls) (simp_all add: leafHash_eq)

lemma adjacent_duplicate_sorted: "sorted xs \<Longrightarrow> adjacent_duplicate xs = None \<longleftrightarrow> distinct xs"
proof (induction xs rule: adjacent_duplicate.induct)
  case (1 a b xs)
  then show ?case by (auto simp: less_le)
qed auto

lemma duplicates_found: "adjacent_duplicate (map ctx_id (sort_key ctx_id leaves)) = None \<longleftrightarrow> distinct (map ctx_id leaves)"
proof -
  have "mset (map ctx_id (sort_key ctx_id leaves)) = mset (map ctx_id leaves)" by simp
  then have "distinct (map ctx_id (sort_key ctx_id leaves)) = distinct (map ctx_id leaves)" by (rule mset_eq_imp_distinct_iff)
  then show ?thesis using adjacent_duplicate_sorted [of "map ctx_id (sort_key ctx_id leaves)"] by simp
qed

lemma partition_root_iff:
  "buildPartitionRootBytes sha fmt leaves = Inr r \<longleftrightarrow>
     leaves \<noteq> [] \<and> distinct (map ctx_id leaves) \<and> r = root_of (nodeHash sha) (leaf_digests sha fmt leaves)"
proof -
  have "sort_key ctx_id leaves = [] \<longleftrightarrow> leaves = []" by (metis length_0_conv length_sort)
  then show ?thesis using duplicates_found [of leaves]
    by (auto simp: buildPartitionRootBytes_def buildPartitionRootBytesImpl_def Let_def mapE_leaves reduce_def leaf_digests_def split: option.splits)
qed

lemma root_bytes_hex: "buildPartitionRoot sha fmt leaves = Inr h \<longleftrightarrow> (\<exists>r. buildPartitionRootBytes sha fmt leaves = Inr r \<and> h = bytesToHex r)"
  by (auto simp: buildPartitionRoot_def bindE_Inr_iff)

lemma leaf_digests_32: "\<forall>m. length (sha m) = 32 \<Longrightarrow> list_all (\<lambda>d. length d = 32) (leaf_digests sha fmt leaves)"
  by (simp add: leaf_digests_def list_all_iff)

lemma root_32:
  assumes "\<forall>m. length (sha m) = 32" and "ds \<noteq> []" and "list_all (\<lambda>d. length d = 32) ds"
  shows "length (root_of (nodeHash sha) ds) = 32"
proof -
  have "list_all (\<lambda>d. length d = 32) ds \<longrightarrow> length (root_of (nodeHash sha) ds) = 32"
    using assms(2) by (rule length_induct_step [where f = "nodeHash sha"]) (auto simp: reduce_step pair_level_digests [OF _ assms(1)])
  with assms(3) show ?thesis by simp
qed

lemma position_of_leaf:
  assumes "distinct (map ctx_id leaves)" and "leaf \<in> set leaves"
  obtains i where "position_of (ctx_id leaf) (sort_key ctx_id leaves) = Some i" "i < length leaves" "sort_key ctx_id leaves ! i = leaf"
proof -
  let ?s = "sort_key ctx_id leaves"
  have d: "distinct (map ctx_id ?s)" using assms(1) by (metis mset_eq_imp_distinct_iff mset_map mset_sort)
  obtain i where i: "i < length ?s" "?s ! i = leaf" using assms(2) by (metis in_set_conv_nth set_sort)
  have "takeWhile (\<lambda>l. ctx_id l \<noteq> ctx_id leaf) ?s = take i ?s"
    by (rule takeWhile_eq_take_P_nth) (use i d in \<open>auto simp: distinct_conv_nth\<close>)
  then show thesis using that [of i] i by (simp add: position_of_def Let_def)
qed

lemma proof_built:
  assumes "\<forall>m. length (sha m) = 32" and "buildPartitionRoot sha fmt leaves = Inr rt" and "leaf \<in> set leaves"
  shows "\<exists>p. buildInclusionProof sha fmt leaves (ctx_id leaf) = Inr p \<and> verifyInclusionProof sha fmt leaf p rt"
proof -
  let ?ds = "leaf_digests sha fmt leaves"
  from assms(2) have p: "leaves \<noteq> []" "distinct (map ctx_id leaves)" "rt = bytesToHex (root_of (nodeHash sha) ?ds)"
    by (auto simp: root_bytes_hex partition_root_iff)
  obtain i where i: "position_of (ctx_id leaf) (sort_key ctx_id leaves) = Some i" "i < length leaves" "sort_key ctx_id leaves ! i = leaf"
    using position_of_leaf [OF p(2) assms(3)] by blast
  have len: "length ?ds = length leaves" by (simp add: leaf_digests_def)
  have d: "?ds ! i = sha (leaf_input fmt leaf)" using i by (simp add: leaf_digests_def)
  have f: "fold_path sha (?ds ! i) (audit_path sha ?ds i) = Some (root_of (nodeHash sha) ?ds)"
    by (rule audit_path_folds [OF assms(1)]) (simp_all add: len i(2) leaf_digests_32 [OF assms(1)])
  have "lower_hex 64 rt" using lower_hex_bytes [of "root_of (nodeHash sha) ?ds"] root_32 [OF assms(1) _ leaf_digests_32 [OF assms(1)], of fmt leaves] p(1) len p(3)
    by (metis length_0_conv mult_2 numeral_plus_numeral semiring_norm(2,6,7))
  moreover have "buildInclusionProof sha fmt leaves (ctx_id leaf) = Inr \<lparr>proof_ctx_id = ctx_id leaf, path = audit_path sha ?ds i\<rparr>"
    using p(1,2) i(1) duplicates_found [of leaves] by (simp add: buildInclusionProof_def buildInclusionProofImpl_def Let_def mapE_leaves leaf_digests_def)
  ultimately show ?thesis using f d p(3) by (simp add: verifyInclusionProof_def leafHash_eq)
qed

section \<open>Properties\<close>

text \<open>The partition root is the Merkle tree hash of RFC 6962 over the leaves in identifier order:
  construction succeeds exactly for a non-empty set of leaves with distinct identifiers, and
  the level-by-level loop with promotion of an odd node computes the recursive tree that splits
  at the largest power of two.\<close>

theorem partition_root_is_rfc6962:
  "buildPartitionRootBytes sha fmt leaves = Inr r \<longleftrightarrow>
     leaves \<noteq> [] \<and> distinct (map ctx_id leaves) \<and> r = tree_hash_6962 (nodeHash sha) (leaf_digests sha fmt leaves)"
proof -
  have "leaves \<noteq> [] \<Longrightarrow> leaf_digests sha fmt leaves \<noteq> []" by (simp add: leaf_digests_def) (metis length_0_conv length_sort)
  then show ?thesis unfolding partition_root_iff using root_is_6962 [of "leaf_digests sha fmt leaves" "nodeHash sha"] by auto
qed

text \<open>The order in which items are presented does not matter for a partition root.\<close>

theorem partition_root_order_irrelevant:
  assumes "mset leaves = mset leaves'"
  shows "buildPartitionRoot sha fmt leaves = buildPartitionRoot sha fmt leaves'"
proof -
  have "sort (map ctx_id leaves) = map ctx_id (sort_key ctx_id leaves)" "sort (map ctx_id leaves) = map ctx_id (sort_key ctx_id leaves')"
    using assms by (simp_all add: properties_for_sort)
  then have ids: "map ctx_id (sort_key ctx_id leaves) = map ctx_id (sort_key ctx_id leaves')" by simp
  have e: "leaves = [] \<longleftrightarrow> leaves' = []" using assms by (metis mset_zero_iff)
  show ?thesis
  proof (cases "distinct (map ctx_id leaves)")
    case True
    then have "inj_on ctx_id (set leaves)" by (simp add: distinct_map)
    then have "sort_key ctx_id leaves = sort_key ctx_id leaves'" using properties_for_sort_key [of "sort_key ctx_id leaves'" leaves ctx_id] assms
      by (metis (no_types, lifting) mset_sort mset_eq_setD sorted_sort_key filter_sort sort_key_inj_key_eq)
    then show ?thesis using e by (simp add: buildPartitionRoot_def buildPartitionRootBytes_def buildPartitionRootBytesImpl_def)
  next
    case False
    then have "adjacent_duplicate (map ctx_id (sort_key ctx_id leaves)) \<noteq> None" by (simp add: duplicates_found)
    then show ?thesis using e ids by (auto simp: buildPartitionRoot_def buildPartitionRootBytes_def buildPartitionRootBytesImpl_def Let_def)
  qed
qed

text \<open>Audit paths are complete: for every leaf of a partition a path is built, and it verifies against the
  partition root.\<close>

theorem built_proof_verifies:
  assumes "\<forall>m. length (sha m) = 32" and "buildPartitionRoot sha fmt leaves = Inr rt" and "leaf \<in> set leaves"
  shows "\<exists>p. buildInclusionProof sha fmt leaves (ctx_id leaf) = Inr p \<and> verifyInclusionProof sha fmt leaf p rt"
  using assms by (rule proof_built)

text \<open>The inputs hashed while a partition root is built and while a path is folded.\<close>

definition hashed_inputs :: "(byte list \<Rightarrow> byte list) \<Rightarrow> (rat \<Rightarrow> string) \<Rightarrow> ContextItem list \<Rightarrow> ContextItem \<Rightarrow> InclusionProof \<Rightarrow> byte list set" where
  "hashed_inputs sha fmt leaves leaf prf =
     set (tree_inputs sha (partition_tree (leaf_digests sha fmt leaves))) \<union> set (path_inputs sha (sha (leaf_input fmt leaf)) (path prf))
     \<union> leaf_input fmt ` set (leaf # leaves)"

text \<open>C40. Audit paths are sound: unless the hash collides on two of the inputs actually hashed, an item that
  verifies against a partition root agrees with an item of that partition in every committed
  field.\<close>

theorem verified_leaf_is_committed:
  assumes "\<forall>m. length (sha m) = 32" and "buildPartitionRoot sha fmt leaves = Inr rt" and "verifyInclusionProof sha fmt leaf prf rt"
    and "inj_on sha (hashed_inputs sha fmt leaves leaf prf)" and "\<forall>l \<in> set (leaf # leaves). natural_length l"
  shows "\<exists>l \<in> set leaves. leafPreimage l = leafPreimage leaf"
proof -
  let ?ds = "leaf_digests sha fmt leaves" and ?t = "partition_tree (leaf_digests sha fmt leaves)"
  let ?m = "\<lambda>l. utf8 (canonicalizeValue fmt (leafPreimage l))"
  from assms(2) have p: "leaves \<noteq> []" "rt = bytesToHex (root_of (nodeHash sha) ?ds)" by (auto simp: root_bytes_hex partition_root_iff)
  have "?ds \<noteq> []" using p(1) by (simp add: leaf_digests_def) (metis length_0_conv length_sort)
  note t = partition_tree_facts [OF this]
  have "bytesToHex x = bytesToHex y \<Longrightarrow> x = y" for x y by (metis lenient_bytes_hex)
  then have f: "fold_path sha (sha (leaf_input fmt leaf)) (path prf) = Some (tree_hash sha ?t)"
    using assms(3) p(2) by (auto simp: verifyInclusionProof_def leafHash_eq t(1) split: if_splits option.splits)
  have tip: "\<forall>e \<in> set (tips ?t). \<exists>k \<in> ?m ` set leaves. e = sha (utf8 LEAF_TAG @ k)"
    unfolding t(2) by (auto simp: leaf_digests_def leaf_input_def)
  have "{utf8 LEAF_TAG @ k |k. k = ?m leaf \<or> k \<in> ?m ` set leaves} = leaf_input fmt ` set (leaf # leaves)" by (auto simp: leaf_input_def)
  then have "inj_on sha (set (tree_inputs sha ?t) \<union> set (path_inputs sha (sha (leaf_input fmt leaf)) (path prf)) \<union> {utf8 LEAF_TAG @ k |k. k = ?m leaf \<or> k \<in> ?m ` set leaves})"
    using assms(4) by (simp add: hashed_inputs_def)
  from path_reaches_tip [OF assms(1) _ f tip this] have "?m leaf \<in> ?m ` set leaves" by (simp add: leaf_input_def)
  then obtain l where "l \<in> set leaves" "canonicalizeValue fmt (leafPreimage leaf) = canonicalizeValue fmt (leafPreimage l)" using utf8_inj by blast
  then show ?thesis using leaf_determined [of fmt leaf l] assms(5) by fastforce
qed

section \<open>A concrete partition\<close>

definition length_sha :: "byte list \<Rightarrow> byte list" where
  "length_sha m = replicate 31 0 @ [word_of_int (int (length m))]"

definition sample_item :: "string \<Rightarrow> ContextItem" where
  "sample_item cid = \<lparr>ctx_id = cid, channel = ''developer'', content_ref = replicate 64 CHR ''0'', byte_len = 3, trust_tier = None, content = None\<rparr>"

definition sample_items :: "ContextItem list" where
  "sample_items = [sample_item ''a'', sample_item ''bb'']"

lemma length_sha_32: "\<forall>m. length (length_sha m) = 32"
  by (simp add: length_sha_def)

lemma sample_leaf_lengths:
  "length (leaf_input (\<lambda>_. []) (sample_item ''a'')) = 144" "length (leaf_input (\<lambda>_. []) (sample_item ''bb'')) = 145" "length (utf8 NODE_TAG) = 14"
  by code_simp+

lemma sample_sorted: "sort_key ctx_id sample_items = sample_items"
  by (simp add: sample_items_def sample_item_def)

lemma sample_items_root: "\<exists>rt. buildPartitionRoot length_sha (\<lambda>_. []) sample_items = Inr rt"
  unfolding root_bytes_hex partition_root_iff by (simp add: sample_items_def sample_item_def)

lemma sample_inputs_inj:
  assumes "path prf = [\<lparr>sibling = bytesToHex (length_sha (leaf_input (\<lambda>_. []) (sample_item ''bb''))), step_side = Right_side\<rparr>]"
  shows "inj_on length_sha (hashed_inputs length_sha (\<lambda>_. []) sample_items (sample_item ''a'') prf)"
proof -
  let ?a = "leaf_input (\<lambda>_. []) (sample_item ''a'')" and ?b = "leaf_input (\<lambda>_. []) (sample_item ''bb'')"
  let ?n = "utf8 NODE_TAG @ length_sha ?a @ length_sha ?b"
  have ds: "leaf_digests length_sha (\<lambda>_. []) sample_items = [length_sha ?a, length_sha ?b]" by (simp add: leaf_digests_def sample_sorted) (simp add: sample_items_def)
  have "hashed_inputs length_sha (\<lambda>_. []) sample_items (sample_item ''a'') prf = {?n, ?a, ?b}"
    unfolding hashed_inputs_def ds assms by (auto simp: partition_tree_def reduce_loop.simps lenient_bytes_hex sample_items_def)
  moreover have "length ?n = 78" using sample_leaf_lengths(3) length_sha_32 by simp
  ultimately show ?thesis using sample_leaf_lengths(1,2) by (auto simp: inj_on_def length_sha_def)
qed

theorem partition_root_order_irrelevant_witness:
  "buildPartitionRoot length_sha (\<lambda>_. []) sample_items = buildPartitionRoot length_sha (\<lambda>_. []) (rev sample_items)"
  by (rule partition_root_order_irrelevant) simp

theorem built_proof_verifies_witness:
  "\<exists>rt p. buildPartitionRoot length_sha (\<lambda>_. []) sample_items = Inr rt \<and> verifyInclusionProof length_sha (\<lambda>_. []) (sample_item ''a'') p rt"
proof -
  obtain rt where rt: "buildPartitionRoot length_sha (\<lambda>_. []) sample_items = Inr rt" using sample_items_root by blast
  have "sample_item ''a'' \<in> set sample_items" by (simp add: sample_items_def)
  from built_proof_verifies [OF length_sha_32 rt this] rt show ?thesis by blast
qed

theorem verified_leaf_is_committed_witness:
  "\<exists>rt p. verifyInclusionProof length_sha (\<lambda>_. []) (sample_item ''a'') p rt \<and> (\<exists>l \<in> set sample_items. leafPreimage l = leafPreimage (sample_item ''a''))"
proof -
  obtain rt where rt: "buildPartitionRoot length_sha (\<lambda>_. []) sample_items = Inr rt" using sample_items_root by blast
  have "sample_item ''a'' \<in> set sample_items" by (simp add: sample_items_def)
  from proof_built [OF length_sha_32 rt this] obtain p where p: "buildInclusionProof length_sha (\<lambda>_. []) sample_items (ctx_id (sample_item ''a'')) = Inr p"
    "verifyInclusionProof length_sha (\<lambda>_. []) (sample_item ''a'') p rt" by blast
  have pos: "position_of ''a'' sample_items = Some 0" by (simp add: position_of_def sample_items_def sample_item_def)
  have "path p = [\<lparr>sibling = bytesToHex (length_sha (leaf_input (\<lambda>_. []) (sample_item ''bb''))), step_side = Right_side\<rparr>]"
  proof -
    have "adjacent_duplicate (map ctx_id sample_items) = None" "sample_items \<noteq> []" "ctx_id (sample_item ''a'') = ''a''" by (simp_all add: sample_items_def sample_item_def)
    then have "p = \<lparr>proof_ctx_id = ''a'', path = audit_path length_sha (map (\<lambda>l. length_sha (leaf_input (\<lambda>_. []) l)) sample_items) 0\<rparr>"
      using p(1) pos unfolding buildInclusionProof_def buildInclusionProofImpl_def Let_def sample_sorted mapE_leaves by simp
    then show ?thesis by (simp add: sample_items_def audit_path.simps audit_step_def)
  qed
  from sample_inputs_inj [OF this] have "\<exists>l \<in> set sample_items. leafPreimage l = leafPreimage (sample_item ''a'')"
    by (rule verified_leaf_is_committed [OF length_sha_32 rt p(2)]) (auto simp: sample_items_def sample_item_def natural_length_def isInteger_def)
  with p(2) show ?thesis by blast
qed

end
