(* ===== verification/Context_Provenance.thy ===== *)
theory Context_Provenance
  imports Context_Merkle Key_Rotation
begin

text \<open>
  \<^verbatim>\<open>src/v2/context-provenance/cpa.ts\<close> and \<^verbatim>\<open>verify.ts\<close>: producing and verifying attestations of
  the context behind an action.  Items are partitioned by channel; a full-set attestation
  discloses every item, an inclusion attestation a selection with audit paths.

  Presented values are JSON; an undefined member is an absent one.  \<open>Date.parse\<close> is the argument
  \<open>dp\<close> (\<open>None\<close> is not a number), SHA-256 the argument \<open>sha\<close>, and \<open>pub\<close> derives public keys.
\<close>

section \<open>Attestations\<close>

definition CHANNEL_ORDER :: "string list" where
  "CHANNEL_ORDER = [''system-config'', ''developer'', ''user-socket'', ''retrieval-store'', ''tool-result'', ''external'', ''memory'', ''quarantine'']"

datatype DisclosureMode = Inclusion | Full_set

fun disclosure_name :: "DisclosureMode \<Rightarrow> string" where
  "disclosure_name Inclusion = ''inclusion''"
| "disclosure_name Full_set = ''full-set''"

record CpaPartition =
  part_channel :: string
  partition_root :: string
  leaf_count :: rat
  hidden_leaf_count :: "rat option"
  part_leaves :: "ContextItem list option"
  inclusion_proofs :: "InclusionProof list option"

definition item_json :: "ContextItem \<Rightarrow> json" where
  "item_json l = JObj ([(''ctx_id'', JStr (ctx_id l)), (''channel'', JStr (channel l)), (''content_ref'', JStr (content_ref l)), (''byte_len'', JNum (byte_len l))]
     @ text_entry ''trust_tier'' (trust_tier l) @ text_entry ''content'' (content l))"

fun side_name :: "side \<Rightarrow> string" where
  "side_name Left_side = ''left''"
| "side_name Right_side = ''right''"

definition proof_json :: "InclusionProof \<Rightarrow> json" where
  "proof_json p = JObj [(''ctx_id'', JStr (proof_ctx_id p)),
     (''path'', JArr (map (\<lambda>s. JObj [(''sibling'', JStr (sibling s)), (''side'', JStr (side_name (step_side s)))]) (path p)))]"

definition partition_json :: "CpaPartition \<Rightarrow> json" where
  "partition_json p = JObj ([(''channel'', JStr (part_channel p)), (''partition_root'', JStr (partition_root p)), (''leaf_count'', JNum (leaf_count p))]
     @ (case hidden_leaf_count p of None \<Rightarrow> []
        | Some h \<Rightarrow> [(''context_profile'', JObj [(''channel'', JStr (part_channel p)), (''hidden_leaf_count'', JNum h)])])
     @ value_entry ''leaves'' (map_option (\<lambda>ls. JArr (map item_json ls)) (part_leaves p))
     @ value_entry ''inclusion_proofs'' (map_option (\<lambda>ps. JArr (map proof_json ps)) (inclusion_proofs p)))"

section \<open>Producing\<close>

record BuildCpaInput =
  privateKey :: string
  in_action_ref :: string
  in_producer_did :: string
  in_attested_at :: string
  in_mode :: DisclosureMode
  in_items :: "ContextItem list"
  disclose :: "string list"
  in_producer_attestation :: "json option"

datatype CpaError = Cpa_merkle MerkleError | Cpa_write jcs_error

definition build_partition ::
  "(byte list \<Rightarrow> byte list) \<Rightarrow> (rat \<Rightarrow> string) \<Rightarrow> DisclosureMode \<Rightarrow> string list \<Rightarrow> string \<times> ContextItem list \<Rightarrow> (MerkleError, CpaPartition \<times> byte list) result" where
  "build_partition sha fmt mode dis cl = (case cl of (ch, leaves) \<Rightarrow>
     bindE (buildPartitionRootBytesForWrite sha fmt leaves) (\<lambda>rootBytes.
       let p = \<lparr>part_channel = ch, partition_root = bytesToHex rootBytes, leaf_count = of_nat (length leaves), hidden_leaf_count = None,
                part_leaves = Some leaves, inclusion_proofs = None\<rparr> in
       if mode = Full_set then Inr (p, rootBytes)
       else let disclosedLeaves = filter (\<lambda>l. ctx_id l \<in> set dis) leaves in
         bindE (mapE (\<lambda>l. buildInclusionProofForWrite sha fmt leaves (ctx_id l)) disclosedLeaves) (\<lambda>proofs.
           Inr (p\<lparr>hidden_leaf_count := Some (of_nat (length leaves) - of_nat (length disclosedLeaves)),
                  part_leaves := (if disclosedLeaves = [] then None else Some (sort_key ctx_id disclosedLeaves)),
                  inclusion_proofs := (if disclosedLeaves = [] then None else Some (sort_key proof_ctx_id proofs))\<rparr>, rootBytes))))"

text \<open>The non-empty channels in their order, each with its items.\<close>

definition present_channels :: "ContextItem list \<Rightarrow> (string \<times> ContextItem list) list" where
  "present_channels items = filter (\<lambda>(c, ls). ls \<noteq> []) (map (\<lambda>c. (c, filter (\<lambda>i. channel i = c) items)) CHANNEL_ORDER)"

definition cpa_body :: "string \<Rightarrow> BuildCpaInput \<Rightarrow> CpaPartition list \<Rightarrow> string \<Rightarrow> members" where
  "cpa_body pubkey i parts tr =
     [(''version'', JStr ''cpa/0.1''), (''action_ref'', JStr (in_action_ref i)), (''producer_did'', JStr (in_producer_did i)), (''producer_pubkey'', JStr pubkey),
      (''attested_at'', JStr (in_attested_at i)), (''mode'', JStr (disclosure_name (in_mode i))), (''partitions'', JArr (map partition_json parts)),
      (''root'', JStr tr)] @ value_entry ''producer_attestation'' (in_producer_attestation i)"

definition buildCPA :: "(byte list \<Rightarrow> byte list) \<Rightarrow> crypto \<Rightarrow> (string \<Rightarrow> string) \<Rightarrow> BuildCpaInput \<Rightarrow> (CpaError, members) result" where
  "buildCPA sha C pub i =
     (case mapE (build_partition sha (format_number C) (in_mode i) (disclose i)) (present_channels (in_items i)) of
        Inl e \<Rightarrow> Inl (Cpa_merkle e)
      | Inr built \<Rightarrow>
          let body = cpa_body (pub (privateKey i)) i (map fst built) (bytesToHex (buildTopRootBytes sha (map snd built))) in
          case canonicalizeJCSForWrite (format_number C) (JObj (body @ [(''signature'', JStr [])])) of
            Inl e \<Rightarrow> Inl (Cpa_write e)
          | Inr bytes \<Rightarrow> Inr (body @ [(''signature'', JStr (ed25519_sign C bytes (privateKey i)))]))"

definition computeCpaRef :: "(byte list \<Rightarrow> byte list) \<Rightarrow> (rat \<Rightarrow> string) \<Rightarrow> members \<Rightarrow> (jcs_error, string) result" where
  "computeCpaRef sha fmt c = bindE (canonicalizeJCS fmt (JObj c)) (\<lambda>s. Inr (bytesToHex (sha (utf8 SIGN_TAG @ utf8 s))))"

definition computeCpaRefForWrite :: "(byte list \<Rightarrow> byte list) \<Rightarrow> (rat \<Rightarrow> string) \<Rightarrow> members \<Rightarrow> (jcs_error, string) result" where
  "computeCpaRefForWrite sha fmt c = bindE (canonicalizeJCSForWrite fmt (JObj c)) (\<lambda>s. Inr (bytesToHex (sha (utf8 SIGN_TAG @ utf8 s))))"

definition carryCpaRef :: "(byte list \<Rightarrow> byte list) \<Rightarrow> (rat \<Rightarrow> string) \<Rightarrow> members \<Rightarrow> (jcs_error, members) result" where
  "carryCpaRef sha fmt c = bindE (computeCpaRefForWrite sha fmt c) (\<lambda>r. Inr [(''cpa_ref'', JStr r)])"

text \<open>Spreading an object and setting one member.\<close>

definition with_member :: "string \<Rightarrow> json \<Rightarrow> members \<Rightarrow> members" where
  "with_member k v m = (if k \<in> fst ` set m then map (\<lambda>(a, x). (a, if a = k then v else x)) m else m @ [(k, v)])"

definition bindCpaRefToReceipt :: "members \<Rightarrow> string \<Rightarrow> members" where
  "bindCpaRefToReceipt receipt r = with_member ''cpa_ref'' (JStr r) receipt"

section \<open>Shape\<close>

datatype CpaReasonCode =
    SHAPE_INVALID | SIGNATURE_INVALID | KEY_NOT_ACTIVE | DID_MISMATCH | ACTION_REF_MISMATCH | CPA_REF_MISMATCH | CONTENT_REF_MISMATCH
  | PARTITION_ROOT_MISMATCH | ROOT_MISMATCH | CARDINALITY_MISMATCH | INCLUSION_PROOF_INVALID | DISCLOSURE_POLICY_UNSATISFIED | DOMAIN_TAG_CONFUSION

definition reason_if :: "CpaReasonCode \<Rightarrow> bool \<Rightarrow> CpaReasonCode list" where
  "reason_if r b = (if b then [r] else [])"

text \<open>The expression \<^verbatim>\<open>^\d{4}-\d{2}-\d{2}T\d{2}:\d{2}:\d{2}(\.\d+)?(Z|[+-]\d{2}:\d{2})$\<close>.\<close>

fun matches_mask :: "string \<Rightarrow> string \<Rightarrow> bool" where
  "matches_mask [] [] = True"
| "matches_mask (p # ps) (c # cs) = ((if p = CHR ''d'' then isDigit c else c = p) \<and> matches_mask ps cs)"
| "matches_mask _ _ = False"

definition iso_zone :: "string \<Rightarrow> bool" where
  "iso_zone s \<longleftrightarrow> s = ''Z'' \<or> matches_mask ''+dd:dd'' s \<or> matches_mask ''-dd:dd'' s"

definition ISO_8601 :: "string \<Rightarrow> bool" where
  "ISO_8601 s \<longleftrightarrow> matches_mask ''dddd-dd-ddTdd:dd:dd'' (take 19 s)
     \<and> (let r = drop 19 s in
         if r \<noteq> [] \<and> hd r = CHR ''.'' then takeWhile isDigit (tl r) \<noteq> [] \<and> iso_zone (dropWhile isDigit (tl r)) else iso_zone r)"

definition isIso8601 :: "(string \<Rightarrow> int option) \<Rightarrow> string \<Rightarrow> bool" where
  "isIso8601 dp s \<longleftrightarrow> ISO_8601 s \<and> dp s \<noteq> None"

definition text_member :: "members \<Rightarrow> string \<Rightarrow> (string \<Rightarrow> bool) \<Rightarrow> bool" where
  "text_member m k good = (case get_str m k of None \<Rightarrow> False | Some s \<Rightarrow> good s)"

definition integer_member :: "members \<Rightarrow> string \<Rightarrow> rat \<Rightarrow> bool" where
  "integer_member m k least = (case get m k of Some (JNum r) \<Rightarrow> isInteger r \<and> least \<le> r | _ \<Rightarrow> False)"

definition optional_text :: "members \<Rightarrow> string \<Rightarrow> (string \<Rightarrow> bool) \<Rightarrow> bool" where
  "optional_text m k good = (case get m k of None \<Rightarrow> True | Some (JStr s) \<Rightarrow> good s | _ \<Rightarrow> False)"

definition index_in :: "string \<Rightarrow> string list \<Rightarrow> nat option" where
  "index_in x xs = (let k = length (takeWhile (\<lambda>y. y \<noteq> x) xs) in if k < length xs then Some k else None)"

text \<open>Strict equality of two member values; distinct objects are never equal.\<close>

definition same_value :: "json option \<Rightarrow> json option \<Rightarrow> bool" where
  "same_value a b = (case (a, b) of (Some (JObj _), _) \<Rightarrow> False | (Some (JArr _), _) \<Rightarrow> False | (Some JMark, _) \<Rightarrow> False | _ \<Rightarrow> a = b)"

definition isContextItemShape :: "json option \<Rightarrow> json \<Rightarrow> bool" where
  "isContextItemShape ch j = (case j of
     JObj l \<Rightarrow> text_member l ''ctx_id'' (\<lambda>s. s \<noteq> []) \<and> text_member l ''channel'' (\<lambda>s. Some (JStr s) = ch) \<and> text_member l ''content_ref'' (lower_hex 64)
       \<and> integer_member l ''byte_len'' 0 \<and> optional_text l ''trust_tier'' (\<lambda>_. True) \<and> optional_text l ''content'' (\<lambda>_. True)
   | _ \<Rightarrow> False)"

definition inclusion_step_shape :: "json \<Rightarrow> bool" where
  "inclusion_step_shape j = (case j of
     JObj s \<Rightarrow> text_member s ''sibling'' (lower_hex 64) \<and> text_member s ''side'' (\<lambda>x. x = ''left'' \<or> x = ''right'') | _ \<Rightarrow> False)"

definition isInclusionProofShape :: "json \<Rightarrow> bool" where
  "isInclusionProofShape j = (case j of
     JObj p \<Rightarrow> text_member p ''ctx_id'' (\<lambda>s. s \<noteq> []) \<and> (case get p ''path'' of Some (JArr ss) \<Rightarrow> list_all inclusion_step_shape ss | _ \<Rightarrow> False)
   | _ \<Rightarrow> False)"

definition profile_reasons :: "json option \<Rightarrow> members \<Rightarrow> CpaReasonCode list" where
  "profile_reasons mode part =
     reason_if SHAPE_INVALID (mode = Some (JStr ''inclusion'') \<and> get part ''context_profile'' = None)
     @ reason_if SHAPE_INVALID (mode = Some (JStr ''full-set'') \<and> get part ''context_profile'' \<noteq> None)
     @ (case get part ''context_profile'' of
          None \<Rightarrow> []
        | Some (JObj pr) \<Rightarrow> reason_if SHAPE_INVALID (\<not> same_value (get pr ''channel'') (get part ''channel'')) @ reason_if SHAPE_INVALID (\<not> integer_member pr ''hidden_leaf_count'' 0)
        | Some (JArr _) \<Rightarrow> reason_if SHAPE_INVALID (get part ''channel'' \<noteq> None) @ [SHAPE_INVALID]
        | Some _ \<Rightarrow> [SHAPE_INVALID])"

fun leaf_reasons :: "json option \<Rightarrow> string list \<Rightarrow> json list \<Rightarrow> CpaReasonCode list" where
  "leaf_reasons ch seen [] = []"
| "leaf_reasons ch seen (j # js) =
     (if \<not> isContextItemShape ch j then SHAPE_INVALID # leaf_reasons ch seen js
      else let c = (case j of JObj l \<Rightarrow> str_at l ''ctx_id'' | _ \<Rightarrow> []) in
        reason_if DOMAIN_TAG_CONFUSION (c \<in> set seen) @ leaf_reasons ch (c # seen) js)"

definition leaves_reasons :: "json option \<Rightarrow> members \<Rightarrow> CpaReasonCode list" where
  "leaves_reasons mode part =
     (case get part ''leaves'' of
        None \<Rightarrow> reason_if SHAPE_INVALID (mode = Some (JStr ''full-set''))
      | Some (JArr js) \<Rightarrow> leaf_reasons (get part ''channel'') [] js
      | Some _ \<Rightarrow> [SHAPE_INVALID])"

definition proofs_reasons :: "json option \<Rightarrow> members \<Rightarrow> CpaReasonCode list" where
  "proofs_reasons mode part =
     (case get part ''inclusion_proofs'' of
        None \<Rightarrow> []
      | Some v \<Rightarrow> reason_if SHAPE_INVALID (mode \<noteq> Some (JStr ''inclusion''))
          @ (case v of JArr ps \<Rightarrow> concat (map (\<lambda>p. reason_if SHAPE_INVALID (\<not> isInclusionProofShape p)) ps) | _ \<Rightarrow> [SHAPE_INVALID]))"

fun partitions_reasons :: "json option \<Rightarrow> int \<Rightarrow> string list \<Rightarrow> json list \<Rightarrow> CpaReasonCode list" where
  "partitions_reasons mode last' seen [] = []"
| "partitions_reasons mode last' seen (JObj part # ps) =
     (let ch = (case get_str part ''channel'' of Some c \<Rightarrow> (case index_in c CHANNEL_ORDER of Some k \<Rightarrow> Some (c, int k) | None \<Rightarrow> None) | None \<Rightarrow> None) in
      (case ch of None \<Rightarrow> [SHAPE_INVALID] | Some (c, k) \<Rightarrow> reason_if SHAPE_INVALID (k \<le> last' \<or> c \<in> set seen))
      @ reason_if SHAPE_INVALID (\<not> text_member part ''partition_root'' (lower_hex 64))
      @ reason_if SHAPE_INVALID (\<not> integer_member part ''leaf_count'' 1)
      @ profile_reasons mode part @ leaves_reasons mode part @ proofs_reasons mode part
      @ (case ch of None \<Rightarrow> partitions_reasons mode last' seen ps | Some (c, k) \<Rightarrow> partitions_reasons mode (max last' k) (c # seen) ps))"
| "partitions_reasons mode last' seen (_ # ps) = SHAPE_INVALID # partitions_reasons mode last' seen ps"

definition attestation_reasons :: "members \<Rightarrow> CpaReasonCode list" where
  "attestation_reasons v =
     (case get v ''producer_attestation'' of
        None \<Rightarrow> []
      | Some (JObj p) \<Rightarrow> reason_if SHAPE_INVALID (\<not> text_member p ''format'' (\<lambda>s. \<not> list_all js_white s))
          @ reason_if SHAPE_INVALID (\<not> text_member p ''content_hash'' (lower_hex 64))
          @ reason_if SHAPE_INVALID (\<not> optional_text p ''locator_uri'' (\<lambda>s. s \<noteq> []))
          @ reason_if SHAPE_INVALID (\<not> optional_text p ''binding_note'' (\<lambda>_. True))
      | Some _ \<Rightarrow> [SHAPE_INVALID])"

definition top_reasons :: "(string \<Rightarrow> int option) \<Rightarrow> members \<Rightarrow> CpaReasonCode list" where
  "top_reasons dp v =
     reason_if SHAPE_INVALID (get v ''version'' \<noteq> Some (JStr ''cpa/0.1''))
     @ reason_if SHAPE_INVALID (\<not> text_member v ''action_ref'' (lower_hex 64))
     @ reason_if SHAPE_INVALID (\<not> text_member v ''producer_did'' (\<lambda>s. s \<noteq> []))
     @ reason_if SHAPE_INVALID (\<not> text_member v ''producer_pubkey'' (lower_hex 64))
     @ reason_if SHAPE_INVALID (\<not> text_member v ''attested_at'' (isIso8601 dp))
     @ reason_if SHAPE_INVALID (get v ''mode'' \<notin> {Some (JStr ''full-set''), Some (JStr ''inclusion'')})
     @ reason_if SHAPE_INVALID (\<not> text_member v ''root'' (lower_hex 64))
     @ reason_if SHAPE_INVALID (\<not> text_member v ''signature'' (lower_hex 128))"

definition decodeShape :: "(string \<Rightarrow> int option) \<Rightarrow> json \<Rightarrow> (CpaReasonCode list, members) result" where
  "decodeShape dp input =
     (case input of
        JObj v \<Rightarrow>
          (case get v ''partitions'' of
             Some (JArr ps) \<Rightarrow>
               let reasons = top_reasons dp v @ partitions_reasons (get v ''mode'') (-1) [] ps @ attestation_reasons v in
               if reasons \<noteq> [] then Inl reasons else Inr v
           | _ \<Rightarrow> Inl (top_reasons dp v @ [SHAPE_INVALID]))
      | _ \<Rightarrow> Inl [SHAPE_INVALID])"

section \<open>Reading a checked attestation\<close>

definition num_at :: "members \<Rightarrow> string \<Rightarrow> rat" where
  "num_at m k = (case get_num m k of Some r \<Rightarrow> r | None \<Rightarrow> 0)"

definition read_item :: "json \<Rightarrow> ContextItem" where
  "read_item j = (let l = (case j of JObj l \<Rightarrow> l | _ \<Rightarrow> []) in
     \<lparr>ctx_id = str_at l ''ctx_id'', channel = str_at l ''channel'', content_ref = str_at l ''content_ref'', byte_len = num_at l ''byte_len'',
      trust_tier = get_str l ''trust_tier'', content = get_str l ''content''\<rparr>)"

definition read_step :: "json \<Rightarrow> InclusionStep" where
  "read_step j = (let s = (case j of JObj s \<Rightarrow> s | _ \<Rightarrow> []) in
     \<lparr>sibling = str_at s ''sibling'', step_side = (if str_at s ''side'' = ''left'' then Left_side else Right_side)\<rparr>)"

definition read_proof :: "json \<Rightarrow> InclusionProof" where
  "read_proof j = (let p = (case j of JObj p \<Rightarrow> p | _ \<Rightarrow> []) in
     \<lparr>proof_ctx_id = str_at p ''ctx_id'', path = (case get_arr p ''path'' of Some ss \<Rightarrow> map read_step ss | None \<Rightarrow> [])\<rparr>)"

definition read_partition :: "json \<Rightarrow> CpaPartition" where
  "read_partition j = (let p = (case j of JObj p \<Rightarrow> p | _ \<Rightarrow> []) in
     \<lparr>part_channel = str_at p ''channel'', partition_root = str_at p ''partition_root'', leaf_count = num_at p ''leaf_count'',
      hidden_leaf_count = Option.bind (get_obj p ''context_profile'') (\<lambda>pr. get_num pr ''hidden_leaf_count''),
      part_leaves = map_option (map read_item) (get_arr p ''leaves''), inclusion_proofs = map_option (map read_proof) (get_arr p ''inclusion_proofs'')\<rparr>)"

definition read_partitions :: "members \<Rightarrow> CpaPartition list" where
  "read_partitions c = (case get_arr c ''partitions'' of Some ps \<Rightarrow> map read_partition ps | None \<Rightarrow> [])"

definition disclosed :: "CpaPartition \<Rightarrow> ContextItem list" where
  "disclosed p = (case part_leaves p of Some ls \<Rightarrow> ls | None \<Rightarrow> [])"

section \<open>Verifying\<close>

text \<open>Standard base64 with padding.  Node decodes leniently; after the round-trip test only the
  canonical encodings remain, which this decoder reads.\<close>

definition BASE64_ALPHABET :: string where
  "BASE64_ALPHABET = ''ABCDEFGHIJKLMNOPQRSTUVWXYZabcdefghijklmnopqrstuvwxyz0123456789+/''"

definition base64_char :: "nat \<Rightarrow> char" where
  "base64_char n = BASE64_ALPHABET ! n"

definition sextet :: "char \<Rightarrow> nat" where
  "sextet c = (case index_of BASE64_ALPHABET c of Some k \<Rightarrow> k | None \<Rightarrow> 0)"

fun base64_encode :: "byte list \<Rightarrow> string" where
  "base64_encode [] = []"
| "base64_encode [a] = [base64_char (unat a div 4), base64_char (unat a mod 4 * 16), CHR ''='', CHR ''='']"
| "base64_encode [a, b] =
     [base64_char (unat a div 4), base64_char (unat a mod 4 * 16 + unat b div 16), base64_char (unat b mod 16 * 4), CHR ''='']"
| "base64_encode (a # b # c # bs) =
     [base64_char (unat a div 4), base64_char (unat a mod 4 * 16 + unat b div 16), base64_char (unat b mod 16 * 4 + unat c div 64), base64_char (unat c mod 64)]
     @ base64_encode bs"

fun base64_decode :: "string \<Rightarrow> byte list" where
  "base64_decode (p # q # r # s # t) =
     (let a = of_nat (sextet p * 4 + sextet q div 16); b = of_nat (sextet q mod 16 * 16 + sextet r div 4); c = of_nat (sextet r mod 4 * 64 + sextet s) in
      if s = CHR ''='' then (if r = CHR ''='' then [a] else [a, b]) else a # b # c # base64_decode t)"
| "base64_decode _ = []"

definition decodeBase64Strict :: "string \<Rightarrow> byte list option" where
  "decodeBase64Strict s = (let bytes = base64_decode s in if base64_encode bytes \<noteq> s then None else Some bytes)"

definition top_reason :: "(byte list \<Rightarrow> byte list) \<Rightarrow> byte list list \<Rightarrow> string \<Rightarrow> CpaReasonCode list" where
  "top_reason sha roots tr = reason_if ROOT_MISMATCH (bytesToHex (buildTopRootBytes sha roots) \<noteq> tr)"

fun full_set_partitions ::
  "(byte list \<Rightarrow> byte list) \<Rightarrow> (rat \<Rightarrow> string) \<Rightarrow> CpaPartition list \<Rightarrow> CpaReasonCode list \<times> byte list list" where
  "full_set_partitions sha fmt [] = ([], [])"
| "full_set_partitions sha fmt (p # ps) =
     (let (rs, roots) = full_set_partitions sha fmt ps in
      case buildPartitionRootBytes sha fmt (disclosed p) of
        Inl _ \<Rightarrow> (PARTITION_ROOT_MISMATCH # rs, roots)
      | Inr recomputed \<Rightarrow>
          (reason_if PARTITION_ROOT_MISMATCH (bytesToHex recomputed \<noteq> partition_root p)
             @ reason_if CARDINALITY_MISMATCH (of_nat (length (disclosed p)) \<noteq> leaf_count p) @ rs,
           lenient_bytes (partition_root p) # roots))"

definition recomputeFullSet :: "(byte list \<Rightarrow> byte list) \<Rightarrow> (rat \<Rightarrow> string) \<Rightarrow> CpaPartition list \<Rightarrow> string \<Rightarrow> CpaReasonCode list" where
  "recomputeFullSet sha fmt ps tr = (let (rs, roots) = full_set_partitions sha fmt ps in rs @ top_reason sha roots tr)"

text \<open>A map filled in list order keeps the last proof of an identifier.\<close>

definition proof_for :: "InclusionProof list \<Rightarrow> string \<Rightarrow> InclusionProof option" where
  "proof_for proofs cid = find (\<lambda>p. proof_ctx_id p = cid) (rev proofs)"

definition inclusion_partition :: "(byte list \<Rightarrow> byte list) \<Rightarrow> (rat \<Rightarrow> string) \<Rightarrow> CpaPartition \<Rightarrow> CpaReasonCode list" where
  "inclusion_partition sha fmt p =
     (let ls = disclosed p; proofs = (case inclusion_proofs p of Some ps \<Rightarrow> ps | None \<Rightarrow> []) in
      reason_if INCLUSION_PROOF_INVALID (ls \<noteq> [] \<and> length proofs \<noteq> length ls)
      @ concat (map (\<lambda>l. reason_if INCLUSION_PROOF_INVALID
          (case proof_for proofs (ctx_id l) of None \<Rightarrow> True | Some prf \<Rightarrow> \<not> verifyInclusionProof sha fmt l prf (partition_root p))) ls)
      @ concat (map (\<lambda>prf. reason_if INCLUSION_PROOF_INVALID (\<not> list_ex (\<lambda>l. ctx_id l = proof_ctx_id prf) ls)) proofs)
      @ reason_if CARDINALITY_MISMATCH (hidden_leaf_count p \<noteq> Some (leaf_count p - of_nat (length ls))))"

definition recomputeInclusion :: "(byte list \<Rightarrow> byte list) \<Rightarrow> (rat \<Rightarrow> string) \<Rightarrow> CpaPartition list \<Rightarrow> string \<Rightarrow> CpaReasonCode list" where
  "recomputeInclusion sha fmt ps tr =
     concat (map (inclusion_partition sha fmt) ps) @ top_reason sha (map (\<lambda>p. lenient_bytes (partition_root p)) ps) tr"

definition content_bound :: "(byte list \<Rightarrow> byte list) \<Rightarrow> ContextItem \<Rightarrow> bool" where
  "content_bound sha l = (case content l of
     None \<Rightarrow> True
   | Some s \<Rightarrow> (case decodeBase64Strict s of
       None \<Rightarrow> False
     | Some bytes \<Rightarrow> bytesToHex (sha bytes) = content_ref l \<and> byte_len l = of_nat (length bytes)))"

definition checkContentBinding :: "(byte list \<Rightarrow> byte list) \<Rightarrow> CpaPartition list \<Rightarrow> CpaReasonCode list" where
  "checkContentBinding sha ps = reason_if CONTENT_REF_MISMATCH (\<not> list_all (\<lambda>p. list_all (content_bound sha) (disclosed p)) ps)"

definition checkContentRequiringPolicy :: "CpaPartition list \<Rightarrow> CpaReasonCode list" where
  "checkContentRequiringPolicy ps =
     (let ls = concat (map disclosed ps) in reason_if DISCLOSURE_POLICY_UNSATISFIED (ls = [] \<or> list_ex (\<lambda>l. content l = None) ls))"

definition actionRefsMatch :: "string \<Rightarrow> string \<Rightarrow> bool" where
  "actionRefsMatch a b \<longleftrightarrow> a \<noteq> [] \<and> a = b"

record CpaReceipt =
  receipt_action_ref :: "string option"
  receipt_cpa_ref :: "string option"

datatype completeness = PROVEN | NOT_PROVEN

record CpaVerifyResult =
  cpa_valid :: bool
  cpa_reasons :: "CpaReasonCode list"
  cpa_completeness :: completeness

definition receipt_reasons ::
  "(byte list \<Rightarrow> byte list) \<Rightarrow> crypto \<Rightarrow> members \<Rightarrow> CpaReceipt option \<Rightarrow> (jcs_error, CpaReasonCode list) result" where
  "receipt_reasons sha C c receipt = (case receipt of
     None \<Rightarrow> Inr []
   | Some rc \<Rightarrow>
       let ra = (case receipt_action_ref rc of None \<Rightarrow> [] | Some a \<Rightarrow> reason_if ACTION_REF_MISMATCH (\<not> actionRefsMatch (str_at c ''action_ref'') a)) in
       (case receipt_cpa_ref rc of
          None \<Rightarrow> Inr ra
        | Some x \<Rightarrow> bindE (computeCpaRef sha (format_number C) c) (\<lambda>y. Inr (ra @ reason_if CPA_REF_MISMATCH (y \<noteq> x)))))"

text \<open>The document argument is \<open>None\<close> for a value that lacks the three arrays.  A canonicalization
  error is thrown to the caller.\<close>

definition verifyCPA ::
  "(byte list \<Rightarrow> byte list) \<Rightarrow> crypto \<Rightarrow> (string \<Rightarrow> int option) \<Rightarrow> json \<Rightarrow> RotatableDIDDocument option \<Rightarrow> CpaReceipt option \<Rightarrow> bool
    \<Rightarrow> (jcs_error, CpaVerifyResult) result" where
  "verifyCPA sha C dp input didDoc receipt requireContent =
     (case decodeShape dp input of
        Inl reasons \<Rightarrow> Inr \<lparr>cpa_valid = False, cpa_reasons = reasons, cpa_completeness = NOT_PROVEN\<rparr>
      | Inr c \<Rightarrow>
          let pubkey = str_at c ''producer_pubkey''; ps = read_partitions c; full_set = (get_str c ''mode'' = Some ''full-set'') in
          bindE (canonicalizeJCS (format_number C) (JObj (with_member ''signature'' (JStr []) c))) (\<lambda>signingBytes.
          bindE (receipt_reasons sha C c receipt) (\<lambda>bound.
            let reasons =
              reason_if DID_MISMATCH (case didDoc of None \<Rightarrow> True | Some doc \<Rightarrow> did_id doc \<noteq> str_at c ''producer_did'')
              @ reason_if SIGNATURE_INVALID (\<not> ed25519_verify C signingBytes (str_at c ''signature'') pubkey)
              @ reason_if KEY_NOT_ACTIVE (case (didDoc, dp (str_at c ''attested_at'')) of
                  (Some doc, Some t) \<Rightarrow> \<not> (verifyRotationChain C doc \<and> isKeyActive t doc pubkey) | _ \<Rightarrow> True)
              @ (if full_set then recomputeFullSet sha (format_number C) ps (str_at c ''root'') else recomputeInclusion sha (format_number C) ps (str_at c ''root''))
              @ checkContentBinding sha ps
              @ bound
              @ (if requireContent then checkContentRequiringPolicy ps else []) in
            Inr \<lparr>cpa_valid = (reasons = []), cpa_reasons = reasons, cpa_completeness = (if reasons = [] \<and> full_set then PROVEN else NOT_PROVEN)\<rparr>)))"

section \<open>What is accepted\<close>

lemma reason_if_Nil [simp]: "reason_if r b = [] \<longleftrightarrow> \<not> b" "[] = reason_if r b \<longleftrightarrow> \<not> b"
  by (auto simp: reason_if_def)

lemma top_root_hex: "bytesToHex (buildTopRootBytes sha (map (\<lambda>p. lenient_bytes (partition_root p)) ps)) = buildTopRoot sha (map partition_root ps)"
  by (simp add: buildTopRoot_def comp_def)

lemma full_set_Nil:
  "fst (full_set_partitions sha fmt ps) = [] \<longleftrightarrow>
     (\<forall>p \<in> set ps. buildPartitionRoot sha fmt (disclosed p) = Inr (partition_root p) \<and> leaf_count p = of_nat (length (disclosed p)))"
  "fst (full_set_partitions sha fmt ps) = [] \<Longrightarrow> snd (full_set_partitions sha fmt ps) = map (\<lambda>p. lenient_bytes (partition_root p)) ps"
  by (induction ps) (auto simp: buildPartitionRoot_def split: prod.splits sum.splits)

lemma recomputeFullSet_Nil:
  "recomputeFullSet sha fmt ps tr = [] \<longleftrightarrow>
     (\<forall>p \<in> set ps. buildPartitionRoot sha fmt (disclosed p) = Inr (partition_root p) \<and> leaf_count p = of_nat (length (disclosed p)))
     \<and> buildTopRoot sha (map partition_root ps) = tr"
  using full_set_Nil [of sha fmt ps]
  by (cases "full_set_partitions sha fmt ps") (auto simp: recomputeFullSet_def top_reason_def top_root_hex)

text \<open>What one partition of an inclusion attestation has to satisfy.\<close>

definition inclusion_holds :: "(byte list \<Rightarrow> byte list) \<Rightarrow> (rat \<Rightarrow> string) \<Rightarrow> CpaPartition \<Rightarrow> bool" where
  "inclusion_holds sha fmt p \<longleftrightarrow> (let proofs = (case inclusion_proofs p of Some ps \<Rightarrow> ps | None \<Rightarrow> []) in
     length proofs = length (disclosed p) \<and> proof_ctx_id ` set proofs \<subseteq> ctx_id ` set (disclosed p)
     \<and> (\<forall>l \<in> set (disclosed p). \<exists>prf. proof_for proofs (ctx_id l) = Some prf \<and> verifyInclusionProof sha fmt l prf (partition_root p))
     \<and> hidden_leaf_count p = Some (leaf_count p - of_nat (length (disclosed p))))"

lemma inclusion_partition_Nil: "inclusion_partition sha fmt p = [] \<longleftrightarrow> inclusion_holds sha fmt p"
proof -
  let ?pr = "case inclusion_proofs p of Some ps \<Rightarrow> ps | None \<Rightarrow> []"
  have "(\<forall>prf \<in> set ?pr. list_ex (\<lambda>l. ctx_id l = proof_ctx_id prf) (disclosed p)) \<longleftrightarrow> proof_ctx_id ` set ?pr \<subseteq> ctx_id ` set (disclosed p)"
    by (force simp: list_ex_iff)
  moreover have "proof_ctx_id ` set ?pr \<subseteq> ctx_id ` set (disclosed p) \<Longrightarrow> disclosed p = [] \<Longrightarrow> length ?pr = length (disclosed p)"
    by (metis image_is_empty list.size(3) set_empty subset_empty)
  ultimately show ?thesis unfolding inclusion_partition_def inclusion_holds_def Let_def
    by (auto split: option.splits)
qed

lemma recomputeInclusion_Nil:
  "recomputeInclusion sha fmt ps tr = [] \<longleftrightarrow> (\<forall>p \<in> set ps. inclusion_holds sha fmt p) \<and> buildTopRoot sha (map partition_root ps) = tr"
  by (auto simp: recomputeInclusion_def top_reason_def top_root_hex inclusion_partition_Nil)

definition receipt_agrees :: "(byte list \<Rightarrow> byte list) \<Rightarrow> crypto \<Rightarrow> members \<Rightarrow> CpaReceipt \<Rightarrow> bool" where
  "receipt_agrees sha C c rc \<longleftrightarrow>
     (\<forall>a. receipt_action_ref rc = Some a \<longrightarrow> a \<noteq> [] \<and> str_at c ''action_ref'' = a)
     \<and> (\<forall>x. receipt_cpa_ref rc = Some x \<longrightarrow> computeCpaRef sha (format_number C) c = Inr x)"

lemma receipt_reasons_Nil:
  "receipt_reasons sha C c receipt = Inr rs \<Longrightarrow> rs = [] \<longleftrightarrow> (\<forall>rc. receipt = Some rc \<longrightarrow> receipt_agrees sha C c rc)"
  by (auto simp: receipt_reasons_def receipt_agrees_def actionRefsMatch_def bindE_Inr_iff Let_def split: option.splits)

text \<open>The conditions on the producer: the document is the named one, its history is signed, and the
  key that signed the attestation was active when it was made.\<close>

definition producer_attests :: "crypto \<Rightarrow> (string \<Rightarrow> int option) \<Rightarrow> members \<Rightarrow> RotatableDIDDocument option \<Rightarrow> bool" where
  "producer_attests C dp c didDoc \<longleftrightarrow> (\<exists>doc t bytes.
     didDoc = Some doc \<and> did_id doc = str_at c ''producer_did'' \<and> dp (str_at c ''attested_at'') = Some t
     \<and> verifyRotationChain C doc \<and> isKeyActive t doc (str_at c ''producer_pubkey'')
     \<and> canonicalizeJCS (format_number C) (JObj (with_member ''signature'' (JStr []) c)) = Inr bytes
     \<and> ed25519_verify C bytes (str_at c ''signature'') (str_at c ''producer_pubkey''))"

definition tree_matches :: "(byte list \<Rightarrow> byte list) \<Rightarrow> (rat \<Rightarrow> string) \<Rightarrow> members \<Rightarrow> bool" where
  "tree_matches sha fmt c \<longleftrightarrow> (let ps = read_partitions c in
     buildTopRoot sha (map partition_root ps) = str_at c ''root''
     \<and> (\<forall>p \<in> set ps. if get_str c ''mode'' = Some ''full-set''
          then buildPartitionRoot sha fmt (disclosed p) = Inr (partition_root p) \<and> leaf_count p = of_nat (length (disclosed p))
          else inclusion_holds sha fmt p))"

definition policy_holds :: "members \<Rightarrow> bool" where
  "policy_holds c \<longleftrightarrow> (let ls = concat (map disclosed (read_partitions c)) in ls \<noteq> [] \<and> (\<forall>l \<in> set ls. content l \<noteq> None))"

lemma policy_Nil: "checkContentRequiringPolicy (read_partitions c) = [] \<longleftrightarrow> policy_holds c"
  by (auto simp: checkContentRequiringPolicy_def policy_holds_def Let_def list_ex_iff)

lemma accepted_iff:
  assumes "decodeShape dp input = Inr c" and "verifyCPA sha C dp input didDoc receipt rq = Inr res"
  shows "cpa_valid res \<longleftrightarrow> producer_attests C dp c didDoc \<and> tree_matches sha (format_number C) c
      \<and> (\<forall>p \<in> set (read_partitions c). \<forall>l \<in> set (disclosed p). content_bound sha l)
      \<and> (\<forall>rc. receipt = Some rc \<longrightarrow> receipt_agrees sha C c rc) \<and> (rq \<longrightarrow> policy_holds c)"
    "cpa_valid res \<longleftrightarrow> cpa_reasons res = []"
    "cpa_completeness res = PROVEN \<longleftrightarrow> cpa_valid res \<and> get_str c ''mode'' = Some ''full-set''"
proof -
  obtain sb bound where sb: "canonicalizeJCS (format_number C) (JObj (with_member ''signature'' (JStr []) c)) = Inr sb"
    and b: "receipt_reasons sha C c receipt = Inr bound"
    using assms by (auto simp: verifyCPA_def bindE_Inr_iff Let_def)
  let ?key = "str_at c ''producer_pubkey''" and ?full = "get_str c ''mode'' = Some ''full-set''"
  define did key tree policy where
      "did = (case didDoc of None \<Rightarrow> True | Some doc \<Rightarrow> did_id doc \<noteq> str_at c ''producer_did'')"
    and "key = (case (didDoc, dp (str_at c ''attested_at'')) of (Some doc, Some t) \<Rightarrow> \<not> (verifyRotationChain C doc \<and> isKeyActive t doc ?key) | _ \<Rightarrow> True)"
    and "tree = (if ?full then recomputeFullSet sha (format_number C) (read_partitions c) (str_at c ''root'')
        else recomputeInclusion sha (format_number C) (read_partitions c) (str_at c ''root''))"
    and "policy = (if rq then checkContentRequiringPolicy (read_partitions c) else [])"
  define rs where "rs = reason_if DID_MISMATCH did @ reason_if CpaReasonCode.SIGNATURE_INVALID (\<not> ed25519_verify C sb (str_at c ''signature'') ?key)
     @ reason_if KEY_NOT_ACTIVE key @ tree @ checkContentBinding sha (read_partitions c) @ bound @ policy"
  have res: "res = \<lparr>cpa_valid = (rs = []), cpa_reasons = rs, cpa_completeness = (if rs = [] \<and> ?full then PROVEN else NOT_PROVEN)\<rparr>"
    using assms(2) unfolding verifyCPA_def assms(1) sum.case Let_def sb b bindE.simps sum.inject rs_def did_def key_def tree_def policy_def by (rule sym)
  then show "cpa_valid res \<longleftrightarrow> cpa_reasons res = []" "cpa_completeness res = PROVEN \<longleftrightarrow> cpa_valid res \<and> ?full" by simp_all
  have "tree = [] \<longleftrightarrow> tree_matches sha (format_number C) c"
    by (auto simp: tree_def tree_matches_def Let_def recomputeFullSet_Nil recomputeInclusion_Nil)
  moreover have "\<not> did \<and> ed25519_verify C sb (str_at c ''signature'') ?key \<and> \<not> key \<longleftrightarrow> producer_attests C dp c didDoc"
    by (auto simp: did_def key_def producer_attests_def sb split: option.splits)
  moreover have "checkContentBinding sha (read_partitions c) = [] \<longleftrightarrow> (\<forall>p \<in> set (read_partitions c). \<forall>l \<in> set (disclosed p). content_bound sha l)"
    by (simp add: checkContentBinding_def list_all_iff)
  moreover have "policy = [] \<longleftrightarrow> (rq \<longrightarrow> policy_holds c)" by (simp add: policy_def policy_Nil)
  ultimately show "cpa_valid res \<longleftrightarrow> producer_attests C dp c didDoc \<and> tree_matches sha (format_number C) c
      \<and> (\<forall>p \<in> set (read_partitions c). \<forall>l \<in> set (disclosed p). content_bound sha l)
      \<and> (\<forall>rc. receipt = Some rc \<longrightarrow> receipt_agrees sha C c rc) \<and> (rq \<longrightarrow> policy_holds c)"
    using receipt_reasons_Nil [OF b] by (auto simp: res rs_def)
qed

section \<open>The signed root determines the items\<close>

lemma tree_determined:
  assumes "inj_on sha I" and "\<forall>m. length (sha m) = 32"
  shows "tree_hash sha s = tree_hash sha t \<Longrightarrow> set (tips s) \<union> set (tips t) \<subseteq> sha ` {utf8 LEAF_TAG @ k |k. utf8 LEAF_TAG @ k \<in> I} \<Longrightarrow>
    set (tree_inputs sha s) \<union> set (tree_inputs sha t) \<subseteq> I \<Longrightarrow> s = t"
proof (induction s arbitrary: t)
  case (Tip d)
  show ?case
  proof (cases t)
    case (Join l r)
    obtain k where k: "d = sha (utf8 LEAF_TAG @ k)" "utf8 LEAF_TAG @ k \<in> I" using Tip.prems(2) by auto
    have "utf8 LEAF_TAG @ k = utf8 NODE_TAG @ tree_hash sha l @ tree_hash sha r"
      by (rule inj_onD [OF assms(1)]) (use k Tip.prems Join in \<open>auto simp: nodeHash_def\<close>)
    then show ?thesis using tags_differ by blast
  qed (use Tip.prems in simp)
next
  case (Join l r)
  show ?case
  proof (cases t)
    case (Tip d)
    then obtain k where k: "d = sha (utf8 LEAF_TAG @ k)" "utf8 LEAF_TAG @ k \<in> I" using Join.prems(2) by auto
    have "utf8 LEAF_TAG @ k = utf8 NODE_TAG @ tree_hash sha l @ tree_hash sha r"
      by (rule inj_onD [OF assms(1)]) (use k Join.prems Tip in \<open>auto simp: nodeHash_def\<close>)
    then show ?thesis using tags_differ by blast
  next
    case (Join l' r')
    have "utf8 NODE_TAG @ tree_hash sha l @ tree_hash sha r = utf8 NODE_TAG @ tree_hash sha l' @ tree_hash sha r'"
      by (rule inj_onD [OF assms(1)]) (use Join.prems Join in \<open>auto simp: nodeHash_def\<close>)
    moreover have "length (tree_hash sha u) = 32" if "u = l \<or> u = l'" for u
      using that Join.prems(2) assms(2) Join by (cases u) (auto simp: nodeHash_def)
    ultimately have "tree_hash sha l = tree_hash sha l'" "tree_hash sha r = tree_hash sha r'" by (simp_all add: append_eq_append_conv)
    then show ?thesis using Join.IH(1) [of l'] Join.IH(2) [of r'] Join.prems(2,3) Join by auto
  qed
qed

definition attestation_tree :: "(byte list \<Rightarrow> byte list) \<Rightarrow> (rat \<Rightarrow> string) \<Rightarrow> CpaPartition list \<Rightarrow> mtree" where
  "attestation_tree sha fmt ps = root_of Join (map (\<lambda>p. partition_tree (leaf_digests sha fmt (disclosed p))) ps)"

text \<open>The items of an attestation in the order of the tree, and everything hashed for its root.\<close>

definition committed_items :: "CpaPartition list \<Rightarrow> ContextItem list" where
  "committed_items ps = concat (map (\<lambda>p. sort_key ctx_id (disclosed p)) ps)"

definition attested_inputs :: "(byte list \<Rightarrow> byte list) \<Rightarrow> (rat \<Rightarrow> string) \<Rightarrow> CpaPartition list \<Rightarrow> byte list set" where
  "attested_inputs sha fmt ps = (if ps = [] then {utf8 NODE_TAG @ utf8 EMPTY_SENTINEL} else set (tree_inputs sha (attestation_tree sha fmt ps)))
     \<union> leaf_input fmt ` set (committed_items ps)"

lemma hex_inj: "bytesToHex x = bytesToHex y \<Longrightarrow> x = y"
  by (metis lenient_bytes_hex)

lemma attestation_tree_facts:
  assumes "\<forall>p \<in> set ps. buildPartitionRoot sha fmt (disclosed p) = Inr (partition_root p)"
  shows "buildTopRoot sha (map partition_root ps) = bytesToHex (if ps = [] then sha (utf8 NODE_TAG @ utf8 EMPTY_SENTINEL) else tree_hash sha (attestation_tree sha fmt ps))"
    and "ps \<noteq> [] \<Longrightarrow> tips (attestation_tree sha fmt ps) = map (\<lambda>l. sha (leaf_input fmt l)) (committed_items ps)"
proof -
  let ?d = "\<lambda>p. leaf_digests sha fmt (disclosed p)"
  have d: "?d p \<noteq> []" "lenient_bytes (partition_root p) = root_of (nodeHash sha) (?d p)" if "p \<in> set ps" for p
  proof -
    have r: "disclosed p \<noteq> []" "partition_root p = bytesToHex (root_of (nodeHash sha) (?d p))"
      using assms that by (auto simp: root_bytes_hex partition_root_iff)
    then show "?d p \<noteq> []" by (simp add: leaf_digests_def) (metis length_0_conv length_sort)
    from r show "lenient_bytes (partition_root p) = root_of (nodeHash sha) (?d p)" by (simp add: lenient_bytes_hex)
  qed
  have m: "map (\<lambda>p. lenient_bytes (partition_root p)) ps = map (tree_hash sha) (map (\<lambda>p. partition_tree (?d p)) ps)"
    using d partition_tree_facts(1) by simp
  have "ps \<noteq> [] \<Longrightarrow> tree_hash sha (attestation_tree sha fmt ps) = root_of (nodeHash sha) (map (\<lambda>p. lenient_bytes (partition_root p)) ps)"
    unfolding attestation_tree_def m by (rule map_reduce) simp_all
  then show "buildTopRoot sha (map partition_root ps) = bytesToHex (if ps = [] then sha (utf8 NODE_TAG @ utf8 EMPTY_SENTINEL) else tree_hash sha (attestation_tree sha fmt ps))"
    by (simp add: buildTopRoot_def buildTopRootBytes_def comp_def)
  have t: "map tips (map (\<lambda>p. partition_tree (?d p)) ps) = map ?d ps" using d(1) partition_tree_facts(2) by simp
  show "ps \<noteq> [] \<Longrightarrow> tips (attestation_tree sha fmt ps) = map (\<lambda>l. sha (leaf_input fmt l)) (committed_items ps)"
    using tips_root [of "map (\<lambda>p. partition_tree (?d p)) ps"] unfolding attestation_tree_def t
    by (simp add: committed_items_def leaf_digests_def map_concat comp_def)
qed

lemma empty_root_differs:
  assumes "inj_on sha (attested_inputs sha fmt ps \<union> {utf8 NODE_TAG @ utf8 EMPTY_SENTINEL})" and "\<forall>m. length (sha m) = 32" and "ps \<noteq> []"
    and "tips (attestation_tree sha fmt ps) = map (\<lambda>l. sha (leaf_input fmt l)) (committed_items ps)"
  shows "tree_hash sha (attestation_tree sha fmt ps) \<noteq> sha (utf8 NODE_TAG @ utf8 EMPTY_SENTINEL)"
proof
  assume eq: "tree_hash sha (attestation_tree sha fmt ps) = sha (utf8 NODE_TAG @ utf8 EMPTY_SENTINEL)"
  let ?e = "utf8 NODE_TAG @ utf8 EMPTY_SENTINEL"
  show False
  proof (cases "attestation_tree sha fmt ps")
    case (Tip d)
    then obtain l where l: "l \<in> set (committed_items ps)" "d = sha (leaf_input fmt l)" using assms(4) by (auto simp: Cons_eq_map_conv)
    have "leaf_input fmt l = ?e" by (rule inj_onD [OF assms(1)]) (use eq Tip l in \<open>auto simp: attested_inputs_def\<close>)
    then show False using tags_differ by (auto simp: leaf_input_def)
  next
    case (Join l r)
    have "utf8 NODE_TAG @ tree_hash sha l @ tree_hash sha r = ?e"
      by (rule inj_onD [OF assms(1)]) (use eq Join assms(3) in \<open>auto simp: attested_inputs_def nodeHash_def\<close>)
    then have "tree_hash sha l @ tree_hash sha r = utf8 EMPTY_SENTINEL" by simp
    moreover have "length (utf8 EMPTY_SENTINEL) = 5" by code_simp
    moreover have "length (tree_hash sha l) = 32"
      using assms(2,4) Join by (cases l) (auto simp: nodeHash_def append_eq_map_conv Cons_eq_map_conv append_eq_Cons_conv)
    ultimately have "32 + length (tree_hash sha r) = 5" by (metis length_append)
    then show False by simp
  qed
qed

lemma committed_determined:
  assumes 32: "\<forall>m. length (sha m) = 32" and inj: "inj_on sha (attested_inputs sha fmt ps \<union> attested_inputs sha fmt qs)"
    and p: "\<forall>p \<in> set ps. buildPartitionRoot sha fmt (disclosed p) = Inr (partition_root p)"
    and q: "\<forall>p \<in> set qs. buildPartitionRoot sha fmt (disclosed p) = Inr (partition_root p)"
    and eq: "buildTopRoot sha (map partition_root ps) = buildTopRoot sha (map partition_root qs)"
    and len: "\<forall>l \<in> set (committed_items ps) \<union> set (committed_items qs). natural_length l"
  shows "map leafPreimage (committed_items ps) = map leafPreimage (committed_items qs)"
proof -
  note fp = attestation_tree_facts [OF p] and fq = attestation_tree_facts [OF q]
  have e: "(if ps = [] then sha (utf8 NODE_TAG @ utf8 EMPTY_SENTINEL) else tree_hash sha (attestation_tree sha fmt ps))
     = (if qs = [] then sha (utf8 NODE_TAG @ utf8 EMPTY_SENTINEL) else tree_hash sha (attestation_tree sha fmt qs))"
    by (rule hex_inj) (use eq fp(1) fq(1) in simp)
  have "ps = [] \<longleftrightarrow> qs = []"
  proof (rule ccontr)
    assume "\<not> ?thesis"
    then consider "ps = []" "qs \<noteq> []" | "qs = []" "ps \<noteq> []" by blast
    then show False
    proof cases
      case 1
      then show False using e empty_root_differs [OF _ 32 1(2) fq(2)] inj by (simp add: attested_inputs_def committed_items_def Un_commute)
    next
      case 2
      then show False using e empty_root_differs [OF _ 32 2(2) fp(2)] inj by (simp add: attested_inputs_def committed_items_def Un_commute)
    qed
  qed
  then consider "ps = []" "qs = []" | "ps \<noteq> []" "qs \<noteq> []" by blast
  then show ?thesis
  proof cases
    case 2
    note tp = fp(2) [OF 2(1)] and tq = fq(2) [OF 2(2)]
    have tips: "set (tips (attestation_tree sha fmt rs)) \<subseteq> sha ` {utf8 LEAF_TAG @ k |k. utf8 LEAF_TAG @ k \<in> attested_inputs sha fmt ps \<union> attested_inputs sha fmt qs}"
      if "rs = ps \<or> rs = qs" for rs using that tp tq by (auto simp: attested_inputs_def leaf_input_def)
    have "attestation_tree sha fmt ps = attestation_tree sha fmt qs"
      by (rule tree_determined [OF inj 32]) (use e 2 tips [of ps] tips [of qs] in \<open>auto simp: attested_inputs_def\<close>)
    with tp tq have m: "map sha (map (leaf_input fmt) (committed_items ps)) = map sha (map (leaf_input fmt) (committed_items qs))" by (simp add: comp_def)
    have c: "map (leaf_input fmt) (committed_items ps) = map (leaf_input fmt) (committed_items qs)"
      by (rule map_inj_on [OF m]) (rule inj_on_subset [OF inj], auto simp: attested_inputs_def)
    have l: "length (committed_items ps) = length (committed_items qs)" using c by (rule map_eq_imp_length_eq)
    have n: "leaf_input fmt (committed_items ps ! i) = leaf_input fmt (committed_items qs ! i)" if "i < length (committed_items qs)" for i
      using arg_cong [OF c, of "\<lambda>xs. xs ! i"] that l by simp
    have "leafPreimage (committed_items ps ! i) = leafPreimage (committed_items qs ! i)" if i: "i < length (committed_items qs)" for i
    proof (rule leaf_determined)
      show "canonicalizeValue fmt (leafPreimage (committed_items ps ! i)) = canonicalizeValue fmt (leafPreimage (committed_items qs ! i))"
        using n [OF i] by (simp add: leaf_input_def utf8_inj)
    qed (use len i l in auto)
    with l show ?thesis by (simp add: list_eq_iff_nth_eq)
  qed (simp add: committed_items_def)
qed

section \<open>Strict base64\<close>

lemma sextet_char: "n < 64 \<Longrightarrow> sextet (base64_char n) = n"
proof -
  assume "n < 64"
  moreover have "distinct BASE64_ALPHABET" "length BASE64_ALPHABET = 64" by code_simp+
  ultimately show ?thesis by (simp add: sextet_def base64_char_def index_of_nth)
qed

lemma base64_char_pad: "n < 64 \<Longrightarrow> base64_char n \<noteq> CHR ''=''"
proof -
  assume "n < 64"
  moreover have "length BASE64_ALPHABET = 64" "CHR ''='' \<notin> set BASE64_ALPHABET" by code_simp+
  ultimately show ?thesis by (metis base64_char_def nth_mem)
qed

lemma base64_round_trip: "base64_decode (base64_encode bs) = bs"
proof -
  have w: "unat (a :: byte) < 256" for a using unsigned_less [of a, where ?'a = nat] by simp
  have o: "of_nat (unat (a :: byte) div 4 * 4 + (unat a mod 4 * 16 + x) div 16) = a" if "x < 16" for a x
  proof -
    have "(unat a mod 4 * 16 + x) div 16 = unat a mod 4" using that by simp
    then show ?thesis by simp
  qed
  have q: "of_nat ((y * 16 + unat (b :: byte) div 16) mod 16 * 16 + (unat b mod 16 * 4 + x) div 4) = b" if "x < 4" for b x y
  proof -
    have "(y * 16 + unat b div 16) mod 16 = unat b div 16" using w [of b] by simp
    moreover have "(unat b mod 16 * 4 + x) div 4 = unat b mod 16" using that by simp
    ultimately show ?thesis by simp
  qed
  have r: "of_nat ((y * 4 + unat (c :: byte) div 64) mod 4 * 64 + unat c mod 64) = c" for c y
  proof -
    have "(y * 4 + unat c div 64) mod 4 = unat c div 64" using w [of c] by simp
    then show ?thesis by simp
  qed
  have b: "unat (a :: byte) div 4 < 64" "unat a mod 4 * 16 < 64" "unat a mod 16 * 4 < 64" "unat a mod 64 < 64"
      "unat a div 16 < 16" "unat a div 64 < 4" "unat a mod 4 * 16 + unat (a' :: byte) div 16 < 64" "unat a mod 16 * 4 + unat a' div 64 < 64" for a a'
    using w [of a] w [of a'] by (auto simp: less_mult_imp_div_less intro: less_le_trans)
  show ?thesis
    by (induction bs rule: base64_encode.induct)
       (simp_all add: Let_def sextet_char base64_char_pad b o [of 0, simplified] o q [of 0, simplified] q r)
qed

text \<open>A text decodes exactly when it is the encoding of the bytes.\<close>

lemma decodeBase64Strict_iff: "decodeBase64Strict s = Some bs \<longleftrightarrow> base64_encode bs = s"
  by (auto simp: decodeBase64Strict_def Let_def base64_round_trip)

section \<open>Produced attestations\<close>

lemmas member_reads = get_def get_str_def get_num_def get_arr_def get_obj_def str_at_def num_at_def text_entry_def value_entry_def

lemma read_item_json [simp]: "read_item (item_json l) = l"
  by (cases "trust_tier l"; cases "content l") (simp_all add: read_item_def item_json_def member_reads)

lemma read_proof_json [simp]: "read_proof (proof_json p) = p"
proof -
  have "read_step (JObj [(''sibling'', JStr (sibling s)), (''side'', JStr (side_name (step_side s)))]) = s" for s
    by (cases s; cases "step_side s") (simp_all add: read_step_def member_reads)
  then show ?thesis by (simp add: read_proof_def proof_json_def member_reads comp_def)
qed

lemma read_partition_json [simp]: "read_partition (partition_json p) = p"
proof -
  have "map (\<lambda>x. read_item (item_json x)) ls = ls" "map (\<lambda>x. read_proof (proof_json x)) ps = ps" for ls ps by simp_all
  then show ?thesis by (cases "hidden_leaf_count p"; cases "part_leaves p"; cases "inclusion_proofs p")
      (simp_all add: read_partition_def partition_json_def member_reads comp_def)
qed

lemma read_body:
  assumes "c = cpa_body pk i parts tr @ [(''signature'', JStr sg)]"
  shows "get c ''version'' = Some (JStr ''cpa/0.1'')" "get_str c ''action_ref'' = Some (in_action_ref i)" "get_str c ''producer_did'' = Some (in_producer_did i)"
    "get_str c ''producer_pubkey'' = Some pk" "get_str c ''attested_at'' = Some (in_attested_at i)" "get c ''mode'' = Some (JStr (disclosure_name (in_mode i)))"
    "get c ''partitions'' = Some (JArr (map partition_json parts))" "get_str c ''root'' = Some tr" "get_str c ''signature'' = Some sg"
    "get c ''producer_attestation'' = in_producer_attestation i"
    "with_member ''signature'' (JStr []) c = cpa_body pk i parts tr @ [(''signature'', JStr [])]"
  by (cases "in_producer_attestation i"; simp add: assms cpa_body_def member_reads with_member_def)+

definition channel_index :: "string \<Rightarrow> nat" where
  "channel_index c = the (index_in c CHANNEL_ORDER)"

lemma channel_known: "c \<in> set CHANNEL_ORDER \<Longrightarrow> index_in c CHANNEL_ORDER = Some (channel_index c)"
  by (auto simp: channel_index_def CHANNEL_ORDER_def index_in_def)

lemma channels_ascend: "sorted_wrt (\<lambda>a b. channel_index a < channel_index b) CHANNEL_ORDER"
  by code_simp

text \<open>A partition that passes the shape check in a mode.\<close>

definition partition_passes :: "DisclosureMode \<Rightarrow> CpaPartition \<Rightarrow> bool" where
  "partition_passes mode p \<longleftrightarrow> part_channel p \<in> set CHANNEL_ORDER \<and> lower_hex 64 (partition_root p) \<and> isInteger (leaf_count p) \<and> 1 \<le> leaf_count p
     \<and> (mode = Inclusion \<longleftrightarrow> hidden_leaf_count p \<noteq> None) \<and> (\<forall>h. hidden_leaf_count p = Some h \<longrightarrow> isInteger h \<and> 0 \<le> h)
     \<and> (mode = Full_set \<longrightarrow> part_leaves p \<noteq> None \<and> inclusion_proofs p = None) \<and> distinct (map ctx_id (disclosed p))
     \<and> (\<forall>l \<in> set (disclosed p). ctx_id l \<noteq> [] \<and> channel l = part_channel p \<and> lower_hex 64 (content_ref l) \<and> isInteger (byte_len l) \<and> 0 \<le> byte_len l)
     \<and> (\<forall>ps. inclusion_proofs p = Some ps \<longrightarrow> (\<forall>prf \<in> set ps. proof_ctx_id prf \<noteq> [] \<and> (\<forall>s \<in> set (path prf). lower_hex 64 (sibling s))))"

lemma item_shape:
  "isContextItemShape (Some (JStr ch)) (item_json l) \<longleftrightarrow>
     ctx_id l \<noteq> [] \<and> channel l = ch \<and> lower_hex 64 (content_ref l) \<and> isInteger (byte_len l) \<and> 0 \<le> byte_len l"
  by (cases "trust_tier l"; cases "content l") (auto simp: isContextItemShape_def item_json_def text_member_def integer_member_def optional_text_def member_reads)

lemma proof_shape:
  "isInclusionProofShape (proof_json prf) \<longleftrightarrow> proof_ctx_id prf \<noteq> [] \<and> (\<forall>s \<in> set (path prf). lower_hex 64 (sibling s))"
proof -
  have "inclusion_step_shape (JObj [(''sibling'', JStr (sibling s)), (''side'', JStr (side_name (step_side s)))]) \<longleftrightarrow> lower_hex 64 (sibling s)" for s
    by (cases "step_side s") (simp_all add: inclusion_step_shape_def text_member_def member_reads)
  then show ?thesis by (auto simp: isInclusionProofShape_def proof_json_def text_member_def member_reads list_all_iff)
qed

lemma leaf_reasons_Nil:
  "(\<forall>l \<in> set ls. isContextItemShape ch (item_json l)) \<Longrightarrow> distinct (map ctx_id ls) \<Longrightarrow> set seen \<inter> ctx_id ` set ls = {} \<Longrightarrow> leaf_reasons ch seen (map item_json ls) = []"
proof (induction ls arbitrary: seen)
  case (Cons l ls)
  have "(case item_json l of JObj m \<Rightarrow> str_at m ''ctx_id'' | _ \<Rightarrow> []) = ctx_id l" by (simp add: item_json_def member_reads)
  with Cons show ?case by (auto simp: Let_def)
qed simp

lemma partition_reads:
  assumes "partition_json p = JObj m"
  shows "get m ''channel'' = Some (JStr (part_channel p))" "get_str m ''partition_root'' = Some (partition_root p)" "get m ''leaf_count'' = Some (JNum (leaf_count p))"
    "get m ''context_profile'' = map_option (\<lambda>h. JObj [(''channel'', JStr (part_channel p)), (''hidden_leaf_count'', JNum h)]) (hidden_leaf_count p)"
    "get m ''leaves'' = map_option (\<lambda>ls. JArr (map item_json ls)) (part_leaves p)"
    "get m ''inclusion_proofs'' = map_option (\<lambda>ps. JArr (map proof_json ps)) (inclusion_proofs p)"
  using assms by (cases "hidden_leaf_count p"; cases "part_leaves p"; cases "inclusion_proofs p"; auto simp: partition_json_def member_reads)+

lemma partition_shape:
  assumes "partition_passes mode p" and "partition_json p = JObj m"
  shows "text_member m ''partition_root'' (lower_hex 64)" "integer_member m ''leaf_count'' 1" "profile_reasons (Some (JStr (disclosure_name mode))) m = []"
    "leaves_reasons (Some (JStr (disclosure_name mode))) m = []" "proofs_reasons (Some (JStr (disclosure_name mode))) m = []"
proof -
  note r = partition_reads [OF assms(2)] and g = assms(1) [unfolded partition_passes_def]
  show "text_member m ''partition_root'' (lower_hex 64)" "integer_member m ''leaf_count'' 1" using g by (simp_all add: text_member_def integer_member_def r)
  have pr: "get [(''channel'', a), (''hidden_leaf_count'', b)] ''channel'' = Some a" "get [(''channel'', a), (''hidden_leaf_count'', b)] ''hidden_leaf_count'' = Some b" for a b
    by (simp_all add: get_def)
  show "profile_reasons (Some (JStr (disclosure_name mode))) m = []"
    using g by (cases mode) (auto simp: profile_reasons_def r same_value_def integer_member_def pr)
  have "leaf_reasons (Some (JStr (part_channel p))) [] (map item_json (disclosed p)) = []"
    by (rule leaf_reasons_Nil) (use g in \<open>auto simp: item_shape\<close>)
  then show "leaves_reasons (Some (JStr (disclosure_name mode))) m = []"
    using g by (cases mode; cases "part_leaves p") (auto simp: leaves_reasons_def r disclosed_def)
  show "proofs_reasons (Some (JStr (disclosure_name mode))) m = []"
    using g by (cases mode; cases "inclusion_proofs p") (auto simp: proofs_reasons_def r proof_shape)
qed

lemma partitions_reasons_Nil:
  "\<forall>p \<in> set ps. partition_passes mode p \<Longrightarrow> sorted_wrt (\<lambda>a b. channel_index a < channel_index b) (map part_channel ps) \<Longrightarrow>
   \<forall>p \<in> set ps. k < int (channel_index (part_channel p)) \<Longrightarrow> \<forall>c \<in> set seen. int (channel_index c) \<le> k \<Longrightarrow>
   partitions_reasons (Some (JStr (disclosure_name mode))) k seen (map partition_json ps) = []"
proof (induction ps arbitrary: k seen)
  case (Cons p ps)
  obtain m where m: "partition_json p = JObj m" by (simp add: partition_json_def)
  note sh = partition_shape [OF _ m, of mode] and r = partition_reads [OF m]
  let ?i = "channel_index (part_channel p)"
  have ch: "get_str m ''channel'' = Some (part_channel p)" "index_in (part_channel p) CHANNEL_ORDER = Some ?i"
    using Cons.prems(1) by (simp_all add: get_str_def r channel_known partition_passes_def)
  have "k < int ?i" "part_channel p \<notin> set seen" using Cons.prems(3,4) by auto
  moreover have "partitions_reasons (Some (JStr (disclosure_name mode))) (max k (int ?i)) (part_channel p # seen) (map partition_json ps) = []"
    by (rule Cons.IH) (use Cons.prems in auto)
  ultimately show ?case using sh Cons.prems(1) by (simp add: m ch)
qed simp

lemma signed_shape:
  assumes "c = cpa_body pk i parts tr @ [(''signature'', JStr sg)]" and "lower_hex 64 (in_action_ref i)" and "in_producer_did i \<noteq> []" and "lower_hex 64 pk"
    and "isIso8601 dp (in_attested_at i)" and "lower_hex 64 tr" and "lower_hex 128 sg"
    and "attestation_reasons (value_entry ''producer_attestation'' (in_producer_attestation i)) = []"
    and "\<forall>p \<in> set parts. partition_passes (in_mode i) p" and "sorted_wrt (\<lambda>a b. channel_index a < channel_index b) (map part_channel parts)"
  shows "decodeShape dp (JObj c) = Inr c"
proof -
  note r = read_body [OF assms(1)]
  have "top_reasons dp c = []" using assms(2-7) by (cases "in_mode i") (simp_all add: top_reasons_def text_member_def r)
  moreover have "partitions_reasons (get c ''mode'') (-1) [] (map partition_json parts) = []"
    unfolding r(6) by (rule partitions_reasons_Nil) (use assms(9,10) in auto)
  moreover have "attestation_reasons c = []" using assms(8) r(10)
    by (cases "in_producer_attestation i") (simp_all add: attestation_reasons_def value_entry_def get_def)
  ultimately show ?thesis by (simp add: decodeShape_def r(7))
qed

text \<open>What the write path accepts it hashes like the read path.\<close>

lemma write_leaf: "leafHashForWrite sha fmt l = Inr d \<Longrightarrow> leafHash sha fmt l = Inr d"
  by (auto simp: leafHashForWrite_def leafHash_def leaf_of_def split: sum.splits dest: ForWrite_same_bytes)

lemma write_leaves: "mapE (leafHashForWrite sha fmt) ls = Inr ds \<Longrightarrow> mapE (leafHash sha fmt) ls = Inr ds"
  unfolding mapE_Inr_iff by (erule list_all2_mono) (rule write_leaf)

lemma write_root: "buildPartitionRootBytesForWrite sha fmt ls = Inr r \<Longrightarrow> buildPartitionRootBytes sha fmt ls = Inr r"
  by (auto simp: buildPartitionRootBytesForWrite_def buildPartitionRootBytes_def buildPartitionRootBytesImpl_def Let_def bindE_Inr_iff
      split: if_splits option.splits dest: write_leaves)

lemma write_proof: "buildInclusionProofForWrite sha fmt ls cid = Inr prf \<Longrightarrow> buildInclusionProof sha fmt ls cid = Inr prf"
  by (auto simp: buildInclusionProofForWrite_def buildInclusionProof_def buildInclusionProofImpl_def Let_def bindE_Inr_iff
      split: if_splits option.splits dest: write_leaves)

lemma folded_siblings: "fold_path sha d ss = Some a \<Longrightarrow> s \<in> set ss \<Longrightarrow> lower_hex 64 (sibling s)"
  by (induction ss arbitrary: d) (auto simp: Let_def split: if_splits)

lemma verified_siblings: "verifyInclusionProof sha fmt l prf rt \<Longrightarrow> s \<in> set (path prf) \<Longrightarrow> lower_hex 64 (sibling s)"
  by (auto simp: verifyInclusionProof_def split: if_splits sum.splits option.splits dest: folded_siblings)

definition item_in :: "string \<Rightarrow> ContextItem \<Rightarrow> bool" where
  "item_in ch l \<longleftrightarrow> ctx_id l \<noteq> [] \<and> channel l = ch \<and> lower_hex 64 (content_ref l) \<and> isInteger (byte_len l) \<and> 0 \<le> byte_len l"

lemma count_integer: "isInteger (of_nat n)" "n \<noteq> 0 \<Longrightarrow> (1 :: rat) \<le> of_nat n" "k \<le> n \<Longrightarrow> isInteger (of_nat n - of_nat k)"
proof -
  show "isInteger (of_nat n)" using isInteger_of_int [of "int n"] by simp
  show "(1 :: rat) \<le> of_nat n" if "n \<noteq> 0" using that by (simp add: Suc_le_eq)
  show "isInteger (of_nat n - of_nat k)" if "k \<le> n" using isInteger_of_int [of "int n - int k"] by simp
qed

lemma root_text:
  assumes "\<forall>m. length (sha m) = 32" and "buildPartitionRootBytes sha fmt ls = Inr r"
  shows "length r = 32" "lower_hex 64 (bytesToHex r)"
proof -
  have r: "ls \<noteq> []" "r = root_of (nodeHash sha) (leaf_digests sha fmt ls)" using assms(2) by (auto simp: partition_root_iff)
  then have "leaf_digests sha fmt ls \<noteq> []" by (simp add: leaf_digests_def) (metis length_0_conv length_sort)
  then show l: "length r = 32" using root_32 [OF assms(1) _ leaf_digests_32 [OF assms(1)]] r(2) by blast
  show "lower_hex 64 (bytesToHex r)" using lower_hex_bytes [of r] l by simp
qed

lemma full_set_built:
  assumes "\<forall>m. length (sha m) = 32" and "build_partition sha fmt Full_set dis (ch, ls) = Inr (p, rb)" and "ch \<in> set CHANNEL_ORDER" and "\<forall>l \<in> set ls. item_in ch l"
  shows "partition_passes Full_set p" "part_channel p = ch" "partition_root p = bytesToHex rb" "disclosed p = ls"
    "buildPartitionRoot sha fmt (disclosed p) = Inr (partition_root p)" "leaf_count p = of_nat (length (disclosed p))"
proof -
  have w: "buildPartitionRootBytes sha fmt ls = Inr rb" and p: "p = \<lparr>part_channel = ch, partition_root = bytesToHex rb, leaf_count = of_nat (length ls),
      hidden_leaf_count = None, part_leaves = Some ls, inclusion_proofs = None\<rparr>"
    using assms(2) by (auto simp: build_partition_def bindE_Inr_iff Let_def dest: write_root)
  show d: "disclosed p = ls" by (simp add: p disclosed_def)
  show "part_channel p = ch" "partition_root p = bytesToHex rb" "leaf_count p = of_nat (length (disclosed p))" by (simp_all add: p d disclosed_def)
  show "buildPartitionRoot sha fmt (disclosed p) = Inr (partition_root p)" unfolding d by (simp add: root_bytes_hex w p)
  have "ls \<noteq> []" "distinct (map ctx_id ls)" using w by (auto simp: partition_root_iff)
  then show "partition_passes Full_set p" unfolding partition_passes_def d using assms(3,4) root_text(2) [OF assms(1) w]
    by (auto simp: p item_in_def count_integer Suc_le_eq)
qed

lemma distinct_sorted_ids: "distinct (map ctx_id (sort_key f ls)) \<longleftrightarrow> distinct (map ctx_id ls)"
proof (rule mset_eq_imp_distinct_iff)
  show "mset (map ctx_id (sort_key f ls)) = mset (map ctx_id ls)" by simp
qed

lemma proof_for_Some: "proof_for ps c = Some x \<Longrightarrow> x \<in> set ps \<and> proof_ctx_id x = c"
proof -
  have "find P xs = Some y \<Longrightarrow> y \<in> set xs \<and> P y" for P xs and y :: InclusionProof by (induction xs) (auto split: if_splits)
  from this [of "\<lambda>p. proof_ctx_id p = c" "rev ps" x] show "proof_for ps c = Some x \<Longrightarrow> x \<in> set ps \<and> proof_ctx_id x = c" by (simp add: proof_for_def)
qed

lemma inclusion_built:
  assumes "\<forall>m. length (sha m) = 32" and "build_partition sha fmt Inclusion dis (ch, ls) = Inr (p, rb)" and "ch \<in> set CHANNEL_ORDER" and "\<forall>l \<in> set ls. item_in ch l"
  shows "partition_passes Inclusion p" "part_channel p = ch" "partition_root p = bytesToHex rb" "set (disclosed p) = {l \<in> set ls. ctx_id l \<in> set dis}" "inclusion_holds sha fmt p"
proof -
  let ?dl = "filter (\<lambda>l. ctx_id l \<in> set dis) ls"
  obtain proofs where w: "buildPartitionRootBytes sha fmt ls = Inr rb"
    and m: "mapE (\<lambda>l. buildInclusionProofForWrite sha fmt ls (ctx_id l)) ?dl = Inr proofs"
    and p: "p = \<lparr>part_channel = ch, partition_root = bytesToHex rb, leaf_count = of_nat (length ls), hidden_leaf_count = Some (of_nat (length ls) - of_nat (length ?dl)),
      part_leaves = (if ?dl = [] then None else Some (sort_key ctx_id ?dl)), inclusion_proofs = (if ?dl = [] then None else Some (sort_key proof_ctx_id proofs))\<rparr>"
    using assms(2) by (auto simp: build_partition_def bindE_Inr_iff Let_def dest!: write_root)
  have rt: "buildPartitionRoot sha fmt ls = Inr (bytesToHex rb)" by (simp add: root_bytes_hex w)
  have d: "disclosed p = sort_key ctx_id ?dl" by (simp add: p disclosed_def)
  show "part_channel p = ch" "partition_root p = bytesToHex rb" by (simp_all add: p)
  show "set (disclosed p) = {l \<in> set ls. ctx_id l \<in> set dis}" unfolding d by auto
  have ps: "list_all2 (\<lambda>l pf. buildInclusionProof sha fmt ls (ctx_id l) = Inr pf) ?dl proofs"
    using m unfolding mapE_Inr_iff by (rule list_all2_mono) (rule write_proof)
  have cid: "proof_ctx_id pf = c" if "buildInclusionProof sha fmt ls c = Inr pf" for c pf
    using that by (auto simp: buildInclusionProof_def buildInclusionProofImpl_def Let_def bindE_Inr_iff split: if_splits option.splits)
  have len: "length proofs = length ?dl" using list_all2_lengthD [OF ps] by simp
  have src: "\<exists>l \<in> set ?dl. buildInclusionProof sha fmt ls (ctx_id l) = Inr pf" if "pf \<in> set proofs" for pf
    using mapE_source [OF m that] write_proof by blast
  have ok: "verifyInclusionProof sha fmt l pf (bytesToHex rb)" if "pf \<in> set proofs" "proof_ctx_id pf = ctx_id l" "l \<in> set ls" for l pf
  proof -
    note h = that
    obtain l' :: ContextItem where "buildInclusionProof sha fmt ls (ctx_id l') = Inr pf" using src [OF h(1)] by blast
    with cid h(2) have "buildInclusionProof sha fmt ls (ctx_id l) = Inr pf" by metis
    then show ?thesis using proof_built [OF assms(1) rt h(3)] by auto
  qed
  have ip: "(case inclusion_proofs p of Some x \<Rightarrow> x | None \<Rightarrow> []) = sort_key proof_ctx_id proofs" using len by (auto simp: p)
  have found: "\<exists>pf. proof_for (sort_key proof_ctx_id proofs) (ctx_id l) = Some pf \<and> verifyInclusionProof sha fmt l pf (bytesToHex rb)" if "l \<in> set ?dl" for l
  proof -
    obtain k where "k < length ?dl" "?dl ! k = l" using \<open>l \<in> set ?dl\<close> unfolding in_set_conv_nth [of l ?dl] by blast
    then have "proofs ! k \<in> set proofs" "proof_ctx_id (proofs ! k) = ctx_id l" using ps len cid by (auto simp: list_all2_conv_all_nth)
    then have "proof_for (sort_key proof_ctx_id proofs) (ctx_id l) \<noteq> None" by (auto simp: proof_for_def find_None_iff)
    then obtain pf where pf: "proof_for (sort_key proof_ctx_id proofs) (ctx_id l) = Some pf" by blast
    then have "pf \<in> set proofs" "proof_ctx_id pf = ctx_id l" using proof_for_Some by fastforce+
    with pf ok that show ?thesis by simp
  qed
  have "proof_ctx_id ` set proofs \<subseteq> ctx_id ` set ?dl" using src cid by fastforce
  then show "inclusion_holds sha fmt p" unfolding inclusion_holds_def Let_def ip d using found len by (simp add: p)
  have ids: "ls \<noteq> []" "distinct (map ctx_id ls)" using w by (auto simp: partition_root_iff)
  then have "distinct (map ctx_id (sort_key ctx_id ?dl))" by (simp add: distinct_sorted_ids distinct_map_filter)
  moreover have "proof_ctx_id pf \<noteq> [] \<and> (\<forall>s \<in> set (path pf). lower_hex 64 (sibling s))" if pf: "pf \<in> set proofs" for pf
  proof -
    obtain l where l: "l \<in> set ?dl" "buildInclusionProof sha fmt ls (ctx_id l) = Inr pf" using src [OF pf] by blast
    then show ?thesis using ok [OF pf cid [OF l(2)]] assms(4) cid [OF l(2)] verified_siblings by (fastforce simp: item_in_def)
  qed
  moreover have "\<forall>l \<in> set (sort_key ctx_id ?dl). item_in ch l" using assms(4) by simp
  moreover have "length ?dl \<le> length ls" "1 \<le> (of_nat (length ls) :: rat)" using ids(1) count_integer(2) [of "length ls"] by simp_all
  moreover have "\<forall>ps. inclusion_proofs p = Some ps \<longrightarrow> set ps = set proofs" by (simp add: p)
  ultimately show "partition_passes Inclusion p" unfolding partition_passes_def d using assms(3) root_text(2) [OF assms(1) w]
    by (simp add: p item_in_def count_integer)
qed

text \<open>What a producer has to supply: inputs of the documented form, in the types' channels, with
  content that matches its reference.\<close>

definition producer_input :: "(byte list \<Rightarrow> byte list) \<Rightarrow> (string \<Rightarrow> int option) \<Rightarrow> BuildCpaInput \<Rightarrow> bool" where
  "producer_input sha dp i \<longleftrightarrow> lower_hex 64 (in_action_ref i) \<and> in_producer_did i \<noteq> [] \<and> isIso8601 dp (in_attested_at i)
     \<and> attestation_reasons (value_entry ''producer_attestation'' (in_producer_attestation i)) = []
     \<and> list_all (\<lambda>l. channel l \<in> set CHANNEL_ORDER \<and> item_in (channel l) l \<and> content_bound sha l) (in_items i)"

lemma present_channel: "(ch, ls) \<in> set (present_channels items) \<Longrightarrow> ch \<in> set CHANNEL_ORDER \<and> ls \<noteq> [] \<and> ls = filter (\<lambda>l. channel l = ch) items"
  by (auto simp: present_channels_def)

lemma present_sorted: "sorted_wrt (\<lambda>a b. channel_index a < channel_index b) (map fst (present_channels items))"
proof -
  have "map fst (present_channels items) = filter (\<lambda>c. filter (\<lambda>l. channel l = c) items \<noteq> []) CHANNEL_ORDER"
    unfolding present_channels_def by (simp add: filter_map comp_def)
  then show ?thesis using channels_ascend by (simp add: sorted_wrt_filter)
qed

lemma built_partitions:
  assumes "\<forall>m. length (sha m) = 32" and "producer_input sha dp i"
    and "mapE (build_partition sha fmt (in_mode i) (disclose i)) (present_channels (in_items i)) = Inr built"
  shows "map part_channel (map fst built) = map fst (present_channels (in_items i))"
    "map (\<lambda>p. lenient_bytes (partition_root p)) (map fst built) = map snd built"
    "\<forall>p \<in> set (map fst built). partition_passes (in_mode i) p \<and> set (disclosed p) \<subseteq> set (in_items i)
       \<and> (if in_mode i = Full_set then buildPartitionRoot sha fmt (disclosed p) = Inr (partition_root p) \<and> leaf_count p = of_nat (length (disclosed p)) else inclusion_holds sha fmt p)"
proof -
  have each: "partition_passes (in_mode i) p \<and> set (disclosed p) \<subseteq> set (in_items i) \<and> part_channel p = ch \<and> lenient_bytes (partition_root p) = rb
      \<and> (if in_mode i = Full_set then buildPartitionRoot sha fmt (disclosed p) = Inr (partition_root p) \<and> leaf_count p = of_nat (length (disclosed p)) else inclusion_holds sha fmt p)"
    if "(ch, ls) \<in> set (present_channels (in_items i))" "build_partition sha fmt (in_mode i) (disclose i) (ch, ls) = Inr (p, rb)" for ch ls p rb
  proof -
    note pc = present_channel [OF that(1)]
    have it: "\<forall>l \<in> set ls. item_in ch l" "set ls \<subseteq> set (in_items i)" using pc assms(2) by (auto simp: producer_input_def list_all_iff)
    show ?thesis
    proof (cases "in_mode i")
      case Inclusion
      then show ?thesis using inclusion_built [OF assms(1) _ _ it(1), of fmt "disclose i" p rb] that(2) pc it(2) by (auto simp: lenient_bytes_hex)
    next
      case Full_set
      then show ?thesis using full_set_built [OF assms(1) _ _ it(1), of fmt "disclose i" p rb] that(2) pc it(2) by (auto simp: lenient_bytes_hex)
    qed
  qed
  have l2: "list_all2 (\<lambda>cl pr. build_partition sha fmt (in_mode i) (disclose i) cl = Inr pr) (present_channels (in_items i)) built"
    using assms(3) by (simp add: mapE_Inr_iff)
  let ?pc = "present_channels (in_items i)"
  have len: "length built = length ?pc" using list_all2_lengthD [OF l2] by simp
  have k: "partition_passes (in_mode i) (fst (built ! k)) \<and> set (disclosed (fst (built ! k))) \<subseteq> set (in_items i) \<and> part_channel (fst (built ! k)) = fst (?pc ! k)
      \<and> lenient_bytes (partition_root (fst (built ! k))) = snd (built ! k)
      \<and> (if in_mode i = Full_set then buildPartitionRoot sha fmt (disclosed (fst (built ! k))) = Inr (partition_root (fst (built ! k)))
           \<and> leaf_count (fst (built ! k)) = of_nat (length (disclosed (fst (built ! k)))) else inclusion_holds sha fmt (fst (built ! k)))" if "k < length built" for k
    by (rule each [of _ "snd (?pc ! k)"]) (use l2 that len in \<open>auto simp: list_all2_conv_all_nth\<close>)
  show "map part_channel (map fst built) = map fst ?pc" "map (\<lambda>p. lenient_bytes (partition_root p)) (map fst built) = map snd built"
    using k len by (simp_all add: list_eq_iff_nth_eq)
  show "\<forall>p \<in> set (map fst built). partition_passes (in_mode i) p \<and> set (disclosed p) \<subseteq> set (in_items i)
       \<and> (if in_mode i = Full_set then buildPartitionRoot sha fmt (disclosed p) = Inr (partition_root p) \<and> leaf_count p = of_nat (length (disclosed p)) else inclusion_holds sha fmt p)"
    using k by (auto simp: all_set_conv_all_nth)
qed

lemma top_root_text:
  assumes "\<forall>m. length (sha m) = 32" and "\<forall>r \<in> set rs. length r = 32"
  shows "lower_hex 64 (bytesToHex (buildTopRootBytes sha rs))"
proof -
  have "length (buildTopRootBytes sha rs) = 32" using assms root_32 [of sha rs] by (auto simp: buildTopRootBytes_def list_all_iff)
  then show ?thesis using lower_hex_bytes [of "buildTopRootBytes sha rs"] by simp
qed

lemma decodeShape_cases: "decodeShape dp (JObj c) = Inr c \<or> (\<exists>rs. decodeShape dp (JObj c) = Inl rs \<and> rs \<noteq> [])"
  by (simp add: decodeShape_def Let_def split: option.split json.split)

section \<open>Properties\<close>

text \<open>An attestation is accepted exactly when it has the required shape, its producer's document is
  the named one with a signed key history and an active signing key, the signature covers it,
  the trees match in its mode, disclosed contents match their references, the receipt agrees in
  both directions, and a content-requiring policy is met.  Completeness is claimed exactly for
  accepted full-set attestations.\<close>

theorem attestation_accepted_exactly_when:
  assumes "verifyCPA sha C dp (JObj c) didDoc receipt rq = Inr res"
  shows "(cpa_valid res \<longleftrightarrow> decodeShape dp (JObj c) = Inr c \<and> producer_attests C dp c didDoc \<and> tree_matches sha (format_number C) c
      \<and> (\<forall>p \<in> set (read_partitions c). \<forall>l \<in> set (disclosed p). content_bound sha l)
      \<and> (\<forall>rc. receipt = Some rc \<longrightarrow> receipt_agrees sha C c rc) \<and> (rq \<longrightarrow> policy_holds c))
    \<and> (cpa_valid res \<longleftrightarrow> cpa_reasons res = [])
    \<and> (cpa_completeness res = PROVEN \<longleftrightarrow> cpa_valid res \<and> get_str c ''mode'' = Some ''full-set'')"
proof -
  consider rs where "decodeShape dp (JObj c) = Inl rs" "rs \<noteq> []" | "decodeShape dp (JObj c) = Inr c" using decodeShape_cases by blast
  then show ?thesis
  proof cases
    case 1
    then show ?thesis using assms by (auto simp: verifyCPA_def)
  next
    case 2
    then show ?thesis using accepted_iff [OF 2 assms] by blast
  qed
qed

lemma proven_facts:
  assumes "verifyCPA sha C dp (JObj c) didDoc receipt rq = Inr res" and "cpa_completeness res = PROVEN"
  shows "buildTopRoot sha (map partition_root (read_partitions c)) = str_at c ''root''"
    "\<forall>p \<in> set (read_partitions c). buildPartitionRoot sha (format_number C) (disclosed p) = Inr (partition_root p)"
proof -
  have c: "decodeShape dp (JObj c) = Inr c" using assms decodeShape_cases [of dp c] by (auto simp: verifyCPA_def)
  from accepted_iff [OF c assms(1)] assms(2) have "tree_matches sha (format_number C) c" "get_str c ''mode'' = Some ''full-set''" by blast+
  then show "buildTopRoot sha (map partition_root (read_partitions c)) = str_at c ''root''"
    "\<forall>p \<in> set (read_partitions c). buildPartitionRoot sha (format_number C) (disclosed p) = Inr (partition_root p)"
    by (auto simp: tree_matches_def Let_def)
qed

text \<open>C38. Completeness means what it says: two attestations with the same root that are both proven
  complete commit to the same items, in every committed field and with none left out, unless
  the hash collides on two of the inputs hashed for them.\<close>

theorem proven_root_determines_items:
  assumes "\<forall>m. length (sha m) = 32"
    and "verifyCPA sha C dp (JObj a) docA rcA rqA = Inr resA" and "cpa_completeness resA = PROVEN"
    and "verifyCPA sha C dp (JObj b) docB rcB rqB = Inr resB" and "cpa_completeness resB = PROVEN"
    and "str_at a ''root'' = str_at b ''root''"
    and "inj_on sha (attested_inputs sha (format_number C) (read_partitions a) \<union> attested_inputs sha (format_number C) (read_partitions b))"
    and "\<forall>l \<in> set (committed_items (read_partitions a)) \<union> set (committed_items (read_partitions b)). natural_length l"
  shows "map leafPreimage (committed_items (read_partitions a)) = map leafPreimage (committed_items (read_partitions b))"
  using committed_determined [OF assms(1,7) proven_facts(2) [OF assms(2,3)] proven_facts(2) [OF assms(4,5)] _ assms(8)]
    proven_facts(1) [OF assms(2,3)] proven_facts(1) [OF assms(4,5)] assms(6) by simp

lemma produced_verifies:
  assumes "\<forall>m. length (sha m) = 32" and "keypair C (privateKey i) (pub (privateKey i))" and "lower_hex 64 (pub (privateKey i))" and "producer_input sha dp i"
    and "buildCPA sha C pub i = Inr c" and "computeCpaRef sha (format_number C) c = Inr ref"
    and "did_id doc = in_producer_did i" and "dp (in_attested_at i) = Some t" and "verifyRotationChain C doc" and "isKeyActive t doc (pub (privateKey i))"
  shows "\<exists>res. verifyCPA sha C dp (JObj c) (Some doc) (Some \<lparr>receipt_action_ref = Some (in_action_ref i), receipt_cpa_ref = Some ref\<rparr>) False = Inr res
    \<and> cpa_valid res \<and> (cpa_completeness res = PROVEN \<longleftrightarrow> in_mode i = Full_set)"
proof -
  let ?fmt = "format_number C" and ?pk = "pub (privateKey i)"
  let ?rc = "\<lparr>receipt_action_ref = Some (in_action_ref i), receipt_cpa_ref = Some ref\<rparr>"
  obtain built bytes where built: "mapE (build_partition sha ?fmt (in_mode i) (disclose i)) (present_channels (in_items i)) = Inr built"
    and w: "canonicalizeJCSForWrite ?fmt (JObj (cpa_body ?pk i (map fst built) (bytesToHex (buildTopRootBytes sha (map snd built))) @ [(''signature'', JStr [])])) = Inr bytes"
    and c: "c = cpa_body ?pk i (map fst built) (bytesToHex (buildTopRootBytes sha (map snd built))) @ [(''signature'', JStr (ed25519_sign C bytes (privateKey i)))]"
    using assms(5) by (auto simp: buildCPA_def Let_def split: sum.splits)
  note r = read_body [OF c] and b = built_partitions [OF assms(1,4) built] and cb = ForWrite_same_bytes [OF w, folded r(11)]
  have kp: "lower_hex 128 (ed25519_sign C bytes (privateKey i))" "ed25519_verify C bytes (ed25519_sign C bytes (privateKey i)) ?pk"
    using assms(2) by (simp_all add: keypair_def)
  have at: "str_at c ''producer_did'' = in_producer_did i" "str_at c ''attested_at'' = in_attested_at i" "str_at c ''producer_pubkey'' = ?pk"
    "str_at c ''signature'' = ed25519_sign C bytes (privateKey i)" "str_at c ''action_ref'' = in_action_ref i" "str_at c ''root'' = bytesToHex (buildTopRootBytes sha (map snd built))"
    by (simp_all add: str_at_def r)
  have ps: "read_partitions c = map fst built" by (simp add: read_partitions_def get_arr_def r(7) comp_def)
  have md: "get_str c ''mode'' = Some (disclosure_name (in_mode i))" by (simp add: get_str_def r(6))
  have full: "get_str c ''mode'' = Some ''full-set'' \<longleftrightarrow> in_mode i = Full_set" unfolding md by (cases "in_mode i") simp_all
  have top_eq: "buildTopRoot sha (map partition_root (map fst built)) = bytesToHex (buildTopRootBytes sha (map snd built))"
    unfolding top_root_hex [symmetric] b(2) ..
  have "length x = 32" if x: "x \<in> set (map snd built)" for x
  proof -
    obtain p where "p \<in> set (map fst built)" "x = lenient_bytes (partition_root p)" using x unfolding b(2) [symmetric] by auto
    then show ?thesis using b(3) by (auto simp: partition_passes_def length_lenient lower_hex_def)
  qed
  then have tr: "lower_hex 64 (bytesToHex (buildTopRootBytes sha (map snd built)))" using top_root_text [OF assms(1)] by blast
  have shape: "decodeShape dp (JObj c) = Inr c"
    by (rule signed_shape [OF c]) (use assms(3,4) kp(1) tr b(3) present_sorted [of "in_items i", folded b(1)] in \<open>simp_all add: producer_input_def\<close>)
  have "\<exists>res. verifyCPA sha C dp (JObj c) (Some doc) (Some ?rc) False = Inr res"
    by (simp add: verifyCPA_def shape cb Let_def receipt_reasons_def assms(6))
  then obtain res where res: "verifyCPA sha C dp (JObj c) (Some doc) (Some ?rc) False = Inr res" ..
  note v = accepted_iff [OF shape res]
  have "producer_attests C dp c (Some doc)" unfolding producer_attests_def using assms(7-10) cb kp(2) by (auto simp: at)
  moreover have "tree_matches sha ?fmt c" unfolding tree_matches_def Let_def ps full at using b(3) top_eq by auto
  moreover have "\<forall>p \<in> set (read_partitions c). \<forall>l \<in> set (disclosed p). content_bound sha l"
    unfolding ps using b(3) assms(4) by (auto simp: producer_input_def list_all_iff)
  moreover have "receipt_agrees sha C c ?rc" using assms(4,6) by (auto simp: receipt_agrees_def at producer_input_def lower_hex_def)
  ultimately show ?thesis using res v full by auto
qed

text \<open>Inputs that can be written: identifiers are distinct within a channel and every number is in
  the interoperable range.\<close>

definition writable_input :: "BuildCpaInput \<Rightarrow> bool" where
  "writable_input i \<longleftrightarrow> distinct (map (\<lambda>l. (channel l, ctx_id l)) (in_items i)) \<and> list_all (\<lambda>l. \<not> isUnsafeWriteInteger (byte_len l)) (in_items i)
     \<and> length (in_items i) \<le> 9007199254740991 \<and> (case in_producer_attestation i of None \<Rightarrow> True | Some j \<Rightarrow> write_fault j = None)"

lemma write_fault_object: "write_fault (JObj kvs) = None \<longleftrightarrow> (\<forall>v \<in> snd ` set kvs. write_fault v = None)"
  by (force simp: first_some_None_iff)

lemma write_fault_array: "write_fault (JArr xs) = None \<longleftrightarrow> (\<forall>v \<in> set xs. write_fault v = None)"
  by (auto simp: first_some_None_iff)

lemmas write_faults = write_fault_object write_fault_array

declare write_fault.simps(3,4) [simp del]

lemma leaf_writable: "\<not> isUnsafeWriteInteger (byte_len l) \<Longrightarrow> leafHashForWrite sha fmt l = leafHash sha fmt l"
proof -
  assume "\<not> isUnsafeWriteInteger (byte_len l)"
  then have "write_fault (leafPreimage l) = None" by (simp add: leafPreimage_def write_faults)
  then show ?thesis using write_fault_None_plain by (simp add: leafHashForWrite_def leafHash_def canonicalizeJCSForWrite_def canonicalizeJCS_def)
qed

lemma leaves_writable: "list_all (\<lambda>l. \<not> isUnsafeWriteInteger (byte_len l)) ls \<Longrightarrow> mapE (leafHashForWrite sha fmt) ls = mapE (leafHash sha fmt) ls"
  by (induction ls) (simp_all add: leaf_writable)

lemma partition_writable:
  assumes "list_all (\<lambda>l. \<not> isUnsafeWriteInteger (byte_len l)) ls" and "ls \<noteq> []" and "distinct (map ctx_id ls)"
  shows "\<exists>r. buildPartitionRootBytesForWrite sha fmt ls = Inr r" "\<And>l. l \<in> set ls \<Longrightarrow> \<exists>x. buildInclusionProofForWrite sha fmt ls (ctx_id l) = Inr x"
proof -
  have "list_all (\<lambda>l. \<not> isUnsafeWriteInteger (byte_len l)) (sort_key ctx_id ls)" using assms(1) by (simp add: list_all_iff)
  note lw = leaves_writable [OF this, of sha fmt]
  have dup: "adjacent_duplicate (map ctx_id (sort_key ctx_id ls)) = None" using assms(3) by (simp add: duplicates_found)
  have "sort_key ctx_id ls \<noteq> []" using assms(2) by (metis length_0_conv length_sort)
  then show "\<exists>r. buildPartitionRootBytesForWrite sha fmt ls = Inr r"
    using assms(2) by (simp add: buildPartitionRootBytesForWrite_def buildPartitionRootBytesImpl_def dup lw mapE_leaves reduce_def)
  fix l assume "l \<in> set ls"
  then obtain k where "position_of (ctx_id l) (sort_key ctx_id ls) = Some k" using position_of_leaf [OF assms(3)] by blast
  then show "\<exists>x. buildInclusionProofForWrite sha fmt ls (ctx_id l) = Inr x"
    using assms(2) by (simp add: buildInclusionProofForWrite_def buildInclusionProofImpl_def dup lw mapE_leaves)
qed

lemma count_safe: "n \<le> 9007199254740991 \<Longrightarrow> \<not> isUnsafeWriteInteger (of_nat n)" "k \<le> n \<Longrightarrow> n \<le> 9007199254740991 \<Longrightarrow> \<not> isUnsafeWriteInteger (of_nat n - of_nat k)"
proof -
  have le: "rat_of_nat m \<le> 9007199254740991" if "m \<le> 9007199254740991" for m
    using that by (metis of_nat_le_iff of_nat_numeral)
  show "n \<le> 9007199254740991 \<Longrightarrow> \<not> isUnsafeWriteInteger (of_nat n)" using le [of n] by (simp add: isUnsafeWriteInteger_def)
  assume h: "k \<le> n" "n \<le> 9007199254740991"
  then have "rat_of_nat n - rat_of_nat k = of_nat (n - k)" by (simp add: of_nat_diff)
  then show "\<not> isUnsafeWriteInteger (of_nat n - of_nat k)" using le [of "n - k"] h by (simp add: isUnsafeWriteInteger_def)
qed

lemma partition_json_writable:
  assumes "list_all (\<lambda>l. \<not> isUnsafeWriteInteger (byte_len l)) ls" and "length ls \<le> 9007199254740991" and "build_partition sha fmt mode dis (ch, ls) = Inr (p, rb)"
  shows "write_fault (partition_json p) = None"
proof -
  have it: "write_fault (item_json l) = None" if "l \<in> set ls" for l
    using assms(1) that by (cases "trust_tier l"; cases "content l") (auto simp: item_json_def write_faults text_entry_def list_all_iff)
  have pr: "write_fault (proof_json x) = None" for x by (auto simp: proof_json_def write_faults)
  have "\<not> isUnsafeWriteInteger (of_nat (length ls))" "\<not> isUnsafeWriteInteger (of_nat (length ls) - of_nat (length (filter (\<lambda>l. ctx_id l \<in> set dis) ls)))"
    using count_safe(1) [OF assms(2)] count_safe(2) [OF _ assms(2)] by simp_all
  then show ?thesis using assms(3) it pr
    by (cases mode) (auto simp: build_partition_def bindE_Inr_iff Let_def partition_json_def write_faults value_entry_def split: if_splits)
qed

lemma build_returns:
  assumes "writable_input i"
  shows "\<exists>c. buildCPA sha C pub i = Inr c \<and> write_fault (JObj c) = None"
proof -
  let ?fmt = "format_number C" and ?safe = "\<lambda>l. \<not> isUnsafeWriteInteger (byte_len l)"
  have part: "list_all ?safe ls \<and> length ls \<le> 9007199254740991 \<and> ls \<noteq> [] \<and> distinct (map ctx_id ls)" if "(ch, ls) \<in> set (present_channels (in_items i))" for ch ls
  proof -
    have ls: "ls = filter (\<lambda>l. channel l = ch) (in_items i)" "ls \<noteq> []" using present_channel [OF that] by blast+
    have "distinct (map (\<lambda>l. (channel l, ctx_id l)) ls)" unfolding ls(1) using assms by (simp add: writable_input_def distinct_map_filter)
    then have "distinct (map ctx_id ls)" by (auto simp: ls(1) distinct_map inj_on_def)
    then show ?thesis using assms ls le_trans [OF length_filter_le] by (auto simp: writable_input_def list_all_iff)
  qed
  have "\<exists>y. build_partition sha ?fmt (in_mode i) (disclose i) cl = Inr y" if cl: "cl \<in> set (present_channels (in_items i))" for cl
  proof (cases cl)
    case (Pair ch ls)
    note pt = part [OF cl [unfolded Pair]]
    obtain rb where rb: "buildPartitionRootBytesForWrite sha ?fmt ls = Inr rb" using partition_writable(1) pt by blast
    have "\<exists>x. mapE (\<lambda>l. buildInclusionProofForWrite sha ?fmt ls (ctx_id l)) (filter (\<lambda>l. ctx_id l \<in> set (disclose i)) ls) = Inr x"
      by (rule mapE_total) (use partition_writable(2) pt in auto)
    then show ?thesis by (auto simp: build_partition_def Pair rb Let_def)
  qed
  then obtain built where built: "mapE (build_partition sha ?fmt (in_mode i) (disclose i)) (present_channels (in_items i)) = Inr built"
    using mapE_total [of "present_channels (in_items i)" "build_partition sha ?fmt (in_mode i) (disclose i)"] by blast
  have pj: "write_fault (partition_json p) = None" if p: "(p, rb) \<in> set built" for p rb
  proof -
    obtain ch ls where "(ch, ls) \<in> set (present_channels (in_items i))" "build_partition sha ?fmt (in_mode i) (disclose i) (ch, ls) = Inr (p, rb)"
      using mapE_source [OF built p] by auto
    then show ?thesis using partition_json_writable part by blast
  qed
  have body: "write_fault (JObj (cpa_body pk i (map fst built) tr @ [(''signature'', JStr sg)])) = None" for pk tr sg
    using assms pj by (cases "in_producer_attestation i") (auto simp: cpa_body_def write_faults value_entry_def writable_input_def)
  show ?thesis by (simp add: buildCPA_def built Let_def canonicalizeJCSForWrite_def body)
qed

text \<open>C39. What is produced verifies: for inputs of the documented form an attestation and its reference
  are produced, and against the producer's document and a receipt carrying both references it
  is accepted, as complete exactly in full-set mode.  In inclusion mode every disclosed item
  comes with a proof that verifies.\<close>

theorem produced_attestation_verifies:
  assumes "\<forall>m. length (sha m) = 32" and "keypair C (privateKey i) (pub (privateKey i))" and "lower_hex 64 (pub (privateKey i))"
    and "producer_input sha dp i" and "writable_input i" and "did_id doc = in_producer_did i" and "dp (in_attested_at i) = Some t"
    and "verifyRotationChain C doc" and "isKeyActive t doc (pub (privateKey i))"
  shows "\<exists>c ref res. buildCPA sha C pub i = Inr c \<and> carryCpaRef sha (format_number C) c = Inr [(''cpa_ref'', JStr ref)]
    \<and> verifyCPA sha C dp (JObj c) (Some doc) (Some \<lparr>receipt_action_ref = Some (in_action_ref i), receipt_cpa_ref = Some ref\<rparr>) False = Inr res
    \<and> cpa_valid res \<and> (cpa_completeness res = PROVEN \<longleftrightarrow> in_mode i = Full_set)"
proof -
  obtain c where c: "buildCPA sha C pub i = Inr c" "write_fault (JObj c) = None" using build_returns [OF assms(5)] by blast
  then obtain ref where ref: "computeCpaRefForWrite sha (format_number C) c = Inr ref" by (simp add: computeCpaRefForWrite_def canonicalizeJCSForWrite_def)
  then have "computeCpaRef sha (format_number C) c = Inr ref"
    by (auto simp: computeCpaRefForWrite_def computeCpaRef_def bindE_Inr_iff dest: ForWrite_same_bytes)
  from produced_verifies [OF assms(1-4) c(1) this assms(6-9)] c(1) ref show ?thesis by (auto simp: carryCpaRef_def)
qed

section \<open>A concrete attestation\<close>

definition sample_context :: "DisclosureMode \<Rightarrow> ContextItem list \<Rightarrow> BuildCpaInput" where
  "sample_context mode items = \<lparr>privateKey = sample_key, in_action_ref = replicate 64 CHR ''0'', in_producer_did = did_id sample_document,
     in_attested_at = ''2026-01-01T00:00:00Z'', in_mode = mode, in_items = items, disclose = [''bb''], in_producer_attestation = None\<rparr>"

lemma sample_context_fields [simp]:
  "privateKey (sample_context mode items) = sample_key" "in_action_ref (sample_context mode items) = replicate 64 CHR ''0''"
  "in_producer_did (sample_context mode items) = did_id sample_document" "in_mode (sample_context mode items) = mode" "in_items (sample_context mode items) = items"
  by (simp_all add: sample_context_def)

abbreviation sample_dates :: "string \<Rightarrow> int option" where
  "sample_dates \<equiv> (\<lambda>_. Some legacy_clock)"

lemma sample_context_input:
  assumes "set items = set sample_items" and "distinct items"
  shows "producer_input sha sample_dates (sample_context mode items)" "writable_input (sample_context mode items)"
proof -
  have "lower_hex 64 (replicate 64 CHR ''0'')" "ISO_8601 ''2026-01-01T00:00:00Z''" by code_simp+
  moreover have "did_id sample_document \<noteq> []"
    using sample_document_created by (auto simp: createDIDDocument_def createDID_def DID_METHOD_def Let_def split: if_splits dest: arg_cong [of _ _ did_id])
  ultimately show "producer_input sha sample_dates (sample_context mode items)"
    using assms by (auto simp: producer_input_def sample_context_def isIso8601_def attestation_reasons_def value_entry_def get_def list_all_iff item_in_def
        sample_items_def sample_item_def CHANNEL_ORDER_def content_bound_def isInteger_def)
  have "length items = 2" using distinct_card [OF assms(2)] by (simp add: assms(1) sample_items_def sample_item_def)
  then show "writable_input (sample_context mode items)"
    using assms by (auto simp: writable_input_def sample_context_def list_all_iff sample_items_def sample_item_def isUnsafeWriteInteger_def distinct_map inj_on_def)
qed

lemma sample_signer: "keypair sample_crypto sample_key sample_key" "verifyRotationChain sample_crypto sample_document" "isKeyActive legacy_clock sample_document sample_key"
proof -
  show "keypair sample_crypto sample_key sample_key" by (rule sample_keypair)
  show "verifyRotationChain sample_crypto sample_document" by (simp add: verifyRotationChain_def sample_fresh)
  have "length sample_key = 64" using sample_keys(1) by (simp add: lower_hex_def)
  then show "isKeyActive legacy_clock sample_document sample_key"
    by (simp add: sample_document_def createDIDDocument_def createDID_def Let_def isKeyActive_def truthy_def)
qed

lemma sample_signing_ready:
  "keypair sample_crypto (privateKey (sample_context mode items)) (id (privateKey (sample_context mode items)))" "lower_hex 64 (id (privateKey (sample_context mode items)))"
  "did_id sample_document = in_producer_did (sample_context mode items)" "sample_dates (in_attested_at (sample_context mode items)) = Some legacy_clock"
  "verifyRotationChain sample_crypto sample_document" "isKeyActive legacy_clock sample_document (id (privateKey (sample_context mode items)))"
  by (simp_all add: sample_signer sample_keys)

lemma sample_produced:
  assumes "set items = set sample_items" and "distinct items"
  shows "\<exists>c ref res. buildCPA length_sha sample_crypto id (sample_context mode items) = Inr c \<and> carryCpaRef length_sha (format_number sample_crypto) c = Inr [(''cpa_ref'', JStr ref)]
    \<and> verifyCPA length_sha sample_crypto sample_dates (JObj c) (Some sample_document) (Some \<lparr>receipt_action_ref = Some (replicate 64 CHR ''0''), receipt_cpa_ref = Some ref\<rparr>) False = Inr res
    \<and> cpa_valid res \<and> (cpa_completeness res = PROVEN \<longleftrightarrow> mode = Full_set)"
proof -
  let ?i = "sample_context mode items"
  obtain c where c: "buildCPA length_sha sample_crypto id ?i = Inr c" "write_fault (JObj c) = None" using build_returns [OF sample_context_input(2) [OF assms]] by blast
  then obtain ref where ref: "computeCpaRefForWrite length_sha (format_number sample_crypto) c = Inr ref" by (simp add: computeCpaRefForWrite_def canonicalizeJCSForWrite_def)
  then have "computeCpaRef length_sha (format_number sample_crypto) c = Inr ref"
    by (auto simp: computeCpaRefForWrite_def computeCpaRef_def bindE_Inr_iff dest: ForWrite_same_bytes)
  from produced_verifies [OF length_sha_32 sample_signing_ready(1,2) sample_context_input(1) [OF assms] c(1) this sample_signing_ready(3-6)] c(1) ref
  show ?thesis unfolding sample_context_fields carryCpaRef_def by auto
qed

theorem produced_attestation_verifies_witness:
  "\<exists>c ref res. buildCPA length_sha sample_crypto id (sample_context Inclusion sample_items) = Inr c \<and> carryCpaRef length_sha (format_number sample_crypto) c = Inr [(''cpa_ref'', JStr ref)]
    \<and> verifyCPA length_sha sample_crypto sample_dates (JObj c) (Some sample_document) (Some \<lparr>receipt_action_ref = Some (replicate 64 CHR ''0''), receipt_cpa_ref = Some ref\<rparr>) False = Inr res
    \<and> cpa_valid res \<and> cpa_completeness res = NOT_PROVEN"
proof -
  let ?i = "sample_context Inclusion sample_items"
  have "distinct sample_items" by (simp add: sample_items_def sample_item_def)
  note i = sample_context_input [OF refl this]
  have "cpa_completeness res \<noteq> PROVEN \<longleftrightarrow> cpa_completeness res = NOT_PROVEN" for res by (cases "cpa_completeness res") simp_all
  then show ?thesis
    using produced_attestation_verifies [where pub = id and i = ?i and dp = sample_dates, OF length_sha_32 sample_signing_ready(1,2) i(1) i(2) sample_signing_ready(3-6)] unfolding sample_context_fields by auto
qed

theorem attestation_accepted_exactly_when_witness:
  "\<exists>c. tree_matches length_sha (format_number sample_crypto) c \<and> producer_attests sample_crypto sample_dates c (Some sample_document)"
proof -
  have "distinct sample_items" by (simp add: sample_items_def sample_item_def)
  from sample_produced [OF refl this] obtain c rc res where
    "verifyCPA length_sha sample_crypto sample_dates (JObj c) (Some sample_document) rc False = Inr res" "cpa_valid res" by blast
  with attestation_accepted_exactly_when [OF this(1)] show ?thesis by blast
qed

lemma sample_hashed_inj:
  "inj_on length_sha (set (tree_inputs length_sha (partition_tree (leaf_digests length_sha (format_number sample_crypto) sample_items))) \<union> leaf_input (format_number sample_crypto) ` set sample_items)"
proof -
  let ?fmt = "format_number sample_crypto"
  let ?a = "leaf_input ?fmt (sample_item ''a'')" and ?b = "leaf_input ?fmt (sample_item ''bb'')"
  let ?n = "utf8 NODE_TAG @ length_sha ?a @ length_sha ?b"
  have ds: "leaf_digests length_sha ?fmt sample_items = [length_sha ?a, length_sha ?b]" by (simp add: leaf_digests_def sample_sorted) (simp add: sample_items_def)
  have fmt: "leaf_input ?fmt x = leaf_input (\<lambda>_. []) x" if "byte_len x = 3" for x
    unfolding leaf_input_def leaf_canonical using that by (simp add: stringify_number_def isInteger_def)
  have "byte_len (sample_item x) = 3" for x by (simp add: sample_item_def)
  note ab = fmt [OF this]
  have "set (tree_inputs length_sha (partition_tree (leaf_digests length_sha ?fmt sample_items))) \<union> leaf_input ?fmt ` set sample_items = {?n, ?a, ?b}"
    unfolding ds by (auto simp: partition_tree_def reduce_loop.simps sample_items_def)
  moreover have "length ?n = 78" using sample_leaf_lengths(3) length_sha_32 by simp
  moreover have "length ?a = 144" "length ?b = 145" unfolding ab using sample_leaf_lengths by simp_all
  ultimately show ?thesis by (auto simp: inj_on_def length_sha_def)
qed

lemma sample_full_set:
  assumes "sort_key ctx_id items = sample_items" and "distinct items" and "buildCPA length_sha sample_crypto id (sample_context Full_set items) = Inr c"
  shows "\<exists>p. read_partitions c = [p] \<and> disclosed p = items \<and> partition_root p = bytesToHex (root_of (nodeHash length_sha) (leaf_digests length_sha (format_number sample_crypto) sample_items))
    \<and> str_at c ''root'' = partition_root p"
proof -
  let ?i = "sample_context Full_set items" and ?fmt = "format_number sample_crypto"
  have st: "set items = set sample_items" using assms(1) by (metis set_sort)
  moreover have "\<forall>l \<in> set sample_items. channel l = ''developer''" "set sample_items \<noteq> {}" by (simp_all add: sample_items_def sample_item_def)
  ultimately have ch: "\<forall>l \<in> set items. channel l = ''developer''" "items \<noteq> []" by (simp, metis set_empty)
  then have "filter (\<lambda>l. channel l = c) items = (if c = ''developer'' then items else [])" for c
    by (cases "c = ''developer''") (simp_all add: filter_id_conv filter_empty_conv)
  then have pc: "present_channels (in_items ?i) = [(''developer'', items)]" using ch(2) by (simp add: present_channels_def CHANNEL_ORDER_def sample_context_def)
  obtain built bytes where built: "mapE (build_partition length_sha ?fmt (in_mode ?i) (disclose ?i)) (present_channels (in_items ?i)) = Inr built"
    and c: "c = cpa_body sample_key ?i (map fst built) (bytesToHex (buildTopRootBytes length_sha (map snd built))) @ [(''signature'', JStr (ed25519_sign sample_crypto bytes sample_key))]"
    using assms(3) by (auto simp: buildCPA_def Let_def sample_context_def split: sum.splits)
  from built obtain p rb where b: "built = [(p, rb)]" "build_partition length_sha ?fmt Full_set (disclose ?i) (''developer'', items) = Inr (p, rb)"
    unfolding pc by (auto simp: bindE_Inr_iff sample_context_def)
  have "\<forall>l \<in> set items. item_in ''developer'' l"
    using sample_context_input(1) [OF st assms(2), of length_sha Full_set] ch(1) by (auto simp: producer_input_def sample_context_def list_all_iff)
  note f = full_set_built [OF length_sha_32 b(2) _ this]
  have "''developer'' \<in> set CHANNEL_ORDER" by (simp add: CHANNEL_ORDER_def)
  note f = f [OF this] and r = read_body [OF c]
  have "leaf_digests length_sha ?fmt items = leaf_digests length_sha ?fmt sample_items"
    using assms(1) sample_sorted by (simp add: leaf_digests_def)
  then have "partition_root p = bytesToHex (root_of (nodeHash length_sha) (leaf_digests length_sha ?fmt sample_items))"
    using f(4,5) by (auto simp: root_bytes_hex partition_root_iff)
  moreover have "read_partitions c = [p]" by (simp add: read_partitions_def get_arr_def r(7) b(1))
  moreover have "str_at c ''root'' = partition_root p" by (simp add: str_at_def r(8) b(1) buildTopRootBytes_def f(3))
  ultimately show ?thesis using f(4) by simp
qed

theorem proven_root_determines_items_witness:
  "\<exists>a b docA rcA resA docB rcB resB. verifyCPA length_sha sample_crypto sample_dates (JObj a) docA rcA False = Inr resA \<and> cpa_completeness resA = PROVEN
     \<and> verifyCPA length_sha sample_crypto sample_dates (JObj b) docB rcB False = Inr resB \<and> cpa_completeness resB = PROVEN \<and> a \<noteq> b
     \<and> map leafPreimage (committed_items (read_partitions a)) = map leafPreimage (committed_items (read_partitions b))"
proof -
  let ?fmt = "format_number sample_crypto"
  have d: "distinct sample_items" "distinct (rev sample_items)" "set (rev sample_items) = set sample_items"
    by (simp_all only: set_rev distinct_rev) (simp_all add: sample_items_def sample_item_def)
  have so: "sort_key ctx_id (rev sample_items) = sample_items" by (simp add: sample_items_def sample_item_def)
  obtain a rcA resA where a: "buildCPA length_sha sample_crypto id (sample_context Full_set sample_items) = Inr a"
    "verifyCPA length_sha sample_crypto sample_dates (JObj a) (Some sample_document) rcA False = Inr resA" "cpa_completeness resA = PROVEN"
    using sample_produced [OF refl d(1), of Full_set] by blast
  obtain b rcB resB where b: "buildCPA length_sha sample_crypto id (sample_context Full_set (rev sample_items)) = Inr b"
    "verifyCPA length_sha sample_crypto sample_dates (JObj b) (Some sample_document) rcB False = Inr resB" "cpa_completeness resB = PROVEN"
    using sample_produced [OF d(3) d(2), of Full_set] by blast
  obtain p where p: "read_partitions a = [p]" "disclosed p = sample_items" "str_at a ''root'' = bytesToHex (root_of (nodeHash length_sha) (leaf_digests length_sha ?fmt sample_items))"
    using sample_full_set [OF sample_sorted d(1) a(1)] by auto
  obtain q where q: "read_partitions b = [q]" "disclosed q = rev sample_items" "str_at b ''root'' = bytesToHex (root_of (nodeHash length_sha) (leaf_digests length_sha ?fmt sample_items))"
    using sample_full_set [OF so d(2) b(1)] by auto
  have ci: "committed_items (read_partitions a) = sample_items" "committed_items (read_partitions b) = sample_items"
    by (simp_all add: committed_items_def p q so sample_sorted)
  have "leaf_digests length_sha ?fmt (rev sample_items) = leaf_digests length_sha ?fmt sample_items" by (simp add: leaf_digests_def so sample_sorted)
  then have inp: "attested_inputs length_sha ?fmt (read_partitions a) \<union> attested_inputs length_sha ?fmt (read_partitions b)
      = set (tree_inputs length_sha (partition_tree (leaf_digests length_sha ?fmt sample_items))) \<union> leaf_input ?fmt ` set sample_items"
    unfolding attested_inputs_def ci by (simp add: attestation_tree_def p q)
  have n: "natural_length l" if "l \<in> set sample_items" for l using that by (auto simp: sample_items_def sample_item_def natural_length_def isInteger_def)
  have "map leafPreimage (committed_items (read_partitions a)) = map leafPreimage (committed_items (read_partitions b))"
    by (rule proven_root_determines_items [OF length_sha_32 a(2,3) b(2,3)]) (use n sample_hashed_inj in \<open>simp_all add: p(3) q(3) inp ci\<close>)
  moreover have "a \<noteq> b" using p q by (auto simp: sample_items_def sample_item_def)
  ultimately show ?thesis using a b by blast
qed

end
