(* ===== verification/Spec2Isabelle.thy ===== *)
theory Spec2Isabelle
  imports Authority_System Rfc3339 Suspension Status_Coverage Authority_State Chain_Selection Authority_Bounds Activation Reversibility_Fold Ed25519 Legacy_Delegation Key_Rotation Context_Provenance
begin

text \<open>
  A verification development of the authority layer of the agent passport system: who may act
  under a delegation, within which limits, for how long, and on what evidence.

  \<^bold>\<open>The program.\<close>  An authority delegation is a signed JSON record with seven facets
  (scope, spend, depth, time, reputation, values, reversibility).  A chain of records leads
  from a trusted root to the acting leaf; every child narrows its parent.  The verifier
  decides a chain against a clock, a key resolver, a trust policy and a revocation resolver;
  the issuer mints roots and children; a ledger reserves and commits spend against every
  bounded record of a verified chain.  Around that core, revocation records are issued,
  verified and stored; markers and fencing tokens keep the state a verifier reads from going
  backwards; suspension causes and releases pause a delegation without revoking it; a status
  boundary combines answers of several sources; a lifecycle vocabulary names the outcomes;
  and a selector picks the one held chain an action is decided against.  Bounds and activation
  conditions end or start authority on attested facts; a fold reconciles what was done
  with what was proposed; keys rotate in documents whose history is signed; the
  earlier delegation protocol is still served beside all this; and attestations of the
  context behind an action are committed to in Merkle trees.

  \<^bold>\<open>Theories and sources\<close> (paths under \<^verbatim>\<open>src/src/\<close>).
  \<^item> \<open>APS_Prelude\<close>: results as sums with \<open>bindE\<close>, \<open>mapE\<close> and \<open>forE\<close>, loops that stop at the first
    failure, string helpers.  \<open>Machine\<close>: the locale of transition systems over operation
    sequences, with invariants and monotone relations along runs.
  \<^item> \<open>Scope\<close>: \<^verbatim>\<open>v2/authority-delegation/scope.ts\<close>.  \<open>Canonical_JCS\<close>: the emitter of
    \<^verbatim>\<open>core/canonical-jcs.ts\<close> and its write-boundary twin.  \<open>Authority_Types\<close>, \<open>Authority_Schema\<close>,
    \<open>Authority_Compare\<close>, \<open>Authority_Verify\<close>, \<open>Authority_Issue\<close>, \<open>Authority_Budget\<close>: \<^verbatim>\<open>types.ts\<close>,
    \<^verbatim>\<open>schema.ts\<close>, \<^verbatim>\<open>compare.ts\<close>, \<^verbatim>\<open>canonical.ts\<close> with \<^verbatim>\<open>verify.ts\<close>, \<^verbatim>\<open>issue.ts\<close> and \<^verbatim>\<open>budget.ts\<close> of
    that directory.  \<open>Samples\<close> holds a concrete two-record chain; \<open>Authority_System\<close> the
    properties of this subsystem.
  \<^item> \<open>Rfc3339\<close>: \<^verbatim>\<open>core/rfc3339.ts\<close>.  \<open>Lifecycle_State\<close>: \<^verbatim>\<open>v2/lifecycle-state/\<close>.  \<open>Suspension\<close>:
    \<^verbatim>\<open>v2/suspension/\<close>.  \<open>Status_Coverage\<close>: \<^verbatim>\<open>v2/status-coverage/\<close>.
  \<^item> \<open>Authority_Revocation\<close>: \<^verbatim>\<open>v2/authority-revocation/\<close> (types, schema, preimages, issuance,
    verification, recorder, resolver, in-memory store).  \<open>Authority_State\<close>:
    \<^verbatim>\<open>v2/authority-state/\<close> (markers, fenced log, retained state, withdrawals, report).
  \<^item> \<open>Chain_Selection\<close>: \<^verbatim>\<open>v2/chain-selection/\<close>.  \<open>Authority_Bounds\<close>: \<^verbatim>\<open>v2/bounds/\<close>.  \<open>Activation\<close>:
    \<^verbatim>\<open>v2/activation/\<close>.  \<open>Reversibility_Fold\<close>: \<^verbatim>\<open>core/reversibility-fold.ts\<close>.  \<open>Ed25519\<close>:
    \<^verbatim>\<open>crypto/ed25519-admissibility.ts\<close> and the verification entry point of \<^verbatim>\<open>crypto/keys.ts\<close>.  \<open>Legacy_Delegation\<close>: \<^verbatim>\<open>core/delegation.ts\<close>
    with its records.
  \<^item> \<open>Did_Keys\<close>: \<^verbatim>\<open>core/did.ts\<close> (identifiers from keys, base58).  \<open>Key_Rotation\<close>:
    \<^verbatim>\<open>core/key-rotation.ts\<close>.  \<open>Context_Merkle\<close> and \<open>Context_Provenance\<close>:
    \<^verbatim>\<open>v2/context-provenance/\<close> (trees and audit paths; production, shape decode and verification
    of attestations).
  \<^item> This theory: properties that join the chain verifier with the revocation store, the
    retained state and the pause evaluation.

  \<^bold>\<open>How code is represented.\<close>  Interfaces are records, string unions are datatypes, thrown
  errors and early returns are the left side of a sum, objects with private maps are records
  passed along.  JavaScript integers and BigInt are \<open>int\<close>; the places that depend on the safe
  integer range say so.  Caller-supplied values are plain JSON trees; a value that is not
  JSON is one marker constructor, and the proxy- and getter-proof snapshot of
  \<^verbatim>\<open>plain-data.ts\<close> is represented by its result.  SHA-256, Ed25519, number formatting, the key,
  trust, standing and revocation resolvers and the spend reserver are arguments.  Hypotheses
  about them are named: \<open>digest_well_formed\<close> (digests are 64 hexadecimal digits) and
  \<open>keypair\<close> (a signature made with a key verifies under its partner), used only where
  something is issued; \<open>standing_answers\<close> (the resolver gives one of its declared answers).
  For context attestations, \<open>\<forall>m. length (sha m) = 32\<close> is the digest size, and the two binding
  properties assume that the hash has no collision among the inputs hashed in the situation
  at hand.  \<open>Date.parse\<close> is an argument there, and strings are code points below 256.
  Loops are structural recursion or carry a measure (modular exponentiation by the exponent,
  radix conversion by the number, tree reduction by the length of the level); no definition
  needs fuel.  The chain ceiling of 256 records
  and the held-set ceiling of 256 entries are those of the code.

  \<^bold>\<open>What is shown.\<close>  The chain verifier equals a declarative specification; issued records
  verify; authority only narrows along a chain and its length is bounded by the root's depth.
  The ledger keeps its counters equal to the sums over reservations, refines a specification
  without counters, never overspends, and can always settle a live reservation.  Revocation
  verification equals its specification, the store holds only verified records, and a
  recorded revocation rejects every later chain through the record.  A regressed view never
  restores authority.  Fenced state never goes back.  Pauses lift cause by cause, in any order
  of the evidence.  The status boundary admits exactly under the stated condition, and throws
  in exactly one offline situation.  A selection rests on one held chain alone, and a failed
  one spends nothing.  Timestamps round-trip and their string order is instant order.
  Purpose bounds and activation are decided exactly by the accepted attestations, in any
  order.  A state lineage is accepted exactly when it is a hash-linked chain, a reconciliation
  exactly when it is monotonic.  A legacy sub-delegation never exceeds its parent, and a
  fail-closed policy needs fresh revocation evidence.  Every reachable key document carries a
  linked, signed history with exactly the superseded keys retired.  The level-by-level Merkle
  root is the recursive tree of RFC 6962; audit paths are complete and sound; an
  attestation is accepted exactly under its stated conditions, what is produced verifies in
  both modes, and a root proven complete determines the items.

  \<^bold>\<open>Interfaces as locales.\<close>  \<open>Machine\<close> provides the transition systems interpreted for the
  ledger, the revocation store and the fenced log; \<open>revocation_store\<close> states what the recorder
  needs of a store, interpreted by the in-memory one; the views of pause and status results
  are interpretations over the lifecycle constructor; \<open>spend_reserver\<close> states what the selector
  needs of a reserver, interpreted by the ledger; bounds and activation
  are read through the locale of lifecycle modules; the covering relation of legacy scopes and
  the machine of key documents are further interpretations.

  \<^bold>\<open>Not modelled.\<close>  Passports, policy, charter and governance documents of the earlier protocol
  generation, coordination and commerce, payment rails, credential and transport adapters,
  receipts other than context attestations, capability binding, composition checks and
  revocation enforcement, command line, exports and test-vector generators: application,
  format and I/O code outside the decisions modelled here.  Of \<^verbatim>\<open>core/did.ts\<close> the document views,
  and of \<^verbatim>\<open>core/canonical-jcs.ts\<close> the walk over values that are not JSON, are left out.
\<close>

section \<open>Revocation, rollback and pauses against a chain\<close>

lemma first_failure_first:
  assumes "k < length xs" "chk (i + k) (xs ! k) = Some b" "\<forall>m < k. chk (i + m) (xs ! m) = None"
  shows "first_failure chk i xs = Some b"
proof (cases "first_failure chk i xs")
  case None
  with assms show ?thesis by (auto simp: first_failure_None_iff)
next
  case (Some c)
  from first_failure_Some [OF Some] obtain k' where "chk (i + k') (xs ! k') = Some c" "\<forall>m < k'. chk (i + m) (xs ! m) = None" by blast
  with assms have "k' = k" by (metis linorder_neqE_nat option.distinct(1))
  with assms(2) Some \<open>chk (i + k') (xs ! k') = Some c\<close> show ?thesis by simp
qed

text \<open>C13. End to end: once the store's resolver answers revoked for a record of an otherwise valid
  chain and active for the records above it, the chain is rejected as revoked at that record,
  after any further sequence of store operations.\<close>

theorem recorded_revocation_rejects_the_chain:
  assumes "valid_chain C opt ch" and "isCanonicalTimestamp (now opt)" and "i < length ch"
    and "run (store_step C resolver) empty_store ops s" and "run (store_step C resolver) s ops' t"
    and "createAuthorityRevocationResolver C in_memory s resolver (ch ! i) = Status_revoked"
    and "\<forall>k < i. createAuthorityRevocationResolver C in_memory t resolver (ch ! k) = Status_active"
  shows "verifyAuthorityDelegationChain C (JArr (map json_of_delegation ch))
      (opt\<lparr>resolveRevocation := createAuthorityRevocationResolver C in_memory t resolver\<rparr>)
    = result State_invalid [fail_at REVOKED i ''delegation is revoked'']"
proof -
  let ?rv = "createAuthorityRevocationResolver C in_memory t resolver"
  have "keeps_records s t"
    using growing_store.run_forward [OF assms(5)] verified_store.reachable [OF assms(4)] by (simp add: list_all_iff)
  then have rev: "?rv (ch ! i) = Status_revoked" using assms(6) by (rule revoked_kept(1))
  have "phase_revocation (opt\<lparr>resolveRevocation := ?rv\<rparr>) ch = Some (result State_invalid [fail_at REVOKED i ''delegation is revoked''])"
    unfolding phase_revocation_def by (rule first_failure_first [where k = i]) (use assms(3,7) rev in simp_all)
  then show ?thesis unfolding verify_up_to_revocation [OF assms(1,2)] by simp
qed

theorem recorded_revocation_rejects_the_chain_witness:
  "verifyAuthorityDelegationChain sample_crypto (JArr (map json_of_delegation sample_chain))
     (sample_options\<lparr>resolveRevocation := createAuthorityRevocationResolver sample_crypto in_memory sample_store (Some sample_keys)\<rparr>)
   = result State_invalid [fail_at REVOKED 0 ''delegation is revoked'']"
  by (rule recorded_revocation_rejects_the_chain [OF sample_chain_valid sample_clock _ sample_store_run run_Nil])
    (simp_all add: sample_chain_def sample_store_revoked)

text \<open>C14. A rollback cannot restore authority: with a resolver over a regressed state view, no chain
  verifies, whatever the presented view answers.\<close>

theorem rollback_never_restores_authority:
  assumes "monotonicity (createMonotonicRevocationResolver C m) = Regressed"
  shows "state (verifyAuthorityDelegationChain C (JArr (map json_of_delegation ch))
      (opt\<lparr>resolveRevocation := resolve (createMonotonicRevocationResolver C m)\<rparr>)) \<noteq> State_valid"
proof -
  have "resolve (createMonotonicRevocationResolver C m) d \<noteq> Status_active" for d
    unfolding regressed_resolve [OF assms] by (simp add: resolveUnderRetainedState_def)
  then have "\<not> valid_chain C (opt\<lparr>resolveRevocation := resolve (createMonotonicRevocationResolver C m)\<rparr>) ch"
    by (cases ch) (auto simp: valid_chain_def member_ok_def)
  then show ?thesis unfolding verify_decides by blast
qed

theorem rollback_never_restores_authority_witness:
  "state (verifyAuthorityDelegationChain sample_crypto (JArr (map json_of_delegation sample_chain))
      (sample_options\<lparr>resolveRevocation := resolve (createMonotonicRevocationResolver sample_crypto sample_monotonic)\<rparr>)) \<noteq> State_valid"
  by (rule rollback_never_restores_authority [OF sample_regressed])

text \<open>C15. The composed view of a chain and a pause is valid exactly when the chain meets its
  specification and every cause in evidence against the delegation has been released; a
  pause, lifted or not, never upgrades a chain that is not valid.\<close>

theorem composed_view_valid_iff:
  assumes "check_input inp = Inr ()" and "standing_answers inp" and "isCanonicalTimestamp (now opt)"
  shows "\<exists>chn pause. mapAuthorityValidationToLifecycle b (verifyAuthorityDelegationChain C (JArr (map json_of_delegation ch)) opt) = Inr chn
    \<and> evaluatePauseState C inp = Inr pause
    \<and> (verdict (composeChainAndPause chn pause) = V_valid \<longleftrightarrow>
         valid_chain C opt ch \<and> (\<forall>c \<in> set (evidence_causes C inp). released C inp c))
    \<and> (\<not> valid_chain C opt ch \<longrightarrow> composeChainAndPause chn pause = chn)"
proof -
  let ?r = "verifyAuthorityDelegationChain C (JArr (map json_of_delegation ch)) opt"
  obtain chn where chn: "mapAuthorityValidationToLifecycle b ?r = Inr chn" "verdict chn = V_valid \<longleftrightarrow> state ?r = State_valid"
    using chain_view_valid by blast
  have "state ?r = State_valid \<longleftrightarrow> valid_chain C opt ch" using verify_decides assms(3) by blast
  with chn evaluatePauseState_ok [OF assms(1,2), of C] pause_spec_valid [of C inp] show ?thesis
    by (auto simp: composeChainAndPause_def)
qed

theorem composed_view_valid_iff_witness:
  "\<exists>chn pause. mapAuthorityValidationToLifecycle True (verifyAuthorityDelegationChain sample_crypto (JArr (map json_of_delegation sample_chain)) sample_options) = Inr chn
    \<and> evaluatePauseState sample_crypto sample_pause = Inr pause
    \<and> (verdict (composeChainAndPause chn pause) = V_valid \<longleftrightarrow> (\<forall>c \<in> set (evidence_causes sample_crypto sample_pause). released sample_crypto sample_pause c))"
  using composed_view_valid_iff [OF sample_pause_input sample_pause_answers sample_clock, of True sample_crypto sample_chain] sample_chain_valid
  by auto

end
